(* ===== verification/Prelude.thy ===== *)
theory Prelude
  imports Complex_Main "HOL-Library.Log_Nat" "HOL-Library.Multiset"
begin

text \<open>
  Shared vocabulary: the string operations of the language's standard library on byte
  strings (a \<open>char\<close> is a byte, so a code point beyond ASCII is the bytes of its UTF-8
  encoding), decimal numbers, stable sorting by a comparison, and small lemmas on lists and
  options.  Letter case is modelled for ASCII letters: the Unicode case tables are not
  part of this development, and the other bytes pass through unchanged.
\<close>

type_synonym gostring = string

text \<open>A Go error is the text it prints.\<close>

type_synonym goerror = string

section \<open>Bytes\<close>

definition byte :: "char \<Rightarrow> nat" where "byte c = of_char c"

definition is_digit :: "char \<Rightarrow> bool" where
  "is_digit c \<longleftrightarrow> 48 \<le> byte c \<and> byte c \<le> 57"

definition digit_val :: "char \<Rightarrow> nat" where "digit_val c = byte c - 48"

definition digit_char :: "nat \<Rightarrow> char" where "digit_char n = char_of (48 + n)"

definition lower_char :: "char \<Rightarrow> char" where
  "lower_char c = (if 65 \<le> byte c \<and> byte c \<le> 90 then char_of (byte c + 32) else c)"

definition upper_char :: "char \<Rightarrow> char" where
  "upper_char c = (if 97 \<le> byte c \<and> byte c \<le> 122 then char_of (byte c - 32) else c)"

definition to_lower :: "gostring \<Rightarrow> gostring" where "to_lower = map lower_char"

definition to_upper :: "gostring \<Rightarrow> gostring" where "to_upper = map upper_char"

lemma byte_digit_char: "n < 10 \<Longrightarrow> byte (digit_char n) = 48 + n"
  by (simp add: byte_def digit_char_def)

lemma is_digit_digit_char [simp]: "n < 10 \<Longrightarrow> is_digit (digit_char n)"
  by (simp add: is_digit_def byte_digit_char)

lemma digit_val_digit_char [simp]: "n < 10 \<Longrightarrow> digit_val (digit_char n) = n"
  by (simp add: digit_val_def byte_digit_char)

lemma byte_char_of [simp]: "n < 256 \<Longrightarrow> byte (char_of n) = n"
  by (simp add: byte_def)

lemma byte_less_256: "byte c < 256"
  using nat_of_char_less_256 by (simp add: byte_def)

lemma lower_char_idem [simp]: "lower_char (lower_char c) = lower_char c"
  using byte_less_256 [of c] by (simp add: lower_char_def)

lemma to_lower_idem [simp]: "to_lower (to_lower s) = to_lower s"
  by (simp add: to_lower_def)

section \<open>White space\<close>

text \<open>The UTF-8 encodings of the code points that count as white space.\<close>

definition space_seqs :: "gostring list" where
  "space_seqs = [[CHR 0x20], [CHR 0x09], [CHR 0x0A], [CHR 0x0B], [CHR 0x0C], [CHR 0x0D],
     [CHR 0xC2, CHR 0x85], [CHR 0xC2, CHR 0xA0], [CHR 0xE1, CHR 0x9A, CHR 0x80],
     [CHR 0xE2, CHR 0x80, CHR 0x80], [CHR 0xE2, CHR 0x80, CHR 0x81], [CHR 0xE2, CHR 0x80, CHR 0x82],
     [CHR 0xE2, CHR 0x80, CHR 0x83], [CHR 0xE2, CHR 0x80, CHR 0x84], [CHR 0xE2, CHR 0x80, CHR 0x85],
     [CHR 0xE2, CHR 0x80, CHR 0x86], [CHR 0xE2, CHR 0x80, CHR 0x87], [CHR 0xE2, CHR 0x80, CHR 0x88],
     [CHR 0xE2, CHR 0x80, CHR 0x89], [CHR 0xE2, CHR 0x80, CHR 0x8A], [CHR 0xE2, CHR 0x80, CHR 0xA8],
     [CHR 0xE2, CHR 0x80, CHR 0xA9], [CHR 0xE2, CHR 0x80, CHR 0xAF], [CHR 0xE2, CHR 0x81, CHR 0x9F],
     [CHR 0xE3, CHR 0x80, CHR 0x80]]"

fun has_prefix :: "gostring \<Rightarrow> gostring \<Rightarrow> bool" where
  "has_prefix s [] = True"
| "has_prefix [] (p # ps) = False"
| "has_prefix (c # s) (p # ps) = (c = p \<and> has_prefix s ps)"

text \<open>The length of the first of the sequences that the string starts with, 0 if none.\<close>

fun seq_len :: "gostring list \<Rightarrow> gostring \<Rightarrow> nat" where
  "seq_len [] s = 0"
| "seq_len (q # qs) s = (if has_prefix s q then length q else seq_len qs s)"

function trim_seqs :: "gostring list \<Rightarrow> gostring \<Rightarrow> gostring" where
  "trim_seqs qs s = (if s = [] \<or> seq_len qs s = 0 then s else trim_seqs qs (drop (seq_len qs s) s))"
  by pat_completeness auto
termination
  by (relation "measure (\<lambda>(qs, s). length s)") auto

declare trim_seqs.simps [simp del]

definition trim_left :: "gostring \<Rightarrow> gostring" where
  "trim_left s = trim_seqs space_seqs s"

definition trim_right :: "gostring \<Rightarrow> gostring" where
  "trim_right s = rev (trim_seqs (map rev space_seqs) (rev s))"

definition trim_space :: "gostring \<Rightarrow> gostring" where
  "trim_space s = trim_right (trim_left s)"

lemma trim_seqs_Nil [simp]: "trim_seqs qs [] = []"
  by (simp add: trim_seqs.simps)

lemma trim_space_Nil [simp]: "trim_space [] = []"
  by (simp add: trim_space_def trim_left_def trim_right_def)

lemma trim_seqs_stop: "seq_len qs s = 0 \<Longrightarrow> trim_seqs qs s = s"
  by (subst trim_seqs.simps) simp

lemma seq_len_Cons_first:
  "(\<forall>q \<in> set qs. q \<noteq> [] \<and> hd q \<noteq> c) \<Longrightarrow> seq_len qs (c # s) = 0"
proof (induction qs)
  case (Cons q qs)
  then show ?case by (cases q) auto
qed simp

text \<open>Printable ASCII bytes are never trimmed.\<close>

definition graphic :: "char \<Rightarrow> bool" where
  "graphic c \<longleftrightarrow> 33 \<le> byte c \<and> byte c \<le> 126"

lemma space_seqs_heads: "graphic c \<Longrightarrow> \<forall>q \<in> set space_seqs. q \<noteq> [] \<and> hd q \<noteq> c"
  by (auto simp: space_seqs_def graphic_def byte_def)

lemma space_seqs_lasts: "graphic c \<Longrightarrow> \<forall>q \<in> set (map rev space_seqs). q \<noteq> [] \<and> hd q \<noteq> c"
  by (auto simp: space_seqs_def graphic_def byte_def)

lemma trim_space_graphic:
  assumes "s \<noteq> []" and "graphic (hd s)" and "graphic (last s)"
  shows "trim_space s = s"
proof -
  have l: "trim_left s = s"
    using assms(1,2) unfolding trim_left_def
    by (cases s) (auto intro!: trim_seqs_stop seq_len_Cons_first space_seqs_heads)
  have "rev s = last s # tl (rev s)" using assms(1) by (metis hd_rev list.collapse rev_is_Nil_conv)
  then have "seq_len (map rev space_seqs) (rev s) = 0"
    using seq_len_Cons_first [OF space_seqs_lasts [OF assms(3)]] by metis
  then show ?thesis by (simp add: trim_space_def l trim_right_def trim_seqs_stop)
qed

section \<open>Cutting and joining\<close>

definition trim_prefix :: "gostring \<Rightarrow> gostring \<Rightarrow> gostring" where
  "trim_prefix s p = (if has_prefix s p then drop (length p) s else s)"

definition has_suffix :: "gostring \<Rightarrow> gostring \<Rightarrow> bool" where
  "has_suffix s p = has_prefix (rev s) (rev p)"

text \<open>\<open>strings.Cut\<close>: around the first occurrence of the separator; \<open>None\<close> when there
  is none.\<close>

fun cut :: "gostring \<Rightarrow> gostring \<Rightarrow> (gostring \<times> gostring) option" where
  "cut [] sep = (if sep = [] then Some ([], []) else None)"
| "cut (c # s) sep =
     (if has_prefix (c # s) sep then Some ([], drop (length sep) (c # s))
      else map_option (\<lambda>(a, b). (c # a, b)) (cut s sep))"

text \<open>\<open>strings.Split\<close> by one byte: always at least one part.\<close>

fun split_on :: "char \<Rightarrow> gostring \<Rightarrow> gostring list" where
  "split_on d [] = [[]]"
| "split_on d (c # s) =
     (if c = d then [] # split_on d s
      else (case split_on d s of [] \<Rightarrow> [[c]] | p # ps \<Rightarrow> (c # p) # ps))"

text \<open>\<open>strings.FieldsFunc\<close>: the maximal runs of bytes outside the set, none of them
  empty.\<close>

fun fields_func :: "(char \<Rightarrow> bool) \<Rightarrow> gostring \<Rightarrow> gostring \<Rightarrow> gostring list" where
  "fields_func p acc [] = (if acc = [] then [] else [rev acc])"
| "fields_func p acc (c # s) =
     (if p c then (if acc = [] then [] else [rev acc]) @ fields_func p [] s
      else fields_func p (c # acc) s)"

fun join :: "gostring \<Rightarrow> gostring list \<Rightarrow> gostring" where
  "join sep [] = []"
| "join sep [s] = s"
| "join sep (s # ss) = s @ sep @ join sep ss"

text \<open>\<open>strings.ReplaceAll\<close> with a non-empty old string.\<close>

function replace_all :: "gostring \<Rightarrow> gostring \<Rightarrow> gostring \<Rightarrow> gostring" where
  "replace_all old new [] = []"
| "replace_all old new (c # s) =
     (if old \<noteq> [] \<and> has_prefix (c # s) old
      then new @ replace_all old new (drop (length old) (c # s))
      else c # replace_all old new s)"
  by pat_completeness auto
termination
  by (relation "measure (\<lambda>(old, new, s). length s)") (auto simp: Suc_le_eq)

lemma has_prefix_append [simp]: "has_prefix (p @ s) p"
  by (induction p) simp_all

lemma has_prefix_iff: "has_prefix s p \<longleftrightarrow> (\<exists>t. s = p @ t)"
  by (induction s p rule: has_prefix.induct) auto

lemma split_on_nonempty [simp]: "split_on d s \<noteq> []" "[] \<noteq> split_on d s"
  by (induction s) (auto split: list.splits)

lemma split_on_none: "d \<notin> set s \<Longrightarrow> split_on d s = [s]"
  by (induction s) auto

lemma split_on_append: "d \<notin> set a \<Longrightarrow> split_on d (a @ d # b) = a # split_on d b"
  by (induction a) auto

lemma join_split_on: "join [d] (split_on d s) = s"
proof (induction s)
  case (Cons c s)
  then show ?case
    by (cases "split_on d s"; cases "tl (split_on d s)") auto
qed simp

lemma split_on_parts: "p \<in> set (split_on d s) \<Longrightarrow> d \<notin> set p"
  by (induction s arbitrary: p) (auto split: if_splits list.splits)

lemma split_on_join:
  "ss \<noteq> [] \<Longrightarrow> \<forall>s \<in> set ss. d \<notin> set s \<Longrightarrow> split_on d (join [d] ss) = ss"
proof (induction "[d]" ss rule: join.induct)
  case (3 s s' ss)
  then show ?case using split_on_append [of d s "join [d] (s' # ss)"] by simp
qed (simp_all add: split_on_none)

lemma join_ends:
  "ss \<noteq> [] \<Longrightarrow> \<forall>s \<in> set ss. s \<noteq> [] \<Longrightarrow> join sep ss \<noteq> [] \<and> hd (join sep ss) = hd (hd ss) \<and> last (join sep ss) = last (last ss)"
  by (induction sep ss rule: join.induct) auto

lemma join_chars: "c \<in> set (join sep ss) \<Longrightarrow> c \<in> set sep \<or> (\<exists>s \<in> set ss. c \<in> set s)"
  by (induction sep ss rule: join.induct) auto

lemma cut_Some: "cut s sep = Some (a, b) \<Longrightarrow> s = a @ sep @ b"
  by (induction s sep arbitrary: a b rule: cut.induct)
    (auto simp: has_prefix_iff split: if_splits)

lemma cut_char: "d \<notin> set a \<Longrightarrow> cut (a @ d # b) [d] = Some (a, b)"
  by (induction a) auto

section \<open>Decimal numbers\<close>

fun nat_digits :: "nat \<Rightarrow> gostring" where
  "nat_digits n = (if n < 10 then [digit_char n] else nat_digits (n div 10) @ [digit_char (n mod 10)])"

declare nat_digits.simps [simp del]

text \<open>\<open>strconv.Itoa\<close>.\<close>

definition itoa :: "int \<Rightarrow> gostring" where
  "itoa n = (if n < 0 then CHR ''-'' # nat_digits (nat (- n)) else nat_digits (nat n))"

definition digits_val :: "gostring \<Rightarrow> nat" where
  "digits_val s = foldl (\<lambda>v c. 10 * v + digit_val c) 0 s"

text \<open>\<open>strconv.Atoi\<close> and \<open>ParseInt(s, 10, 64)\<close>: an optional sign and digits, in the
  64-bit range.\<close>

definition atoi :: "gostring \<Rightarrow> int option" where
  "atoi s =
     (let (neg, ds) = (case s of c # r \<Rightarrow>
         if c = CHR ''-'' then (True, r) else if c = CHR ''+'' then (False, r) else (False, s)
       | [] \<Rightarrow> (False, []))
      in if ds = [] \<or> \<not> list_all is_digit ds then None
         else let v = int (digits_val ds); n = (if neg then - v else v)
           in if - (2 ^ 63) \<le> n \<and> n < 2 ^ 63 then Some n else None)"

text \<open>\<open>fmt\<close>'s \<open>%0<w>d\<close>: the sign counts towards the width.\<close>

definition pad_int :: "nat \<Rightarrow> int \<Rightarrow> gostring" where
  "pad_int w n = (let ds = nat_digits (nat \<bar>n\<bar>); w' = (if n < 0 then w - 1 else w)
     in (if n < 0 then ''-'' else []) @ replicate (w' - length ds) (CHR ''0'') @ ds)"

lemma nat_digits_nonempty [simp]: "nat_digits n \<noteq> []"
  by (subst nat_digits.simps) simp

lemma nat_digits_are_digits: "list_all is_digit (nat_digits n)"
proof (induction n rule: nat_digits.induct)
  case (1 n)
  then show ?case by (subst nat_digits.simps) auto
qed

lemma digits_val_append: "digits_val (a @ [c]) = 10 * digits_val a + digit_val c"
  by (simp add: digits_val_def)

lemma digits_val_nat_digits [simp]: "digits_val (nat_digits n) = n"
proof (induction n rule: nat_digits.induct)
  case (1 n)
  show ?case
  proof (cases "n < 10")
    case True
    then show ?thesis by (subst nat_digits.simps) (simp add: digits_val_def)
  next
    case False
    with "1" show ?thesis by (subst nat_digits.simps) (simp add: digits_val_append)
  qed
qed

lemma is_digit_not_sign: "is_digit c \<Longrightarrow> c \<noteq> CHR ''-'' \<and> c \<noteq> CHR ''+''"
  by (auto simp: is_digit_def byte_def)

lemma nat_digits_hd: "nat_digits n = c # r \<Longrightarrow> is_digit c"
  using nat_digits_are_digits [of n] by simp

lemma atoi_itoa:
  assumes "- (2 ^ 63) \<le> n" and "n < 2 ^ 63"
  shows "atoi (itoa n) = Some n"
proof (cases "n < 0")
  case True
  with assms show ?thesis
    by (simp add: itoa_def atoi_def nat_digits_are_digits)
next
  case False
  obtain c r where e: "nat_digits (nat n) = c # r" by (cases "nat_digits (nat n)") auto
  have "list_all is_digit (c # r)" "digits_val (c # r) = nat n"
    unfolding e [symmetric] by (rule nat_digits_are_digits, rule digits_val_nat_digits)
  with False assms is_digit_not_sign [of c] e show ?thesis
    by (simp add: itoa_def atoi_def)
qed

lemma itoa_chars: "c \<in> set (itoa n) \<Longrightarrow> is_digit c \<or> c = CHR ''-''"
  using nat_digits_are_digits by (auto simp: itoa_def list_all_iff split: if_splits)

lemma graphic_digit: "is_digit c \<Longrightarrow> graphic c"
  by (simp add: is_digit_def graphic_def)

lemma digit_char_0: "digit_char 0 = CHR ''0''"
  by code_simp

lemma pad_int_2:
  assumes "0 \<le> n" "n < 100"
  shows "pad_int 2 n = [digit_char (nat n div 10), digit_char (nat n mod 10)]"
proof -
  have d: "nat_digits k = (if k < 10 then [digit_char k] else [digit_char (k div 10), digit_char (k mod 10)])"
    if "k < 100" for k
    using that by (subst nat_digits.simps, subst nat_digits.simps) auto
  have "nat n < 100" using assms by simp
  with assms show ?thesis by (auto simp: pad_int_def Let_def d [of "nat n"] digit_char_0)
qed

text \<open>\<open>%q\<close>: a double-quoted string with the escapes of the language.  Code points beyond
  ASCII are taken as printable.\<close>

definition hex_digit :: "nat \<Rightarrow> char" where
  "hex_digit n = (if n < 10 then char_of (48 + n) else char_of (87 + n))"

definition quote_char :: "char \<Rightarrow> gostring" where
  "quote_char c = (let n = byte c in
     if n = 34 \<or> n = 92 then [CHR 0x5C, c]
     else if n = 7 then [CHR 0x5C, CHR ''a''] else if n = 8 then [CHR 0x5C, CHR ''b'']
     else if n = 12 then [CHR 0x5C, CHR ''f''] else if n = 10 then [CHR 0x5C, CHR ''n'']
     else if n = 13 then [CHR 0x5C, CHR ''r''] else if n = 9 then [CHR 0x5C, CHR ''t'']
     else if n = 11 then [CHR 0x5C, CHR ''v'']
     else if n < 32 \<or> n = 127 then [CHR 0x5C, CHR ''x'', hex_digit (n div 16), hex_digit (n mod 16)]
     else [c])"

definition quote :: "gostring \<Rightarrow> gostring" where
  "quote s = [CHR 0x22] @ concat (map quote_char s) @ [CHR 0x22]"

section \<open>Sorting\<close>

text \<open>Stable insertion sort by a comparison \<open>lt\<close>, the order that
  \<open>sort.SliceStable\<close> gives.  \<open>sort.Slice\<close> is the same wherever no two
  elements tie, and for at most twelve elements.\<close>

fun ins_by :: "('a \<Rightarrow> 'a \<Rightarrow> bool) \<Rightarrow> 'a \<Rightarrow> 'a list \<Rightarrow> 'a list" where
  "ins_by lt x [] = [x]"
| "ins_by lt x (y # ys) = (if lt y x then y # ins_by lt x ys else x # y # ys)"

definition sort_by :: "('a \<Rightarrow> 'a \<Rightarrow> bool) \<Rightarrow> 'a list \<Rightarrow> 'a list" where
  "sort_by lt xs = foldr (ins_by lt) xs []"

lemma mset_ins_by [simp]: "mset (ins_by lt x xs) = add_mset x (mset xs)"
  by (induction xs) simp_all

lemma mset_sort_by [simp]: "mset (sort_by lt xs) = mset xs"
  by (induction xs) (simp_all add: sort_by_def)

lemma set_sort_by [simp]: "set (sort_by lt xs) = set xs"
  by (metis mset_sort_by set_mset_mset)

lemma length_sort_by [simp]: "length (sort_by lt xs) = length xs"
  by (metis mset_sort_by size_mset)

lemma sort_by_Nil [simp]: "sort_by lt [] = []"
  by (simp add: sort_by_def)

definition strict_weak :: "('a \<Rightarrow> 'a \<Rightarrow> bool) \<Rightarrow> bool" where
  "strict_weak lt \<longleftrightarrow> (\<forall>a b. lt a b \<longrightarrow> \<not> lt b a) \<and>
     (\<forall>a b c. \<not> lt b a \<longrightarrow> \<not> lt c b \<longrightarrow> \<not> lt c a)"

lemma strict_weak_asym: "strict_weak lt \<Longrightarrow> lt a b \<Longrightarrow> \<not> lt b a"
  unfolding strict_weak_def by blast

lemma strict_weak_trans: "strict_weak lt \<Longrightarrow> \<not> lt b a \<Longrightarrow> \<not> lt c b \<Longrightarrow> \<not> lt c a"
  unfolding strict_weak_def by blast

lemma strict_weak_key:
  fixes f :: "'a \<Rightarrow> 'b :: linorder"
  shows "strict_weak (\<lambda>a b. f a < f b)"
  by (auto simp: strict_weak_def)

lemma sorted_ins_by:
  assumes sw: "strict_weak lt" and "sorted_wrt (\<lambda>a b. \<not> lt b a) xs"
  shows "sorted_wrt (\<lambda>a b. \<not> lt b a) (ins_by lt x xs)"
  using assms(2)
proof (induction xs)
  case (Cons y ys)
  have set_ins: "set (ins_by lt x zs) = insert x (set zs)" for zs
    by (metis mset_ins_by set_mset_add_mset_insert set_mset_mset)
  show ?case
  proof (cases "lt y x")
    case True
    with Cons show ?thesis using strict_weak_asym [OF sw True] by (auto simp: set_ins)
  next
    case False
    then have "\<not> lt z x" if "z \<in> set ys" for z
      using Cons.prems that strict_weak_trans [OF sw False] by auto
    with False Cons.prems show ?thesis by simp
  qed
qed simp

lemma sorted_sort_by: "strict_weak lt \<Longrightarrow> sorted_wrt (\<lambda>a b. \<not> lt b a) (sort_by lt xs)"
  unfolding sort_by_def by (induction xs) (simp_all add: sorted_ins_by)

lemma sort_by_sorted:
  "strict_weak lt \<Longrightarrow> sorted_wrt (\<lambda>a b. \<not> lt b a) xs \<Longrightarrow> sort_by lt xs = xs"
proof (induction xs)
  case (Cons x xs)
  then have "sort_by lt (x # xs) = ins_by lt x xs" by (simp add: sort_by_def)
  also have "\<dots> = x # xs" using Cons.prems by (cases xs) auto
  finally show ?case .
qed simp

definition string_less :: "gostring \<Rightarrow> gostring \<Rightarrow> bool" where
  "string_less a b \<longleftrightarrow> ord_class.lexordp (map byte a) (map byte b)"

lemma string_less_irrefl [simp]: "\<not> string_less a a"
  by (simp add: string_less_def lexordp_irreflexive')

lemma string_less_linear: "string_less a b \<or> a = b \<or> string_less b a"
proof -
  have "inj byte" by (rule injI) (simp add: byte_def)
  then have "map byte a = map byte b \<longleftrightarrow> a = b" by (simp add: inj_map_eq_map)
  then show ?thesis using lexordp_linear [of "map byte a" "map byte b"] by (auto simp: string_less_def)
qed

lemma string_less_trans: "string_less a b \<Longrightarrow> string_less b c \<Longrightarrow> string_less a c"
  unfolding string_less_def by (rule lexordp_trans)

lemma string_less_asym: "string_less a b \<Longrightarrow> \<not> string_less b a"
  using string_less_trans string_less_irrefl by blast

lemma strict_weak_string_less: "strict_weak string_less"
proof -
  have "\<not> string_less c a" if "\<not> string_less b a" "\<not> string_less c b" for a b c
    using that string_less_linear [of a b] string_less_trans [of c a b] by auto
  then show ?thesis unfolding strict_weak_def using string_less_asym by blast
qed

definition string_le :: "gostring \<Rightarrow> gostring \<Rightarrow> bool" where
  "string_le a b \<longleftrightarrow> \<not> string_less b a"

abbreviation sort_strings :: "gostring list \<Rightarrow> gostring list" where
  "sort_strings \<equiv> sort_by string_less"

section \<open>Division\<close>

lemma div_bounds:
  fixes k :: int
  assumes "0 < k"
  shows "k * (x div k) \<le> x" "x < k * (x div k + 1)"
proof -
  have "k * (x div k) = x - x mod k" by (simp add: minus_mod_eq_mult_div)
  then show "k * (x div k) \<le> x" "x < k * (x div k + 1)"
    using pos_mod_sign [OF assms, of x] pos_mod_bound [OF assms, of x] by (simp_all add: distrib_left)
qed

section \<open>Lists\<close>

text \<open>Grouping by a key in the order the keys first appear, as the sources do with a map
  whose keys they sort or range over.\<close>

fun count_if :: "('a \<Rightarrow> bool) \<Rightarrow> 'a list \<Rightarrow> nat" where
  "count_if p [] = 0"
| "count_if p (x # xs) = (if p x then Suc (count_if p xs) else count_if p xs)"

lemma count_if_filter: "count_if p xs = length (filter p xs)"
  by (induction xs) simp_all

lemma count_if_le: "count_if p xs \<le> length xs"
  by (simp add: count_if_filter)

lemma count_if_compl: "count_if p xs + count_if (\<lambda>x. \<not> p x) xs = length xs"
  by (induction xs) simp_all

end
