(* ===== verification/GoFloat.thy ===== *)
theory GoFloat
  imports Prelude
begin

text \<open>
  The language's \<open>float64\<close>: IEEE-754 binary64 over exact rationals. A finite value carries
  the rational it denotes, every arithmetic operation computes the exact result and rounds
  it once, to the nearest representable value with ties to even, and a result of \<open>2^1024\<close>
  or more overflows to an infinity, as the hardware does. The one identification made is
  that the two zeros are the same value; the sources never divide by a computed zero and
  never read a zero's sign.
\<close>

section \<open>Rounding\<close>

datatype f64 = NaN | PInf | NInf | Fin rat

text \<open>Nearest integer, ties to even.\<close>

definition rhe :: "rat \<Rightarrow> int" where
  "rhe x = (let f = \<lfloor>x\<rfloor>; d = x - of_int f in
     if d < 1 / 2 then f else if 1 / 2 < d then f + 1 else if even f then f else f + 1)"

text \<open>The binary exponent of a positive rational, from the bit lengths of its two parts.\<close>

definition ilog2 :: "rat \<Rightarrow> int" where
  "ilog2 x = (case quotient_of x of (n, d) \<Rightarrow>
     let k = bitlen n - bitlen d in if 2 powi k \<le> x then k else k - 1)"

text \<open>The exponent of the last mantissa bit: 53 significant bits, subnormals from
  \<open>2^-1074\<close>.\<close>

definition quantum :: "rat \<Rightarrow> int" where
  "quantum x = max (ilog2 \<bar>x\<bar> - 52) (- 1074)"

definition rndq :: "rat \<Rightarrow> rat" where
  "rndq x = (if x = 0 then 0 else of_int (rhe (x / 2 powi quantum x)) * 2 powi quantum x)"

definition rnd :: "rat \<Rightarrow> f64" where
  "rnd x = (let y = rndq x in
     if 2 ^ 1024 \<le> y then PInf else if y \<le> - (2 ^ 1024) then NInf else Fin y)"

subsection \<open>Rounding to an integer\<close>

lemma rhe_of_int [simp]: "rhe (of_int n) = n"
  by (simp add: rhe_def)

lemma rhe_0 [simp]: "rhe 0 = 0"
  using rhe_of_int [of 0] by simp

lemma rhe_cases: "rhe x = \<lfloor>x\<rfloor> \<or> rhe x = \<lfloor>x\<rfloor> + 1"
  by (simp add: rhe_def Let_def)

lemma rhe_mono: "x \<le> y \<Longrightarrow> rhe x \<le> rhe y"
proof -
  assume le: "x \<le> y"
  then have f: "\<lfloor>x\<rfloor> \<le> \<lfloor>y\<rfloor>" by (rule floor_mono)
  show ?thesis
  proof (cases "\<lfloor>x\<rfloor> = \<lfloor>y\<rfloor>")
    case True
    with le show ?thesis by (auto simp: rhe_def Let_def)
  next
    case False
    with f have "\<lfloor>x\<rfloor> + 1 \<le> \<lfloor>y\<rfloor>" by simp
    then show ?thesis using rhe_cases [of x] rhe_cases [of y] by linarith
  qed
qed

lemma rhe_le_of_int: "x \<le> of_int n \<Longrightarrow> rhe x \<le> n"
  using rhe_mono [of x "of_int n"] by simp

lemma rhe_ge_of_int: "of_int n \<le> x \<Longrightarrow> n \<le> rhe x"
  using rhe_mono [of "of_int n" x] by simp

lemma rhe_dist: "\<bar>of_int (rhe x) - x\<bar> \<le> 1 / 2"
proof -
  have "of_int \<lfloor>x\<rfloor> \<le> x" "x < of_int \<lfloor>x\<rfloor> + 1" by linarith+
  then show ?thesis by (auto simp: rhe_def Let_def abs_le_iff)
qed

lemma rhe_minus: "rhe (- x) = - rhe x"
proof (cases "x = of_int \<lfloor>x\<rfloor>")
  case True
  then have "rhe x = \<lfloor>x\<rfloor>" using rhe_of_int [of "\<lfloor>x\<rfloor>"] by simp
  moreover have "- x = of_int (- \<lfloor>x\<rfloor>)" using True by simp
  then have "rhe (- x) = - \<lfloor>x\<rfloor>" using rhe_of_int [of "- \<lfloor>x\<rfloor>"] by simp
  ultimately show ?thesis by simp
next
  case False
  let ?f = "\<lfloor>x\<rfloor>"
  have b: "of_int ?f < x" "x < of_int ?f + 1" using False by linarith+
  have fl: "\<lfloor>- x\<rfloor> = - ?f - 1" using b by (intro floor_unique) auto
  show ?thesis
    unfolding rhe_def Let_def fl by auto
qed

section \<open>The exponent\<close>

lemma quotient_of_pos:
  assumes "0 < x" and "quotient_of x = (n, d)"
  shows "0 < n" "0 < d" "x = of_int n / of_int d"
proof -
  show d: "0 < d" using assms(2) by (rule quotient_of_denom_pos)
  show x: "x = of_int n / of_int d" using assms(2) by (rule quotient_of_div)
  with d assms(1) show "0 < n" by (simp add: zero_less_divide_iff)
qed

lemma bitlen_powi:
  assumes "0 < n"
  shows "2 powi (bitlen n - 1) \<le> (of_int n :: rat)" "(of_int n :: rat) < 2 powi bitlen n"
proof -
  have b: "0 < bitlen n" using assms bitlen_eq_zero_iff [of n] bitlen_nonneg [of n] by linarith
  from bitlen_bounds [OF assms] have l: "2 ^ nat (bitlen n - 1) \<le> n" and u: "n < 2 ^ nat (bitlen n)"
    by auto
  have "(2 :: rat) powi (bitlen n - 1) = 2 ^ nat (bitlen n - 1)"
    using b by (simp add: power_int_def)
  also have "\<dots> = of_int (2 ^ nat (bitlen n - 1))" by simp
  also have "\<dots> \<le> of_int n" using l by (simp only: of_int_le_iff)
  finally show "2 powi (bitlen n - 1) \<le> (of_int n :: rat)" .
  have "of_int n < (of_int (2 ^ nat (bitlen n)) :: rat)" using u by (simp only: of_int_less_iff)
  also have "\<dots> = 2 powi bitlen n" using b by (simp add: power_int_def)
  finally show "(of_int n :: rat) < 2 powi bitlen n" .
qed

lemma powi_add2: "(2 :: rat) powi (a + b) = 2 powi a * 2 powi b"
  by (simp add: power_int_add)

lemma powi_pos2 [simp]: "0 < (2 :: rat) powi a"
  by simp

lemma powi2_le: "(2 :: rat) powi a \<le> 2 powi b \<longleftrightarrow> a \<le> b"
proof
  assume "(2 :: rat) powi a \<le> 2 powi b"
  then have "\<not> (2 :: rat) powi b < 2 powi a" by simp
  then have "\<not> b < a" using power_int_strict_increasing [of b a "2 :: rat"] by auto
  then show "a \<le> b" by simp
qed (rule power_int_increasing, simp_all)

lemma powi2_less: "(2 :: rat) powi a < 2 powi b \<longleftrightarrow> a < b"
  using powi2_le [of b a] by linarith

lemma ilog2_bounds:
  assumes "0 < x"
  shows "2 powi ilog2 x \<le> x" "x < 2 powi (ilog2 x + 1)"
proof -
  obtain n d where q: "quotient_of x = (n, d)" by fastforce
  note p = quotient_of_pos [OF assms q]
  let ?k = "bitlen n - bitlen d"
  note bn = bitlen_powi [OF p(1)] and bd = bitlen_powi [OF p(2)]
  have dpos: "0 < (of_int d :: rat)" using p(2) by simp
  have "x * of_int d < 2 powi bitlen n" using bn(2) p(3) dpos by simp
  also have "\<dots> = 2 powi (?k + 1) * 2 powi (bitlen d - 1)"
    by (simp flip: powi_add2)
  also have "\<dots> \<le> 2 powi (?k + 1) * of_int d"
    using bd(1) by (intro mult_left_mono) auto
  finally have up: "x < 2 powi (?k + 1)" using dpos by simp
  have "(2 :: rat) powi (?k - 1) * of_int d \<le> 2 powi (?k - 1) * 2 powi bitlen d"
    using bd(2) by (intro mult_left_mono) auto
  also have "\<dots> = 2 powi (bitlen n - 1)" by (simp flip: powi_add2)
  also have "\<dots> \<le> x * of_int d" using bn(1) p(3) dpos by simp
  finally have low: "2 powi (?k - 1) \<le> x" using dpos by simp
  show "2 powi ilog2 x \<le> x"
    using low by (simp add: ilog2_def q Let_def)
  show "x < 2 powi (ilog2 x + 1)"
    using up by (simp add: ilog2_def q Let_def)
qed

lemma ilog2_unique:
  assumes "2 powi k \<le> x" and "x < 2 powi (k + 1)"
  shows "ilog2 x = k"
proof -
  have x: "0 < x" using assms(1) powi_pos2 [of k] by linarith
  note b = ilog2_bounds [OF x]
  have "(2 :: rat) powi k < 2 powi (ilog2 x + 1)" using assms(1) b(2) by linarith
  moreover have "(2 :: rat) powi ilog2 x < 2 powi (k + 1)" using assms(2) b(1) by linarith
  ultimately show ?thesis unfolding powi2_less by linarith
qed

lemma ilog2_mono: "0 < x \<Longrightarrow> x \<le> y \<Longrightarrow> ilog2 x \<le> ilog2 y"
proof -
  assume a: "0 < x" "x \<le> y"
  have "(2 :: rat) powi ilog2 x < 2 powi (ilog2 y + 1)"
    using ilog2_bounds(1) [of x] ilog2_bounds(2) [of y] a by linarith
  then show ?thesis unfolding powi2_less by linarith
qed

lemma quantum_minus [simp]: "quantum (- x) = quantum x"
  by (simp add: quantum_def)

lemma rndq_0 [simp]: "rndq 0 = 0"
  by (simp add: rndq_def)

lemma rndq_minus: "rndq (- x) = - rndq x"
  by (simp add: rndq_def rhe_minus)

lemma rndq_pos_mono:
  assumes "0 < x" and "x \<le> y"
  shows "rndq x \<le> rndq y"
proof (cases "quantum x = quantum y")
  case True
  have "x / 2 powi quantum y \<le> y / 2 powi quantum y"
    using assms by (intro divide_right_mono) auto
  then have "rhe (x / 2 powi quantum y) \<le> rhe (y / 2 powi quantum y)" by (rule rhe_mono)
  with True assms show ?thesis by (simp add: rndq_def)
next
  case False
  have y: "0 < y" using assms by simp
  have "ilog2 x \<le> ilog2 y" by (rule ilog2_mono [OF assms])
  then have "quantum x < quantum y" using False assms y by (simp add: quantum_def max_def split: if_splits)
  then have qy: "quantum y = ilog2 y - 52" and qx1: "ilog2 x - 52 \<le> quantum x"
    using assms y by (auto simp: quantum_def max_def split: if_splits)
  have "x < 2 powi (ilog2 x + 1)" by (rule ilog2_bounds(2) [OF assms(1)])
  also have "\<dots> \<le> 2 powi (quantum x + 53)" unfolding powi2_le using qx1 by linarith
  also have "\<dots> = 2 ^ 53 * 2 powi quantum x" by (simp add: powi_add2)
  finally have "x / 2 powi quantum x \<le> of_int (2 ^ 53)" by (simp add: divide_le_eq)
  then have "rhe (x / 2 powi quantum x) \<le> 2 ^ 53" by (rule rhe_le_of_int)
  then have "(of_int (rhe (x / 2 powi quantum x)) :: rat) \<le> of_int (2 ^ 53)"
    by (simp only: of_int_le_iff)
  then have "rndq x \<le> 2 ^ 53 * 2 powi quantum x"
    using assms(1) by (auto simp: rndq_def intro!: mult_right_mono)
  also have "\<dots> = 2 powi (quantum x + 53)" by (simp add: powi_add2)
  also have "\<dots> \<le> 2 powi (quantum y + 52)"
    unfolding powi2_le using \<open>quantum x < quantum y\<close> by linarith
  also have "\<dots> = 2 ^ 52 * 2 powi quantum y" by (simp add: powi_add2)
  also have "\<dots> \<le> rndq y"
  proof -
    have "2 powi (quantum y + 52) \<le> y" using ilog2_bounds(1) [OF y] qy by simp
    then have "of_int (2 ^ 52) \<le> y / 2 powi quantum y" by (simp add: le_divide_eq powi_add2)
    then have "2 ^ 52 \<le> rhe (y / 2 powi quantum y)" by (rule rhe_ge_of_int)
    then have "(of_int (2 ^ 52) :: rat) \<le> of_int (rhe (y / 2 powi quantum y))"
      by (simp only: of_int_le_iff)
    then show ?thesis using y by (auto simp: rndq_def intro!: mult_right_mono)
  qed
  finally show ?thesis .
qed

lemma rndq_nonneg: "0 \<le> x \<Longrightarrow> 0 \<le> rndq x"
proof -
  assume "0 \<le> x"
  then have "0 \<le> rhe (x / 2 powi quantum x)" by (intro rhe_ge_of_int) simp
  then show ?thesis by (simp add: rndq_def)
qed

lemma rndq_mono: "x \<le> y \<Longrightarrow> rndq x \<le> rndq y"
proof -
  assume le: "x \<le> y"
  consider "0 < x" | "x \<le> 0" "0 \<le> y" | "y < 0" by linarith
  then show ?thesis
  proof cases
    case 1
    then show ?thesis using le by (rule rndq_pos_mono)
  next
    case 2
    have "rndq x \<le> 0" using rndq_nonneg [of "- x"] 2 by (simp add: rndq_minus)
    with rndq_nonneg [OF 2(2)] show ?thesis by linarith
  next
    case 3
    then have "rndq (- y) \<le> rndq (- x)" using le by (intro rndq_pos_mono) auto
    then show ?thesis by (simp add: rndq_minus)
  qed
qed

section \<open>Representable values\<close>

definition representable :: "rat \<Rightarrow> bool" where
  "representable x \<longleftrightarrow> rnd x = Fin x"

lemma rnd_0 [simp]: "rnd 0 = Fin 0"
  by (simp add: rnd_def)

lemma representable_0 [simp]: "representable 0"
  by (simp add: representable_def)

lemma rndq_exact:
  assumes "\<bar>m\<bar> \<le> 2 ^ 53" and "- 1074 \<le> q"
  shows "rndq (of_int m * 2 powi q) = of_int m * 2 powi q"
proof (cases "m = 0")
  case False
  let ?y = "of_int m * 2 powi q :: rat"
  have ay: "\<bar>?y\<bar> = of_int \<bar>m\<bar> * 2 powi q" by (simp add: abs_mult)
  have pos: "0 < \<bar>?y\<bar>" using False by simp
  have "\<exists>k. ?y = of_int k * 2 powi quantum ?y"
  proof (cases "\<bar>m\<bar> = 2 ^ 53")
    case True
    have "\<bar>?y\<bar> = 2 powi (q + 53)" unfolding ay True by (simp add: powi_add2)
    then have "ilog2 \<bar>?y\<bar> = q + 53" by (intro ilog2_unique) (simp_all add: powi2_less)
    then have q: "quantum ?y = q + 1" using assms(2) by (simp add: quantum_def)
    have "even m" using True by (metis dvd_abs_iff even_power even_numeral zero_less_numeral)
    then obtain k where "m = 2 * k" by (elim evenE)
    then show ?thesis unfolding q by (intro exI [of _ k]) (simp add: powi_add2)
  next
    case False
    with assms(1) have "\<bar>m\<bar> < 2 ^ 53" by simp
    then have "(of_int \<bar>m\<bar> :: rat) < of_int (2 ^ 53)" by (simp only: of_int_less_iff)
    then have "\<bar>?y\<bar> < 2 ^ 53 * 2 powi q" unfolding ay by simp
    also have "\<dots> = 2 powi (q + 53)" by (simp add: powi_add2)
    finally have "(2 :: rat) powi ilog2 \<bar>?y\<bar> < 2 powi (q + 53)"
      using ilog2_bounds(1) [OF pos] by linarith
    then have "quantum ?y \<le> q" using assms(2) unfolding powi2_less by (simp add: quantum_def)
    then have "(2 :: rat) powi q = 2 ^ nat (q - quantum ?y) * 2 powi quantum ?y"
      by (metis (no_types, lifting) add.commute diff_add_cancel diff_ge_0_iff_ge power_int_def
          powi_add2)
    then show ?thesis
      by (intro exI [of _ "m * 2 ^ nat (q - quantum ?y)"]) simp
  qed
  then obtain k where k: "?y = of_int k * 2 powi quantum ?y" by blast
  then have "?y / 2 powi quantum ?y = of_int k" by (metis nonzero_mult_div_cancel_right powi_pos2
        less_irrefl)
  then have "rhe (?y / 2 powi quantum ?y) = k" by simp
  with k False show ?thesis by (simp add: rndq_def)
qed simp

lemma rndq_form: "\<exists>m q. rndq x = of_int m * 2 powi q \<and> \<bar>m\<bar> \<le> 2 ^ 53 \<and> - 1074 \<le> q"
proof (cases "x = 0")
  case False
  let ?q = "quantum x" and ?m = "rhe (x / 2 powi quantum x)"
  have "\<bar>x\<bar> < 2 powi (ilog2 \<bar>x\<bar> + 1)" using False by (intro ilog2_bounds(2)) simp
  also have "\<dots> \<le> 2 powi (?q + 53)" unfolding powi2_le by (simp add: quantum_def)
  also have "\<dots> = 2 ^ 53 * 2 powi ?q" by (simp add: powi_add2)
  finally have "\<bar>x\<bar> / 2 powi ?q \<le> 2 ^ 53" by (simp add: divide_le_eq)
  then have "x / 2 powi ?q \<le> of_int (2 ^ 53)" "of_int (- (2 ^ 53)) \<le> x / 2 powi ?q"
    by (simp_all add: divide_le_eq le_divide_eq)
  then have "?m \<le> 2 ^ 53" "- (2 ^ 53) \<le> ?m" by (blast intro: rhe_le_of_int rhe_ge_of_int)+
  then have "\<bar>?m\<bar> \<le> 2 ^ 53" by linarith
  moreover have "- 1074 \<le> ?q" by (simp add: quantum_def)
  moreover have "rndq x = of_int ?m * 2 powi ?q" using False by (simp add: rndq_def)
  ultimately show ?thesis by blast
qed (intro exI [of _ 0], simp)

lemma rndq_idem [simp]: "rndq (rndq x) = rndq x"
  using rndq_form [of x] rndq_exact by metis

lemma rnd_Fin_representable: "rnd x = Fin y \<Longrightarrow> representable y"
  by (auto simp: representable_def rnd_def Let_def split: if_splits)

lemma representable_rndq: "representable x \<Longrightarrow> rndq x = x"
  by (auto simp: representable_def rnd_def Let_def split: if_splits)

lemma representable_bound: "representable x \<Longrightarrow> \<bar>x\<bar> < 2 ^ 1024"
  by (auto simp: representable_def rnd_def Let_def split: if_splits)

lemma representable_of_int: "\<bar>n\<bar> \<le> 2 ^ 53 \<Longrightarrow> representable (of_int n)"
proof -
  assume n: "\<bar>n\<bar> \<le> 2 ^ 53"
  have e: "rndq (of_int n) = of_int n" using rndq_exact [of n 0] n by simp
  have "\<bar>n\<bar> < 2 ^ 1024" using n power_strict_increasing [of 53 1024 "2 :: int"] by linarith
  then have "n < 2 ^ 1024" "- (2 ^ 1024) < n" by linarith+
  then have "(of_int n :: rat) < of_int (2 ^ 1024)" "(of_int (- (2 ^ 1024)) :: rat) < of_int n"
    by (simp_all only: of_int_less_iff)
  then have "(of_int n :: rat) < 2 ^ 1024" "- (2 ^ 1024) < (of_int n :: rat)" by simp_all
  then show ?thesis by (simp add: representable_def rnd_def e Let_def not_le)
qed


lemma representable_dyadic:
  assumes "\<bar>m\<bar> \<le> 2 ^ 53" and "k \<le> 1074"
  shows "representable (of_int m / 2 ^ k)"
proof -
  have f: "of_int m / 2 ^ k = (of_int m * 2 powi (- int k) :: rat)"
    by (simp add: power_int_minus divide_inverse)
  have e: "rndq (of_int m / 2 ^ k) = of_int m / 2 ^ k"
    unfolding f using assms by (intro rndq_exact) auto
  have "\<bar>of_int m / 2 ^ k :: rat\<bar> \<le> \<bar>of_int m\<bar>"
    by (simp add: divide_le_eq mult_le_cancel_left1)
  also have "\<dots> < 2 ^ 1024"
    using representable_bound [OF representable_of_int [OF assms(1)]] .
  finally have "of_int m / 2 ^ k < (2 ^ 1024 :: rat)" "- (2 ^ 1024 :: rat) < of_int m / 2 ^ k"
    by (simp_all only: abs_less_iff) linarith
  then show ?thesis by (simp add: representable_def rnd_def e Let_def not_le)
qed

text \<open>Evaluation on the numerals of concrete inputs.\<close>

lemma rnd_numeral [simp]:
  "(numeral n :: int) \<le> 2 ^ 53 \<Longrightarrow> rnd (numeral n) = Fin (numeral n)"
  "(numeral n :: int) \<le> 2 ^ 53 \<Longrightarrow> rnd (- numeral n) = Fin (- numeral n)"
  using representable_of_int [of "numeral n"] representable_of_int [of "- numeral n"]
  by (simp_all add: representable_def)

lemma rnd_1 [simp]: "rnd 1 = Fin 1" "rnd (- 1) = Fin (- 1)"
  using representable_of_int [of 1] representable_of_int [of "- 1"] by (simp_all add: representable_def)

lemma rnd_half [simp]:
  "(numeral n :: int) \<le> 2 ^ 53 \<Longrightarrow> rnd (numeral n / 2) = Fin (numeral n / 2)"
  "rnd (1 / 2) = Fin (1 / 2)"
  using representable_dyadic [of "numeral n" 1] representable_dyadic [of 1 1]
  by (simp_all add: representable_def)

section \<open>Arithmetic\<close>

text \<open>A value the hardware can hold.\<close>

definition wf64 :: "f64 \<Rightarrow> bool" where
  "wf64 v = (case v of Fin x \<Rightarrow> representable x | _ \<Rightarrow> True)"

definition is_finite :: "f64 \<Rightarrow> bool" where
  "is_finite v = (case v of Fin _ \<Rightarrow> True | _ \<Rightarrow> False)"

definition fneg :: "f64 \<Rightarrow> f64" where
  "fneg a = (case a of NaN \<Rightarrow> NaN | PInf \<Rightarrow> NInf | NInf \<Rightarrow> PInf | Fin x \<Rightarrow> Fin (- x))"

definition fadd :: "f64 \<Rightarrow> f64 \<Rightarrow> f64" where
  "fadd a b = (case a of
      NaN \<Rightarrow> NaN
    | PInf \<Rightarrow> (case b of NaN \<Rightarrow> NaN | NInf \<Rightarrow> NaN | _ \<Rightarrow> PInf)
    | NInf \<Rightarrow> (case b of NaN \<Rightarrow> NaN | PInf \<Rightarrow> NaN | _ \<Rightarrow> NInf)
    | Fin x \<Rightarrow> (case b of Fin y \<Rightarrow> rnd (x + y) | _ \<Rightarrow> b))"

definition fsub :: "f64 \<Rightarrow> f64 \<Rightarrow> f64" where
  "fsub a b = fadd a (fneg b)"

definition inf_of_sign :: "rat \<Rightarrow> f64" where
  "inf_of_sign s = (if s = 0 then NaN else if 0 < s then PInf else NInf)"

definition sign_of :: "f64 \<Rightarrow> rat" where
  "sign_of a = (case a of NaN \<Rightarrow> 0 | PInf \<Rightarrow> 1 | NInf \<Rightarrow> - 1 | Fin x \<Rightarrow> sgn x)"

definition fmul :: "f64 \<Rightarrow> f64 \<Rightarrow> f64" where
  "fmul a b = (case (a, b) of
      (NaN, _) \<Rightarrow> NaN
    | (_, NaN) \<Rightarrow> NaN
    | (Fin x, Fin y) \<Rightarrow> rnd (x * y)
    | _ \<Rightarrow> inf_of_sign (sign_of a * sign_of b))"

text \<open>Division by (positive) zero gives an infinity, and zero by zero is not a number.\<close>

definition fdiv :: "f64 \<Rightarrow> f64 \<Rightarrow> f64" where
  "fdiv a b = (case (a, b) of
      (NaN, _) \<Rightarrow> NaN
    | (_, NaN) \<Rightarrow> NaN
    | (Fin x, Fin y) \<Rightarrow> (if y = 0 then inf_of_sign (sgn x) else rnd (x / y))
    | (Fin x, _) \<Rightarrow> Fin 0
    | (_, Fin y) \<Rightarrow> (if y < 0 then inf_of_sign (- sign_of a) else a)
    | _ \<Rightarrow> NaN)"

text \<open>Comparisons: every one with NaN is false, so \<open>fge\<close> is not the negation of
  \<open>flt\<close>.\<close>

definition fle :: "f64 \<Rightarrow> f64 \<Rightarrow> bool" where
  "fle a b = (case a of
      NaN \<Rightarrow> False
    | NInf \<Rightarrow> b \<noteq> NaN
    | PInf \<Rightarrow> b = PInf
    | Fin x \<Rightarrow> (case b of Fin y \<Rightarrow> x \<le> y | PInf \<Rightarrow> True | _ \<Rightarrow> False))"

definition feq :: "f64 \<Rightarrow> f64 \<Rightarrow> bool" where
  "feq a b \<longleftrightarrow> a \<noteq> NaN \<and> a = b"

definition flt :: "f64 \<Rightarrow> f64 \<Rightarrow> bool" where
  "flt a b \<longleftrightarrow> fle a b \<and> a \<noteq> b"

abbreviation fge :: "f64 \<Rightarrow> f64 \<Rightarrow> bool" where "fge a b \<equiv> fle b a"
abbreviation fgt :: "f64 \<Rightarrow> f64 \<Rightarrow> bool" where "fgt a b \<equiv> flt b a"

text \<open>\<open>math.Max\<close> and \<open>math.Min\<close> let the infinity win over NaN; the built-in
  \<open>max\<close> and \<open>min\<close> do not.\<close>

definition math_max :: "f64 \<Rightarrow> f64 \<Rightarrow> f64" where
  "math_max a b = (if a = PInf \<or> b = PInf then PInf else if a = NaN \<or> b = NaN then NaN
     else if flt b a then a else b)"

definition math_min :: "f64 \<Rightarrow> f64 \<Rightarrow> f64" where
  "math_min a b = (if a = NInf \<or> b = NInf then NInf else if a = NaN \<or> b = NaN then NaN
     else if flt a b then a else b)"

definition builtin_max :: "f64 \<Rightarrow> f64 \<Rightarrow> f64" where
  "builtin_max a b = (if a = NaN \<or> b = NaN then NaN else if flt a b then b else a)"

definition builtin_min :: "f64 \<Rightarrow> f64 \<Rightarrow> f64" where
  "builtin_min a b = (if a = NaN \<or> b = NaN then NaN else if flt b a then b else a)"

definition f64_of_int :: "int \<Rightarrow> f64" where
  "f64_of_int n = rnd (of_int n)"

text \<open>\<open>math.RoundToEven\<close>, \<open>math.Round\<close> (halves away from zero) and \<open>math.Ceil\<close>.
  The integers they give are exact.\<close>

definition round_to_even :: "f64 \<Rightarrow> f64" where
  "round_to_even a = (case a of Fin x \<Rightarrow> Fin (of_int (rhe x)) | _ \<Rightarrow> a)"

definition round_away :: "rat \<Rightarrow> int" where
  "round_away x = (if 0 \<le> x then \<lfloor>x + 1 / 2\<rfloor> else - \<lfloor>1 / 2 - x\<rfloor>)"

definition math_round :: "f64 \<Rightarrow> f64" where
  "math_round a = (case a of Fin x \<Rightarrow> Fin (of_int (round_away x)) | _ \<Rightarrow> a)"

definition math_ceil :: "f64 \<Rightarrow> f64" where
  "math_ceil a = (case a of Fin x \<Rightarrow> Fin (of_int \<lceil>x\<rceil>) | _ \<Rightarrow> a)"

text \<open>Conversion to a 64-bit integer truncates towards zero. Outside the range the language
  leaves the result to the implementation; this is the amd64 one.\<close>

definition trunc_rat :: "rat \<Rightarrow> int" where
  "trunc_rat x = (if 0 \<le> x then \<lfloor>x\<rfloor> else \<lceil>x\<rceil>)"

definition f64_to_int64 :: "f64 \<Rightarrow> int" where
  "f64_to_int64 a = (case a of
      Fin x \<Rightarrow> (let n = trunc_rat x in if - (2 ^ 63) \<le> n \<and> n < 2 ^ 63 then n else - (2 ^ 63))
    | _ \<Rightarrow> - (2 ^ 63))"

section \<open>Laws\<close>

lemma wf64_simps [simp]: "wf64 NaN" "wf64 PInf" "wf64 NInf" "wf64 (Fin x) \<longleftrightarrow> representable x"
  by (simp_all add: wf64_def)

lemma is_finite_simps [simp]:
  "\<not> is_finite NaN" "\<not> is_finite PInf" "\<not> is_finite NInf" "is_finite (Fin x)"
  by (simp_all add: is_finite_def)

lemma wf64_rnd [simp]: "wf64 (rnd x)"
  by (cases "rnd x") (auto dest: rnd_Fin_representable)

lemma rnd_not_NaN [simp]: "rnd x \<noteq> NaN" "NaN \<noteq> rnd x"
  by (simp_all add: rnd_def Let_def)

lemma fle_simps [simp]:
  "fle (Fin x) (Fin y) \<longleftrightarrow> x \<le> y"
  "\<not> fle NaN b" "\<not> fle a NaN"
  "fle NInf (Fin y)" "fle NInf PInf" "fle NInf NInf" "fle (Fin x) PInf" "fle PInf PInf"
  "\<not> fle PInf (Fin y)" "\<not> fle PInf NInf" "\<not> fle (Fin x) NInf"
  by (auto simp: fle_def split: f64.splits)

lemma flt_simps [simp]:
  "flt (Fin x) (Fin y) \<longleftrightarrow> x < y"
  "\<not> flt NaN b" "\<not> flt a NaN"
  "flt NInf (Fin y)" "flt NInf PInf" "\<not> flt NInf NInf" "flt (Fin x) PInf" "\<not> flt PInf PInf"
  "\<not> flt PInf (Fin y)" "\<not> flt PInf NInf" "\<not> flt (Fin x) NInf"
  by (auto simp: flt_def)

lemma fle_trans: "fle a b \<Longrightarrow> fle b c \<Longrightarrow> fle a c"
  by (auto simp: fle_def split: f64.splits)

lemma fle_refl: "a \<noteq> NaN \<Longrightarrow> fle a a"
  by (cases a) auto

lemma fle_antisym: "fle a b \<Longrightarrow> fle b a \<Longrightarrow> a = b"
  by (auto simp: fle_def split: f64.splits)

lemma flt_le: "flt a b \<Longrightarrow> fle a b"
  by (simp add: flt_def)

lemma not_flt: "a \<noteq> NaN \<Longrightarrow> b \<noteq> NaN \<Longrightarrow> \<not> flt a b \<longleftrightarrow> fle b a"
  by (cases a; cases b) auto

lemma rnd_mono: "x \<le> y \<Longrightarrow> fle (rnd x) (rnd y)"
proof -
  assume "x \<le> y"
  then have "rndq x \<le> rndq y" by (rule rndq_mono)
  moreover have "- (2 ^ 1024) < (2 ^ 1024 :: rat)" by simp
  ultimately show ?thesis unfolding rnd_def Let_def by auto
qed

lemma rnd_nonneg: "0 \<le> x \<Longrightarrow> fle (Fin 0) (rnd x)"
  using rnd_mono [of 0 x] by simp

lemma rnd_representable: "representable x \<Longrightarrow> rnd x = Fin x"
  by (simp add: representable_def)

lemma rnd_minus: "rnd (- x) = fneg (rnd x)"
  using zero_less_power [of "2 :: rat" 1024]
  by (auto simp: rnd_def Let_def rndq_minus fneg_def)

lemma fadd_Fin [simp]: "fadd (Fin x) (Fin y) = rnd (x + y)"
  by (simp add: fadd_def)

lemma fsub_Fin [simp]: "fsub (Fin x) (Fin y) = rnd (x - y)"
  by (simp add: fsub_def fneg_def)

lemma fmul_Fin [simp]: "fmul (Fin x) (Fin y) = rnd (x * y)"
  by (simp add: fmul_def)

lemma fdiv_Fin [simp]: "y \<noteq> 0 \<Longrightarrow> fdiv (Fin x) (Fin y) = rnd (x / y)"
  by (simp add: fdiv_def)

lemma wf64_fneg [simp]: "wf64 (fneg a) = wf64 a"
proof (cases a)
  case (Fin x)
  have "representable (- y) = representable y" for y
    unfolding representable_def rnd_minus by (auto simp: fneg_def split: f64.splits)
  then show ?thesis by (simp add: Fin fneg_def)
qed (simp_all add: fneg_def)

lemma wf64_fadd [simp]: "wf64 a \<Longrightarrow> wf64 b \<Longrightarrow> wf64 (fadd a b)"
  by (cases a; cases b) (simp_all add: fadd_def)

lemma wf64_fsub [simp]: "wf64 a \<Longrightarrow> wf64 b \<Longrightarrow> wf64 (fsub a b)"
  by (simp add: fsub_def)

text \<open>Adding a non-negative amount never makes a total smaller, rounding included.\<close>

lemma fadd_ge_left:
  assumes "wf64 a" and "a \<noteq> NaN" and "fle (Fin 0) b"
  shows "a = NInf \<or> fle a (fadd a b)"
proof (cases a)
  case (Fin x)
  show ?thesis
  proof (cases b)
    case (Fin y)
    with assms \<open>a = Fin x\<close> have "rnd x = Fin x" "x \<le> x + y"
      by (simp_all add: rnd_representable)
    with rnd_mono [of x "x + y"] show ?thesis by (simp add: \<open>a = Fin x\<close> Fin)
  qed (use assms \<open>a = Fin x\<close> in \<open>auto simp: fadd_def\<close>)
next
  case PInf
  then show ?thesis using assms(3) by (cases b) (auto simp: fadd_def)
qed (use assms in auto)

lemma fadd_nonneg: "fle (Fin 0) a \<Longrightarrow> fle (Fin 0) b \<Longrightarrow> fle (Fin 0) (fadd a b)"
  by (cases a; cases b) (auto simp: fadd_def intro: rnd_nonneg)

lemma fmul_nonneg:
  "fle (Fin 0) (Fin x) \<Longrightarrow> fle (Fin 0) (Fin y) \<Longrightarrow> fle (Fin 0) (fmul (Fin x) (Fin y))"
  by (auto intro: rnd_nonneg)

lemma fsub_pos_iff:
  "flt (Fin 0) (fsub (Fin x) (Fin y)) \<Longrightarrow> y < x"
proof (rule ccontr)
  assume a: "flt (Fin 0) (fsub (Fin x) (Fin y))" and "\<not> y < x"
  then have "fle (rnd (x - y)) (rnd 0)" by (intro rnd_mono) simp
  with a show False by (cases "rnd (x - y)") auto
qed

lemma f64_of_int_small: "\<bar>n\<bar> \<le> 2 ^ 53 \<Longrightarrow> f64_of_int n = Fin (of_int n)"
  by (simp add: f64_of_int_def rnd_representable representable_of_int)

lemma f64_to_int64_range: "- (2 ^ 63) \<le> f64_to_int64 a" "f64_to_int64 a < 2 ^ 63"
  by (auto simp: f64_to_int64_def Let_def split: f64.splits)

end
