(* ===== verification/GoFmt.thy ===== *)
theory GoFmt
  imports GoFloat
begin

text \<open>
  Printing floating-point numbers (\<open>strconv.FormatFloat\<close>, \<open>fmt\<close>'s \<open>%f\<close> verbs): a
  fixed number of decimals, rounded half to even on the exact value, and the shortest decimal
  that reads back as the same number.  The minus sign of a negative zero is not modelled, as
  the two zeros are one value here.
\<close>

section \<open>A fixed number of decimals\<close>

text \<open>The digits of a natural number, at least \<open>w\<close> of them.\<close>

definition pad_digits :: "nat \<Rightarrow> nat \<Rightarrow> gostring" where
  "pad_digits w n = replicate (w - length (nat_digits n)) (CHR ''0'') @ nat_digits n"

definition non_finite :: "f64 \<Rightarrow> gostring" where
  "non_finite v = (case v of NaN \<Rightarrow> ''NaN'' | PInf \<Rightarrow> ''+Inf'' | NInf \<Rightarrow> ''-Inf'' | Fin _ \<Rightarrow> [])"

text \<open>\<open>FormatFloat(v, 'f', p, 64)\<close>.\<close>

definition fixed_digits :: "nat \<Rightarrow> rat \<Rightarrow> gostring \<times> gostring" where
  "fixed_digits p x = (let ds = pad_digits (p + 1) (nat (rhe (\<bar>x\<bar> * 10 ^ p)))
     in (take (length ds - p) ds, drop (length ds - p) ds))"

definition format_fixed :: "nat \<Rightarrow> f64 \<Rightarrow> gostring" where
  "format_fixed p v = (case v of
       Fin x \<Rightarrow> (case fixed_digits p x of (whole, fr) \<Rightarrow>
         (if x < 0 then ''-'' else []) @ whole @ (if p = 0 then [] else ''.'' @ fr))
     | _ \<Rightarrow> non_finite v)"

section \<open>The shortest decimal\<close>

definition pow10 :: "int \<Rightarrow> rat" where
  "pow10 k = (if 0 \<le> k then 10 ^ nat k else 1 / 10 ^ nat (- k))"

text \<open>The decimal exponent of a positive number.\<close>

fun neg_exp10 :: "nat \<Rightarrow> int \<Rightarrow> rat \<Rightarrow> int" where
  "neg_exp10 0 k x = - k"
| "neg_exp10 (Suc fuel) k x = (if 1 \<le> x * pow10 k then - k else neg_exp10 fuel (k + 1) x)"

definition exp10 :: "rat \<Rightarrow> int" where
  "exp10 x = (if 1 \<le> x then int (length (nat_digits (nat \<lfloor>x\<rfloor>))) - 1 else neg_exp10 330 1 x)"

text \<open>Among the decimals of \<open>n\<close> significant digits around \<open>x\<close>, the closest one that reads
  back as \<open>x\<close>: its digits and its exponent.\<close>

definition shortest_at :: "rat \<Rightarrow> nat \<Rightarrow> (nat \<times> int) option" where
  "shortest_at x n =
     (let scale = pow10 (int n - 1 - exp10 x); y = x * scale; lo = \<lfloor>y\<rfloor>; hi = lo + 1;
          ok_lo = (rnd (of_int lo / scale) = Fin x); ok_hi = (rnd (of_int hi / scale) = Fin x);
          c = (if ok_lo \<and> (\<not> ok_hi \<or> y - of_int lo \<le> 1 / 2) then Some lo
               else if ok_hi then Some hi else None)
      in map_option (\<lambda>c. (nat c, exp10 x + (if c = 10 ^ n then 1 else 0))) c)"

text \<open>Seventeen digits always suffice; the last fall-back is never reached.\<close>

fun shortest_from :: "rat \<Rightarrow> nat \<Rightarrow> nat \<Rightarrow> nat \<times> int" where
  "shortest_from x n 0 = (nat \<lfloor>x\<rfloor>, exp10 x)"
| "shortest_from x n (Suc fuel) = (case shortest_at x n of Some r \<Rightarrow> r | None \<Rightarrow> shortest_from x (n + 1) fuel)"

text \<open>Digits without trailing zeros (at least one) and exponent; zero is the digit 0 with
  exponent 0.\<close>

definition shortest :: "rat \<Rightarrow> gostring \<times> int" where
  "shortest x = (if x = 0 then ([CHR ''0''], 0) else
     (case shortest_from \<bar>x\<bar> 1 17 of (m, e) \<Rightarrow>
        (let ds = rev (dropWhile (\<lambda>c. c = CHR ''0'') (rev (nat_digits m))) in (if ds = [] then ''0'' else ds, e))))"

definition fmt_e :: "rat \<Rightarrow> gostring" where
  "fmt_e x = (case shortest x of (ds, e) \<Rightarrow>
     (if x < 0 then ''-'' else []) @ take 1 ds @ (if length ds \<le> 1 then [] else ''.'' @ drop 1 ds)
       @ ''e'' @ (if e < 0 then ''-'' else ''+'') @ pad_int 2 \<bar>e\<bar>)"

definition fmt_f :: "rat \<Rightarrow> gostring" where
  "fmt_f x = (case shortest x of (ds, e) \<Rightarrow>
     (if x < 0 then ''-'' else []) @
     (if e < 0 then ''0.'' @ replicate (nat (- e - 1)) (CHR ''0'') @ ds
      else let k = nat e + 1 in
        take k ds @ replicate (k - length ds) (CHR ''0'') @ (if length ds \<le> k then [] else ''.'' @ drop k ds)))"

definition format_e :: "f64 \<Rightarrow> gostring" where
  "format_e v = (case v of Fin x \<Rightarrow> fmt_e x | _ \<Rightarrow> non_finite v)"

definition format_f :: "f64 \<Rightarrow> gostring" where
  "format_f v = (case v of Fin x \<Rightarrow> fmt_f x | _ \<Rightarrow> non_finite v)"

text \<open>\<open>FormatFloat(v, 'g', -1, 64)\<close> switches to exponents from \<open>1e+06\<close> on.\<close>

definition format_g :: "f64 \<Rightarrow> gostring" where
  "format_g v = (case v of
       Fin x \<Rightarrow> (if snd (shortest x) < - 4 \<or> 6 \<le> snd (shortest x) then fmt_e x else fmt_f x)
     | _ \<Rightarrow> non_finite v)"

section \<open>Lemmas\<close>

lemma length_pad_digits: "w \<le> length (pad_digits w n)"
  by (simp add: pad_digits_def)

lemma pad_digits_digits: "list_all is_digit (pad_digits w n)"
proof -
  have "is_digit (CHR ''0'')" by (simp add: is_digit_def byte_def)
  then show ?thesis using nat_digits_are_digits [of n] by (auto simp: pad_digits_def list_all_iff)
qed

lemma fixed_digits_parts:
  assumes "fixed_digits p x = (whole, fr)"
  shows "whole \<noteq> []" "list_all is_digit whole" "list_all is_digit fr" "length fr = p"
proof -
  let ?ds = "pad_digits (p + 1) (nat (rhe (\<bar>x\<bar> * 10 ^ p)))"
  have l: "p + 1 \<le> length ?ds" by (rule length_pad_digits)
  have e: "whole = take (length ?ds - p) ?ds" "fr = drop (length ?ds - p) ?ds"
    using assms by (simp_all add: fixed_digits_def Let_def)
  then show "whole \<noteq> []" "length fr = p" using l by auto
  show "list_all is_digit whole" "list_all is_digit fr"
    using pad_digits_digits [of "p + 1"] unfolding e list_all_iff by (auto dest: in_set_takeD in_set_dropD)
qed

end
