(* ===== verification/GoTime.thy ===== *)
theory GoTime
  imports Prelude
begin

text \<open>
  The language's \<open>time\<close> package as far as the sources use it: the proleptic Gregorian
  calendar over day numbers (day 0 is 1970-01-01), instants in nanoseconds since the Unix
  epoch, and time zones.  The zone database is data of the system, so a zone is a function
  from an instant (in seconds) to its offset east of UTC; \<open>date_time\<close> resolves a
  wall-clock reading with the same two lookups as the library.  Years are unbounded here.
\<close>

section \<open>The calendar\<close>

definition is_leap :: "int \<Rightarrow> bool" where
  "is_leap y \<longleftrightarrow> y mod 4 = 0 \<and> (y mod 100 \<noteq> 0 \<or> y mod 400 = 0)"

definition leaps :: "int \<Rightarrow> int" where
  "leaps y = y div 4 - y div 100 + y div 400"

definition year_start :: "int \<Rightarrow> int" where
  "year_start y = 365 * (y - 1970) + leaps (y - 1) - leaps 1969"

definition month_lengths :: "int \<Rightarrow> int list" where
  "month_lengths y = [31, if is_leap y then 29 else 28, 31, 30, 31, 30, 31, 31, 30, 31, 30, 31]"

definition days_in :: "int \<Rightarrow> int \<Rightarrow> int" where
  "days_in y m = month_lengths y ! nat (m - 1)"

definition month_offset :: "int \<Rightarrow> int \<Rightarrow> int" where
  "month_offset y m = sum_list (take (nat (m - 1)) (month_lengths y))"

text \<open>The day number of a date whose month may lie outside 1 to 12 and whose day may be any
  integer, as \<open>time.Date\<close> normalises them.\<close>

definition day_number :: "int \<Rightarrow> int \<Rightarrow> int \<Rightarrow> int" where
  "day_number y m d =
     (let y' = y + (m - 1) div 12; m' = (m - 1) mod 12 + 1
      in year_start y' + month_offset y' m' + (d - 1))"

definition year_of :: "int \<Rightarrow> int" where
  "year_of n = (let y = 1970 + (400 * n) div 146097
     in if n < year_start y then y - 1 else if year_start (y + 1) \<le> n then y + 1 else y)"

fun month_split :: "int list \<Rightarrow> int \<Rightarrow> int \<Rightarrow> int \<times> int" where
  "month_split [] m k = (m, k + 1)"
| "month_split (l # ls) m k = (if k < l then (m, k + 1) else month_split ls (m + 1) (k - l))"

definition civil :: "int \<Rightarrow> int \<times> int \<times> int" where
  "civil n = (let y = year_of n in (y, month_split (month_lengths y) 1 (n - year_start y)))"

definition valid_date :: "int \<Rightarrow> int \<Rightarrow> int \<Rightarrow> bool" where
  "valid_date y m d \<longleftrightarrow> 1 \<le> m \<and> m \<le> 12 \<and> 1 \<le> d \<and> d \<le> days_in y m"

subsection \<open>Years\<close>

lemma leaps_step: "leaps y - leaps (y - 1) = (if is_leap y then 1 else 0)"
proof -
  have a: "x div k - (x - 1) div k = (if x mod k = 0 then 1 else 0)" if "0 < k" for x k :: int
  proof -
    have "(x - 1) div k = (if x mod k = 0 then x div k - 1 else x div k)"
    proof (cases "x mod k = 0")
      case True
      have "x - 1 = k * (x div k - 1) + (k - 1)"
        using mult_div_mod_eq [of k x] True by (simp add: algebra_simps)
      then have "(x - 1) div k = x div k - 1" using that by (intro int_div_pos_eq [where r = "k - 1"]) auto
      with True show ?thesis by simp
    next
      case False
      then have r: "0 < x mod k" "x mod k < k"
        using that pos_mod_sign [OF that, of x] pos_mod_bound [OF that, of x] by simp_all
      have "x - 1 = k * (x div k) + (x mod k - 1)" using mult_div_mod_eq [of k x] by linarith
      then have "(x - 1) div k = x div k" using r by (intro int_div_pos_eq [where r = "x mod k - 1"]) auto
      with False show ?thesis by simp
    qed
    then show ?thesis by simp
  qed
  have m: "y mod 400 = 0 \<Longrightarrow> y mod 100 = 0" "y mod 100 = 0 \<Longrightarrow> y mod 4 = 0"
    using mod_mod_cancel [of 100 400 y] mod_mod_cancel [of 4 100 y] by simp_all
  have "leaps y - leaps (y - 1) =
      (y div 4 - (y - 1) div 4) - (y div 100 - (y - 1) div 100) + (y div 400 - (y - 1) div 400)"
    unfolding leaps_def by linarith
  also have "\<dots> = (if y mod 4 = 0 then 1 else 0) - (if y mod 100 = 0 then 1 else 0)
      + (if y mod 400 = 0 then 1 else 0)"
    by (simp only: a zero_less_numeral)
  also have "\<dots> = (if is_leap y then 1 else 0)"
    using m unfolding is_leap_def by (cases "y mod 400 = 0"; cases "y mod 100 = 0"; cases "y mod 4 = 0") simp_all
  finally show ?thesis .
qed

lemma year_start_Suc: "year_start (y + 1) = year_start y + (if is_leap y then 366 else 365)"
  using leaps_step [of y] by (cases "is_leap y") (simp_all add: year_start_def)

lemma sum_month_lengths: "sum_list (month_lengths y) = (if is_leap y then 366 else 365)"
  by (simp add: month_lengths_def)

lemma year_start_Suc': "year_start (y + 1) = year_start y + sum_list (month_lengths y)"
  by (simp add: year_start_Suc sum_month_lengths)

lemma leaps_bounds: "97 * y - 800 < 400 * leaps y" "400 * leaps y < 97 * y + 400"
proof -
  have d: "k * (y div k) \<le> y" "y < k * (y div k) + k" if "0 < k" for k :: int
    using that pos_mod_sign [OF that, of y] pos_mod_bound [OF that, of y] mult_div_mod_eq [of k y]
    by linarith+
  show "97 * y - 800 < 400 * leaps y" "400 * leaps y < 97 * y + 400"
    using d [of 4] d [of 100] d [of 400] by (simp_all add: leaps_def)
qed

lemma leaps_1969: "leaps 1969 = 477"
  by (simp add: leaps_def)

lemma year_start_bounds:
  "146097 * (y - 1970) - 897 < 400 * year_start y"
  "400 * year_start y < 146097 * (y - 1970) + 700"
  using leaps_bounds [of "y - 1"] by (simp_all add: year_start_def leaps_1969)

lemma year_start_less_Suc: "year_start y < year_start (y + 1)"
  by (simp add: year_start_Suc)

lemma year_start_mono_nat: "year_start y \<le> year_start (y + int k)"
proof (induction k)
  case (Suc k)
  then show ?case using year_start_less_Suc [of "y + int k"] by (simp add: ac_simps)
qed simp

lemma year_start_mono: "y \<le> y' \<Longrightarrow> year_start y \<le> year_start y'"
  using year_start_mono_nat [of y "nat (y' - y)"] by simp

lemma year_of_bounds: "year_start (year_of n) \<le> n" "n < year_start (year_of n + 1)"
proof -
  define q where "q = (400 * n) div 146097"
  define r where "r = (400 * n) mod 146097"
  have q: "146097 * q + r = 400 * n" "0 \<le> r" "r < 146097"
    unfolding q_def r_def by (simp_all only: mult_div_mod_eq pos_mod_sign pos_mod_bound)
  define y where "y = 1970 + q"
  have lo: "year_start (y - 1) \<le> n"
  proof -
    have "146097 * (y - 1 - 1970) = 400 * n - r - 146097" using q(1) by (simp add: y_def)
    then have "400 * year_start (y - 1) < 400 * n - r - 146097 + 700"
      using year_start_bounds(2) [of "y - 1"] by simp
    with q(2) show ?thesis by simp
  qed
  have hi: "n < year_start (y + 1 + 1)"
  proof -
    have "146097 * (y + 1 + 1 - 1970) = 400 * n - r + 2 * 146097" using q(1) by (simp add: y_def)
    then have "400 * n - r + 2 * 146097 - 897 < 400 * year_start (y + 1 + 1)"
      using year_start_bounds(1) [of "y + 1 + 1"] by simp
    with q(3) show ?thesis by simp
  qed
  have "year_of n = (if n < year_start y then y - 1 else if year_start (y + 1) \<le> n then y + 1 else y)"
    by (simp add: year_of_def y_def q_def Let_def)
  then show "year_start (year_of n) \<le> n" "n < year_start (year_of n + 1)"
    using lo hi by auto
qed

lemma year_of_unique:
  assumes "year_start y \<le> n" and "n < year_start (y + 1)"
  shows "year_of n = y"
proof (rule ccontr)
  assume "year_of n \<noteq> y"
  then consider "year_of n + 1 \<le> y" | "y + 1 \<le> year_of n" by linarith
  then show False
    using year_start_mono year_of_bounds [of n] assms by cases fastforce+
qed

subsection \<open>Months\<close>

lemma month_split_less:
  "0 \<le> k \<Longrightarrow> k < sum_list ls \<Longrightarrow> \<exists>i < length ls. month_split ls m k = (m + int i, k - sum_list (take i ls) + 1)
     \<and> sum_list (take i ls) \<le> k \<and> k < sum_list (take i ls) + ls ! i"
proof (induction ls m k rule: month_split.induct)
  case (2 l ls m k)
  show ?case
  proof (cases "k < l")
    case True
    with 2 show ?thesis by (intro exI [of _ 0]) simp
  next
    case False
    with 2 obtain i where "i < length ls" "month_split ls (m + 1) (k - l) = (m + 1 + int i, k - l - sum_list (take i ls) + 1)"
      "sum_list (take i ls) \<le> k - l" "k - l < sum_list (take i ls) + ls ! i" by auto
    with False show ?thesis by (intro exI [of _ "Suc i"]) auto
  qed
qed simp

lemma month_split_at:
  "i < length ls \<Longrightarrow> \<forall>l \<in> set ls. 0 \<le> l \<Longrightarrow> 0 \<le> d \<Longrightarrow> d < ls ! i \<Longrightarrow>
   month_split ls m (sum_list (take i ls) + d) = (m + int i, d + 1)"
proof (induction ls arbitrary: i m)
  case (Cons l ls)
  show ?case
  proof (cases i)
    case 0
    with Cons.prems show ?thesis by simp
  next
    case (Suc j)
    have "0 \<le> sum_list (take j ls)"
      using Cons.prems(2) by (intro sum_list_nonneg) (auto dest: in_set_takeD)
    with Suc Cons.prems Cons.IH [of j "m + 1"] show ?thesis by simp
  qed
qed simp

lemma length_month_lengths [simp]: "length (month_lengths y) = 12"
  by (simp add: month_lengths_def)

lemma month_lengths_bounds: "\<forall>l \<in> set (month_lengths y). 28 \<le> l \<and> l \<le> 31"
  by (simp add: month_lengths_def)

lemma days_in_bounds: "1 \<le> m \<Longrightarrow> m \<le> 12 \<Longrightarrow> 28 \<le> days_in y m \<and> days_in y m \<le> 31"
  using month_lengths_bounds [of y] nth_mem [of "nat (m - 1)" "month_lengths y"]
  by (simp add: days_in_def)

lemma day_number_in_year:
  "1 \<le> m \<Longrightarrow> m \<le> 12 \<Longrightarrow> day_number y m d = year_start y + month_offset y m + (d - 1)"
  by (simp add: day_number_def Let_def)

lemma month_offset_split:
  assumes "1 \<le> m" "m \<le> 12"
  shows "0 \<le> month_offset y m" "month_offset y m + days_in y m \<le> sum_list (month_lengths y)"
proof -
  let ?i = "nat (m - 1)"
  have i: "?i < 12" using assms by simp
  have nn: "\<forall>l \<in> set (month_lengths y). 0 \<le> l" using month_lengths_bounds [of y] by auto
  then show "0 \<le> month_offset y m"
    unfolding month_offset_def by (intro sum_list_nonneg) (auto dest: in_set_takeD)
  have "sum_list (month_lengths y) =
      sum_list (take ?i (month_lengths y)) + sum_list (drop ?i (month_lengths y))"
    by (metis append_take_drop_id sum_list_append)
  also have "drop ?i (month_lengths y) = month_lengths y ! ?i # drop (Suc ?i) (month_lengths y)"
    using i by (simp add: Cons_nth_drop_Suc)
  finally have "sum_list (month_lengths y) = month_offset y m + days_in y m
      + sum_list (drop (Suc ?i) (month_lengths y))"
    by (simp add: month_offset_def days_in_def)
  moreover have "0 \<le> sum_list (drop (Suc ?i) (month_lengths y))"
    using nn by (intro sum_list_nonneg) (auto dest: in_set_dropD)
  ultimately show "month_offset y m + days_in y m \<le> sum_list (month_lengths y)" by simp
qed

lemma day_number_bounds:
  assumes "valid_date y m d"
  shows "year_start y \<le> day_number y m d" "day_number y m d < year_start (y + 1)"
  using assms month_offset_split [of m y]
  by (auto simp: valid_date_def day_number_in_year year_start_Suc')

text \<open>Dates and day numbers are the same thing.\<close>

lemma civil_day_number:
  assumes "valid_date y m d"
  shows "civil (day_number y m d) = (y, m, d)"
proof -
  have y: "year_of (day_number y m d) = y"
    by (rule year_of_unique) (fact day_number_bounds [OF assms])+
  have v: "1 \<le> m" "m \<le> 12" "1 \<le> d" "d \<le> days_in y m" using assms by (auto simp: valid_date_def)
  have nn: "\<forall>l \<in> set (month_lengths y). 0 \<le> l" using month_lengths_bounds [of y] by auto
  have "month_split (month_lengths y) 1 (sum_list (take (nat (m - 1)) (month_lengths y)) + (d - 1))
      = (1 + int (nat (m - 1)), d - 1 + 1)"
    using v nn by (intro month_split_at) (auto simp: days_in_def)
  moreover have "day_number y m d - year_start y =
      sum_list (take (nat (m - 1)) (month_lengths y)) + (d - 1)"
    using v by (simp add: day_number_in_year month_offset_def)
  ultimately show ?thesis
    using v by (simp add: civil_def y Let_def)
qed

lemma day_number_civil:
  assumes "civil n = (y, m, d)"
  shows "day_number y m d = n" "valid_date y m d"
proof -
  have y: "y = year_of n" using assms by (simp add: civil_def Let_def)
  let ?k = "n - year_start y"
  have "0 \<le> ?k" "?k < sum_list (month_lengths y)"
    using year_of_bounds [of n] by (simp_all add: y year_start_Suc')
  from month_split_less [OF this, of 1] obtain i where
    i: "i < 12" "month_split (month_lengths y) 1 ?k = (1 + int i, ?k - sum_list (take i (month_lengths y)) + 1)"
    "sum_list (take i (month_lengths y)) \<le> ?k" "?k < sum_list (take i (month_lengths y)) + month_lengths y ! i"
    by auto
  then have m: "m = 1 + int i" and d: "d = ?k - sum_list (take i (month_lengths y)) + 1"
    using assms by (auto simp: civil_def Let_def y)
  have "1 \<le> m" "m \<le> 12" "nat (m - 1) = i" using m i(1) by auto
  then show "day_number y m d = n" "valid_date y m d"
    using d i by (auto simp: day_number_in_year month_offset_def valid_date_def days_in_def)
qed

lemma day_number_add: "day_number y m (d + k) = day_number y m d + k"
  by (simp add: day_number_def Let_def)

lemma day_number_month_shift: "day_number y (m + 12 * k) d = day_number (y + k) m d"
proof -
  have "(m + 12 * k - 1) div 12 = (m - 1) div 12 + k" "(m + 12 * k - 1) mod 12 = (m - 1) mod 12"
    by (simp_all add: add.commute [of m] add_diff_eq [symmetric])
  then show ?thesis by (simp add: day_number_def Let_def algebra_simps)
qed

lemma month_offset_Suc:
  assumes "1 \<le> m" "m < 12"
  shows "month_offset y (m + 1) = month_offset y m + days_in y m"
proof -
  let ?i = "nat (m - 1)"
  have "nat (m + 1 - 1) = Suc ?i" "?i < length (month_lengths y)" using assms by auto
  then show ?thesis by (simp add: month_offset_def days_in_def take_Suc_conv_app_nth)
qed

lemma month_offset_1 [simp]: "month_offset y 1 = 0"
  by (simp add: month_offset_def)

text \<open>The first of the next month comes right after the last day of this one.\<close>

lemma day_number_next_month:
  assumes "1 \<le> m" "m \<le> 12"
  shows "day_number y (m + 1) 1 = day_number y m 1 + days_in y m"
proof (cases "m = 12")
  case True
  have s: "month_offset y 12 + days_in y 12 = sum_list (month_lengths y)"
    by (simp add: month_offset_def days_in_def month_lengths_def)
  have "day_number y (m + 1) 1 = day_number (y + 1) 1 1"
    using day_number_month_shift [of y 1 1 1] by (simp add: True)
  also have "\<dots> = year_start (y + 1)" by (simp add: day_number_in_year)
  finally show ?thesis using True s by (simp add: day_number_in_year year_start_Suc')
next
  case False
  with assms show ?thesis by (simp add: day_number_in_year month_offset_Suc)
qed

lemma day_number_less_year:
  assumes "valid_date y m d" "valid_date y' m' d'" "y < y'"
  shows "day_number y m d < day_number y' m' d'"
  using day_number_bounds [OF assms(1)] day_number_bounds [OF assms(2)] year_start_mono [of "y + 1" y'] assms(3)
  by linarith

lemma month_offset_mono_nat:
  "1 \<le> m \<Longrightarrow> m + int k \<le> 12 \<Longrightarrow> month_offset y m \<le> month_offset y (m + int k)"
proof (induction k)
  case (Suc k)
  have "28 \<le> days_in y (m + int k)"
    using Suc.prems days_in_bounds [of "m + int k" y] by simp
  moreover have "month_offset y (m + int k + 1) = month_offset y (m + int k) + days_in y (m + int k)"
    using Suc.prems by (intro month_offset_Suc) auto
  ultimately show ?case using Suc by (simp add: ac_simps)
qed simp

lemma month_offset_mono:
  assumes "1 \<le> m" "m < m'" "m' \<le> 12"
  shows "month_offset y m + days_in y m \<le> month_offset y m'"
proof -
  have e: "m' = m + 1 + int (nat (m' - m - 1))" using assms by simp
  have "month_offset y (m + 1) \<le> month_offset y m'"
    using month_offset_mono_nat [of "m + 1" "nat (m' - m - 1)" y] assms by (simp flip: e)
  with month_offset_Suc [of m y] assms show ?thesis by simp
qed

lemma day_number_less_month:
  assumes "valid_date y m d" "valid_date y m' d'" "m < m'"
  shows "day_number y m d < day_number y m' d'"
  using assms month_offset_mono [of m m' y] by (auto simp: valid_date_def day_number_in_year)

text \<open>Weekdays: 0 is Sunday; day 0 was a Thursday.\<close>

definition weekday_of :: "int \<Rightarrow> int" where
  "weekday_of n = (n + 4) mod 7"

definition iso_weekday_of :: "int \<Rightarrow> int" where
  "iso_weekday_of n = (if weekday_of n = 0 then 7 else weekday_of n)"

lemma iso_weekday_of_eq: "iso_weekday_of n = (n + 3) mod 7 + 1"
proof -
  define r where "r = (n + 3) mod 7"
  have r: "0 \<le> r" "r < 7" by (simp_all add: r_def)
  have "(n + 4) mod 7 = (r + 1) mod 7" by (simp add: r_def mod_simps add.commute)
  also have "\<dots> = (if r = 6 then 0 else r + 1)" using r by simp
  finally show ?thesis using r unfolding iso_weekday_of_def weekday_of_def r_def [symmetric] by simp
qed


section \<open>Instants and zones\<close>

text \<open>Offset in seconds east of UTC that applies at an instant (seconds since the
  epoch).\<close>

type_synonym zone = "int \<Rightarrow> int"

definition utc_zone :: zone where "utc_zone s = 0"

record gotime =
  t_ns :: int    \<comment> \<open>nanoseconds since the Unix epoch\<close>
  t_zone :: zone

definition utc_at :: "int \<Rightarrow> gotime" where "utc_at n = \<lparr>t_ns = n, t_zone = utc_zone\<rparr>"

type_synonym duration = int \<comment> \<open>nanoseconds\<close>

definition second :: duration where "second = 1000000000"

abbreviation hour :: duration where "hour \<equiv> 3600 * second"
abbreviation day_dur :: duration where "day_dur \<equiv> 24 * hour"

definition t_sec :: "gotime \<Rightarrow> int" where "t_sec t = t_ns t div second"

definition t_nsec :: "gotime \<Rightarrow> int" where "t_nsec t = t_ns t mod second"

text \<open>The wall clock: seconds since 1970-01-01 00:00 local time.\<close>

definition local_sec :: "gotime \<Rightarrow> int" where
  "local_sec t = t_sec t + t_zone t (t_sec t)"

definition local_day :: "gotime \<Rightarrow> int" where "local_day t = local_sec t div 86400"

definition sec_of_day :: "gotime \<Rightarrow> int" where "sec_of_day t = local_sec t mod 86400"

definition t_civil :: "gotime \<Rightarrow> int \<times> int \<times> int" where "t_civil t = civil (local_day t)"

definition t_year :: "gotime \<Rightarrow> int" where "t_year t = fst (t_civil t)"
definition t_month :: "gotime \<Rightarrow> int" where "t_month t = fst (snd (t_civil t))"
definition t_day :: "gotime \<Rightarrow> int" where "t_day t = snd (snd (t_civil t))"
definition t_hour :: "gotime \<Rightarrow> int" where "t_hour t = sec_of_day t div 3600"
definition t_minute :: "gotime \<Rightarrow> int" where "t_minute t = sec_of_day t mod 3600 div 60"
definition t_second :: "gotime \<Rightarrow> int" where "t_second t = sec_of_day t mod 60"
definition t_weekday :: "gotime \<Rightarrow> int" where "t_weekday t = weekday_of (local_day t)"

text \<open>\<open>time.Date\<close>: the wall-clock reading, taken as UTC, finds a first offset; the
  offset that applies at the instant this gives is the one used.\<close>

definition resolve :: "zone \<Rightarrow> int \<Rightarrow> int" where
  "resolve z u = (let o1 = z u in if o1 = 0 then u else u - z (u - o1))"

definition date_time :: "int \<Rightarrow> int \<Rightarrow> int \<Rightarrow> int \<Rightarrow> int \<Rightarrow> int \<Rightarrow> int \<Rightarrow> zone \<Rightarrow> gotime" where
  "date_time y m d h mi s ns z =
     (let u = day_number y m d * 86400 + h * 3600 + mi * 60 + s + ns div second
      in \<lparr>t_ns = resolve z u * second + ns mod second, t_zone = z\<rparr>)"

definition t_add :: "gotime \<Rightarrow> duration \<Rightarrow> gotime" where
  "t_add t d = t\<lparr>t_ns := t_ns t + d\<rparr>"

definition add_date :: "gotime \<Rightarrow> int \<Rightarrow> int \<Rightarrow> int \<Rightarrow> gotime" where
  "add_date t dy dm dd = date_time (t_year t + dy) (t_month t + dm) (t_day t + dd)
     (t_hour t) (t_minute t) (t_second t) (t_nsec t) (t_zone t)"

definition in_zone :: "gotime \<Rightarrow> zone \<Rightarrow> gotime" where
  "in_zone t z = t\<lparr>t_zone := z\<rparr>"

definition t_utc :: "gotime \<Rightarrow> gotime" where "t_utc t = in_zone t utc_zone"

definition unix_time :: "int \<Rightarrow> zone \<Rightarrow> gotime" where
  "unix_time s z = \<lparr>t_ns = s * second, t_zone = z\<rparr>"

text \<open>Comparisons look at the instant only.\<close>

definition t_before :: "gotime \<Rightarrow> gotime \<Rightarrow> bool" where "t_before a b \<longleftrightarrow> t_ns a < t_ns b"
definition t_after :: "gotime \<Rightarrow> gotime \<Rightarrow> bool" where "t_after a b \<longleftrightarrow> t_ns b < t_ns a"
definition t_equal :: "gotime \<Rightarrow> gotime \<Rightarrow> bool" where "t_equal a b \<longleftrightarrow> t_ns a = t_ns b"

text \<open>A difference saturates at the range of a 64-bit duration.\<close>

definition clamp64 :: "int \<Rightarrow> int" where
  "clamp64 n = max (- (2 ^ 63)) (min (2 ^ 63 - 1) n)"

definition t_sub :: "gotime \<Rightarrow> gotime \<Rightarrow> duration" where
  "t_sub a b = clamp64 (t_ns a - t_ns b)"

text \<open>The zero time, 0001-01-01 00:00 UTC.\<close>

definition zero_ns :: int where "zero_ns = - 62135596800 * second"

definition zero_time :: gotime where "zero_time = \<lparr>t_ns = zero_ns, t_zone = utc_zone\<rparr>"

definition is_zero :: "gotime \<Rightarrow> bool" where "is_zero t \<longleftrightarrow> t_ns t = zero_ns"

section \<open>Midnights\<close>

text \<open>A wall-clock reading exists in the zone, and \<open>time.Date\<close> finds it.\<close>

definition reading_ok :: "zone \<Rightarrow> int \<Rightarrow> bool" where
  "reading_ok z u \<longleftrightarrow> resolve z u + z (resolve z u) = u"

text \<open>Every local midnight exists.  Zones that change their clocks at midnight do not have
  this on the day of the change; zones that change them at two or three in the morning,
  and fixed offsets, do.\<close>

definition has_midnights :: "zone \<Rightarrow> bool" where
  "has_midnights z \<longleftrightarrow> (\<forall>n. reading_ok z (n * 86400))"

definition fixed_zone :: "int \<Rightarrow> zone" where "fixed_zone off s = off"

lemma fixed_zone_midnights [simp]: "has_midnights (fixed_zone off)"
  by (auto simp: has_midnights_def reading_ok_def resolve_def fixed_zone_def Let_def)

lemma utc_zone_midnights [simp]: "has_midnights utc_zone"
  by (auto simp: has_midnights_def reading_ok_def resolve_def utc_zone_def Let_def)

lemma second_pos [simp]: "0 < second" "second \<noteq> 0" by (simp_all add: second_def)

lemma t_sec_date_time:
  "t_sec (date_time y m d h mi s 0 z) = resolve z (day_number y m d * 86400 + h * 3600 + mi * 60 + s)"
  by (simp add: date_time_def t_sec_def Let_def)

text \<open>The midnight that starts a day.\<close>

definition midnight :: "zone \<Rightarrow> int \<Rightarrow> gotime" where
  "midnight z n = \<lparr>t_ns = resolve z (n * 86400) * second, t_zone = z\<rparr>"

lemma date_time_midnight: "date_time y m d 0 0 0 0 z = midnight z (day_number y m d)"
  by (simp add: date_time_def midnight_def Let_def)

lemma midnight_sel [simp]: "t_zone (midnight z n) = z" "t_nsec (midnight z n) = 0"
  "t_sec (midnight z n) = resolve z (n * 86400)"
  by (simp_all add: midnight_def t_nsec_def t_sec_def)

lemma local_sec_midnight: "has_midnights z \<Longrightarrow> local_sec (midnight z n) = n * 86400"
  by (simp add: local_sec_def has_midnights_def reading_ok_def)

lemma local_day_midnight [simp]: "has_midnights z \<Longrightarrow> local_day (midnight z n) = n"
  by (simp add: local_day_def local_sec_midnight)

lemma sec_of_day_midnight [simp]: "has_midnights z \<Longrightarrow> sec_of_day (midnight z n) = 0"
  by (simp add: sec_of_day_def local_sec_midnight)

text \<open>Two instants are in the order of their local days when the zone's clock does not run
  backwards across a midnight.\<close>

definition day_ordered :: "zone \<Rightarrow> bool" where
  "day_ordered z \<longleftrightarrow> has_midnights z \<and>
     (\<forall>a b. a < b \<longrightarrow> resolve z (a * 86400) < resolve z (b * 86400))"

lemma fixed_zone_ordered [simp]: "day_ordered (fixed_zone off)"
  by (auto simp: day_ordered_def resolve_def fixed_zone_def Let_def)

lemma utc_zone_ordered [simp]: "day_ordered utc_zone"
  by (auto simp: day_ordered_def resolve_def utc_zone_def Let_def)

lemma day_ordered_midnights [simp]: "day_ordered z \<Longrightarrow> has_midnights z"
  by (simp add: day_ordered_def)

lemma midnight_less:
  "day_ordered z \<Longrightarrow> a < b \<Longrightarrow> t_ns (midnight z a) < t_ns (midnight z b)"
  by (simp add: day_ordered_def midnight_def)

lemma t_before_midnight [simp]:
  assumes "day_ordered z"
  shows "t_before (midnight z a) (midnight z b) \<longleftrightarrow> a < b"
proof (cases a b rule: linorder_cases)
  case less
  with midnight_less [OF assms less] show ?thesis by (simp add: t_before_def)
next
  case greater
  with midnight_less [OF assms greater] show ?thesis by (simp add: t_before_def)
qed (simp add: t_before_def)

lemma midnight_eq_iff: "has_midnights z \<Longrightarrow> midnight z a = midnight z b \<longleftrightarrow> a = b"
  by (metis local_day_midnight)

lemma t_equal_midnight [simp]:
  assumes "day_ordered z"
  shows "t_equal (midnight z a) (midnight z b) \<longleftrightarrow> a = b"
  using t_before_midnight [OF assms, of a b] t_before_midnight [OF assms, of b a]
  by (auto simp: t_before_def t_equal_def)

lemma t_civil_midnight: "has_midnights z \<Longrightarrow> t_civil (midnight z n) = civil n"
  by (simp add: t_civil_def)

lemma day_number_t_civil:
  "day_number (t_year t) (t_month t) (t_day t) = local_day t"
  "valid_date (t_year t) (t_month t) (t_day t)"
  using day_number_civil [of "local_day t" "t_year t" "t_month t" "t_day t"]
  by (simp_all add: t_year_def t_month_def t_day_def t_civil_def)

lemma day_number_t_day_add:
  "day_number (t_year t) (t_month t) (t_day t + k) = local_day t + k"
  by (simp add: day_number_add day_number_t_civil)

lemma add_days_midnight:
  assumes "has_midnights z"
  shows "add_date (midnight z n) 0 0 k = midnight z (n + k)"
proof -
  have "add_date (midnight z n) 0 0 k =
      midnight z (day_number (t_year (midnight z n)) (t_month (midnight z n)) (t_day (midnight z n) + k))"
    using assms by (simp add: add_date_def t_hour_def t_minute_def t_second_def date_time_midnight)
  also have "\<dots> = midnight z (n + k)" using assms by (simp only: day_number_t_day_add local_day_midnight)
  finally show ?thesis .
qed

lemma hms_sec_of_day: "t_hour t * 3600 + t_minute t * 60 + t_second t = sec_of_day t"
proof -
  have "sec_of_day t mod 60 = sec_of_day t mod 3600 mod 60" by (simp add: mod_mod_cancel)
  then show ?thesis
    using mult_div_mod_eq [of 3600 "sec_of_day t"] mult_div_mod_eq [of 60 "sec_of_day t mod 3600"]
    by (simp add: t_hour_def t_minute_def t_second_def mult.commute)
qed

lemma add_days_utc:
  assumes "t_zone t = utc_zone"
  shows "t_ns (add_date t 0 0 k) = t_ns t + k * day_dur"
proof -
  have ns: "t_nsec t div second = 0" "t_nsec t mod second = t_nsec t" by (simp_all add: t_nsec_def)
  have u: "day_number (t_year t) (t_month t) (t_day t + k) * 86400 + t_hour t * 3600 + t_minute t * 60
      + t_second t = local_sec t + k * 86400"
    using hms_sec_of_day [of t] mult_div_mod_eq [of 86400 "local_sec t"]
    unfolding day_number_t_day_add local_day_def sec_of_day_def distrib_right by linarith
  have l: "local_sec t = t_sec t" by (simp add: local_sec_def assms utc_zone_def)
  have "t_ns (add_date t 0 0 k) = (local_sec t + k * 86400) * second + t_nsec t"
    by (simp add: add_date_def date_time_def Let_def u ns assms resolve_def utc_zone_def)
  also have "\<dots> = (t_sec t * second + t_nsec t) + k * day_dur" by (simp add: l algebra_simps)
  also have "t_sec t * second + t_nsec t = t_ns t" by (simp add: t_sec_def t_nsec_def)
  finally show ?thesis .
qed

section \<open>Printing and reading\<close>

definition fmt_year :: "int \<Rightarrow> gostring" where
  "fmt_year y = (if y < 0 then ''-'' @ pad_int 4 (- y) else pad_int 4 y)"

text \<open>Layout \<open>2006-01-02\<close>.\<close>

definition fmt_civil :: "int \<times> int \<times> int \<Rightarrow> gostring" where
  "fmt_civil c = (case c of (y, m, d) \<Rightarrow> fmt_year y @ ''-'' @ pad_int 2 m @ ''-'' @ pad_int 2 d)"

definition fmt_date :: "gotime \<Rightarrow> gostring" where
  "fmt_date t = fmt_civil (t_civil t)"

definition fmt_clock :: "gotime \<Rightarrow> gostring" where
  "fmt_clock t = pad_int 2 (t_hour t) @ '':'' @ pad_int 2 (t_minute t) @ '':'' @ pad_int 2 (t_second t)"

definition fmt_offset :: "int \<Rightarrow> gostring" where
  "fmt_offset off = (if off = 0 then ''Z'' else
     let mins = \<bar>off\<bar> div 60 in
     (if off < 0 then ''-'' else ''+'') @ pad_int 2 (mins div 60) @ '':'' @ pad_int 2 (mins mod 60))"

text \<open>Layout \<open>time.RFC3339\<close>.\<close>

definition fmt_rfc3339 :: "gotime \<Rightarrow> gostring" where
  "fmt_rfc3339 t = fmt_date t @ ''T'' @ fmt_clock t @ fmt_offset (t_zone t (t_sec t))"

text \<open>A fraction of a second without its trailing zeros, with its point; empty when 0.\<close>

definition fmt_frac :: "nat \<Rightarrow> int \<Rightarrow> gostring" where
  "fmt_frac w n = (if n = 0 then [] else
     ''.'' @ rev (dropWhile (\<lambda>c. c = CHR ''0'') (rev (pad_int w n))))"

definition fmt_rfc3339nano :: "gotime \<Rightarrow> gostring" where
  "fmt_rfc3339nano t = fmt_date t @ ''T'' @ fmt_clock t @ fmt_frac 9 (t_nsec t)
     @ fmt_offset (t_zone t (t_sec t))"

text \<open>Layout \<open>2006-01-02T15:04:05.999999Z\<close> of a UTC time.\<close>

definition fmt_iso_utc :: "gotime \<Rightarrow> gostring" where
  "fmt_iso_utc t = (let u = t_utc t in
     fmt_date u @ ''T'' @ fmt_clock u @ fmt_frac 6 (t_nsec u div 1000) @ ''Z'')"

text \<open>Reading the layout \<open>2006-01-02\<close>: four digits, two, two, a date that exists, and
  nothing after it.\<close>

definition parse_civil :: "gostring \<Rightarrow> (int \<times> int \<times> int) option" where
  "parse_civil s = (if length s \<noteq> 10 \<or> s ! 4 \<noteq> CHR ''-'' \<or> s ! 7 \<noteq> CHR ''-'' then None
     else let ys = take 4 s; ms = take 2 (drop 5 s); ds = drop 8 s in
       if \<not> list_all is_digit (ys @ ms @ ds) then None
       else let y = int (digits_val ys); m = int (digits_val ms); d = int (digits_val ds) in
         if m < 1 \<or> 12 < m \<or> d < 1 \<or> days_in y m < d then None else Some (y, m, d))"

definition parse_date_in :: "gostring \<Rightarrow> zone \<Rightarrow> gotime option" where
  "parse_date_in s z = (case parse_civil s of None \<Rightarrow> None
     | Some (y, m, d) \<Rightarrow> Some (date_time y m d 0 0 0 0 z))"

lemma parse_civil_valid: "parse_civil s = Some (y, m, d) \<Longrightarrow> valid_date y m d"
  by (auto simp: parse_civil_def Let_def valid_date_def split: if_splits)

end
