(* ===== verification/GoCrypto.thy ===== *)
theory GoCrypto
  imports Prelude "HOL-Library.Word"
begin

text \<open>
  The digests the sources rely on, from the language's standard library: MD5, SHA-256,
  HMAC-SHA256, and the hexadecimal encoding of their results.  Bytes are \<open>char\<close>s and the
  state of a digest is a list of 32-bit words.
\<close>

unbundle bit_operations_syntax

type_synonym u32 = "32 word"

definition rotl :: "nat \<Rightarrow> u32 \<Rightarrow> u32" where
  "rotl n w = push_bit n w OR drop_bit (32 - n) w"

definition rotr :: "nat \<Rightarrow> u32 \<Rightarrow> u32" where
  "rotr n w = drop_bit n w OR push_bit (32 - n) w"

definition word_of_byte :: "char \<Rightarrow> u32" where
  "word_of_byte c = of_nat (byte c)"

definition byte_of_word :: "nat \<Rightarrow> u32 \<Rightarrow> char" where
  "byte_of_word i w = char_of (unat (drop_bit (8 * i) w) mod 256)"

definition le_bytes :: "u32 \<Rightarrow> gostring" where
  "le_bytes w = [byte_of_word 0 w, byte_of_word 1 w, byte_of_word 2 w, byte_of_word 3 w]"

definition be_bytes :: "u32 \<Rightarrow> gostring" where
  "be_bytes w = [byte_of_word 3 w, byte_of_word 2 w, byte_of_word 1 w, byte_of_word 0 w]"

text \<open>A length in bits, in eight bytes, least significant first.\<close>

definition length_bytes :: "nat \<Rightarrow> gostring" where
  "length_bytes n = map (\<lambda>i. char_of ((8 * n) div 256 ^ i mod 256)) [0, 1, 2, 3, 4, 5, 6, 7]"

text \<open>Both digests pad with one set bit and zeros up to 56 bytes modulo 64.\<close>

definition pad_zeros :: "nat \<Rightarrow> nat" where
  "pad_zeros n = (if n mod 64 < 56 then 55 - n mod 64 else 119 - n mod 64)"

definition pad_message :: "gostring \<Rightarrow> gostring \<Rightarrow> gostring" where
  "pad_message s len = s @ CHR 0x80 # replicate (pad_zeros (length s)) (CHR 0x00) @ len"

function blocks :: "gostring \<Rightarrow> gostring list" where
  "blocks s = (if length s < 64 then [] else take 64 s # blocks (drop 64 s))"
  by pat_completeness auto
termination
  by (relation "measure length") auto

declare blocks.simps [simp del]

fun le_words :: "gostring \<Rightarrow> u32 list" where
  "le_words (a # b # c # d # s) =
     (word_of_byte a OR push_bit 8 (word_of_byte b) OR push_bit 16 (word_of_byte c)
       OR push_bit 24 (word_of_byte d)) # le_words s"
| "le_words _ = []"

fun be_words :: "gostring \<Rightarrow> u32 list" where
  "be_words (a # b # c # d # s) =
     (push_bit 24 (word_of_byte a) OR push_bit 16 (word_of_byte b) OR push_bit 8 (word_of_byte c)
       OR word_of_byte d) # be_words s"
| "be_words _ = []"

section \<open>Hexadecimal\<close>

fun hex_encode :: "gostring \<Rightarrow> gostring" where
  "hex_encode [] = []"
| "hex_encode (c # s) = hex_digit (byte c div 16) # hex_digit (byte c mod 16) # hex_encode s"

definition hex_val :: "char \<Rightarrow> nat option" where
  "hex_val c = (let n = byte c in
     if 48 \<le> n \<and> n \<le> 57 then Some (n - 48)
     else if 97 \<le> n \<and> n \<le> 102 then Some (n - 87)
     else if 65 \<le> n \<and> n \<le> 70 then Some (n - 55) else None)"

text \<open>\<open>hex.DecodeString\<close>: an even number of hexadecimal digits of either case.\<close>

fun hex_decode :: "gostring \<Rightarrow> gostring option" where
  "hex_decode [] = Some []"
| "hex_decode [c] = None"
| "hex_decode (a # b # s) = (case (hex_val a, hex_val b, hex_decode s) of
      (Some x, Some y, Some r) \<Rightarrow> Some (char_of (16 * x + y) # r)
    | _ \<Rightarrow> None)"

lemma hex_val_hex_digit [simp]: "n < 16 \<Longrightarrow> hex_val (hex_digit n) = Some n"
  by (auto simp: hex_val_def hex_digit_def Let_def)

lemma hex_decode_encode [simp]: "hex_decode (hex_encode s) = Some s"
proof (induction s)
  case (Cons c s)
  have "byte c div 16 < 16" using byte_less_256 [of c] by simp
  moreover have "char_of (16 * (byte c div 16) + byte c mod 16) = c" by (simp add: byte_def)
  ultimately show ?case using Cons by simp
qed simp

lemma hex_digit_hex: "n < 16 \<Longrightarrow> (48 \<le> byte (hex_digit n) \<and> byte (hex_digit n) \<le> 57)
    \<or> (97 \<le> byte (hex_digit n) \<and> byte (hex_digit n) \<le> 102)"
  by (auto simp: hex_digit_def)

lemma hex_encode_chars: "c \<in> set (hex_encode s) \<Longrightarrow> \<exists>n < 16. c = hex_digit n"
proof (induction s)
  case (Cons a s)
  have "byte a div 16 < 16" "byte a mod 16 < 16" using byte_less_256 [of a] by simp_all
  moreover have "c = hex_digit (byte a div 16) \<or> c = hex_digit (byte a mod 16) \<or> c \<in> set (hex_encode s)"
    using Cons.prems by simp
  ultimately show ?case using Cons.IH by blast
qed simp

lemma hex_encode_no_colon: "CHR '':'' \<notin> set (hex_encode s)"
proof
  assume "CHR '':'' \<in> set (hex_encode s)"
  then obtain n where "n < 16" "CHR '':'' = hex_digit n" using hex_encode_chars by blast
  then have "(48 \<le> byte (CHR '':'') \<and> byte (CHR '':'') \<le> 57) \<or> (97 \<le> byte (CHR '':'') \<and> byte (CHR '':'') \<le> 102)"
    using hex_digit_hex by simp
  then show False by (simp add: byte_def)
qed

section \<open>MD5\<close>

definition md5_k :: "u32 list" where
  "md5_k = [3614090360, 3905402710, 606105819, 3250441966, 4118548399, 1200080426, 2821735955, 4249261313,
     1770035416, 2336552879, 4294925233, 2304563134, 1804603682, 4254626195, 2792965006, 1236535329,
     4129170786, 3225465664, 643717713, 3921069994, 3593408605, 38016083, 3634488961, 3889429448,
     568446438, 3275163606, 4107603335, 1163531501, 2850285829, 4243563512, 1735328473, 2368359562,
     4294588738, 2272392833, 1839030562, 4259657740, 2763975236, 1272893353, 4139469664, 3200236656,
     681279174, 3936430074, 3572445317, 76029189, 3654602809, 3873151461, 530742520, 3299628645,
     4096336452, 1126891415, 2878612391, 4237533241, 1700485571, 2399980690, 4293915773, 2240044497,
     1873313359, 4264355552, 2734768916, 1309151649, 4149444226, 3174756917, 718787259, 3951481745]"

definition md5_s :: "nat list" where
  "md5_s = [7, 12, 17, 22, 7, 12, 17, 22,
     7, 12, 17, 22, 7, 12, 17, 22,
     5, 9, 14, 20, 5, 9, 14, 20,
     5, 9, 14, 20, 5, 9, 14, 20,
     4, 11, 16, 23, 4, 11, 16, 23,
     4, 11, 16, 23, 4, 11, 16, 23,
     6, 10, 15, 21, 6, 10, 15, 21,
     6, 10, 15, 21, 6, 10, 15, 21]"

fun md5_round :: "u32 list \<Rightarrow> nat \<Rightarrow> u32 \<times> u32 \<times> u32 \<times> u32 \<Rightarrow> u32 \<times> u32 \<times> u32 \<times> u32" where
  "md5_round m i (a, b, c, d) =
     (let (f, g) = (if i < 16 then ((b AND c) OR (NOT b AND d), i)
        else if i < 32 then ((d AND b) OR (NOT d AND c), (5 * i + 1) mod 16)
        else if i < 48 then (b XOR c XOR d, (3 * i + 5) mod 16)
        else (c XOR (b OR NOT d), (7 * i) mod 16))
      in (d, b + rotl (md5_s ! i) (f + a + md5_k ! i + m ! g), b, c))"

fun md5_block :: "gostring \<Rightarrow> u32 \<times> u32 \<times> u32 \<times> u32 \<Rightarrow> u32 \<times> u32 \<times> u32 \<times> u32" where
  "md5_block blk (a, b, c, d) =
     (case fold (md5_round (le_words blk)) [0..<64] (a, b, c, d) of
        (a', b', c', d') \<Rightarrow> (a + a', b + b', c + c', d + d'))"

definition md5_sum :: "gostring \<Rightarrow> gostring" where
  "md5_sum s =
     (case fold md5_block (blocks (pad_message s (length_bytes (length s))))
        (1732584193, 4023233417, 2562383102, 271733878) of
        (a, b, c, d) \<Rightarrow> le_bytes a @ le_bytes b @ le_bytes c @ le_bytes d)"

definition md5_hex :: "gostring \<Rightarrow> gostring" where
  "md5_hex s = hex_encode (md5_sum s)"

lemma md5_hex_nonempty: "md5_hex s \<noteq> []"
  by (simp add: md5_hex_def md5_sum_def le_bytes_def split: prod.split)

section \<open>SHA-256\<close>

definition sha_k :: "u32 list" where
  "sha_k = [1116352408, 1899447441, 3049323471, 3921009573, 961987163, 1508970993, 2453635748, 2870763221,
     3624381080, 310598401, 607225278, 1426881987, 1925078388, 2162078206, 2614888103, 3248222580,
     3835390401, 4022224774, 264347078, 604807628, 770255983, 1249150122, 1555081692, 1996064986,
     2554220882, 2821834349, 2952996808, 3210313671, 3336571891, 3584528711, 113926993, 338241895,
     666307205, 773529912, 1294757372, 1396182291, 1695183700, 1986661051, 2177026350, 2456956037,
     2730485921, 2820302411, 3259730800, 3345764771, 3516065817, 3600352804, 4094571909, 275423344,
     430227734, 506948616, 659060556, 883997877, 958139571, 1322822218, 1537002063, 1747873779,
     1955562222, 2024104815, 2227730452, 2361852424, 2428436474, 2756734187, 3204031479, 3329325298]"

definition sha_init :: "u32 list" where
  "sha_init = [1779033703, 3144134277, 1013904242, 2773480762, 1359893119, 2600822924, 528734635, 1541459225]"

definition sha_extend :: "nat \<Rightarrow> u32 list \<Rightarrow> u32 list" where
  "sha_extend i w =
     (let x = w ! (i - 15); y = w ! (i - 2);
          s0 = rotr 7 x XOR rotr 18 x XOR drop_bit 3 x;
          s1 = rotr 17 y XOR rotr 19 y XOR drop_bit 10 y
      in w @ [w ! (i - 16) + s0 + w ! (i - 7) + s1])"

fun sha_round :: "u32 \<times> u32 \<Rightarrow> u32 list \<Rightarrow> u32 list" where
  "sha_round (k, w) [a, b, c, d, e, f, g, h] =
     (let s1 = rotr 6 e XOR rotr 11 e XOR rotr 25 e;
          ch = (e AND f) XOR (NOT e AND g);
          t1 = h + s1 + ch + k + w;
          s0 = rotr 2 a XOR rotr 13 a XOR rotr 22 a;
          maj = (a AND b) XOR (a AND c) XOR (b AND c)
      in [t1 + (s0 + maj), a, b, c, d + t1, e, f, g])"
| "sha_round _ st = st"

definition sha_block :: "gostring \<Rightarrow> u32 list \<Rightarrow> u32 list" where
  "sha_block blk st =
     map2 (+) st (fold sha_round (zip sha_k (fold sha_extend [16..<64] (be_words blk))) st)"

definition sha256 :: "gostring \<Rightarrow> gostring" where
  "sha256 s = concat (map be_bytes
     (fold sha_block (blocks (pad_message s (rev (length_bytes (length s))))) sha_init))"

text \<open>\<open>hmac.New(sha256.New, key)\<close> over one message.\<close>

definition xor_byte :: "nat \<Rightarrow> char \<Rightarrow> char" where
  "xor_byte n c = char_of (n XOR byte c)"

definition hmac_sha256 :: "gostring \<Rightarrow> gostring \<Rightarrow> gostring" where
  "hmac_sha256 key msg =
     (let k0 = (if 64 < length key then sha256 key else key);
          k = k0 @ replicate (64 - length k0) (CHR 0x00)
      in sha256 (map (xor_byte 92) k @ sha256 (map (xor_byte 54) k @ msg)))"

end
