(* ===== verification/Model.thy ===== *)
theory Model
  imports GoFloat GoCrypto
begin

text \<open>
  The domain types that the packages share (\<open>internal/model\<close>): projects,
  subscriptions, mailboxes, check results, runways and history points, with the small
  operations declared beside them.  A pointer that may be nil is an \<open>option\<close>; a string
  constant of the source keeps its text.
\<close>

section \<open>Constants\<close>

definition TypeBalance :: gostring where "TypeBalance = ''balance''"
definition TypeCredits :: gostring where "TypeCredits = ''credits''"
definition TypeQuota :: gostring where "TypeQuota = ''quota''"

definition CycleWeekly :: gostring where "CycleWeekly = ''weekly''"
definition CycleMonthly :: gostring where "CycleMonthly = ''monthly''"
definition CycleYearly :: gostring where "CycleYearly = ''yearly''"
definition CycleLunarYearly :: gostring where "CycleLunarYearly = ''lunar_yearly''"

definition ConfidenceNone :: gostring where "ConfidenceNone = ''none''"
definition ConfidenceLow :: gostring where "ConfidenceLow = ''low''"
definition ConfidenceMedium :: gostring where "ConfidenceMedium = ''medium''"
definition ConfidenceHigh :: gostring where "ConfidenceHigh = ''high''"

lemmas type_defs = TypeBalance_def TypeCredits_def TypeQuota_def
lemmas cycle_defs = CycleWeekly_def CycleMonthly_def CycleYearly_def CycleLunarYearly_def
lemmas confidence_defs = ConfidenceNone_def ConfidenceLow_def ConfidenceMedium_def ConfidenceHigh_def

definition AlertBudget :: gostring where "AlertBudget = ''budget''"

section \<open>Projects, subscriptions, mailboxes\<close>

record project =
  pj_name :: gostring
  pj_provider :: gostring
  pj_api_key :: gostring
  pj_threshold :: f64
  pj_type :: gostring
  pj_currency :: gostring
  pj_monthly_budget :: f64
  pj_owner :: "gostring option"
  pj_enabled :: bool
  pj_from_env :: bool

record subscription =
  sb_name :: gostring
  sb_owner :: "gostring option"
  sb_cycle_type :: gostring
  sb_renewal_day :: int
  sb_alert_days_before :: int
  sb_amount :: f64
  sb_enabled :: bool
  sb_last_renewed :: "gostring option"
  sb_snoozed_until :: "gostring option"
  sb_timezone :: gostring
  sb_webhook_url :: gostring

record mailbox =
  mb_name :: gostring
  mb_host :: gostring
  mb_port :: int
  mb_username :: gostring
  mb_password :: gostring
  mb_use_ssl :: bool
  mb_enabled :: bool
  mb_from_env :: bool

record config =
  cf_projects :: "project list"
  cf_subscriptions :: "subscription list"
  cf_mailboxes :: "mailbox list"

definition enabled_projects :: "config \<Rightarrow> project list" where
  "enabled_projects c = filter pj_enabled (cf_projects c)"

definition enabled_subscriptions :: "config \<Rightarrow> subscription list" where
  "enabled_subscriptions c = filter sb_enabled (cf_subscriptions c)"

definition enabled_mailboxes :: "config \<Rightarrow> mailbox list" where
  "enabled_mailboxes c = filter mb_enabled (cf_mailboxes c)"

section \<open>Identities\<close>

definition project_id :: "gostring \<Rightarrow> gostring \<Rightarrow> gostring" where
  "project_id provider name = md5_hex (trim_prefix provider ''custom:'' @ '':'' @ name)"

definition project_ID :: "project \<Rightarrow> gostring" where
  "project_ID p = project_id (pj_provider p) (pj_name p)"

definition subscription_id :: "gostring \<Rightarrow> gostring" where
  "subscription_id name = md5_hex (''subscription:'' @ name)"

definition custom_provider_key :: "gostring \<Rightarrow> gostring" where
  "custom_provider_key name = ''custom:'' @ name"

section \<open>Check results and their summary\<close>

record daily_spend =
  ds_date :: gostring
  ds_consumed :: f64

record runway =
  rw_project_id :: gostring
  rw_project_name :: gostring
  rw_provider :: gostring
  rw_balance_type :: gostring
  rw_current_balance :: "f64 option"
  rw_window_days :: int
  rw_data_points :: int
  rw_span_hours :: f64
  rw_consumed :: f64
  rw_topped_up :: f64
  rw_burn_per_day :: "f64 option"
  rw_runway_days :: "f64 option"
  rw_depletion_date :: "gostring option"
  rw_confidence :: gostring
  rw_daily :: "daily_spend list"
  rw_today_consumed :: "f64 option"
  rw_baseline :: "f64 option"
  rw_spike_ratio :: "f64 option"
  rw_monthly_projection :: "f64 option"

record check_result =
  cr_project :: gostring
  cr_owner :: "gostring option"
  cr_provider :: gostring
  cr_type :: gostring
  cr_success :: bool
  cr_credits :: "f64 option"
  cr_threshold :: "f64 option"
  cr_need_alarm :: bool
  cr_alarm_sent :: bool
  cr_error :: "gostring option"
  cr_cached :: bool
  cr_runway :: "runway option"
  cr_checked_at :: "gostring option"
  cr_latency_ms :: "int option"

record balance_summary =
  bs_total :: nat
  bs_success :: nat
  bs_failed :: nat
  bs_need_alarm :: nat

fun summarize_results :: "check_result list \<Rightarrow> balance_summary \<Rightarrow> balance_summary" where
  "summarize_results [] s = s"
| "summarize_results (r # rs) s =
     (let s1 = (if cr_success r then s\<lparr>bs_success := bs_success s + 1\<rparr>
                else s\<lparr>bs_failed := bs_failed s + 1\<rparr>);
          s2 = (if cr_need_alarm r then s1\<lparr>bs_need_alarm := bs_need_alarm s1 + 1\<rparr> else s1)
      in summarize_results rs s2)"

definition summarize_balance :: "check_result list \<Rightarrow> balance_summary" where
  "summarize_balance rs = summarize_results rs
     \<lparr>bs_total = length rs, bs_success = 0, bs_failed = 0, bs_need_alarm = 0\<rparr>"

text \<open>A nil runway has no estimate and alerts on nothing.\<close>

definition has_estimate :: "runway option \<Rightarrow> bool" where
  "has_estimate r = (case r of None \<Rightarrow> False
     | Some w \<Rightarrow> rw_burn_per_day w \<noteq> None \<and> rw_confidence w \<noteq> ConfidenceNone)"

definition alertable :: "runway option \<Rightarrow> bool" where
  "alertable r = (case r of None \<Rightarrow> False
     | Some w \<Rightarrow> rw_confidence w = ConfidenceMedium \<or> rw_confidence w = ConfidenceHigh)"

record subscription_result =
  sr_name :: gostring
  sr_owner :: "gostring option"
  sr_renewal_day :: int
  sr_cycle_type :: gostring
  sr_days_until :: int
  sr_next_date :: gostring
  sr_need_alert :: bool
  sr_alert_sent :: bool
  sr_amount :: f64
  sr_already_renewed :: bool
  sr_last_renewed :: "gostring option"
  sr_alert_state :: gostring
  sr_next_eligible :: "gostring option"
  sr_last_error :: gostring
  sr_snoozed_until :: "gostring option"

record mailbox_result =
  mr_name :: gostring
  mr_host :: gostring
  mr_port :: int
  mr_username :: gostring
  mr_total_emails :: int
  mr_alert_count :: int
  mr_success :: bool
  mr_error :: "gostring option"

record email_alert =
  ea_mailbox :: gostring
  ea_subject :: gostring
  ea_sender :: gostring
  ea_date :: gostring
  ea_keywords :: "gostring list"
  ea_service :: "gostring option"
  ea_amount :: "f64 option"
  ea_alert_sent :: bool
  ea_duplicate :: bool

record scan_result =
  sc_days :: int
  sc_dry_run :: bool
  sc_mailboxes :: "mailbox_result list"
  sc_alerts :: "email_alert list"

record balance_point =
  bp_project_id :: gostring
  bp_project_name :: gostring
  bp_provider :: gostring
  bp_balance_type :: gostring
  bp_balance :: f64
  bp_threshold :: "f64 option"
  bp_need_alarm :: bool
  bp_timestamp :: int

record email_suppression =
  es_mailbox :: gostring
  es_sender :: gostring

record usage_entry =
  ue_source :: gostring
  ue_project :: gostring
  ue_date :: gostring
  ue_model :: gostring
  ue_cost :: f64
  ue_currency :: gostring
  ue_input_tokens :: int
  ue_output_tokens :: int
  ue_requests :: int

record custom_provider =
  cp_name :: gostring
  cp_display_name :: gostring
  cp_url :: gostring
  cp_auth_mode :: gostring
  cp_auth_param :: gostring
  cp_default_type :: gostring
  cp_currency :: gostring
  cp_balance_path :: gostring
  cp_balance_scale :: f64
  cp_success_path :: gostring
  cp_success_values :: gostring
  cp_error_path :: gostring
  cp_subtract_path :: gostring
  cp_extract_mode :: gostring
  cp_window_types :: gostring
  cp_window_reset_hours :: f64
  cp_extra_params :: gostring
  cp_sign_region :: gostring
  cp_sign_service :: gostring
  cp_from_db :: bool

section \<open>Filling in what was left out\<close>

definition default_balance_type :: "gostring \<Rightarrow> gostring" where
  "default_balance_type provider =
     (if provider = ''openrouter'' \<or> provider = ''uniapi'' \<or> provider = ''wxrank'' then TypeCredits
      else if provider = ''glm'' then TypeQuota
      else TypeBalance)"

definition normalize_project :: "project \<Rightarrow> project" where
  "normalize_project p =
     (let p1 = p\<lparr>pj_provider := to_lower (trim_space (pj_provider p))\<rparr>;
          p2 = (if pj_name p1 = [] then
                  (if pj_provider p1 = [] then p1\<lparr>pj_name := ''unknown''\<rparr>
                   else p1\<lparr>pj_name := pj_provider p1\<rparr>)
                else p1)
      in if pj_type p2 = [] then p2\<lparr>pj_type := default_balance_type (pj_provider p2)\<rparr> else p2)"

definition owner_project_of :: "gostring \<Rightarrow> gostring option" where
  "owner_project_of s = (if trim_space s = [] then None else Some s)"

definition quantity :: "int \<Rightarrow> gostring \<Rightarrow> gostring \<Rightarrow> gostring" where
  "quantity n one many = itoa n @ '' '' @ (if n = 1 then one else many)"

definition renews_in :: "int \<Rightarrow> gostring" where
  "renews_in days = (if days \<le> 0 then ''today'' else ''in '' @ quantity days ''day'' ''days'')"

section \<open>Lemmas\<close>

lemma project_id_custom: "project_id (custom_provider_key p) n = project_id p n"
  if "\<not> has_prefix p ''custom:''"
  using that by (simp add: project_id_def custom_provider_key_def trim_prefix_def)

lemma summarize_results_counts:
  "bs_total (summarize_results rs s) = bs_total s"
  "bs_success (summarize_results rs s) = bs_success s + count_if cr_success rs"
  "bs_failed (summarize_results rs s) = bs_failed s + count_if (\<lambda>r. \<not> cr_success r) rs"
  "bs_need_alarm (summarize_results rs s) = bs_need_alarm s + count_if cr_need_alarm rs"
  by (induction rs s rule: summarize_results.induct) (simp_all add: Let_def)

lemma summarize_balance_counts:
  "bs_total (summarize_balance rs) = length rs"
  "bs_success (summarize_balance rs) = count_if cr_success rs"
  "bs_failed (summarize_balance rs) = count_if (\<lambda>r. \<not> cr_success r) rs"
  "bs_need_alarm (summarize_balance rs) = count_if cr_need_alarm rs"
  by (simp_all add: summarize_balance_def summarize_results_counts)

lemma default_balance_type_known:
  "default_balance_type p \<in> {TypeBalance, TypeCredits, TypeQuota}"
  by (simp add: default_balance_type_def)

text \<open>A normalised project has a name and a type, and normalising it again changes nothing
  when trimming its provider again does not.\<close>

lemma normalize_project_complete:
  "pj_name (normalize_project p) \<noteq> []" "pj_type (normalize_project p) \<noteq> []"
  by (simp_all add: normalize_project_def Let_def default_balance_type_def type_defs)

lemma normalize_project_provider:
  "pj_provider (normalize_project p) = to_lower (trim_space (pj_provider p))"
  by (simp add: normalize_project_def Let_def)

lemma has_estimate_simps [simp]: "\<not> has_estimate None" "\<not> alertable None"
  by (simp_all add: has_estimate_def alertable_def)

end
