(* ===== verification/Schedule.thy ===== *)
theory Schedule
  imports GoTime
begin

text \<open>
  Schedule expressions and the next time they fire (\<open>internal/timeutil\<close>).  A set of
  weekdays (the source's map from ISO numbers to \<open>true\<close>) is the list of its members; the
  empty list stands for both the nil and the empty map, which the source treats alike.
\<close>

section \<open>Times of day\<close>

record clock_time =
  ct_hour :: int
  ct_minute :: int

definition clock_string :: "clock_time \<Rightarrow> gostring" where
  "clock_string c = pad_int 2 (ct_hour c) @ '':'' @ pad_int 2 (ct_minute c)"

definition clock_before :: "clock_time \<Rightarrow> clock_time \<Rightarrow> bool" where
  "clock_before c d \<longleftrightarrow> ct_hour c < ct_hour d \<or> (ct_hour c = ct_hour d \<and> ct_minute c < ct_minute d)"

definition off_values :: "gostring list" where
  "off_values = [''off'', ''none'', ''disabled'', ''false'', ''0'', ''-'']"

definition err_time_format :: "gostring \<Rightarrow> goerror" where
  "err_time_format part = ''invalid time format '' @ quote part @ ''; use HH:MM and separate multiple times with commas''"

definition err_time_range :: "gostring \<Rightarrow> goerror" where
  "err_time_range part = ''time is out of range: '' @ quote part"

text \<open>The pattern \<open>^(\d{1,2}):(\d{2})$\<close>: its two groups.\<close>

definition match_time :: "gostring \<Rightarrow> (gostring \<times> gostring) option" where
  "match_time s = (case cut s '':'' of None \<Rightarrow> None
     | Some (h, m) \<Rightarrow> if (length h = 1 \<or> length h = 2) \<and> length m = 2 \<and> list_all is_digit h \<and> list_all is_digit m
         then Some (h, m) else None)"

definition parse_clock :: "gostring \<Rightarrow> goerror + clock_time" where
  "parse_clock part = (case match_time part of
       None \<Rightarrow> Inl (err_time_format part)
     | Some (h, m) \<Rightarrow>
         let hour = int (digits_val h); minute = int (digits_val m) in
         if hour < 0 \<or> 23 < hour \<or> minute < 0 \<or> 59 < minute then Inl (err_time_range part)
         else Inr \<lparr>ct_hour = hour, ct_minute = minute\<rparr>)"

text \<open>The loop over the comma-separated parts; \<open>acc\<close> is the list so far, whose members
  are the \<open>seen\<close> map.\<close>

fun parse_time_parts :: "gostring list \<Rightarrow> clock_time list \<Rightarrow> goerror + clock_time list" where
  "parse_time_parts [] acc = Inr acc"
| "parse_time_parts (raw # rest) acc =
     (let part = trim_space raw in
      if part = [] then parse_time_parts rest acc
      else (case parse_clock part of
          Inl e \<Rightarrow> Inl e
        | Inr c \<Rightarrow> parse_time_parts rest (if c \<in> set acc then acc else acc @ [c])))"

definition parse_daily_times :: "gostring \<Rightarrow> goerror + clock_time list" where
  "parse_daily_times text =
     (let raw = trim_space text in
      if raw = [] \<or> to_lower raw \<in> set off_values then Inr []
      else (case parse_time_parts (split_on (CHR '','') raw) [] of
          Inl e \<Rightarrow> Inl e
        | Inr cs \<Rightarrow> Inr (sort_by clock_before cs)))"

section \<open>Weekdays\<close>

text \<open>The Chinese spellings are the bytes of their UTF-8 encodings: \<open>zhou\<close> is the word
  for week, \<open>cn_digits\<close> the numerals one to six, then the two words for Sunday.\<close>

definition zhou :: gostring where "zhou = [CHR 0xE5, CHR 0x91, CHR 0xA8]"

definition cn_days :: "(gostring \<times> int) list" where
  "cn_days = [([CHR 0xE4, CHR 0xB8, CHR 0x80], 1), ([CHR 0xE4, CHR 0xBA, CHR 0x8C], 2),
     ([CHR 0xE4, CHR 0xB8, CHR 0x89], 3), ([CHR 0xE5, CHR 0x9B, CHR 0x9B], 4),
     ([CHR 0xE4, CHR 0xBA, CHR 0x94], 5), ([CHR 0xE5, CHR 0x85, CHR 0xAD], 6),
     ([CHR 0xE6, CHR 0x97, CHR 0xA5], 7), ([CHR 0xE5, CHR 0xA4, CHR 0xA9], 7)]"

definition weekday_names :: "(gostring \<times> int) list" where
  "weekday_names =
     [(''mon'', 1), (''monday'', 1), (''tue'', 2), (''tues'', 2), (''tuesday'', 2),
      (''wed'', 3), (''wednesday'', 3), (''thu'', 4), (''thur'', 4), (''thurs'', 4),
      (''thursday'', 4), (''fri'', 5), (''friday'', 5), (''sat'', 6), (''saturday'', 6),
      (''sun'', 7), (''sunday'', 7)]
     @ cn_days @ map (\<lambda>(d, n). (zhou @ d, n)) cn_days"

text \<open>The ideographic comma, which separates like an ASCII one.\<close>

definition cn_comma :: gostring where "cn_comma = [CHR 0xE3, CHR 0x80, CHR 0x81]"

definition err_weekday :: "gostring \<Rightarrow> goerror" where
  "err_weekday part = ''invalid weekday '' @ quote part @ ''; use Mon or an ISO weekday number''"

definition parse_weekday :: "gostring \<Rightarrow> goerror + int" where
  "parse_weekday part = (case atoi part of
       Some n \<Rightarrow> if n < 1 \<or> 7 < n then Inl (err_weekday part) else Inr n
     | None \<Rightarrow> (case map_of weekday_names part of
           None \<Rightarrow> Inl (err_weekday part)
         | Some d \<Rightarrow> Inr d))"

fun parse_weekday_parts :: "gostring list \<Rightarrow> int list \<Rightarrow> goerror + int list" where
  "parse_weekday_parts [] acc = Inr acc"
| "parse_weekday_parts (raw # rest) acc =
     (let part = to_lower (trim_space raw) in
      if part = [] then parse_weekday_parts rest acc
      else (case parse_weekday part of
          Inl e \<Rightarrow> Inl e
        | Inr d \<Rightarrow> parse_weekday_parts rest (if d \<in> set acc then acc else acc @ [d])))"

definition parse_weekdays :: "gostring \<Rightarrow> goerror + int list" where
  "parse_weekdays text =
     (if trim_space text = [] then Inr []
      else parse_weekday_parts (split_on (CHR '','') (replace_all cn_comma '','' text)) [])"

definition parse_weekly_schedule :: "gostring \<Rightarrow> goerror + int list \<times> clock_time list" where
  "parse_weekly_schedule text =
     (let raw = trim_space text in
      if raw = [] \<or> to_lower raw \<in> set off_values then Inr ([], [])
      else (case cut raw '' '' of
          None \<Rightarrow> (case parse_daily_times raw of Inl e \<Rightarrow> Inl e | Inr ts \<Rightarrow> Inr ([], ts))
        | Some (a, b) \<Rightarrow> (case parse_weekdays a of
              Inl e \<Rightarrow> Inl e
            | Inr ds \<Rightarrow> (case parse_daily_times (trim_space b) of
                  Inl e \<Rightarrow> Inl e
                | Inr ts \<Rightarrow> Inr (ds, ts)))))"

section \<open>Describing a schedule\<close>

definition weekday_labels :: "gostring list" where
  "weekday_labels = [''Mon'', ''Tue'', ''Wed'', ''Thu'', ''Fri'', ''Sat'', ''Sun'']"

text \<open>The weekdays are those the parser accepts, 1 to 7; another one would be an index out of
  range in the source, \<open>None\<close> here.\<close>

definition describe :: "clock_time list \<Rightarrow> int list \<Rightarrow> gostring option" where
  "describe ts weekdays =
     (if ts = [] then Some ''Disabled''
      else let clock = join '' / '' (map clock_string ts) in
        if weekdays = [] then Some (''Daily '' @ clock)
        else let days = sort_by (<) weekdays in
          if list_all (\<lambda>d. 1 \<le> d \<and> d \<le> 7) days
          then Some (''Weekly '' @ join '', '' (map (\<lambda>d. weekday_labels ! nat (d - 1)) days) @ '' '' @ clock)
          else None)"

section \<open>The next occurrence\<close>

definition iso_weekday :: "gotime \<Rightarrow> int" where
  "iso_weekday t = (if t_weekday t = 0 then 7 else t_weekday t)"

definition clock_on :: "gotime \<Rightarrow> zone \<Rightarrow> clock_time \<Rightarrow> gotime" where
  "clock_on day z c = date_time (t_year day) (t_month day) (t_day day) (ct_hour c) (ct_minute c) 0 0 z"

text \<open>The inner loop: the first of the ordered times that lies after now.\<close>

definition first_after :: "gotime \<Rightarrow> gotime \<Rightarrow> clock_time list \<Rightarrow> gotime option" where
  "first_after now day ordered =
     (case filter (\<lambda>c. t_after (clock_on day (t_zone now) c) now) ordered of
        [] \<Rightarrow> None | c # _ \<Rightarrow> Some (clock_on day (t_zone now) c))"

text \<open>The outer loop over \<open>fuel\<close> days from \<open>offset\<close> on.\<close>

fun search_days :: "nat \<Rightarrow> int \<Rightarrow> gotime \<Rightarrow> clock_time list \<Rightarrow> int list \<Rightarrow> gotime option" where
  "search_days 0 off now ordered weekdays = None"
| "search_days (Suc n) off now ordered weekdays =
     (let day = add_date now 0 0 off in
      if weekdays \<noteq> [] \<and> iso_weekday day \<notin> set weekdays then search_days n (off + 1) now ordered weekdays
      else (case first_after now day ordered of
          Some t \<Rightarrow> Some t
        | None \<Rightarrow> search_days n (off + 1) now ordered weekdays))"

definition next_occurrence :: "gotime \<Rightarrow> clock_time list \<Rightarrow> int list \<Rightarrow> gotime option" where
  "next_occurrence now ts weekdays =
     (if ts = [] then None
      else search_days 8 0 now (sort_by clock_before ts) weekdays)"

section \<open>Timestamps\<close>

definition utc_iso :: "gotime \<Rightarrow> gostring option" where
  "utc_iso t = (if is_zero t then None else Some (fmt_iso_utc t))"


section \<open>Parsing yields well-formed schedules\<close>

definition valid_clock :: "clock_time \<Rightarrow> bool" where
  "valid_clock c \<longleftrightarrow> 0 \<le> ct_hour c \<and> ct_hour c \<le> 23 \<and> 0 \<le> ct_minute c \<and> ct_minute c \<le> 59"

definition minute_of_day :: "clock_time \<Rightarrow> int" where
  "minute_of_day c = 60 * ct_hour c + ct_minute c"

lemma strict_weak_clock_before: "strict_weak clock_before"
  unfolding strict_weak_def clock_before_def by (intro conjI allI impI) linarith+

lemma clock_before_minutes:
  "valid_clock c \<Longrightarrow> valid_clock d \<Longrightarrow> clock_before c d \<longleftrightarrow> minute_of_day c < minute_of_day d"
  unfolding valid_clock_def clock_before_def minute_of_day_def by linarith

lemma parse_clock_valid: "parse_clock part = Inr c \<Longrightarrow> valid_clock c"
  by (auto simp: parse_clock_def valid_clock_def Let_def split: option.splits if_splits)

lemma parse_time_parts_valid:
  "parse_time_parts parts acc = Inr cs \<Longrightarrow> list_all valid_clock acc \<Longrightarrow> distinct acc \<Longrightarrow>
   list_all valid_clock cs \<and> distinct cs"
proof (induction parts acc rule: parse_time_parts.induct)
  case (2 raw rest acc)
  show ?case
  proof (cases "trim_space raw = []")
    case True
    with 2 show ?thesis by (simp add: Let_def)
  next
    case False
    then obtain c where c: "parse_clock (trim_space raw) = Inr c"
      and rest: "parse_time_parts rest (if c \<in> set acc then acc else acc @ [c]) = Inr cs"
      using "2.prems"(1) by (auto simp: Let_def split: sum.splits)
    show ?thesis
      using "2.IH"(2) [OF refl False c rest] "2.prems"(2,3) parse_clock_valid [OF c]
      by (auto split: if_splits)
  qed
qed simp

lemma parse_daily_times_wf:
  assumes "parse_daily_times text = Inr cs"
  shows "list_all valid_clock cs \<and> distinct cs \<and> sorted_wrt (\<lambda>a b. \<not> clock_before b a) cs"
proof (cases "trim_space text = [] \<or> to_lower (trim_space text) \<in> set off_values")
  case False
  then obtain cs' where p: "parse_time_parts (split_on (CHR '','') (trim_space text)) [] = Inr cs'"
    and cs: "cs = sort_by clock_before cs'"
    using assms by (auto simp: parse_daily_times_def Let_def split: sum.splits)
  from parse_time_parts_valid [OF p] have v: "list_all valid_clock cs'" "distinct cs'" by simp_all
  have "mset cs = mset cs'" by (simp add: cs)
  then have "distinct cs" using v(2) by (metis distinct_count_atmost_1 set_mset_mset)
  with v(1) show ?thesis by (simp add: cs list_all_iff sorted_sort_by strict_weak_clock_before)
qed (use assms in \<open>auto simp: parse_daily_times_def Let_def\<close>)

lemma weekday_names_range: "map_of weekday_names s = Some d \<Longrightarrow> 1 \<le> d \<and> d \<le> 7"
proof -
  assume "map_of weekday_names s = Some d"
  then have "(s, d) \<in> set weekday_names" by (rule map_of_SomeD)
  moreover have "\<forall>p \<in> set weekday_names. 1 \<le> snd p \<and> snd p \<le> 7"
    by (simp add: weekday_names_def cn_days_def)
  ultimately show ?thesis by fastforce
qed

lemma parse_weekday_range: "parse_weekday part = Inr d \<Longrightarrow> 1 \<le> d \<and> d \<le> 7"
  by (auto simp: parse_weekday_def weekday_names_range split: option.splits if_splits)

lemma parse_weekday_parts_range:
  "parse_weekday_parts parts acc = Inr ds \<Longrightarrow> \<forall>d \<in> set acc. 1 \<le> d \<and> d \<le> 7 \<Longrightarrow>
   \<forall>d \<in> set ds. 1 \<le> d \<and> d \<le> 7"
proof (induction parts acc rule: parse_weekday_parts.induct)
  case (2 raw rest acc)
  show ?case
  proof (cases "to_lower (trim_space raw) = []")
    case True
    with 2 show ?thesis by (simp add: Let_def)
  next
    case False
    then obtain d where d: "parse_weekday (to_lower (trim_space raw)) = Inr d"
      and rest: "parse_weekday_parts rest (if d \<in> set acc then acc else acc @ [d]) = Inr ds"
      using "2.prems"(1) by (auto simp: Let_def split: sum.splits)
    show ?thesis
      by (rule "2.IH"(2) [OF refl False d rest]) (use "2.prems"(2) parse_weekday_range [OF d] in auto)
  qed
qed simp

lemma parse_weekdays_range: "parse_weekdays text = Inr ds \<Longrightarrow> \<forall>d \<in> set ds. 1 \<le> d \<and> d \<le> 7"
  by (auto simp: parse_weekdays_def dest: parse_weekday_parts_range split: if_splits)

section \<open>The next occurrence is the earliest one\<close>

lemma first_after_Some:
  "first_after now day cs = Some t \<Longrightarrow>
   t_after t now \<and> (\<exists>c \<in> set cs. t = clock_on day (t_zone now) c)"
proof -
  assume a: "first_after now day cs = Some t"
  then obtain c r where f: "filter (\<lambda>c. t_after (clock_on day (t_zone now) c) now) cs = c # r"
    and t: "t = clock_on day (t_zone now) c"
    by (auto simp: first_after_def split: list.splits)
  from f have "c \<in> set cs" "t_after (clock_on day (t_zone now) c) now"
    by (metis (mono_tags) filter_eq_Cons_iff in_set_conv_decomp)+
  with t show ?thesis by blast
qed

text \<open>Whatever the zone: a later instant, on an admissible day, at one of the times.\<close>

lemma search_days_Some:
  "search_days n off now cs wd = Some t \<Longrightarrow> t_after t now \<and>
   (\<exists>k c. off \<le> k \<and> k < off + int n \<and> c \<in> set cs \<and> (wd = [] \<or> iso_weekday (add_date now 0 0 k) \<in> set wd)
      \<and> t = clock_on (add_date now 0 0 k) (t_zone now) c)"
proof (induction n arbitrary: off)
  case (Suc n)
  let ?day = "add_date now 0 0 off"
  have later: ?case if "search_days n (off + 1) now cs wd = Some t"
  proof -
    obtain k c where "t_after t now" "off + 1 \<le> k" "k < off + 1 + int n" "c \<in> set cs"
      "wd = [] \<or> iso_weekday (add_date now 0 0 k) \<in> set wd"
      "t = clock_on (add_date now 0 0 k) (t_zone now) c"
      using Suc.IH [of "off + 1"] \<open>search_days n (off + 1) now cs wd = Some t\<close> by blast
    then show ?thesis by (intro conjI exI [of _ k] exI [of _ c]) simp_all
  qed
  show ?case
  proof (cases "wd \<noteq> [] \<and> iso_weekday ?day \<notin> set wd")
    case True
    with Suc.prems show ?thesis by (intro later) (simp add: Let_def)
  next
    case adm: False
    show ?thesis
    proof (cases "first_after now ?day cs")
      case None
      with adm Suc.prems show ?thesis by (intro later) (auto simp: Let_def)
    next
      case (Some t')
      with adm Suc.prems have "t' = t" by (auto simp: Let_def)
      with first_after_Some [OF Some] adm show ?thesis by (auto intro!: exI [of _ off])
    qed
  qed
qed simp

text \<open>In a zone with a fixed offset a wall-clock reading is one instant.\<close>

definition instant_of :: "int \<Rightarrow> int \<Rightarrow> clock_time \<Rightarrow> int" where
  "instant_of off n c = (n * 86400 + 60 * minute_of_day c - off) * second"

definition admissible :: "int list \<Rightarrow> int \<Rightarrow> bool" where
  "admissible wd n \<longleftrightarrow> wd = [] \<or> iso_weekday_of n \<in> set wd"

lemma resolve_fixed [simp]: "resolve (fixed_zone off) u = u - off"
  by (auto simp: resolve_def fixed_zone_def Let_def)

lemma add_days_fixed:
  assumes "t_zone now = fixed_zone off"
  shows "local_day (add_date now 0 0 k) = local_day now + k"
proof -
  let ?s = "sec_of_day now"
  have s: "0 \<le> ?s" "?s < 86400" by (simp_all add: sec_of_day_def)
  have hms: "t_hour now * 3600 + t_minute now * 60 + t_second now = ?s"
  proof -
    have "?s mod 60 = ?s mod 3600 mod 60" by (simp add: mod_mod_cancel)
    then show ?thesis
      using mult_div_mod_eq [of 3600 ?s] mult_div_mod_eq [of 60 "?s mod 3600"]
      by (simp add: t_hour_def t_minute_def t_second_def mult.commute)
  qed
  have ns: "t_nsec now div second = 0" "t_nsec now mod second = t_nsec now"
    by (simp_all add: t_nsec_def)
  have "t_sec (add_date now 0 0 k) = (local_day now + k) * 86400 + ?s - off"
  proof -
    have u: "day_number (t_year now) (t_month now) (t_day now + k) * 86400 + t_hour now * 3600
        + t_minute now * 60 + t_second now = (local_day now + k) * 86400 + ?s"
      using hms by (simp add: day_number_t_day_add)
    have "(x * second + t_nsec now) div second = x" for x
      by (simp add: t_nsec_def)
    then show ?thesis
      by (simp add: add_date_def date_time_def Let_def t_sec_def assms u ns)
  qed
  moreover have "t_zone (add_date now 0 0 k) = fixed_zone off"
    by (simp add: add_date_def date_time_def Let_def assms)
  ultimately have "local_sec (add_date now 0 0 k) = (local_day now + k) * 86400 + ?s"
    by (simp add: local_sec_def fixed_zone_def)
  then show ?thesis using s by (simp add: local_day_def)
qed

lemma clock_on_fixed:
  "t_ns (clock_on day (fixed_zone off) c) = instant_of off (local_day day) c"
  by (simp add: clock_on_def date_time_def Let_def day_number_t_civil instant_of_def minute_of_day_def
      algebra_simps)

lemma iso_weekday_fixed: "iso_weekday t = iso_weekday_of (local_day t)"
  by (simp add: iso_weekday_def iso_weekday_of_def t_weekday_def)

lemma minute_of_day_range: "valid_clock c \<Longrightarrow> 0 \<le> minute_of_day c" "valid_clock c \<Longrightarrow> minute_of_day c < 1440"
  by (auto simp: valid_clock_def minute_of_day_def)

lemma instant_of_next_day:
  "valid_clock c \<Longrightarrow> valid_clock d \<Longrightarrow> n < n' \<Longrightarrow> instant_of off n c < instant_of off n' d"
proof -
  assume a: "valid_clock c" "valid_clock d" "n < n'"
  then have "n * 86400 + 60 * minute_of_day c < n' * 86400 + 60 * minute_of_day d"
    using minute_of_day_range [OF a(1)] minute_of_day_range [OF a(2)] by linarith
  then show ?thesis by (simp add: instant_of_def second_def)
qed

text \<open>The first later time of a sorted list is the earliest of the later ones.\<close>

lemma first_after_least:
  assumes "t_zone now = fixed_zone off" and "list_all valid_clock cs"
    and "sorted_wrt (\<lambda>a b. \<not> clock_before b a) cs"
    and "first_after now day cs = r" and "c \<in> set cs"
    and "t_ns now < instant_of off (local_day day) c"
  shows "\<exists>t. r = Some t \<and> t_ns t \<le> instant_of off (local_day day) c"
  using assms
proof (induction cs arbitrary: r)
  case (Cons d cs)
  have le: "instant_of off (local_day day) d \<le> instant_of off (local_day day) c"
  proof -
    have "minute_of_day d \<le> minute_of_day c"
      using Cons.prems(2,3,5) clock_before_minutes [of c d] by (auto simp: list_all_iff)
    then show ?thesis by (simp add: instant_of_def second_def)
  qed
  show ?case
  proof (cases "t_after (clock_on day (t_zone now) d) now")
    case True
    then have "r = Some (clock_on day (t_zone now) d)"
      using Cons.prems(4) by (simp add: first_after_def)
    with le Cons.prems(1) show ?thesis by (simp add: clock_on_fixed)
  next
    case False
    then have "c \<noteq> d" using Cons.prems(1,6) by (auto simp: t_after_def clock_on_fixed)
    moreover from False have "first_after now day cs = r" using Cons.prems(4) by (simp add: first_after_def)
    ultimately show ?thesis using Cons by simp
  qed
qed simp

lemma search_days_least:
  assumes "t_zone now = fixed_zone zo" and "list_all valid_clock cs"
    and "sorted_wrt (\<lambda>a b. \<not> clock_before b a) cs"
    and "c \<in> set cs" and "admissible wd (local_day now + k)" and "off \<le> k" and "k < off + int n"
    and "t_ns now < instant_of zo (local_day now + k) c"
  shows "\<exists>t. search_days n off now cs wd = Some t \<and> t_ns t \<le> instant_of zo (local_day now + k) c"
  using assms(6,7)
proof (induction n arbitrary: off)
  case (Suc n)
  let ?day = "add_date now 0 0 off"
  note day = add_days_fixed [OF assms(1), of off]
  have skip: "off \<noteq> k \<Longrightarrow> \<exists>t. search_days n (off + 1) now cs wd = Some t
      \<and> t_ns t \<le> instant_of zo (local_day now + k) c"
    using Suc.IH [of "off + 1"] Suc.prems by simp
  have adm: "wd \<noteq> [] \<and> iso_weekday ?day \<notin> set wd \<longleftrightarrow> \<not> admissible wd (local_day now + off)"
    by (auto simp: admissible_def iso_weekday_fixed day)
  show ?case
  proof (cases "first_after now ?day cs")
    case None
    with first_after_least [OF assms(1-3) None assms(4)] assms(8) have "off \<noteq> k" by (auto simp: day)
    from skip [OF this] None show ?thesis by (simp add: Let_def)
  next
    case (Some t)
    show ?thesis
    proof (cases "off = k")
      case True
      have "\<not> (wd \<noteq> [] \<and> iso_weekday ?day \<notin> set wd)" using adm assms(5) True by simp
      then have "search_days (Suc n) off now cs wd = Some t" using Some by (auto simp: Let_def)
      moreover have "t_ns t \<le> instant_of zo (local_day now + k) c"
        using first_after_least [OF assms(1-3) Some assms(4)] assms(8) day unfolding True by simp
      ultimately show ?thesis by blast
    next
      case False
      from first_after_Some [OF Some] obtain d where d: "d \<in> set cs" "t = clock_on ?day (fixed_zone zo) d"
        using assms(1) by auto
      have "t_ns t < instant_of zo (local_day now + k) c"
        using False Suc.prems d assms(2,4)
        by (auto simp: clock_on_fixed day list_all_iff intro!: instant_of_next_day)
      with skip [OF False] Some show ?thesis by (auto simp: Let_def)
    qed
  qed
qed simp

lemma iso_weekday_of_range: "1 \<le> iso_weekday_of n \<and> iso_weekday_of n \<le> 7"
  by (simp add: iso_weekday_of_eq)

lemma iso_weekday_of_reach:
  assumes "1 \<le> d" "d \<le> 7"
  shows "\<exists>k. 1 \<le> k \<and> k \<le> 7 \<and> iso_weekday_of (n + k) = d"
proof -
  define r where "r = (n + 3) mod 7"
  define k where "k = (if r < d - 1 then d - 1 - r else d - 1 - r + 7)"
  have r: "0 \<le> r" "r < 7" by (simp_all add: r_def)
  have "(n + k + 3) mod 7 = (r + k) mod 7" by (simp add: r_def mod_simps ac_simps)
  also have "\<dots> = d - 1"
  proof (cases "r < d - 1")
    case True
    then show ?thesis using assms by (simp add: k_def)
  next
    case False
    then have "r + k = (d - 1) + 7" by (simp add: k_def)
    then have "(r + k) mod 7 = (d - 1) mod 7" by (simp only: mod_add_self2)
    then show ?thesis using assms by simp
  qed
  finally show ?thesis using r assms by (intro exI [of _ k]) (auto simp: iso_weekday_of_eq k_def)
qed

lemma local_day_start:
  assumes "t_zone now = fixed_zone zo"
  shows "(local_day now * 86400 - zo) * second \<le> t_ns now" "t_ns now < ((local_day now + 1) * 86400 - zo) * second"
proof -
  let ?s = "t_sec now"
  have l: "local_sec now = ?s + zo" by (simp add: local_sec_def assms fixed_zone_def)
  have "local_day now * 86400 \<le> ?s + zo" "?s + zo < (local_day now + 1) * 86400"
    unfolding local_day_def l using div_bounds [of 86400 "?s + zo"] by (simp_all add: mult.commute)
  moreover have "?s * second \<le> t_ns now" "t_ns now < (?s + 1) * second"
    unfolding t_sec_def using div_bounds [of second "t_ns now"] by (simp_all add: mult.commute)
  ultimately show "(local_day now * 86400 - zo) * second \<le> t_ns now"
    "t_ns now < ((local_day now + 1) * 86400 - zo) * second"
    by (simp_all add: second_def)
qed

lemma instant_after_day:
  assumes "t_zone now = fixed_zone zo" and "valid_clock c" and "1 \<le> k"
  shows "t_ns now < instant_of zo (local_day now + k) c"
proof -
  have "(local_day now + 1) * 86400 - zo \<le> (local_day now + k) * 86400 + 60 * minute_of_day c - zo"
    using assms(3) minute_of_day_range [OF assms(2)] by (simp add: distrib_right)
  then have "((local_day now + 1) * 86400 - zo) * second \<le> instant_of zo (local_day now + k) c"
    by (simp add: instant_of_def second_def)
  with local_day_start(2) [OF assms(1)] show ?thesis by linarith
qed

lemma instant_not_past:
  assumes "t_zone now = fixed_zone zo" and "valid_clock c" and "t_ns now < instant_of zo n c"
  shows "local_day now \<le> n"
proof (rule ccontr)
  assume "\<not> local_day now \<le> n"
  then have "n * 86400 + 60 * minute_of_day c - zo \<le> local_day now * 86400 - zo"
    using assms(2) minute_of_day_range [OF assms(2)] by linarith
  then have "instant_of zo n c \<le> (local_day now * 86400 - zo) * second"
    by (simp add: instant_of_def second_def)
  with local_day_start(1) [OF assms(1)] assms(3) show False by linarith
qed

text \<open>With a valid schedule there always is a next occurrence within the week.\<close>

lemma next_occurrence_exists:
  assumes z: "t_zone now = fixed_zone zo" and "list_all valid_clock ts" and "ts \<noteq> []"
    and "\<forall>d \<in> set wd. 1 \<le> d \<and> d \<le> 7"
  shows "\<exists>t. next_occurrence now ts wd = Some t"
proof -
  obtain c where c: "c \<in> set ts" "valid_clock c" using assms(2,3) by (cases ts) auto
  obtain k where k: "1 \<le> k" "k \<le> 7" "admissible wd (local_day now + k)"
  proof (cases wd)
    case Nil
    then show ?thesis using that [of 1] by (simp add: admissible_def)
  next
    case (Cons d r)
    with assms(4) iso_weekday_of_reach [of d "local_day now"] that show ?thesis
      by (auto simp: admissible_def)
  qed
  have "\<exists>t. search_days 8 0 now (sort_by clock_before ts) wd = Some t
      \<and> t_ns t \<le> instant_of zo (local_day now + k) c"
    using assms c k instant_after_day [OF z c(2) k(1)]
    by (intro search_days_least) (auto simp: list_all_iff sorted_sort_by strict_weak_clock_before)
  then show ?thesis using assms(3) by (auto simp: next_occurrence_def)
qed

section \<open>Printing and parsing\<close>

lemma clock_string_form:
  assumes "valid_clock c"
  shows "clock_string c = [digit_char (nat (ct_hour c) div 10), digit_char (nat (ct_hour c) mod 10), CHR '':'',
    digit_char (nat (ct_minute c) div 10), digit_char (nat (ct_minute c) mod 10)]"
  using assms by (simp add: clock_string_def valid_clock_def pad_int_2)

lemma digit_not_colon:
  assumes "n < 10"
  shows "digit_char n \<noteq> CHR '':''" "CHR '','' \<noteq> digit_char n" "digit_char n \<noteq> CHR '',''"
proof -
  have "\<not> is_digit (CHR '':'')" "\<not> is_digit (CHR '','')" by (simp_all add: is_digit_def byte_def)
  then show "digit_char n \<noteq> CHR '':''" "CHR '','' \<noteq> digit_char n" "digit_char n \<noteq> CHR '',''"
    using is_digit_digit_char [OF assms] by metis+
qed

lemma parse_clock_string:
  assumes "valid_clock c"
  shows "parse_clock (clock_string c) = Inr c"
proof -
  let ?h = "nat (ct_hour c)" and ?m = "nat (ct_minute c)"
  have r: "?h < 24" "?m < 60" "?h div 10 < 10" "?m div 10 < 10" using assms by (auto simp: valid_clock_def)
  have "cut (clock_string c) '':'' =
      Some ([digit_char (?h div 10), digit_char (?h mod 10)], [digit_char (?m div 10), digit_char (?m mod 10)])"
    using r by (simp add: clock_string_form [OF assms] digit_not_colon)
  then show ?thesis
    using r assms by (simp add: parse_clock_def match_time_def digits_val_def Let_def valid_clock_def)
qed

lemma clock_string_chars:
  assumes "valid_clock c"
  shows "clock_string c \<noteq> []" "hd (clock_string c) \<noteq> CHR '',''" "graphic (hd (clock_string c))"
    "graphic (last (clock_string c))" "CHR '','' \<notin> set (clock_string c)" "CHR '':'' \<in> set (clock_string c)"
    "trim_space (clock_string c) = clock_string c"
proof -
  have r: "nat (ct_hour c) div 10 < 10" "nat (ct_minute c) div 10 < 10" using assms by (auto simp: valid_clock_def)
  show "clock_string c \<noteq> []" "hd (clock_string c) \<noteq> CHR '',''" "graphic (hd (clock_string c))"
    "graphic (last (clock_string c))" "CHR '','' \<notin> set (clock_string c)" "CHR '':'' \<in> set (clock_string c)"
    using r digit_not_colon by (auto simp: clock_string_form [OF assms] graphic_digit)
  then show "trim_space (clock_string c) = clock_string c" by (intro trim_space_graphic)
qed

lemma parse_time_parts_strings:
  "list_all valid_clock cs \<Longrightarrow> distinct (acc @ cs) \<Longrightarrow>
   parse_time_parts (map clock_string cs) acc = Inr (acc @ cs)"
proof (induction cs arbitrary: acc)
  case (Cons c cs)
  then show ?case
    by (simp add: clock_string_chars parse_clock_string Let_def)
qed simp

lemma describe_parsed:
  assumes "\<forall>d \<in> set ds. 1 \<le> d \<and> d \<le> 7"
  shows "describe ts ds \<noteq> None"
  using assms by (auto simp: describe_def Let_def list_all_iff)

lemma parse_weekly_schedule_wf:
  assumes "parse_weekly_schedule text = Inr (ds, ts)"
  shows "list_all valid_clock ts \<and> distinct ts \<and> sorted_wrt (\<lambda>a b. \<not> clock_before b a) ts \<and> (\<forall>d \<in> set ds. 1 \<le> d \<and> d \<le> 7)"
  using assms parse_daily_times_wf parse_weekdays_range
  unfolding parse_weekly_schedule_def Let_def
  by (auto split: if_splits option.splits sum.splits prod.splits)

section \<open>Properties\<close>



text \<open>A weekly schedule that parses is well formed (valid, distinct times in order;
  weekdays 1 to 7), can be described without an index out of range, and, unless it is
  disabled, always has a next occurrence.\<close>
lemma parse_weekly_schedule_runs:
  assumes "parse_weekly_schedule text = Inr (ds, ts)"
  shows "list_all valid_clock ts \<and> distinct ts \<and> sorted_wrt (\<lambda>a b. \<not> clock_before b a) ts
    \<and> (\<forall>d \<in> set ds. 1 \<le> d \<and> d \<le> 7) \<and> describe ts ds \<noteq> None
    \<and> (ts = [] \<or> (\<forall>now zo. t_zone now = fixed_zone zo \<longrightarrow> next_occurrence now ts ds \<noteq> None))"
  using parse_weekly_schedule_wf [OF assms] describe_parsed [of ds ts] next_occurrence_exists [of _ _ ts ds]
  by (cases "ts = []") fastforce+

lemma parse_weekly_schedule_runs_witness:
  "parse_weekly_schedule ''Mon,fri 09:30,8:05'' = Inr ([1, 5], [\<lparr>ct_hour = 8, ct_minute = 5\<rparr>, \<lparr>ct_hour = 9, ct_minute = 30\<rparr>])
   \<and> describe [\<lparr>ct_hour = 8, ct_minute = 5\<rparr>, \<lparr>ct_hour = 9, ct_minute = 30\<rparr>] [1, 5] \<noteq> None"
proof -
  have p: "parse_weekly_schedule ''Mon,fri 09:30,8:05'' = Inr ([1, 5], [\<lparr>ct_hour = 8, ct_minute = 5\<rparr>, \<lparr>ct_hour = 9, ct_minute = 30\<rparr>])"
    by code_simp
  with parse_weekly_schedule_runs [OF p] show ?thesis by simp
qed

text \<open>Printing the times of a schedule as \<open>HH:MM\<close> and parsing the text gives them
  back.\<close>
lemma parse_daily_times_print:
  assumes "cs \<noteq> []" and "list_all valid_clock cs" and "distinct cs"
    and "sorted_wrt (\<lambda>a b. \<not> clock_before b a) cs"
  shows "parse_daily_times (join '','' (map clock_string cs)) = Inr cs"
proof -
  let ?t = "join '','' (map clock_string cs)"
  have v: "\<forall>s \<in> set (map clock_string cs). s \<noteq> [] \<and> graphic (hd s) \<and> graphic (last s) \<and> CHR '','' \<notin> set s"
    using assms(2) by (auto simp: list_all_iff clock_string_chars)
  have ne: "map clock_string cs \<noteq> []" using assms(1) by simp
  from join_ends [OF ne, of "'',''"] v have e: "?t \<noteq> []" "hd ?t = hd (hd (map clock_string cs))"
    "last ?t = last (last (map clock_string cs))" by auto
  have "graphic (hd ?t)" "graphic (last ?t)"
    using v ne e(2,3) by (metis hd_in_set last_in_set)+
  then have t: "trim_space ?t = ?t" using e(1) by (intro trim_space_graphic)
  have sp: "split_on (CHR '','') ?t = map clock_string cs"
    using split_on_join [OF ne, of "CHR '',''"] v by blast
  have colon: "CHR '':'' \<in> set (to_lower ?t)"
  proof -
    obtain c r where c: "cs = c # r" using assms(1) by (cases cs) auto
    have "CHR '':'' \<in> set (clock_string c)" using assms(2) by (simp add: c clock_string_chars)
    then have "CHR '':'' \<in> set ?t" by (cases r) (auto simp: c)
    moreover have "lower_char (CHR '':'') = CHR '':''" by (simp add: lower_char_def byte_def)
    ultimately show ?thesis unfolding to_lower_def set_map by force
  qed
  then have "to_lower ?t \<notin> set off_values" by (auto simp: off_values_def)
  with e(1) t sp parse_time_parts_strings [OF assms(2), of "[]"] assms show ?thesis
    by (simp add: parse_daily_times_def Let_def sort_by_sorted strict_weak_clock_before)
qed

lemma parse_daily_times_print_witness:
  "parse_daily_times ''08:05,09:30'' = Inr [\<lparr>ct_hour = 8, ct_minute = 5\<rparr>, \<lparr>ct_hour = 9, ct_minute = 30\<rparr>]"
proof -
  have e: "''08:05,09:30'' = join '','' (map clock_string [\<lparr>ct_hour = 8, ct_minute = 5\<rparr>, \<lparr>ct_hour = 9, ct_minute = 30\<rparr>])"
    by code_simp
  show ?thesis unfolding e by (rule parse_daily_times_print) (simp_all add: valid_clock_def clock_before_def)
qed

end
