(* ===== verification/Renewal.thy ===== *)
theory Renewal
  imports Model GoTime
begin

text \<open>
  The renewal calendar of a subscription (\<open>internal/subscription/date.go\<close>).  The
  definitions follow the source on zoned times; the lemmas then read them as day numbers:
  a schedule is a strictly increasing sequence of days (locale \<open>renewal_cycle\<close>), of which
  the source's \<open>onOrAfter\<close>, \<open>before\<close> and \<open>after\<close> are the successor functions.  The
  conversion between the lunar and the Gregorian calendar belongs to a third-party package
  and is a parameter.
\<close>

section \<open>Days and months\<close>

definition split_mmdd :: "int \<Rightarrow> (int \<times> int) option" where
  "split_mmdd rd = (if rd \<le> 31 then None
     else let month = rd div 100; day = rd mod 100 in
       if 1 \<le> month \<and> month \<le> 12 \<and> 1 \<le> day \<and> day \<le> 31 then Some (month, day) else None)"

definition take_digits :: "gostring \<Rightarrow> gostring \<times> gostring" where
  "take_digits s = (takeWhile is_digit s, dropWhile is_digit s)"

text \<open>RE2's \<open>\s\<close>: tab, newline, form feed, carriage return and space.\<close>

definition re_space :: "char \<Rightarrow> bool" where
  "re_space c \<longleftrightarrow> byte c \<in> {9, 10, 12, 13, 32}"

definition skip_spaces :: "gostring \<Rightarrow> gostring" where
  "skip_spaces s = dropWhile re_space s"

definition yue :: gostring where "yue = [CHR 0xE6, CHR 0x9C, CHR 0x88]" \<comment> \<open>the month sign\<close>
definition ri :: gostring where "ri = [CHR 0xE6, CHR 0x97, CHR 0xA5]"  \<comment> \<open>the day sign\<close>

text \<open>The pattern \<open>^(\d{1,2})\s*[-/yue]\s*(\d{1,2})\s*ri?$\<close>: its two groups.\<close>

definition match_mmdd :: "gostring \<Rightarrow> (gostring \<times> gostring) option" where
  "match_mmdd s =
     (let (m, r1) = take_digits s; r2 = skip_spaces r1;
          r3 = (if has_prefix r2 ''-'' \<or> has_prefix r2 ''/'' then Some (drop 1 r2)
                else if has_prefix r2 yue then Some (drop 3 r2) else None)
      in case r3 of None \<Rightarrow> None
         | Some r \<Rightarrow> let (d, r4) = take_digits (skip_spaces r); r5 = skip_spaces r4
             in if length m \<in> {1, 2} \<and> length d \<in> {1, 2} \<and> (r5 = [] \<or> r5 = ri) then Some (m, d) else None)"

definition coerce_renewal_day :: "gostring \<Rightarrow> gostring \<Rightarrow> int option" where
  "coerce_renewal_day value cycle_type =
     (let text = trim_space value in case match_mmdd text of
        Some (m, d) \<Rightarrow>
          (if cycle_type = CycleYearly \<or> cycle_type = CycleLunarYearly
           then Some (int (digits_val m) * 100 + int (digits_val d)) else Some (int (digits_val d)))
      | None \<Rightarrow> atoi text)"

text \<open>The language's division and remainder truncate towards zero.\<close>

definition go_div :: "int \<Rightarrow> int \<Rightarrow> int" where
  "go_div a b = sgn a * sgn b * (\<bar>a\<bar> div \<bar>b\<bar>)"

definition go_mod :: "int \<Rightarrow> int \<Rightarrow> int" where
  "go_mod a b = a - b * go_div a b"

definition floor_div :: "int \<Rightarrow> int \<Rightarrow> int" where
  "floor_div a b = (let q = go_div a b in
     if go_mod a b \<noteq> 0 \<and> ((a < 0) \<noteq> (b < 0)) then q - 1 else q)"

definition floor_mod :: "int \<Rightarrow> int \<Rightarrow> int" where
  "floor_mod a b = a - floor_div a b * b"

definition days_in_month :: "int \<Rightarrow> int \<Rightarrow> int" where
  "days_in_month y m = t_day (date_time y (m + 1) 0 0 0 0 0 utc_zone)"

definition safe_month_date :: "int \<Rightarrow> int \<Rightarrow> int \<Rightarrow> zone \<Rightarrow> gotime" where
  "safe_month_date y m d z =
     (let max_day = days_in_month y m;
          d1 = (if max_day < d then max_day else d);
          d2 = (if d1 < 1 then 1 else d1)
      in date_time y m d2 0 0 0 0 z)"

definition shift_month :: "gotime \<Rightarrow> int \<Rightarrow> int \<Rightarrow> gotime" where
  "shift_month base months day =
     (let total = t_month base - 1 + months
      in safe_month_date (t_year base + floor_div total 12) (floor_mod total 12 + 1) day (t_zone base))"

definition safe_replace_year :: "gotime \<Rightarrow> int \<Rightarrow> gotime" where
  "safe_replace_year base y = safe_month_date y (t_month base) (t_day base) (t_zone base)"

definition start_of_day :: "gotime \<Rightarrow> gotime" where
  "start_of_day t = date_time (t_year t) (t_month t) (t_day t) 0 0 0 0 (t_zone t)"

definition iso_weekday' :: "gotime \<Rightarrow> int" where
  "iso_weekday' t = (if t_weekday t = 0 then 7 else t_weekday t)"

text \<open>\<open>Duration.Hours\<close>: whole hours, plus the rest divided by an hour, in floating
  point.\<close>

definition dur_hours :: "duration \<Rightarrow> f64" where
  "dur_hours d = fadd (f64_of_int (go_div d hour)) (fdiv (f64_of_int (go_mod d hour)) (f64_of_int hour))"

definition days_between :: "gotime \<Rightarrow> gotime \<Rightarrow> int" where
  "days_between from to =
     (let a = date_time (t_year from) (t_month from) (t_day from) 0 0 0 0 utc_zone;
          b = date_time (t_year to) (t_month to) (t_day to) 0 0 0 0 utc_zone
      in f64_to_int64 (fdiv (dur_hours (t_sub b a)) (f64_of_int 24)))"

lemma go_div_nonneg: "0 \<le> a \<Longrightarrow> 0 < b \<Longrightarrow> go_div a b = a div b"
  by (cases "a = 0") (simp_all add: go_div_def)

text \<open>A duration divided into days through floating-point hours: at least the whole days it
  holds, and at most a day too many.\<close>

lemma dur_hours_bounds:
  assumes "0 < d" and "d \<le> 100000 * day_dur"
  obtains y where "dur_hours d = Fin y" "of_int (24 * (d div day_dur)) \<le> y" "y \<le> 2400001"
proof -
  define k where "k = d div day_dur"
  define q where "q = d div hour"
  have day: "0 < day_dur" and h: "0 < hour" by simp_all
  have q24: "24 * k \<le> q" "q \<le> 2400000" "0 \<le> k"
  proof -
    have "24 * k * hour \<le> d" using div_bounds [OF day, of d] by (simp add: k_def ac_simps)
    then have "(24 * k * hour) div hour \<le> q" unfolding q_def by (rule zdiv_mono1 [OF _ h])
    then show "24 * k \<le> q" by simp
    have "q \<le> (2400000 * hour) div hour" unfolding q_def using assms(2) by (intro zdiv_mono1 [OF _ h]) simp
    then show "q \<le> 2400000" by simp
    show "0 \<le> k" using assms(1) by (simp add: k_def pos_imp_zdiv_nonneg_iff)
  qed
  have gd: "go_div d hour = q" "go_mod d hour = d mod hour"
    using assms(1) by (simp_all add: go_mod_def go_div_nonneg minus_mult_div_eq_mod q_def)
  have f1: "f64_of_int q = Fin (of_int q)" using q24 by (intro f64_of_int_small) simp
  have hr: "f64_of_int hour = Fin 3600000000000" by (simp add: f64_of_int_def second_def)
  have mod_range: "0 \<le> d mod hour" "d mod hour \<le> 3600000000000" "\<bar>d mod hour\<bar> \<le> 2 ^ 53"
    using pos_mod_sign [OF h, of d] pos_mod_bound [OF h, of d] by (simp_all add: second_def)
  obtain x where x: "fdiv (f64_of_int (d mod hour)) (f64_of_int hour) = Fin x" "0 \<le> x" "x \<le> 1"
  proof -
    let ?r = "fdiv (f64_of_int (d mod hour)) (f64_of_int hour)"
    have e: "?r = rnd (of_int (d mod hour) / 3600000000000)"
      unfolding hr using f64_of_int_small [OF mod_range(3)] by simp
    have "(of_int (d mod hour) :: rat) \<le> 3600000000000"
      using mod_range(2) by (simp only: of_int_le_numeral_iff)
    then have "fle (Fin 0) ?r" "fle ?r (Fin 1)"
      using rnd_nonneg [of "of_int (d mod hour) / 3600000000000"]
        rnd_mono [of "of_int (d mod hour) / 3600000000000" 1] mod_range(1) unfolding e by simp_all
    then show ?thesis using that by (cases ?r) auto
  qed
  have dh: "dur_hours d = rnd (of_int q + x)" unfolding dur_hours_def gd f1 x(1) by simp
  have rq: "representable (of_int (24 * k))" using q24 by (intro representable_of_int) simp
  have rm: "representable (2400001)" using representable_of_int [of 2400001] by simp
  have "(of_int (24 * k) :: rat) \<le> of_int q + x" "of_int q + x \<le> (2400001 :: rat)"
    using q24 x(2,3) of_int_le_iff [of "24 * k" q, where 'a = rat] of_int_le_iff [of q 2400000, where 'a = rat]
    by simp_all
  from rnd_mono [OF this(1)] rnd_mono [OF this(2)]
  have "fle (Fin (of_int (24 * k))) (dur_hours d)" "fle (dur_hours d) (Fin 2400001)"
    by (simp_all only: dh rnd_representable [OF rq] rnd_representable [OF rm])
  then show thesis using that unfolding k_def by (cases "dur_hours d") auto
qed

lemma day_quotient:
  assumes "0 < d" and "d \<le> 100000 * day_dur"
  obtains v where "fdiv (dur_hours d) (f64_of_int 24) = Fin v" "of_int (d div day_dur) \<le> v" "v \<le> 100001"
    "0 \<le> d div day_dur"
proof -
  define k where "k = d div day_dur"
  have day: "0 < day_dur" by simp
  obtain y where y: "dur_hours d = Fin y" "of_int (24 * k) \<le> y" "y \<le> 2400001"
    unfolding k_def by (rule dur_hours_bounds [OF assms])
  have k: "0 \<le> k" "k \<le> 100000"
  proof -
    show "0 \<le> k" using assms(1) by (simp add: k_def pos_imp_zdiv_nonneg_iff)
    have "k \<le> (100000 * day_dur) div day_dur" unfolding k_def by (rule zdiv_mono1 [OF assms(2) day])
    then show "k \<le> 100000" by simp
  qed
  have rk: "representable (of_int k)" using k by (intro representable_of_int) simp
  have rl: "representable 100001" using representable_of_int [of 100001] by simp
  have "(of_int k :: rat) \<le> y / 24" "y / 24 \<le> (100001 :: rat)" using y(2,3) by simp_all
  from rnd_mono [OF this(1)] rnd_mono [OF this(2)]
  have "fle (Fin (of_int k)) (fdiv (Fin y) (Fin 24))" "fle (fdiv (Fin y) (Fin 24)) (Fin 100001)"
    by (simp_all only: rnd_representable [OF rk] rnd_representable [OF rl] fdiv_Fin zero_neq_numeral
        not_False_eq_True simp_thms)
  then show thesis using that k(1) y(1) unfolding k_def
    by (cases "fdiv (Fin y) (Fin 24)") (auto simp: f64_of_int_def)
qed

lemma within_days:
  assumes "d div day_dur + 1 \<le> n"
  shows "d \<le> n * day_dur"
proof -
  have day: "0 < day_dur" by simp
  have "(d div day_dur + 1) * day_dur \<le> n * day_dur" using assms less_imp_le [OF day] by (rule mult_right_mono)
  moreover have "d < (d div day_dur + 1) * day_dur" using div_bounds [OF day, of d] by (simp add: ac_simps)
  ultimately show ?thesis by linarith
qed

section \<open>Lunar years\<close>

text \<open>What the source uses of the lunar calendar package: the lunar year a date falls in,
  the number of days of a lunar month (none when the month does not exist), and the
  Gregorian date of a lunar one.\<close>

record lunar_lib =
  ll_year_of :: "gotime \<Rightarrow> int"
  ll_month_days :: "int \<Rightarrow> int \<Rightarrow> int option"
  ll_solar :: "int \<Rightarrow> int \<Rightarrow> int \<Rightarrow> int \<times> int \<times> int"

definition lunar_date :: "lunar_lib \<Rightarrow> int \<Rightarrow> int \<Rightarrow> zone \<Rightarrow> gotime option" where
  "lunar_date lib ly rd z = (case split_mmdd rd of
       None \<Rightarrow> None
     | Some (month, day) \<Rightarrow> if 12 < month then None
         else (case ll_month_days lib ly month of
             None \<Rightarrow> None
           | Some n \<Rightarrow> if n < day then None
               else (case ll_solar lib ly month day of (y, m, d) \<Rightarrow> Some (date_time y m d 0 0 0 0 z))))"

definition next_lunar_yearly_date :: "lunar_lib \<Rightarrow> int \<Rightarrow> gotime \<Rightarrow> gotime" where
  "next_lunar_yearly_date lib rd today =
     (let ly = ll_year_of lib today;
          second_try = (case lunar_date lib (ly + 1) rd (t_zone today) of
              Some c \<Rightarrow> c | None \<Rightarrow> safe_replace_year today (t_year today + 1))
      in case lunar_date lib ly rd (t_zone today) of
           Some c \<Rightarrow> if \<not> t_before c today then c else second_try
         | None \<Rightarrow> second_try)"

definition previous_lunar_yearly_date :: "lunar_lib \<Rightarrow> int \<Rightarrow> gotime \<Rightarrow> gotime" where
  "previous_lunar_yearly_date lib rd next =
     (case lunar_date lib (ll_year_of lib next - 1) rd (t_zone next) of
        Some p \<Rightarrow> p | None \<Rightarrow> add_date next (- 1) 0 0)"

section \<open>The schedule\<close>

record schedule =
  sd_cycle_type :: gostring
  sd_renewal_day :: int
  sd_anchor :: "gotime option"

definition new_schedule :: "gostring \<Rightarrow> int \<Rightarrow> gotime option \<Rightarrow> schedule" where
  "new_schedule cycle_type rd last_renewed =
     \<lparr>sd_cycle_type = cycle_type, sd_renewal_day = rd,
      sd_anchor = (if cycle_type = CycleYearly
        then (case last_renewed of None \<Rightarrow> None
          | Some lr \<Rightarrow> if split_mmdd rd = None then Some (start_of_day lr) else None)
        else None)\<rparr>"

definition on_or_after :: "lunar_lib \<Rightarrow> schedule \<Rightarrow> gotime \<Rightarrow> gotime" where
  "on_or_after lib s day0 =
     (let day = start_of_day day0; rd = sd_renewal_day s in
      if sd_cycle_type s = CycleWeekly then
        (let ahead = rd - iso_weekday' day; ahead' = (if ahead < 0 then ahead + 7 else ahead)
         in add_date day 0 0 ahead')
      else if sd_cycle_type s = CycleYearly then
        (case split_mmdd rd of
           Some (month, dd) \<Rightarrow>
             (let c = safe_month_date (t_year day) month dd (t_zone day)
              in if t_before c day then safe_month_date (t_year day + 1) month dd (t_zone day) else c)
         | None \<Rightarrow> (case sd_anchor s of
             Some a \<Rightarrow> (let c = safe_replace_year a (t_year day)
               in if t_before c day then safe_replace_year a (t_year day + 1) else c)
           | None \<Rightarrow> safe_replace_year day (t_year day + 1)))
      else if sd_cycle_type s = CycleLunarYearly then next_lunar_yearly_date lib rd day
      else shift_month day (if rd < t_day day then 1 else 0) rd)"

definition before :: "lunar_lib \<Rightarrow> schedule \<Rightarrow> gotime \<Rightarrow> gotime" where
  "before lib s next =
     (let rd = sd_renewal_day s in
      if sd_cycle_type s = CycleWeekly then add_date next 0 0 (- 7)
      else if sd_cycle_type s = CycleYearly then
        (case split_mmdd rd of
           Some (month, dd) \<Rightarrow> safe_month_date (t_year next - 1) month dd (t_zone next)
         | None \<Rightarrow> (case sd_anchor s of
             Some a \<Rightarrow> safe_replace_year a (t_year next - 1)
           | None \<Rightarrow> safe_replace_year next (t_year next - 1)))
      else if sd_cycle_type s = CycleLunarYearly then previous_lunar_yearly_date lib rd next
      else shift_month next (- 1) rd)"

definition after :: "lunar_lib \<Rightarrow> schedule \<Rightarrow> gotime \<Rightarrow> gotime" where
  "after lib s occurrence = on_or_after lib s (add_date (start_of_day occurrence) 0 0 1)"

definition covering :: "lunar_lib \<Rightarrow> schedule \<Rightarrow> gotime \<Rightarrow> int \<Rightarrow> gotime" where
  "covering lib s day0 alert_days_before =
     (let day = start_of_day day0;
          next = on_or_after lib s day;
          ahead = days_between day next
      in if ahead \<le> alert_days_before then next
         else (let previous = before lib s next
           in if days_between previous day < ahead then previous else next))"

record renewal =
  rn_next :: gotime
  rn_days :: int
  rn_already_renewed :: bool

definition evaluate :: "lunar_lib \<Rightarrow> gostring \<Rightarrow> int \<Rightarrow> gotime \<Rightarrow> gotime option \<Rightarrow> int \<Rightarrow> renewal" where
  "evaluate lib cycle_type rd today0 last_renewed alert_days_before =
     (let today = start_of_day today0;
          cal = new_schedule cycle_type rd last_renewed;
          upcoming = on_or_after lib cal today;
          (next, already) = (case last_renewed of
              None \<Rightarrow> (upcoming, False)
            | Some lr \<Rightarrow> (let covered = covering lib cal lr alert_days_before in
                if \<not> t_before covered upcoming then (after lib cal covered, True)
                else if t_equal covered (before lib cal upcoming)
                  then (upcoming, alert_days_before < days_between today upcoming)
                else (upcoming, False)))
      in \<lparr>rn_next = next, rn_days = days_between today next, rn_already_renewed = already\<rparr>)"

definition next_renewal :: "lunar_lib \<Rightarrow> gostring \<Rightarrow> int \<Rightarrow> gotime \<Rightarrow> gotime option \<Rightarrow> int \<times> gotime" where
  "next_renewal lib cycle_type rd today0 last_renewed =
     (let today = start_of_day today0;
          next = on_or_after lib (new_schedule cycle_type rd last_renewed) today
      in (days_between today next, next))"


section \<open>Reading times as day numbers\<close>

lemma start_of_day_midnight: "start_of_day t = midnight (t_zone t) (local_day t)"
  by (simp add: start_of_day_def date_time_midnight day_number_t_civil)

lemma start_of_midnight [simp]: "has_midnights z \<Longrightarrow> start_of_day (midnight z n) = midnight z n"
  by (simp add: start_of_day_midnight)

lemma days_in_month_eq [simp]:
  assumes "1 \<le> m" "m \<le> 12"
  shows "days_in_month y m = days_in y m"
proof -
  let ?n = "day_number y m (days_in y m)"
  have "day_number y (m + 1) 0 = day_number y (m + 1) 1 - 1"
    using day_number_add [of y "m + 1" 1 "- 1"] by simp
  also have "\<dots> = ?n"
    using day_number_next_month [OF assms, of y] day_number_add [of y m 1 "days_in y m - 1"] by simp
  finally have e: "date_time y (m + 1) 0 0 0 0 0 utc_zone = midnight utc_zone ?n"
    by (simp add: date_time_midnight)
  have "valid_date y m (days_in y m)"
    using assms days_in_bounds [OF assms, of y] by (simp add: valid_date_def)
  then have "t_civil (midnight utc_zone ?n) = (y, m, days_in y m)"
    by (simp add: t_civil_midnight civil_day_number)
  then show ?thesis by (simp add: days_in_month_def e t_day_def)
qed

text \<open>The day of the month a plan lands on.\<close>

definition clamp_day :: "int \<Rightarrow> int \<Rightarrow> int \<Rightarrow> int" where
  "clamp_day y m d = max 1 (min d (days_in y m))"

lemma clamp_day_valid:
  assumes "1 \<le> m" "m \<le> 12"
  shows "valid_date y m (clamp_day y m d)"
  using assms days_in_bounds [OF assms, of y] by (auto simp: valid_date_def clamp_day_def)

lemma safe_month_date_midnight:
  "1 \<le> m \<Longrightarrow> m \<le> 12 \<Longrightarrow> safe_month_date y m d z = midnight z (day_number y m (clamp_day y m d))"
  by (auto simp: safe_month_date_def Let_def date_time_midnight clamp_day_def max_def min_def)

lemma go_div_mult: "0 < b \<Longrightarrow> go_div (a * b) b = a"
  by (simp add: go_div_def abs_mult sgn_mult mult_sgn_abs)

lemma floor_div_eq: "0 < b \<Longrightarrow> floor_div a b = a div b"
proof -
  assume b: "0 < b"
  show ?thesis
  proof (cases "0 \<le> a")
    case True
    with b show ?thesis by (simp add: floor_div_def go_div_nonneg Let_def)
  next
    case False
    define x where "x = - a"
    have x: "0 < x" "a = - x" using False by (simp_all add: x_def)
    have q: "go_div (- x) b = - (x div b)" using x b by (simp add: go_div_def)
    have r: "go_mod (- x) b = - (x mod b)"
      unfolding go_mod_def q by (simp add: minus_mult_div_eq_mod [symmetric])
    have "(- x) div b = (if x mod b = 0 then - (x div b) else - (x div b) - 1)"
      by (rule zdiv_zminus1_eq_if) (use b in simp)
    then show ?thesis
      using x(1) b unfolding x(2) floor_div_def Let_def q r by (simp del: mod_eq_0_iff_dvd)
  qed
qed

lemma floor_mod_eq: "0 < b \<Longrightarrow> floor_mod a b = a mod b"
  by (simp add: floor_mod_def floor_div_eq minus_div_mult_eq_mod)

lemma days_between_days:
  assumes "\<bar>local_day t - local_day f\<bar> \<le> 106751"
  shows "days_between f t = local_day t - local_day f"
proof -
  define k where "k = local_day t - local_day f"
  have assms': "\<bar>k\<bar> \<le> 106751" using assms by (simp add: k_def)
  have date: "date_time (t_year u) (t_month u) (t_day u) 0 0 0 0 utc_zone =
      \<lparr>t_ns = local_day u * 86400 * second, t_zone = utc_zone\<rparr>" for u
    by (simp add: date_time_def Let_def day_number_t_civil resolve_def utc_zone_def)
  have sub: "local_day t * 86400 * second - local_day f * 86400 * second = k * 24 * hour"
    by (simp add: k_def algebra_simps)
  have "\<bar>k * 24 * hour\<bar> \<le> 106751 * 24 * hour"
    using assms' by (simp add: abs_mult second_def)
  then have d: "clamp64 (k * 24 * hour) = k * 24 * hour"
    by (simp add: clamp64_def second_def abs_le_iff max_def min_def)
  have h: "0 < hour" by simp
  have dm: "go_div (k * 24 * hour) hour = k * 24" "go_mod (k * 24 * hour) hour = 0"
    using go_div_mult [OF h, of "k * 24"] by (simp_all add: go_mod_def)
  have f1: "f64_of_int (k * 24) = Fin (of_int (k * 24))"
    using assms' by (intro f64_of_int_small) (simp add: abs_mult)
  have hr: "f64_of_int hour = Fin 3600000000000" by (simp add: f64_of_int_def second_def)
  have "dur_hours (k * 24 * hour) = Fin (of_int (k * 24))"
    unfolding dur_hours_def dm f1 hr
    using representable_of_int [of "k * 24"] assms'
    by (simp add: f64_of_int_def abs_mult rnd_representable)
  moreover have "fdiv (Fin (of_int (k * 24))) (f64_of_int 24) = Fin (of_int k)"
    using representable_of_int [of k] assms'
    by (simp add: f64_of_int_def rnd_representable)
  moreover have "f64_to_int64 (Fin (of_int k)) = k"
    using assms' by (auto simp: f64_to_int64_def trunc_rat_def Let_def)
  ultimately show ?thesis
    by (simp only: days_between_def Let_def date t_sub_def gotime.select_convs sub d k_def [symmetric])
qed

lemma days_between_midnights:
  "has_midnights z \<Longrightarrow> \<bar>b - a\<bar> \<le> 106751 \<Longrightarrow> days_between (midnight z a) (midnight z b) = b - a"
  by (simp add: days_between_days)

section \<open>A schedule as an increasing sequence of days\<close>

text \<open>What the source's three functions promise: \<open>occ\<close> enumerates the days of the schedule,
  \<open>onOrAfter\<close> is the least of them from a day on, \<open>before\<close> steps back by one.  Two
  renewals are never more than 400 days apart, so counting the days between them is exact.\<close>

locale renewal_cycle =
  fixes lib :: lunar_lib and s :: schedule and z :: zone and occ :: "int \<Rightarrow> int"
  assumes occ_step: "occ i < occ (i + 1)"
    and occ_gap: "occ (i + 1) \<le> occ i + 400"
    and on_or_after_occ: "day_ordered z \<Longrightarrow>
      \<exists>i. on_or_after lib s (midnight z n) = midnight z (occ i) \<and> n \<le> occ i \<and> occ (i - 1) < n"
    and before_occ: "day_ordered z \<Longrightarrow> before lib s (midnight z (occ i)) = midnight z (occ (i - 1))"
begin

lemma occ_mono_nat: "occ i \<le> occ (i + int k)"
proof (induction k)
  case (Suc k)
  then show ?case using occ_step [of "i + int k"] by (simp add: ac_simps)
qed simp

lemma occ_mono: "i \<le> j \<Longrightarrow> occ i \<le> occ j"
  using occ_mono_nat [of i "nat (j - i)"] by simp

lemma occ_strict: "i < j \<Longrightarrow> occ i < occ j"
  using occ_step [of i] occ_mono [of "i + 1" j] by linarith

lemma occ_less_iff: "occ i < occ j \<longleftrightarrow> i < j"
  using occ_strict [of i j] occ_mono [of j i] by (cases "i < j") auto

lemma occ_eq_iff: "occ i = occ j \<longleftrightarrow> i = j"
  using occ_less_iff [of i j] occ_less_iff [of j i] by linarith

lemma occ_between: "n \<le> occ i \<Longrightarrow> occ (i - 1) < n \<Longrightarrow> n \<le> occ j \<Longrightarrow> i \<le> j"
  using occ_mono [of j "i - 1"] by (cases "i \<le> j") auto

lemma on_or_after_at:
  assumes "day_ordered z" and "n \<le> occ i" and "occ (i - 1) < n"
  shows "on_or_after lib s (midnight z n) = midnight z (occ i)"
proof -
  obtain j where j: "on_or_after lib s (midnight z n) = midnight z (occ j)" "n \<le> occ j" "occ (j - 1) < n"
    using on_or_after_occ [OF assms(1), of n] by blast
  then have "j = i"
    using occ_between [of n i j] occ_between [of n j i] assms(2,3) by simp
  with j show ?thesis by simp
qed

lemma on_or_after_least:
  assumes "day_ordered z"
  shows "\<exists>i. on_or_after lib s (midnight z n) = midnight z (occ i) \<and> n \<le> occ i \<and> (\<forall>j. n \<le> occ j \<longrightarrow> occ i \<le> occ j)"
  using on_or_after_occ [OF assms, of n] occ_between occ_mono by blast

lemma upcoming: "day_ordered z \<Longrightarrow> \<exists>i. n \<le> occ i \<and> occ (i - 1) < n"
  using on_or_after_occ [of n] by blast

lemma after_occ:
  assumes "day_ordered z"
  shows "after lib s (midnight z (occ i)) = midnight z (occ (i + 1))"
proof -
  have "occ i + 1 \<le> occ (i + 1)" "occ (i + 1 - 1) < occ i + 1"
    using occ_step [of i] by simp_all
  from on_or_after_at [OF assms this] show ?thesis
    using assms by (simp add: after_def add_days_midnight)
qed

text \<open>The renewal a mark pays for is the next one or the previous one, and it is the next
  one inside its reminder window.\<close>

lemma covering_occ:
  assumes "day_ordered z" and "n \<le> occ i" and "occ (i - 1) < n"
  shows "\<exists>j. covering lib s (midnight z n) w = midnight z (occ j) \<and> (j = i \<or> j = i - 1)
    \<and> (occ i - n \<le> w \<longrightarrow> j = i)"
proof -
  have g: "occ i \<le> occ (i - 1) + 400" using occ_gap [of "i - 1"] by simp
  have "days_between (midnight z n) (midnight z (occ i)) = occ i - n"
    using assms g by (intro days_between_midnights) auto
  moreover have "days_between (midnight z (occ (i - 1))) (midnight z n) = n - occ (i - 1)"
    using assms g by (intro days_between_midnights) auto
  ultimately show ?thesis
    using assms by (auto simp: covering_def Let_def on_or_after_at before_occ)
qed

text \<open>Placing a subscription on its calendar: \<open>i\<close> is the upcoming renewal, \<open>j\<close> the
  one the mark pays for.\<close>

lemma evaluate_unmarked:
  assumes "day_ordered z" and "new_schedule c rd None = s" and "today \<le> occ i" and "occ (i - 1) < today"
  shows "evaluate lib c rd (midnight z today) None w =
    \<lparr>rn_next = midnight z (occ i), rn_days = occ i - today, rn_already_renewed = False\<rparr>"
proof -
  have "\<bar>occ i - today\<bar> \<le> 106751" using assms(3,4) occ_gap [of "i - 1"] by simp
  then show ?thesis
    using assms by (simp add: evaluate_def Let_def on_or_after_at days_between_midnights)
qed

lemma evaluate_marked:
  assumes z: "day_ordered z" and c: "new_schedule c rd (Some lr) = s"
    and i: "today \<le> occ i" "occ (i - 1) < today"
    and j: "covering lib s lr w = midnight z (occ j)" and far: "\<bar>occ (j + 1) - today\<bar> \<le> 106751"
  shows "evaluate lib c rd (midnight z today) (Some lr) w =
    \<lparr>rn_next = midnight z (occ (max i (j + 1))), rn_days = occ (max i (j + 1)) - today,
     rn_already_renewed = (i \<le> j \<or> (j = i - 1 \<and> w < occ i - today))\<rparr>"
proof -
  have up: "on_or_after lib s (midnight z today) = midnight z (occ i)"
    by (rule on_or_after_at [OF z i])
  have near: "\<bar>occ i - today\<bar> \<le> 106751" using i occ_gap [of "i - 1"] by simp
  show ?thesis
  proof (cases "i \<le> j")
    case True
    have nb: "\<not> occ j < occ i" using True by (simp add: occ_less_iff)
    show ?thesis
      using z c True nb far
      by (simp add: evaluate_def Let_def up j after_occ days_between_midnights max_def)
  next
    case False
    then have lt: "occ j < occ i" by (simp add: occ_less_iff)
    have eq: "occ j = occ (i - 1) \<longleftrightarrow> j = i - 1" by (rule occ_eq_iff)
    have m: "max i (j + 1) = i" using False by simp
    show ?thesis
      using z c False lt near
      by (simp add: evaluate_def Let_def up j before_occ days_between_midnights eq m)
  qed
qed

text \<open>A mark made on \<open>lr\<close> pays for one renewal next to it, and what is reported next is the
  first one from today on after that.\<close>

lemma mark_pays:
  assumes z: "day_ordered z" and c: "new_schedule c rd (Some lr) = s" and lr: "t_zone lr = z"
    and today: "t_zone today = z" and near: "\<bar>local_day lr - local_day today\<bar> \<le> 100000"
  shows "\<exists>i j k. covering lib s lr w = midnight z (occ j) \<and> (j = k \<or> j = k - 1)
    \<and> (occ k - local_day lr \<le> w \<longrightarrow> j = k)
    \<and> local_day lr \<le> occ k \<and> occ (k - 1) < local_day lr
    \<and> local_day today \<le> occ i \<and> occ (i - 1) < local_day today
    \<and> rn_next (evaluate lib c rd today (Some lr) w) = midnight z (occ (max i (j + 1)))
    \<and> rn_days (evaluate lib c rd today (Some lr) w) = occ (max i (j + 1)) - local_day today"
proof -
  obtain i where i: "local_day today \<le> occ i" "occ (i - 1) < local_day today"
    using upcoming [OF z] by blast
  obtain k where k: "local_day lr \<le> occ k" "occ (k - 1) < local_day lr" using upcoming [OF z] by blast
  obtain j where "covering lib s (midnight z (local_day lr)) w = midnight z (occ j)"
    and j: "j = k \<or> j = k - 1" "occ k - local_day lr \<le> w \<longrightarrow> j = k"
    using covering_occ [OF z k] by blast
  then have cov: "covering lib s lr w = midnight z (occ j)"
    using z by (simp add: covering_def start_of_day_midnight lr)
  have "local_day lr - 400 \<le> occ (j + 1)" "occ (j + 1) \<le> local_day lr + 800"
    using j(1) k occ_gap [of "k - 1"] occ_gap [of k] occ_step [of k] by auto
  then have "\<bar>occ (j + 1) - local_day today\<bar> \<le> 106751" using near by linarith
  note ev = evaluate_marked [OF z c i cov this]
  have "evaluate lib c rd today (Some lr) w = evaluate lib c rd (midnight z (local_day today)) (Some lr) w"
    using z by (simp add: evaluate_def start_of_day_midnight today)
  with ev cov i j k show ?thesis by (intro exI [of _ i] exI [of _ j] exI [of _ k]) simp
qed

end


section \<open>The four calendars are such sequences\<close>

definition weekly_occ :: "int \<Rightarrow> int \<Rightarrow> int" where
  "weekly_occ rd i = 7 * i + rd - 4"

text \<open>Months are numbered from year 0.\<close>

definition monthly_occ :: "int \<Rightarrow> int \<Rightarrow> int" where
  "monthly_occ rd i = day_number (i div 12) (i mod 12 + 1) (clamp_day (i div 12) (i mod 12 + 1) rd)"

definition yearly_occ :: "int \<Rightarrow> int \<Rightarrow> int \<Rightarrow> int" where
  "yearly_occ m d y = day_number y m (clamp_day y m d)"

definition month_start :: "int \<Rightarrow> int" where
  "month_start i = day_number (i div 12) (i mod 12 + 1) 1"

definition month_len :: "int \<Rightarrow> int" where
  "month_len i = days_in (i div 12) (i mod 12 + 1)"

lemma month_index_range: "1 \<le> i mod 12 + 1" "i mod 12 + 1 \<le> (12 :: int)"
  using pos_mod_sign [of 12 i] pos_mod_bound [of 12 i] by simp_all

lemma month_len_bounds: "28 \<le> month_len i" "month_len i \<le> 31"
  using days_in_bounds [OF month_index_range] by (simp_all add: month_len_def)

lemma month_start_Suc: "month_start (i + 1) = month_start i + month_len i"
proof -
  have "month_start (i + 1) = day_number (i div 12) (i mod 12 + 1 + 1) 1"
  proof (cases "i mod 12 = 11")
    case True
    then have e: "i + 1 = 12 * (i div 12 + 1) + 0" using mult_div_mod_eq [of 12 i] by (simp add: distrib_left)
    have "(i + 1) div 12 = i div 12 + 1" by (rule int_div_pos_eq [OF e]) simp_all
    moreover have "(i + 1) mod 12 = 0" by (rule int_mod_pos_eq [OF e]) simp_all
    ultimately have "month_start (i + 1) = day_number (i div 12 + 1) 1 1" by (simp only: month_start_def add_0)
    also have "\<dots> = day_number (i div 12) (1 + 12 * 1) 1" by (rule day_number_month_shift [symmetric])
    finally show ?thesis using True by simp
  next
    case False
    have e: "i + 1 = 12 * (i div 12) + (i mod 12 + 1)" using mult_div_mod_eq [of 12 i] by linarith
    have r: "0 \<le> i mod 12 + 1" "i mod 12 + 1 < 12" using False month_index_range [of i] by linarith+
    show ?thesis
      by (simp only: month_start_def int_div_pos_eq [OF e r] int_mod_pos_eq [OF e r])
  qed
  also have "\<dots> = month_start i + month_len i"
    unfolding month_start_def month_len_def by (rule day_number_next_month [OF month_index_range])
  finally show ?thesis .
qed

lemma monthly_occ_start: "monthly_occ rd i = month_start i + max 1 (min rd (month_len i)) - 1"
  using day_number_add [of "i div 12" "i mod 12 + 1" 1 "max 1 (min rd (month_len i)) - 1"]
  by (simp add: monthly_occ_def month_start_def month_len_def clamp_day_def)

lemma monthly_occ_in_month: "month_start i \<le> monthly_occ rd i" "monthly_occ rd i < month_start (i + 1)"
  using month_len_bounds [of i] by (simp_all add: monthly_occ_start month_start_Suc)

lemma month_of_day:
  assumes "civil n = (y, m, d)"
  defines "i \<equiv> 12 * y + (m - 1)"
  shows "i div 12 = y" "i mod 12 + 1 = m" "month_start i + d - 1 = n" "1 \<le> d" "d \<le> month_len i"
proof -
  note c = day_number_civil [OF assms(1)]
  then have m: "1 \<le> m" "m \<le> 12" and d: "1 \<le> d" "d \<le> days_in y m" by (auto simp: valid_date_def)
  show i: "i div 12 = y" "i mod 12 + 1 = m" using m by (simp_all add: i_def)
  show "month_start i + d - 1 = n"
    using c(1) day_number_add [of y m 1 "d - 1"] by (simp add: month_start_def i)
  show "1 \<le> d" "d \<le> month_len i" using d by (simp_all add: month_len_def i)
qed

lemma civil_sel: "t_civil t = (t_year t, t_month t, t_day t)"
  by (simp add: t_year_def t_month_def t_day_def)

lemma civil_of_midnight:
  "has_midnights z \<Longrightarrow> civil n = (t_year (midnight z n), t_month (midnight z n), t_day (midnight z n))"
  using t_civil_midnight [of z n] civil_sel [of "midnight z n"] by simp

lemma iso_weekday_midnight: "has_midnights z \<Longrightarrow> iso_weekday' (midnight z n) = (n + 3) mod 7 + 1"
  unfolding iso_weekday'_def t_weekday_def iso_weekday_of_eq [symmetric] iso_weekday_of_def by simp

text \<open>Shifting by whole months from any day of a month.\<close>

lemma shift_month_midnight:
  assumes "has_midnights z" and "civil n = (y, m, d)"
  shows "shift_month (midnight z n) k rd = midnight z (monthly_occ rd (12 * y + (m - 1) + k))"
proof -
  have c: "t_year (midnight z n) = y" "t_month (midnight z n) = m"
    using civil_of_midnight [OF assms(1), of n] assms(2) by simp_all
  let ?i = "12 * y + (m - 1) + k"
  have "?i = (m - 1 + k) + 12 * y" by simp
  then have i: "?i div 12 = y + (m - 1 + k) div 12" "?i mod 12 = (m - 1 + k) mod 12"
    by (simp_all only: div_mult_self2 mod_mult_self2 zero_neq_numeral not_False_eq_True add.commute)
  show ?thesis
    using month_index_range [of "m - 1 + k"]
    by (simp add: shift_month_def Let_def c floor_div_eq floor_mod_eq safe_month_date_midnight monthly_occ_def i)
qed

interpretation weekly: renewal_cycle lib "new_schedule CycleWeekly (1 + int (k mod 7)) lr" z
    "weekly_occ (1 + int (k mod 7))" for lib k lr z
proof (unfold_locales, goal_cases)
  case (3 n)
  let ?rd = "1 + int (k mod 7)"
  define q where "q = (n + 3) div 7"
  define r where "r = (n + 3) mod 7"
  have n: "n = 7 * q + r - 3" using mult_div_mod_eq [of 7 "n + 3"] by (simp add: q_def r_def)
  have r: "0 \<le> r" "r < 7" by (simp_all add: r_def)
  have rd: "1 \<le> ?rd" "?rd \<le> 7" by (simp_all add: of_nat_mod)
  have iso: "iso_weekday' (midnight z n) = r + 1" using 3 by (simp add: iso_weekday_midnight r_def)
  have e: "on_or_after lib (new_schedule CycleWeekly ?rd lr) (midnight z n) =
      midnight z (n + (if ?rd - (r + 1) < 0 then ?rd - (r + 1) + 7 else ?rd - (r + 1)))"
    using 3 by (simp add: on_or_after_def new_schedule_def iso add_days_midnight Let_def)
  show ?case
  proof (cases "?rd - (r + 1) < 0")
    case True
    then have "n + (?rd - (r + 1) + 7) = weekly_occ ?rd (q + 1)" by (simp add: weekly_occ_def n)
    then show ?thesis
      using True r rd unfolding e by (intro exI [of _ "q + 1"]) (simp add: weekly_occ_def n ac_simps)
  next
    case False
    then have "n + (?rd - (r + 1)) = weekly_occ ?rd q" by (simp add: weekly_occ_def n)
    then show ?thesis
      using False r rd unfolding e by (intro exI [of _ q]) (simp add: weekly_occ_def n algebra_simps)
  qed
qed (simp_all add: weekly_occ_def before_def new_schedule_def Let_def add_days_midnight)

interpretation monthly: renewal_cycle lib "new_schedule CycleMonthly (1 + int k) lr" z
    "monthly_occ (1 + int k)" for lib k lr z
proof (unfold_locales, goal_cases)
  case (1 i)
  show ?case using monthly_occ_in_month(2) [of "1 + int k" i] monthly_occ_in_month(1) [of "i + 1" "1 + int k"] by simp
next
  case (2 i)
  show ?case
    using monthly_occ_in_month(1) [of i "1 + int k"] monthly_occ_in_month(2) [of "1 + int k" "i + 1"]
      month_len_bounds [of i] month_len_bounds [of "i + 1"]
      month_start_Suc [of i] month_start_Suc [of "i + 1"] by linarith
next
  case (3 n)
  obtain y m d where c: "civil n = (y, m, d)" by (cases "civil n") auto
  let ?i = "12 * y + (m - 1)" and ?rd = "1 + int k"
  note md = month_of_day [OF c]
  have td: "t_day (midnight z n) = d" using civil_of_midnight [of z n] c 3 by simp
  have e: "on_or_after lib (new_schedule CycleMonthly ?rd lr) (midnight z n) =
      midnight z (monthly_occ ?rd (?i + (if ?rd < d then 1 else 0)))"
    using 3 shift_month_midnight [OF _ c, of z _ ?rd]
    by (simp add: on_or_after_def new_schedule_def Let_def td cycle_defs)
  show ?case
  proof (cases "?rd < d")
    case True
    then have "monthly_occ ?rd ?i < n" using md(3-5) by (simp add: monthly_occ_start)
    moreover have "n < month_start (?i + 1)"
      unfolding month_start_Suc [of ?i] using md(3-5) by linarith
    ultimately show ?thesis
      using True e monthly_occ_in_month(1) [of "?i + 1" ?rd]
      by (intro exI [of _ "?i + 1"]) (simp only: if_True add_diff_cancel_right', simp)
  next
    case False
    then have "n \<le> monthly_occ ?rd ?i" using md(3-5) by (simp add: monthly_occ_start)
    moreover have "monthly_occ ?rd (?i - 1) < n"
      using monthly_occ_in_month(2) [of ?rd "?i - 1"] md(3-5) unfolding diff_add_cancel by linarith
    ultimately show ?thesis using False e by (intro exI [of _ ?i]) simp
  qed
next
  case (4 i)
  let ?rd = "1 + int k"
  have c: "civil (monthly_occ ?rd i) = (i div 12, i mod 12 + 1, clamp_day (i div 12) (i mod 12 + 1) ?rd)"
    unfolding monthly_occ_def by (intro civil_day_number clamp_day_valid month_index_range)
  have "12 * (i div 12) + (i mod 12 + 1 - 1) + - 1 = i - 1" by simp
  then show ?case
    using shift_month_midnight [OF _ c, of z "- 1" ?rd] 4
    by (simp add: before_def new_schedule_def Let_def cycle_defs)
qed

lemma yearly_occ_in_year:
  "1 \<le> m \<Longrightarrow> m \<le> 12 \<Longrightarrow> year_start y \<le> yearly_occ m d y"
  "1 \<le> m \<Longrightarrow> m \<le> 12 \<Longrightarrow> yearly_occ m d y < year_start (y + 1)"
  unfolding yearly_occ_def by (intro day_number_bounds clamp_day_valid; simp)+

lemma month_offset_years:
  assumes "1 \<le> m" "m \<le> 12"
  shows "month_offset y' m \<le> month_offset y m + 1"
proof -
  have "m = 1 \<or> m = 2 \<or> m = 3 \<or> m = 4 \<or> m = 5 \<or> m = 6 \<or> m = 7 \<or> m = 8 \<or> m = 9 \<or> m = 10 \<or> m = 11 \<or> m = 12"
    using assms by presburger
  then show ?thesis by (elim disjE) (simp_all add: month_offset_def month_lengths_def)
qed

lemma yearly_occ_gap:
  assumes "1 \<le> m" "m \<le> 12"
  shows "yearly_occ m d (y + 1) \<le> yearly_occ m d y + 400"
  using assms month_offset_years [OF assms, of "y + 1" y] days_in_bounds [OF assms, of y]
    days_in_bounds [OF assms, of "y + 1"]
  by (auto simp: yearly_occ_def day_number_in_year year_start_Suc clamp_day_def)

lemma yearly_occ_step: "1 \<le> m \<Longrightarrow> m \<le> 12 \<Longrightarrow> yearly_occ m d y < yearly_occ m d (y + 1)"
  using yearly_occ_in_year(2) [of m d y] yearly_occ_in_year(1) [of m "y + 1" d] by simp

lemma year_of_midnight: "has_midnights z \<Longrightarrow> t_year (midnight z n) = year_of n"
  using civil_of_midnight [of z n] by (simp add: civil_def Let_def)

lemma year_of_yearly_occ: "1 \<le> m \<Longrightarrow> m \<le> 12 \<Longrightarrow> year_of (yearly_occ m d y) = y"
  by (intro year_of_unique yearly_occ_in_year)

text \<open>The two candidates of a yearly plan: this year's date, or next year's once it has
  passed.\<close>

lemma yearly_next:
  assumes "1 \<le> m" "m \<le> 12"
  shows "\<exists>i. yearly_occ m d (if yearly_occ m d (year_of n) < n then year_of n + 1 else year_of n) = yearly_occ m d i
    \<and> n \<le> yearly_occ m d i \<and> yearly_occ m d (i - 1) < n"
proof (cases "yearly_occ m d (year_of n) < n")
  case True
  then show ?thesis
    using year_of_bounds [of n] yearly_occ_in_year(1) [OF assms, of "year_of n + 1" d]
    by (intro exI [of _ "year_of n + 1"]) simp
next
  case False
  then show ?thesis
    using year_of_bounds [of n] yearly_occ_in_year(2) [OF assms, of d "year_of n - 1"]
    by (intro exI [of _ "year_of n"]) simp
qed

lemma split_mmdd_eq:
  "split_mmdd (100 * (1 + int (j mod 12)) + (1 + int (k mod 31))) = Some (1 + int (j mod 12), 1 + int (k mod 31))"
proof -
  define m d where "m = 1 + int (j mod 12)" and "d = 1 + int (k mod 31)"
  have r: "1 \<le> m" "m \<le> 12" "1 \<le> d" "d \<le> 31" by (simp_all add: m_def d_def of_nat_mod)
  then have dm: "(100 * m + d) div 100 = m" "(100 * m + d) mod 100 = d" by simp_all
  have "\<not> 100 * m + d \<le> 31" using r by linarith
  then show ?thesis
    unfolding m_def [symmetric] d_def [symmetric] split_mmdd_def Let_def dm using r by simp
qed

interpretation yearly: renewal_cycle lib
    "new_schedule CycleYearly (100 * (1 + int (j mod 12)) + (1 + int (k mod 31))) lr" z
    "yearly_occ (1 + int (j mod 12)) (1 + int (k mod 31))" for lib j k lr z
proof -
  let ?m = "1 + int (j mod 12)" and ?d = "1 + int (k mod 31)"
  define rd where "rd = 100 * ?m + ?d"
  have m: "1 \<le> ?m" "?m \<le> 12" by (simp_all add: of_nat_mod)
  have split: "split_mmdd rd = Some (?m, ?d)" unfolding rd_def by (rule split_mmdd_eq)
  note occ = safe_month_date_midnight [OF m, of _ ?d z, folded yearly_occ_def]
  have "renewal_cycle lib (new_schedule CycleYearly rd lr) z (yearly_occ ?m ?d)"
  proof (unfold_locales, goal_cases)
    case (1 i)
    show ?case by (rule yearly_occ_step [OF m])
  next
    case (2 i)
    show ?case by (rule yearly_occ_gap [OF m])
  next
    case (3 n)
    have "on_or_after lib (new_schedule CycleYearly rd lr) (midnight z n) =
        midnight z (yearly_occ ?m ?d (if yearly_occ ?m ?d (year_of n) < n then year_of n + 1 else year_of n))"
      using 3 by (simp add: on_or_after_def new_schedule_def Let_def split year_of_midnight occ cycle_defs)
    with yearly_next [OF m, of ?d n] show ?case by metis
  next
    case (4 i)
    then show ?case
      by (simp add: before_def new_schedule_def Let_def split year_of_midnight occ cycle_defs
          year_of_yearly_occ [OF m])
  qed
  then show "renewal_cycle lib (new_schedule CycleYearly (100 * ?m + ?d) lr) z (yearly_occ ?m ?d)"
    by (simp only: rd_def)
qed

text \<open>A yearly plan without a month and a day renews on the anniversary of its last
  renewal.\<close>

abbreviation anniversary_occ :: "int \<Rightarrow> int \<Rightarrow> int" where
  "anniversary_occ a \<equiv> yearly_occ (fst (snd (civil a))) (snd (snd (civil a)))"

interpretation anniversary: renewal_cycle lib
    "new_schedule CycleYearly (int (k mod 32)) (Some (midnight z a))" z
    "anniversary_occ a" for lib k a z
proof -
  obtain ya m d where c: "civil a = (ya, m, d)" by (cases "civil a") auto
  then have m: "1 \<le> m" "m \<le> 12" using day_number_civil(2) [OF c] by (simp_all add: valid_date_def)
  have nomd: "split_mmdd (int (k mod 32)) = None" by (simp add: split_mmdd_def of_nat_mod)
  have md: "t_month (midnight z a) = m" "t_day (midnight z a) = d" if "has_midnights z"
    using civil_of_midnight [OF that, of a] c by simp_all
  note occ = safe_month_date_midnight [OF m, of _ d z, folded yearly_occ_def]
  have "renewal_cycle lib (new_schedule CycleYearly (int (k mod 32)) (Some (midnight z a))) z (yearly_occ m d)"
  proof (unfold_locales, goal_cases)
    case (1 i)
    show ?case by (rule yearly_occ_step [OF m])
  next
    case (2 i)
    show ?case by (rule yearly_occ_gap [OF m])
  next
    case (3 n)
    have "on_or_after lib (new_schedule CycleYearly (int (k mod 32)) (Some (midnight z a))) (midnight z n) =
        midnight z (yearly_occ m d (if yearly_occ m d (year_of n) < n then year_of n + 1 else year_of n))"
      using 3 by (simp add: on_or_after_def new_schedule_def Let_def nomd md year_of_midnight
          safe_replace_year_def occ cycle_defs)
    with yearly_next [OF m, of d n] show ?case by metis
  next
    case (4 i)
    then show ?case
      by (simp add: before_def new_schedule_def Let_def nomd md year_of_midnight safe_replace_year_def
          occ cycle_defs year_of_yearly_occ [OF m])
  qed
  then show "renewal_cycle lib (new_schedule CycleYearly (int (k mod 32)) (Some (midnight z a))) z (anniversary_occ a)"
    by (simp add: c)
qed

section \<open>The specification: which days a plan renews on\<close>

definition renews_on :: "gostring \<Rightarrow> int \<Rightarrow> int \<Rightarrow> int \<Rightarrow> bool" where
  "renews_on cycle rd anchor n =
     (case civil n of (y, m, d) \<Rightarrow>
        if cycle = CycleWeekly then iso_weekday_of n = rd
        else if cycle = CycleYearly then
          (case split_mmdd rd of
             Some (month, dd) \<Rightarrow> m = month \<and> d = clamp_day y month dd
           | None \<Rightarrow> (case civil anchor of (y', m', d') \<Rightarrow> m = m' \<and> d = clamp_day y m' d'))
        else d = clamp_day y m rd)"

text \<open>The plans with a definite calendar: a weekday, a day of the month, a month and a day,
  or the anniversary of a last renewal.\<close>

definition plan_ok :: "gostring \<Rightarrow> int \<Rightarrow> bool \<Rightarrow> bool" where
  "plan_ok cycle rd marked \<longleftrightarrow>
     cycle = CycleWeekly \<and> 1 \<le> rd \<and> rd \<le> 7 \<or>
     cycle = CycleMonthly \<and> 1 \<le> rd \<or>
     cycle = CycleYearly \<and> (split_mmdd rd \<noteq> None \<or> 0 \<le> rd \<and> rd \<le> 31 \<and> marked)"

lemma weekly_days: "iso_weekday_of n = rd \<longleftrightarrow> (\<exists>i. n = weekly_occ rd i)"
  if "1 \<le> rd" "rd \<le> 7"
proof
  assume "iso_weekday_of n = rd"
  then have "(n + 3) mod 7 = rd - 1" by (simp add: iso_weekday_of_eq)
  then have "n = weekly_occ rd ((n + 3) div 7)"
    using mult_div_mod_eq [of 7 "n + 3"] unfolding weekly_occ_def by linarith
  then show "\<exists>i. n = weekly_occ rd i" ..
next
  assume "\<exists>i. n = weekly_occ rd i"
  then obtain i where n: "n = weekly_occ rd i" ..
  have "n + 3 = rd - 1 + 7 * i" by (simp add: n weekly_occ_def)
  then have "(n + 3) mod 7 = (rd - 1) mod 7" by (simp only: mod_mult_self2)
  also have "\<dots> = rd - 1" using that by simp
  finally show "iso_weekday_of n = rd" by (simp add: iso_weekday_of_eq)
qed

lemma civil_monthly_occ:
  "civil (monthly_occ rd i) = (i div 12, i mod 12 + 1, clamp_day (i div 12) (i mod 12 + 1) rd)"
  unfolding monthly_occ_def by (intro civil_day_number clamp_day_valid month_index_range)

lemma monthly_days:
  assumes "civil n = (y, m, d)"
  shows "d = clamp_day y m rd \<longleftrightarrow> (\<exists>i. n = monthly_occ rd i)"
proof
  assume "d = clamp_day y m rd"
  then have "n = monthly_occ rd (12 * y + (m - 1))"
    using month_of_day(1,2) [OF assms] day_number_civil(1) [OF assms] by (simp add: monthly_occ_def)
  then show "\<exists>i. n = monthly_occ rd i" ..
qed (use assms in \<open>auto simp: civil_monthly_occ\<close>)

lemma civil_yearly_occ: "1 \<le> m \<Longrightarrow> m \<le> 12 \<Longrightarrow> civil (yearly_occ m d y) = (y, m, clamp_day y m d)"
  unfolding yearly_occ_def by (intro civil_day_number clamp_day_valid)

lemma yearly_days:
  assumes "civil n = (y, m, d)" and "1 \<le> m'" "m' \<le> 12"
  shows "m = m' \<and> d = clamp_day y m' d' \<longleftrightarrow> (\<exists>i. n = yearly_occ m' d' i)"
proof
  assume "m = m' \<and> d = clamp_day y m' d'"
  then have "n = yearly_occ m' d' y" using day_number_civil(1) [OF assms(1)] by (simp add: yearly_occ_def)
  then show "\<exists>i. n = yearly_occ m' d' i" ..
qed (use assms in \<open>auto simp: civil_yearly_occ\<close>)

lemma split_mmdd_Some:
  assumes "split_mmdd rd = Some (m, d)"
  shows "1 \<le> m \<and> m \<le> 12 \<and> 1 \<le> d \<and> d \<le> 31 \<and> rd = 100 * m + d"
  using assms mult_div_mod_eq [of 100 rd] by (auto simp: split_mmdd_def Let_def split: if_splits)

lemma int_mod_form: "0 \<le> x \<Longrightarrow> x < int n \<Longrightarrow> int (nat x mod n) = x"
proof -
  assume "0 \<le> x" "x < int n"
  then have "nat x < n" by linarith
  with \<open>0 \<le> x\<close> show ?thesis by simp
qed

text \<open>Every such plan is one of the four calendars.\<close>

lemma plan_cycle:
  assumes ok: "plan_ok cycle rd (lr \<noteq> None)" and mark: "\<forall>t. lr = Some t \<longrightarrow> t_zone t = z"
    and anchor: "anchor = (case lr of None \<Rightarrow> 0 | Some t \<Rightarrow> local_day t)" and z: "has_midnights z"
  shows "\<exists>occ. renewal_cycle lib (new_schedule cycle rd lr) z occ
    \<and> (\<forall>n. renews_on cycle rd anchor n \<longleftrightarrow> (\<exists>i. n = occ i))"
proof -
  consider (weekly) "cycle = CycleWeekly" "1 \<le> rd" "rd \<le> 7"
    | (monthly) "cycle = CycleMonthly" "1 \<le> rd"
    | (yearly) m d where "cycle = CycleYearly" "split_mmdd rd = Some (m, d)"
    | (anniversary) t where "cycle = CycleYearly" "split_mmdd rd = None" "0 \<le> rd" "rd \<le> 31" "lr = Some t"
    using ok unfolding plan_ok_def by fastforce
  then show ?thesis
  proof cases
    case weekly
    have e: "1 + int (nat (rd - 1) mod 7) = rd" using weekly(2,3) int_mod_form [of "rd - 1" 7] by simp
    have "renewal_cycle lib (new_schedule cycle rd lr) z (weekly_occ rd)"
      using weekly.renewal_cycle_axioms [of lib "nat (rd - 1)" lr z] unfolding e weekly(1) .
    moreover have "renews_on cycle rd anchor n \<longleftrightarrow> (\<exists>i. n = weekly_occ rd i)" for n
      using weekly weekly_days [of rd n] by (simp add: renews_on_def split: prod.splits)
    ultimately show ?thesis by blast
  next
    case monthly
    have e: "1 + int (nat (rd - 1)) = rd" using monthly(2) by simp
    have "renewal_cycle lib (new_schedule cycle rd lr) z (monthly_occ rd)"
      using monthly.renewal_cycle_axioms [of lib "nat (rd - 1)" lr z] unfolding e monthly(1) .
    moreover have "renews_on cycle rd anchor n \<longleftrightarrow> (\<exists>i. n = monthly_occ rd i)" for n
      using monthly monthly_days [of n _ _ _ rd] by (simp add: renews_on_def cycle_defs split: prod.splits)
    ultimately show ?thesis by blast
  next
    case (yearly m d)
    note md = split_mmdd_Some [OF yearly(2)]
    have e: "1 + int (nat (m - 1) mod 12) = m" "1 + int (nat (d - 1) mod 31) = d"
      using md int_mod_form [of "m - 1" 12] int_mod_form [of "d - 1" 31] by simp_all
    have "renewal_cycle lib (new_schedule cycle rd lr) z (yearly_occ m d)"
      using yearly.renewal_cycle_axioms [of lib "nat (m - 1)" "nat (d - 1)" lr z] md
      unfolding e yearly(1) by simp
    moreover have "renews_on cycle rd anchor n \<longleftrightarrow> (\<exists>i. n = yearly_occ m d i)" for n
      using yearly yearly_days [of n _ _ _ m d] md
      by (simp add: renews_on_def cycle_defs split: prod.splits)
    ultimately show ?thesis by blast
  next
    case (anniversary t)
    have a: "anchor = local_day t" "t_zone t = z" using anchor mark anniversary by simp_all
    obtain ya m d where c: "civil anchor = (ya, m, d)" by (cases "civil anchor") auto
    then have m: "1 \<le> m" "m \<le> 12" using day_number_civil(2) [OF c] by (simp_all add: valid_date_def)
    have e: "int (nat rd mod 32) = rd" using anniversary int_mod_form [of rd 32] by simp
    have s: "new_schedule cycle rd lr = new_schedule CycleYearly rd (Some (midnight z anchor))"
      using anniversary a z by (simp add: new_schedule_def start_of_day_midnight)
    have "renewal_cycle lib (new_schedule cycle rd lr) z (yearly_occ m d)"
      using anniversary.renewal_cycle_axioms [of lib "nat rd" z anchor] unfolding e s c by simp
    moreover have "renews_on cycle rd anchor n \<longleftrightarrow> (\<exists>i. n = yearly_occ m d i)" for n
      using anniversary yearly_days [of n _ _ _ m d] m c
      by (simp add: renews_on_def cycle_defs split: prod.splits)
    ultimately show ?thesis by blast
  qed
qed

section \<open>Properties\<close>

text \<open>C1: for every plan with a definite calendar, in a zone whose days are in order, the
  next renewal is a day the plan renews on, today or later, no other such day from today on is
  earlier, and the number of days reported is the distance to it.\<close>
lemma next_renewal_least:
  assumes "plan_ok cycle rd (lr \<noteq> None)" and "\<forall>t. lr = Some t \<longrightarrow> t_zone t = z"
    and "anchor = (case lr of None \<Rightarrow> 0 | Some t \<Rightarrow> local_day t)"
    and z: "day_ordered z" and today: "t_zone today = z"
  shows "\<exists>n. next_renewal lib cycle rd today lr = (n - local_day today, midnight z n)
    \<and> renews_on cycle rd anchor n \<and> local_day today \<le> n
    \<and> (\<forall>n'. renews_on cycle rd anchor n' \<longrightarrow> local_day today \<le> n' \<longrightarrow> n \<le> n')"
proof -
  obtain occ where c: "renewal_cycle lib (new_schedule cycle rd lr) z occ"
    and occ: "\<And>n. renews_on cycle rd anchor n \<longleftrightarrow> (\<exists>i. n = occ i)"
    using plan_cycle [OF assms(1-3) day_ordered_midnights [OF z]] by blast
  let ?s = "new_schedule cycle rd lr" and ?n = "local_day today"
  obtain i where i: "?n \<le> occ i" "occ (i - 1) < ?n" using renewal_cycle.upcoming [OF c z] by blast
  note at = renewal_cycle.on_or_after_at [OF c z i]
  have least: "occ i \<le> occ j" if "?n \<le> occ j" for j
    using renewal_cycle.occ_mono [OF c] renewal_cycle.occ_between [OF c i that] .
  have "occ i \<le> occ (i - 1) + 400" using renewal_cycle.occ_gap [OF c, of "i - 1"] by simp
  then have "days_between (midnight z ?n) (midnight z (occ i)) = occ i - ?n"
    using i z by (intro days_between_midnights) auto
  then have "next_renewal lib cycle rd today lr = (occ i - ?n, midnight z (occ i))"
    by (simp add: next_renewal_def Let_def start_of_day_midnight today at)
  then show ?thesis
    using i(1) least by (intro exI [of _ "occ i"]) (auto simp: occ)
qed



lemma next_renewal_least_witness:
  "\<exists>n. next_renewal \<lparr>ll_year_of = \<lambda>_. 0, ll_month_days = \<lambda>_ _. None, ll_solar = \<lambda>_ _ _. (0, 0, 0)\<rparr>
     CycleMonthly 31 (midnight utc_zone 31) None = (n - 31, midnight utc_zone n)
     \<and> renews_on CycleMonthly 31 0 n \<and> 31 \<le> n \<and> n \<le> 58"
proof -
  let ?lib = "\<lparr>ll_year_of = \<lambda>_. 0, ll_month_days = \<lambda>_ _. None, ll_solar = \<lambda>_ _ _. (0, 0, 0)\<rparr>"
  have p: "plan_ok CycleMonthly 31 (None \<noteq> (None :: gotime option))" by (simp add: plan_ok_def)
  have "renews_on CycleMonthly 31 0 58" by code_simp
  with next_renewal_least [OF p, of utc_zone 0 "midnight utc_zone 31" ?lib] show ?thesis by auto
qed

lemma takeWhile_digits:
  "list_all is_digit a \<Longrightarrow> \<not> is_digit c \<Longrightarrow> takeWhile is_digit (a @ c # b) = a \<and> dropWhile is_digit (a @ c # b) = c # b"
  by (induction a) auto

lemma takeWhile_all_digits: "list_all is_digit a \<Longrightarrow> takeWhile is_digit a = a \<and> dropWhile is_digit a = []"
  by (induction a) auto

lemma match_mmdd_dash:
  assumes "list_all is_digit a" "list_all is_digit b" "length a \<in> {1, 2}" "length b \<in> {1, 2}"
  shows "match_mmdd (a @ ''-'' @ b) = Some (a, b)"
proof -
  have nd: "\<not> is_digit (CHR ''-'')" by (simp add: is_digit_def byte_def)
  have dash: "re_space (CHR ''-'') = False" by (simp add: re_space_def byte_def)
  have b: "skip_spaces b = b"
  proof -
    obtain c r where c: "b = c # r" using assms(4) by (cases b) auto
    then have "\<not> re_space c" using assms(2) by (auto simp: re_space_def is_digit_def)
    then show ?thesis by (simp add: c skip_spaces_def)
  qed
  have s: "skip_spaces [] = []" by (simp add: skip_spaces_def)
  have sd: "skip_spaces (CHR ''-'' # b) = CHR ''-'' # b" by (simp add: skip_spaces_def dash)
  have "take_digits (a @ CHR ''-'' # b) = (a, CHR ''-'' # b)" "take_digits b = (b, [])"
    using takeWhile_digits [OF assms(1) nd, of b] takeWhile_all_digits [OF assms(2)]
    by (simp_all add: take_digits_def)
  then show ?thesis using assms(3,4) b s sd by (simp add: match_mmdd_def Let_def)
qed

lemma length_nat_digits: "n < 100 \<Longrightarrow> length (nat_digits n) \<in> {1, 2}"
  by (subst nat_digits.simps, subst nat_digits.simps) auto

lemma last_nat_digits_graphic: "graphic (hd (nat_digits n))" "graphic (last (nat_digits n))"
  using nat_digits_are_digits [of n] by (auto simp: list_all_iff intro!: graphic_digit)

text \<open>The month and the day of a yearly plan survive their way through the text
  \<open>M-D\<close>: the coerced renewal day splits into them again.\<close>
lemma coerce_yearly_roundtrip:
  assumes "1 \<le> m" "m \<le> 12" "1 \<le> d" "d \<le> 31" and "cycle = CycleYearly \<or> cycle = CycleLunarYearly"
  shows "\<exists>rd. coerce_renewal_day (itoa m @ ''-'' @ itoa d) cycle = Some rd \<and> split_mmdd rd = Some (m, d)"
proof -
  let ?a = "nat_digits (nat m)" and ?b = "nat_digits (nat d)"
  have ab: "itoa m = ?a" "itoa d = ?b" using assms by (simp_all add: itoa_def)
  have "match_mmdd (?a @ ''-'' @ ?b) = Some (?a, ?b)"
    using assms by (intro match_mmdd_dash nat_digits_are_digits length_nat_digits) auto
  moreover have "trim_space (?a @ ''-'' @ ?b) = ?a @ ''-'' @ ?b"
    using last_nat_digits_graphic by (intro trim_space_graphic) auto
  ultimately have "coerce_renewal_day (itoa m @ ''-'' @ itoa d) cycle = Some (m * 100 + d)"
    using assms by (auto simp: coerce_renewal_day_def ab Let_def)
  moreover have "split_mmdd (m * 100 + d) = Some (m, d)"
    using assms by (simp add: split_mmdd_def Let_def)
  ultimately show ?thesis by blast
qed

lemma coerce_yearly_roundtrip_witness:
  "\<exists>rd. coerce_renewal_day (itoa 3 @ ''-'' @ itoa 15) CycleYearly = Some rd \<and> split_mmdd rd = Some (3, 15)"
  using coerce_yearly_roundtrip [of 3 15 CycleYearly] by simp

text \<open>A zone west of Greenwich that puts its clock forward at midnight, from UTC-5 to
  UTC-4, on day 0.\<close>

definition midnight_gap_zone :: zone where
  "midnight_gap_zone s = (if s < 5 * 3600 then - 18000 else - 14400)"

text \<open>In such a zone the start of the day that begins with the gap is an instant of the
  day before, so a renewal on that day is dated a day early.\<close>
lemma start_of_day_gap:
  "local_day (date_time 1970 1 1 10 0 0 0 midnight_gap_zone) = 0
   \<and> local_day (start_of_day (date_time 1970 1 1 10 0 0 0 midnight_gap_zone)) = - 1
   \<and> fmt_date (safe_month_date 1970 1 1 midnight_gap_zone) = ''1969-12-31''"
proof (intro conjI)
  show "local_day (date_time 1970 1 1 10 0 0 0 midnight_gap_zone) = 0" by code_simp
  show "local_day (start_of_day (date_time 1970 1 1 10 0 0 0 midnight_gap_zone)) = - 1" by code_simp
  show "fmt_date (safe_month_date 1970 1 1 midnight_gap_zone) = ''1969-12-31''" by code_simp
qed

end
