(* ===== verification/Notify.thy ===== *)
theory Notify
  imports Model GoFmt Renewal
begin

text \<open>
  Alert messages and their delivery (\<open>internal/notify\<close>): number formatting, the message
  templates, the payload each platform gets and the retry loop around the HTTP post.  What a
  post returns and whether a wait is cancelled are inputs; turning a payload into JSON text is
  the standard library's and succeeds unless a number is not finite.  Texts beyond ASCII are
  the bytes of their UTF-8 encodings.
\<close>

section \<open>Numbers (\<open>format.go\<close>)\<close>

definition nonFinite :: "f64 \<Rightarrow> gostring option" where
  "nonFinite v = (case v of NaN \<Rightarrow> Some ''nan'' | PInf \<Rightarrow> Some ''inf'' | NInf \<Rightarrow> Some ''-inf'' | Fin _ \<Rightarrow> None)"

text \<open>The loop that writes a comma before every further group of three; \<open>b\<close> is what has
  been written.\<close>

fun group_loop :: "nat \<Rightarrow> gostring \<Rightarrow> gostring \<Rightarrow> gostring" where
  "group_loop 0 b rest = b"
| "group_loop (Suc n) b rest =
     (if rest = [] then b
      else group_loop n ((if b \<noteq> [] then b @ '','' else b) @ take 3 rest) (drop 3 rest))"

definition group :: "gostring \<Rightarrow> gostring" where
  "group digits = (if length digits \<le> 3 then digits
     else let h = length digits mod 3 in group_loop (length digits) (take h digits) (drop h digits))"

definition formatAmount :: "f64 \<Rightarrow> gostring" where
  "formatAmount v = (case nonFinite v of Some s \<Rightarrow> s | None \<Rightarrow>
     (let s0 = format_fixed 2 v;
          (sgn, s) = (if has_prefix s0 ''-'' then (''-'', drop 1 s0) else ([], s0));
          (whole, fr) = (case cut s ''.'' of Some p \<Rightarrow> p | None \<Rightarrow> (s, []))
      in sgn @ group whole @ ''.'' @ fr))"

definition formatFloat :: "f64 \<Rightarrow> gostring" where
  "formatFloat v = (case nonFinite v of Some s \<Rightarrow> s | None \<Rightarrow>
     (let sci = format_e v;
          e = (case cut sci ''e'' of None \<Rightarrow> None | Some (_, t) \<Rightarrow> atoi t);
          s = format_f v
      in case e of
           Some x \<Rightarrow> if x < - 4 \<or> 16 \<le> x then sci
             else (if CHR ''.'' \<in> set s then s else s @ ''.0'')
         | None \<Rightarrow> (if CHR ''.'' \<in> set s then s else s @ ''.0'')))"

definition isoLocal :: "gotime \<Rightarrow> gostring" where
  "isoLocal t = fmt_date t @ ''T'' @ fmt_clock t @
     (if t_nsec t div 1000 = 0 then [] else ''.'' @ pad_int 6 (t_nsec t div 1000))"

section \<open>Messages (\<open>notify.go\<close>, \<open>payload.go\<close>)\<close>

definition TypeFeishu :: gostring where "TypeFeishu = ''feishu''"
definition TypeCustom :: gostring where "TypeCustom = ''custom''"
definition TypeDingTalk :: gostring where "TypeDingTalk = ''dingtalk''"
definition TypeWeCom :: gostring where "TypeWeCom = ''wecom''"

definition KindBalance :: gostring where "KindBalance = ''balance''"
definition KindSubscription :: gostring where "KindSubscription = ''subscription''"
definition KindEmail :: gostring where "KindEmail = ''email''"
definition KindMailboxError :: gostring where "KindMailboxError = ''mailbox_error''"
definition KindBudget :: gostring where "KindBudget = ''budget''"
definition KindCheckFailed :: gostring where "KindCheckFailed = ''check_failed''"

lemmas kind_defs = KindBalance_def KindSubscription_def KindEmail_def KindMailboxError_def
  KindBudget_def KindCheckFailed_def
lemmas platform_defs = TypeFeishu_def TypeCustom_def TypeDingTalk_def TypeWeCom_def

record balanceResource =
  br_project_name :: gostring
  br_owner_project :: "gostring option"
  br_provider :: gostring
  br_balance_type :: gostring
  br_current_value :: f64
  br_threshold :: f64
  br_unit :: gostring
  br_message :: gostring

record checkFailedResource =
  fr_project_name :: gostring
  fr_owner_project :: "gostring option"
  fr_provider :: gostring
  fr_error :: gostring
  fr_message :: gostring

record subscriptionResource =
  ur_subscription_name :: gostring
  ur_owner_project :: "gostring option"
  ur_renewal_day :: int
  ur_cycle_type :: gostring
  ur_days_until_renewal :: int
  ur_amount :: f64
  ur_message :: gostring

datatype alert_resource = BalanceResource balanceResource | CheckFailedResource checkFailedResource
  | SubscriptionResource subscriptionResource

record envelope =
  ev_type :: gostring
  ev_rule_name :: gostring
  ev_level :: gostring
  ev_resources :: "alert_resource list"

record message =
  mg_title :: gostring
  mg_lines :: "gostring list"
  mg_kind :: gostring
  mg_envelope :: "envelope option"

section \<open>Message templates (\<open>message.go\<close>)\<close>

definition appendOwner :: "gostring list \<Rightarrow> gostring option \<Rightarrow> gostring list" where
  "appendOwner lines owner = (case owner of None \<Rightarrow> lines
     | Some s \<Rightarrow> if s = [] then lines else lines @ [''Owner project: '' @ s])"

text \<open>The warning sign, the cross and the envelope sign of the templates.\<close>

definition warning_sign :: gostring where
  "warning_sign = [CHR 0xE2, CHR 0x9A, CHR 0xA0, CHR 0xEF, CHR 0xB8, CHR 0x8F]"
definition cross_sign :: gostring where "cross_sign = [CHR 0xE2, CHR 0x9D, CHR 0x8C]"
definition mail_sign :: gostring where "mail_sign = [CHR 0xF0, CHR 0x9F, CHR 0x93, CHR 0xA7]"

definition balanceAlert :: "gostring \<Rightarrow> gostring option \<Rightarrow> gostring \<Rightarrow> gostring \<Rightarrow> f64 \<Rightarrow> f64 \<Rightarrow> gostring \<Rightarrow> message" where
  "balanceAlert project owner provider balance_type current_value threshold unt =
     (let current = unt @ formatAmount current_value; limit = unt @ formatAmount threshold in
      \<lparr>mg_title = ''Balance alert'',
       mg_lines = appendOwner [''API call: '' @ project] owner @
         [''Provider: '' @ provider,
          ''Current '' @ balance_type @ '': '' @ current,
          ''Alert threshold: '' @ limit,
          ''Status: '' @ warning_sign @ '' '' @ balance_type @ '' insufficient''],
       mg_kind = KindBalance,
       mg_envelope = Some \<lparr>ev_type = ''AlarmNotification'', ev_rule_name = project @ '' balance alert'',
         ev_level = ''critical'',
         ev_resources = [BalanceResource \<lparr>br_project_name = project, br_owner_project = owner,
           br_provider = provider, br_balance_type = balance_type, br_current_value = current_value,
           br_threshold = threshold, br_unit = unt,
           br_message = ''Project ['' @ project @ ''] has insufficient '' @ balance_type @ ''; current: ''
             @ current @ '', threshold: '' @ limit\<rparr>]\<rparr>\<rparr>)"

definition BalanceAlert :: "gostring \<Rightarrow> gostring option \<Rightarrow> gostring \<Rightarrow> f64 \<Rightarrow> f64 \<Rightarrow> message" where
  "BalanceAlert project owner provider current_value threshold =
     balanceAlert project owner provider ''balance'' current_value threshold []"

definition CheckFailedAlert :: "gostring \<Rightarrow> gostring option \<Rightarrow> gostring \<Rightarrow> gostring \<Rightarrow> message" where
  "CheckFailedAlert project owner provider reason =
     \<lparr>mg_title = ''Balance check failed'',
      mg_lines = appendOwner [''API call: '' @ project] owner @
        [''Provider: '' @ provider, ''Error: '' @ reason,
         ''Status: '' @ cross_sign @ '' balance unavailable; this account is not monitored until a check succeeds''],
      mg_kind = KindCheckFailed,
      mg_envelope = Some \<lparr>ev_type = ''AlarmNotification'', ev_rule_name = project @ '' balance check failed'',
        ev_level = ''critical'',
        ev_resources = [CheckFailedResource \<lparr>fr_project_name = project, fr_owner_project = owner,
          fr_provider = provider, fr_error = reason,
          fr_message = ''Project ['' @ project @ ''] balance check failed: '' @ reason\<rparr>]\<rparr>\<rparr>"

definition splitMMDD :: "int \<Rightarrow> (int \<times> int) option" where
  "splitMMDD rd = (if rd \<le> 31 then None
     else let month = go_div rd 100; day = go_mod rd 100 in
       if month < 1 \<or> 12 < month \<or> day < 1 \<or> 31 < day then None else Some (month, day))"

definition cycle_weekdays :: "gostring list" where
  "cycle_weekdays = [''Monday'', ''Tuesday'', ''Wednesday'', ''Thursday'', ''Friday'', ''Saturday'', ''Sunday'']"

definition FormatSubscriptionCycle :: "gostring \<Rightarrow> int \<Rightarrow> gostring" where
  "FormatSubscriptionCycle cycle_type rd =
     (if cycle_type = CycleWeekly then
        (if 1 \<le> rd \<and> rd \<le> 7 then ''Weekly '' @ cycle_weekdays ! nat (rd - 1)
         else ''Weekly day '' @ itoa rd)
      else if cycle_type = CycleYearly then
        (case splitMMDD rd of Some (m, d) \<Rightarrow> ''Annually on '' @ pad_int 2 m @ ''-'' @ pad_int 2 d
         | None \<Rightarrow> ''Fixed annual date'')
      else if cycle_type = CycleLunarYearly then
        (case splitMMDD rd of Some (m, d) \<Rightarrow> ''Annually on lunar '' @ pad_int 2 m @ ''-'' @ pad_int 2 d
         | None \<Rightarrow> ''Fixed lunar date'')
      else if cycle_type = CycleMonthly then ''Monthly on day '' @ itoa rd
      else ''Unknown cycle'')"

definition formatDays :: "int \<Rightarrow> gostring" where
  "formatDays days = (if days = 0 then ''Today'' else if days = 1 then ''Tomorrow''
     else ''In '' @ itoa days @ '' days'')"

definition SubscriptionAlert :: "gostring \<Rightarrow> gostring option \<Rightarrow> gostring \<Rightarrow> int \<Rightarrow> int \<Rightarrow> f64 \<Rightarrow> message" where
  "SubscriptionAlert name owner cycle_type rd days amount =
     (let cycle = FormatSubscriptionCycle cycle_type rd in
      \<lparr>mg_title = ''Subscription reminder'',
       mg_lines = appendOwner [''Subscription: '' @ name] owner @
         [''Renewal cycle: '' @ cycle, ''Time until renewal: '' @ formatDays days,
          ''Renewal amount: '' @ formatFloat amount],
       mg_kind = KindSubscription,
       mg_envelope = Some \<lparr>ev_type = ''SubscriptionReminder'', ev_rule_name = name @ '' subscription reminder'',
         ev_level = (if days \<le> 0 then ''critical'' else ''warning''),
         ev_resources = [SubscriptionResource \<lparr>ur_subscription_name = name, ur_owner_project = owner,
           ur_renewal_day = rd, ur_cycle_type = cycle_type, ur_days_until_renewal = days,
           ur_amount = amount,
           ur_message = ''Subscription reminder for ['' @ name @ '']: due '' @ renews_in days @ '' ('' @ cycle
             @ ''), amount: '' @ formatFloat amount\<rparr>]\<rparr>\<rparr>)"

definition Custom :: "gostring \<Rightarrow> gostring list \<Rightarrow> gostring \<Rightarrow> message" where
  "Custom title lines kind = \<lparr>mg_title = title, mg_lines = lines, mg_kind = kind, mg_envelope = None\<rparr>"

definition serviceText :: "gostring option \<Rightarrow> gostring" where
  "serviceText name = (case name of None \<Rightarrow> ''None'' | Some s \<Rightarrow> s)"

definition EmailAlert :: "gostring \<Rightarrow> gostring \<Rightarrow> gostring \<Rightarrow> gostring \<Rightarrow> gostring list \<Rightarrow> gostring option \<Rightarrow> f64 option \<Rightarrow> message" where
  "EmailAlert mailbox0 subject sender date keywords service amount =
     (let mailbox = (if mailbox0 = [] then ''Unknown'' else mailbox0);
          lines = [''**Mailbox**: '' @ mailbox, ''**Sender**: '' @ sender, ''**Date**: '' @ date,
            ''**Service**: '' @ serviceText service];
          lines' = (case amount of None \<Rightarrow> lines
            | Some a \<Rightarrow> if feq a (Fin 0) then lines else lines @ [''**Amount**: '' @ formatFloat a])
      in \<lparr>mg_title = mail_sign @ '' Email alert: '' @ subject,
          mg_lines = lines' @ [''**Keywords**: '' @ join '', '' keywords],
          mg_kind = KindEmail, mg_envelope = None\<rparr>)"

definition mailboxError :: "gostring \<Rightarrow> gostring \<Rightarrow> gotime \<Rightarrow> message" where
  "mailboxError mailbox reason when =
     \<lparr>mg_title = cross_sign @ '' Mailbox connection failed'',
      mg_lines = [''**Mailbox**: '' @ mailbox, ''**Error message**: '' @ reason,
        ''**Time**: '' @ fmt_date when @ '' '' @ fmt_clock when],
      mg_kind = KindMailboxError, mg_envelope = None\<rparr>"

definition MailboxError :: "gotime \<Rightarrow> gostring \<Rightarrow> gostring \<Rightarrow> gostring \<Rightarrow> message" where
  "MailboxError now mailbox host reason = mailboxError mailbox reason now"

section \<open>Payloads (\<open>payload.go\<close>)\<close>

record feishuTextPayload = ft_msg_type :: gostring  ft_text :: gostring
record feishuCardElement = fe_tag :: gostring  fe_content :: gostring
record feishuCardPayload =
  fc_msg_type :: gostring
  fc_title_tag :: gostring
  fc_title_content :: gostring
  fc_template :: gostring
  fc_elements :: "feishuCardElement list"
record dingtalkPayload = dt_msg_type :: gostring  dt_title :: gostring  dt_text :: gostring
record wecomTextPayload = wt_msg_type :: gostring  wt_content :: gostring
record wecomMarkdownPayload = wm_msg_type :: gostring  wm_content :: gostring
record customPayload = cu_title :: gostring  cu_content :: gostring  cu_source :: gostring  cu_timestamp :: gostring

datatype payload = FeishuText feishuTextPayload | FeishuCard feishuCardPayload | DingTalk dingtalkPayload
  | WeComText wecomTextPayload | WeComMarkdown wecomMarkdownPayload | CustomP customPayload
  | EnvelopeP envelope

record notifier =
  nf_url :: gostring
  nf_typ :: gostring
  nf_source :: gostring
  nf_backoff :: "duration list"

definition custom_payload :: "notifier \<Rightarrow> gotime \<Rightarrow> gostring \<Rightarrow> gostring \<Rightarrow> customPayload" where
  "custom_payload n now title content =
     \<lparr>cu_title = title, cu_content = content, cu_source = nf_source n, cu_timestamp = isoLocal now\<rparr>"

definition nl :: gostring where "nl = [CHR 0x0A]"

definition dingtalk_line :: "gostring \<Rightarrow> gostring" where
  "dingtalk_line line = (case cut line '': '' of
     Some (key, value) \<Rightarrow> ''- **'' @ key @ ''**: '' @ value | None \<Rightarrow> ''- '' @ line)"

definition dingtalkList :: "gostring \<Rightarrow> gostring" where
  "dingtalkList text = join nl (map dingtalk_line (split_on (CHR 0x0A) text))"

definition plainPayload :: "notifier \<Rightarrow> gotime \<Rightarrow> gostring \<Rightarrow> gostring \<Rightarrow> envelope option \<Rightarrow> payload" where
  "plainPayload n now title text env =
     (if nf_typ n = TypeFeishu then
        FeishuText \<lparr>ft_msg_type = ''text'',
          ft_text = ''['' @ title @ '']'' @ nl @ nl @ text @ nl @ ''Source: '' @ nf_source n\<rparr>
      else if nf_typ n = TypeDingTalk then
        DingTalk \<lparr>dt_msg_type = ''markdown'', dt_title = title,
          dt_text = ''## '' @ title @ nl @ nl @ dingtalkList text\<rparr>
      else if nf_typ n = TypeCustom then
        (case env of Some e \<Rightarrow> EnvelopeP e | None \<Rightarrow> CustomP (custom_payload n now title text))
      else WeComText \<lparr>wt_msg_type = ''text'', wt_content = ''['' @ title @ '']'' @ nl @ text\<rparr>)"

definition richPayload :: "notifier \<Rightarrow> gotime \<Rightarrow> gostring \<Rightarrow> gostring \<Rightarrow> payload" where
  "richPayload n now title content =
     (if nf_typ n = TypeFeishu then
        FeishuCard \<lparr>fc_msg_type = ''interactive'', fc_title_tag = ''plain_text'', fc_title_content = title,
          fc_template = ''orange'', fc_elements = [\<lparr>fe_tag = ''markdown'', fe_content = content\<rparr>]\<rparr>
      else if nf_typ n = TypeDingTalk then
        DingTalk \<lparr>dt_msg_type = ''markdown'', dt_title = title, dt_text = ''### '' @ title @ nl @ nl @ content\<rparr>
      else if nf_typ n = TypeWeCom then
        WeComMarkdown \<lparr>wm_msg_type = ''markdown'', wm_content = ''### '' @ title @ nl @ nl @ content\<rparr>
      else CustomP (custom_payload n now title content))"

definition payload_of :: "notifier \<Rightarrow> gotime \<Rightarrow> message \<Rightarrow> payload" where
  "payload_of n now msg =
     (let text = join nl (mg_lines msg) in
      if mg_kind msg = KindBalance \<or> mg_kind msg = KindSubscription
      then plainPayload n now (mg_title msg) text (mg_envelope msg)
      else richPayload n now (mg_title msg) text)"

text \<open>Whether the payload has a JSON text: every number in it is finite.\<close>

definition resource_ok :: "alert_resource \<Rightarrow> bool" where
  "resource_ok r = (case r of
       BalanceResource b \<Rightarrow> is_finite (br_current_value b) \<and> is_finite (br_threshold b)
     | CheckFailedResource _ \<Rightarrow> True
     | SubscriptionResource u \<Rightarrow> is_finite (ur_amount u))"

definition marshals :: "payload \<Rightarrow> bool" where
  "marshals p = (case p of EnvelopeP e \<Rightarrow> list_all resource_ok (ev_resources e) | _ \<Rightarrow> True)"

section \<open>Building a notifier\<close>

definition SupportedTypes :: "gostring list" where
  "SupportedTypes = [TypeFeishu, TypeCustom, TypeDingTalk, TypeWeCom]"

fun supported_in :: "gostring list \<Rightarrow> gostring \<Rightarrow> bool" where
  "supported_in [] typ = False"
| "supported_in (t # ts) typ = (if t = typ then True else supported_in ts typ)"

definition supported :: "gostring \<Rightarrow> bool" where
  "supported typ = supported_in SupportedTypes typ"

definition defaultBackoff :: "duration list" where
  "defaultBackoff = [2 * second, 4 * second]"

definition New :: "gostring \<Rightarrow> gostring \<Rightarrow> gostring \<Rightarrow> goerror + notifier option" where
  "New url webhook_type source =
     (if trim_space url = [] then Inr None
      else let t = to_lower (trim_space webhook_type); typ = (if t = [] then TypeCustom else t) in
        if \<not> supported typ then
          Inl (''Unsupported Webhook type '' @ quote webhook_type @ ''; options: '' @ join ''/'' SupportedTypes)
        else Inr (Some \<lparr>nf_url = url, nf_typ = typ, nf_source = source, nf_backoff = defaultBackoff\<rparr>))"

section \<open>Delivery\<close>

text \<open>What one HTTP exchange yields: no response, or a status with the \<open>Retry-After\<close> header
  and the body read.\<close>

datatype http_outcome = NoRequest goerror | NoResponse goerror | Response int gostring gostring

text \<open>An error and whether \<open>post\<close> marks it as worth a retry.\<close>

datatype post_result = PostOk | PostRetry goerror | PostFail goerror

text \<open>\<open>[]rune\<close> truncation counts code points: a byte that does not continue a UTF-8
  sequence starts one.\<close>

definition rune_start :: "char \<Rightarrow> bool" where
  "rune_start c \<longleftrightarrow> \<not> (128 \<le> byte c \<and> byte c < 192)"

fun take_runes :: "nat \<Rightarrow> gostring \<Rightarrow> gostring" where
  "take_runes n [] = []"
| "take_runes n (c # s) = (if rune_start c then (case n of 0 \<Rightarrow> [] | Suc k \<Rightarrow> c # take_runes k s)
     else c # take_runes n s)"

definition head_runes :: "gostring \<Rightarrow> nat \<Rightarrow> gostring" where
  "head_runes s n = take_runes n s"

definition snippet :: "gostring \<Rightarrow> nat \<Rightarrow> gostring" where
  "snippet b limit = head_runes (trim_space b) limit"

definition post :: "http_outcome \<Rightarrow> post_result" where
  "post r = (case r of
       NoRequest e \<Rightarrow> PostFail (''Failed to construct Webhook request: '' @ e)
     | NoResponse e \<Rightarrow> PostRetry (''Webhook request failed: '' @ e)
     | Response status retry_after text \<Rightarrow>
         if 200 \<le> status \<and> status < 300 then PostOk
         else if status = 429 then
           PostRetry (''Webhook rate limited: HTTP 429, Retry-After: '' @ retry_after @ '', '' @ snippet text 200)
         else if 500 \<le> status then
           PostRetry (''Webhook server error: HTTP '' @ itoa status @ '', '' @ snippet text 200)
         else PostFail (''Webhook returned HTTP '' @ itoa status @ '': '' @ snippet text 500))"

definition attemptedError :: "nat \<Rightarrow> goerror \<Rightarrow> goerror" where
  "attemptedError attempts e = ''after '' @ itoa (int attempts) @ '' attempt(s): '' @ e"

text \<open>\<open>http k\<close> is what the exchange of attempt \<open>k\<close> yields, \<open>cancelled k\<close> the error of the
  context when the wait after attempt \<open>k\<close> is cut short.  The list is the backoff still
  ahead; the result is the error and the number of posts made.\<close>

fun send_loop :: "(nat \<Rightarrow> http_outcome) \<Rightarrow> (nat \<Rightarrow> goerror option) \<Rightarrow> duration list \<Rightarrow> nat \<Rightarrow> goerror option \<times> nat" where
  "send_loop http cancelled backoff attempt =
     (case post (http attempt) of
        PostOk \<Rightarrow> (None, attempt + 1)
      | PostFail e \<Rightarrow> (Some (attemptedError (attempt + 1) e), attempt + 1)
      | PostRetry e \<Rightarrow> (case backoff of
            [] \<Rightarrow> (Some (attemptedError (attempt + 1) e), attempt + 1)
          | d # rest \<Rightarrow> (case cancelled attempt of
                Some w \<Rightarrow> (Some (''after '' @ itoa (int attempt + 1) @ '' attempt(s): '' @ e
                    @ '' (wait cancelled: '' @ w @ '')''), attempt + 1)
              | None \<Rightarrow> send_loop http cancelled rest (attempt + 1))))"

declare send_loop.simps [simp del]

text \<open>The serialisation error is the JSON package's.\<close>

definition Send :: "notifier \<Rightarrow> gotime \<Rightarrow> goerror \<Rightarrow> (nat \<Rightarrow> http_outcome) \<Rightarrow> (nat \<Rightarrow> goerror option) \<Rightarrow> message \<Rightarrow> goerror option \<times> nat" where
  "Send n now json_error http cancelled msg =
     (if \<not> marshals (payload_of n now msg)
      then (Some (''Failed to serialize Webhook payload: '' @ json_error), 0)
      else send_loop http cancelled (nf_backoff n) 0)"

section \<open>Masking\<close>

definition ellipsis :: gostring where "ellipsis = ''***''"

fun mask_markers :: "gostring list \<Rightarrow> gostring \<Rightarrow> gostring option" where
  "mask_markers [] raw = None"
| "mask_markers (m # ms) raw = (case cut raw m of
     None \<Rightarrow> mask_markers ms raw
   | Some (prefix, secret) \<Rightarrow> Some (if secret = [] then prefix @ m @ ellipsis
       else prefix @ m @ head_runes secret 4 @ ellipsis))"

definition rune_count :: "gostring \<Rightarrow> nat" where "rune_count s = count_if rune_start s"

definition last_runes :: "gostring \<Rightarrow> nat \<Rightarrow> gostring" where
  "last_runes s n = drop (length (take_runes (rune_count s - n) s)) s"

definition MaskURL :: "gostring \<Rightarrow> gostring" where
  "MaskURL raw = (if raw = [] then [] else
     (case mask_markers [''hook/'', ''access_token='', ''key=''] raw of
        Some s \<Rightarrow> s
      | None \<Rightarrow> if rune_count raw \<le> 16 then ellipsis
          else head_runes raw 12 @ ellipsis @ last_runes raw 4))"

section \<open>Grouping digits\<close>

fun chunks3 :: "gostring \<Rightarrow> gostring list" where
  "chunks3 [] = []"
| "chunks3 [a] = [[a]]"
| "chunks3 [a, b] = [[a, b]]"
| "chunks3 (a # b # c # s) = [a, b, c] # chunks3 s"

lemma chunks3_step: "s \<noteq> [] \<Longrightarrow> chunks3 s = take 3 s # chunks3 (drop 3 s)"
  by (cases s rule: chunks3.cases) simp_all

lemma concat_chunks3 [simp]: "concat (chunks3 s) = s"
  by (induction s rule: chunks3.induct) simp_all

lemma chunks3_length:
  "length s mod 3 = 0 \<Longrightarrow> p \<in> set (chunks3 s) \<Longrightarrow> length p = 3"
  by (induction s rule: chunks3.induct) auto

lemma chunks3_sub: "p \<in> set (chunks3 s) \<Longrightarrow> set p \<subseteq> set s"
  by (induction s rule: chunks3.induct) auto

lemma chunks3_Nil_iff [simp]: "chunks3 s = [] \<longleftrightarrow> s = []"
  by (cases s rule: chunks3.cases) simp_all

lemma join_Cons: "ss \<noteq> [] \<Longrightarrow> join sep (s # ss) = s @ sep @ join sep ss"
  by (cases ss) simp_all

lemma join_append_last: "join sep (ss @ [s]) = (if ss = [] then s else join sep ss @ sep @ s)"
  by (induction ss) (auto simp: join_Cons)

lemma group_loop_join:
  "length rest \<le> 3 * n \<Longrightarrow> b = join '','' bs \<Longrightarrow> (b = [] \<longleftrightarrow> bs = []) \<Longrightarrow>
   group_loop n b rest = join '','' (bs @ chunks3 rest)"
proof (induction n arbitrary: b rest bs)
  case (Suc n)
  show ?case
  proof (cases "rest = []")
    case False
    let ?b = "(if b \<noteq> [] then b @ '','' else b) @ take 3 rest"
    have "?b = join '','' (bs @ [take 3 rest])"
      using Suc.prems(2,3) by (auto simp: join_append_last)
    moreover have "(?b = []) = (bs @ [take 3 rest] = [])" using False by auto
    ultimately have "group_loop n ?b (drop 3 rest) = join '','' ((bs @ [take 3 rest]) @ chunks3 (drop 3 rest))"
      using Suc.prems(1) by (intro Suc.IH) auto
    then show ?thesis using False by (simp add: chunks3_step [of rest])
  qed (use Suc.prems in simp)
qed simp

text \<open>The parts of the grouped number: a head of one to three digits, then threes.\<close>

definition digit_groups :: "gostring \<Rightarrow> gostring list" where
  "digit_groups ds = (let h = (if length ds \<le> 3 then length ds else length ds mod 3)
     in (if h = 0 then [] else [take h ds]) @ chunks3 (drop h ds))"

lemma group_eq: "group ds = join '','' (digit_groups ds)"
proof (cases "length ds \<le> 3")
  case False
  let ?h = "length ds mod 3"
  have "group_loop (length ds) (take ?h ds) (drop ?h ds) =
      join '','' ((if ?h = 0 then [] else [take ?h ds]) @ chunks3 (drop ?h ds))"
    by (rule group_loop_join) auto
  with False show ?thesis by (simp add: group_def digit_groups_def Let_def)
qed (auto simp: group_def digit_groups_def Let_def)

lemma digit_groups_props:
  assumes "ds \<noteq> []"
  shows "digit_groups ds \<noteq> []" "concat (digit_groups ds) = ds"
    "1 \<le> length (hd (digit_groups ds)) \<and> length (hd (digit_groups ds)) \<le> 3"
    "\<forall>p \<in> set (tl (digit_groups ds)). length p = 3" "\<forall>p \<in> set (digit_groups ds). set p \<subseteq> set ds"
proof -
  define h where "h = (if length ds \<le> 3 then length ds else length ds mod 3)"
  define cs where "cs = chunks3 (drop h ds)"
  have h: "h \<le> 3" "h \<le> length ds" by (auto simp: h_def intro: less_imp_le)
  have "length (drop h ds) mod 3 = 0" by (auto simp: h_def minus_mod_eq_mult_div)
  from chunks3_length [OF this] have t: "\<forall>p \<in> set cs. length p = 3" by (simp add: cs_def)
  have g: "digit_groups ds = (if h = 0 then [] else [take h ds]) @ cs"
    by (simp add: digit_groups_def Let_def h_def cs_def)
  show "concat (digit_groups ds) = ds" unfolding g by (simp add: cs_def)
  show ne: "digit_groups ds \<noteq> []" using assms unfolding g by (cases "h = 0") (simp_all add: cs_def)
  have "set (tl (digit_groups ds)) \<subseteq> set cs" unfolding g by (cases "h = 0"; cases cs) auto
  with t show "\<forall>p \<in> set (tl (digit_groups ds)). length p = 3" by blast
  show "1 \<le> length (hd (digit_groups ds)) \<and> length (hd (digit_groups ds)) \<le> 3"
  proof (cases "h = 0")
    case True
    then have "hd (digit_groups ds) \<in> set cs" using ne unfolding g by simp
    with t show ?thesis by simp
  next
    case False
    then show ?thesis using h unfolding g by simp
  qed
  have "set (take h ds) \<subseteq> set ds" "\<forall>p \<in> set cs. set p \<subseteq> set ds"
    using chunks3_sub [of _ "drop h ds"] by (auto simp: cs_def dest: in_set_takeD in_set_dropD)
  then show "\<forall>p \<in> set (digit_groups ds). set p \<subseteq> set ds" unfolding g by simp
qed

text \<open>Grouping digits with commas loses nothing and groups by thousands: cut at its
  commas, the text is a group of one to three digits and then groups of exactly three, and
  together they are the digits that went in.\<close>
lemma group_thousands:
  assumes "ds \<noteq> []" and "CHR '','' \<notin> set ds"
  shows "concat (split_on (CHR '','') (group ds)) = ds
    \<and> length (hd (split_on (CHR '','') (group ds))) \<in> {1..3}
    \<and> (\<forall>p \<in> set (tl (split_on (CHR '','') (group ds))). length p = 3)"
proof -
  have "split_on (CHR '','') (group ds) = digit_groups ds"
    unfolding group_eq using digit_groups_props(1,5) [OF assms(1)] assms(2) by (intro split_on_join) auto
  with digit_groups_props [OF assms(1)] show ?thesis by simp
qed

lemma group_thousands_witness: "split_on (CHR '','') (group ''1234567'') = [''1'', ''234'', ''567'']
   \<and> concat (split_on (CHR '','') (group ''1234567'')) = ''1234567''"
proof
  show "split_on (CHR '','') (group ''1234567'') = [''1'', ''234'', ''567'']" by code_simp
  show "concat (split_on (CHR '','') (group ''1234567'')) = ''1234567''"
    using group_thousands [of "''1234567''"] by simp
qed

section \<open>Delivery\<close>

lemma send_loop_count: "snd (send_loop http cancelled bo a) \<le> a + length bo + 1
    \<and> a + 1 \<le> snd (send_loop http cancelled bo a)"
proof (induction bo arbitrary: a)
  case Nil
  show ?case by (subst (1 2) send_loop.simps) (auto split: post_result.splits option.splits)
next
  case (Cons d bo)
  show ?case
    using Cons.IH [of "a + 1"]
    by (subst (1 2) send_loop.simps) (auto split: post_result.splits option.splits)
qed

lemma send_loop_ok:
  "fst (send_loop http cancelled bo a) = None \<longleftrightarrow>
   (\<exists>k \<le> length bo. post (http (a + k)) = PostOk \<and> snd (send_loop http cancelled bo a) = a + k + 1
      \<and> (\<forall>j < k. (\<exists>e. post (http (a + j)) = PostRetry e) \<and> cancelled (a + j) = None))"
proof (induction bo arbitrary: a)
  case Nil
  show ?case by (subst (1 2) send_loop.simps) (auto split: post_result.splits)
next
  case (Cons d bo)
  show ?case
  proof (cases "\<exists>e. post (http a) = PostRetry e \<and> cancelled a = None")
    case True
    then have s: "send_loop http cancelled (d # bo) a = send_loop http cancelled bo (a + 1)"
      by (subst send_loop.simps) auto
    have "(\<exists>k \<le> length bo. P (a + 1 + k) \<and> Q (a + 1 + k + 1) \<and> (\<forall>j < k. R (a + 1 + j))) \<longleftrightarrow>
        (\<exists>k \<le> length (d # bo). P (a + k) \<and> Q (a + k + 1) \<and> (\<forall>j < k. R (a + j)))"
      if "\<not> P a" "R a" for P Q R :: "nat \<Rightarrow> bool"
    proof
      assume "\<exists>k \<le> length bo. P (a + 1 + k) \<and> Q (a + 1 + k + 1) \<and> (\<forall>j < k. R (a + 1 + j))"
      then obtain k where k: "k \<le> length bo" "P (a + 1 + k)" "Q (a + 1 + k + 1)" "\<forall>j < k. R (a + 1 + j)" by blast
      have "R (a + j)" if "j < Suc k" for j using that k(4) \<open>R a\<close> by (cases j) auto
      with k show "\<exists>k \<le> length (d # bo). P (a + k) \<and> Q (a + k + 1) \<and> (\<forall>j < k. R (a + j))"
        by (intro exI [of _ "Suc k"]) auto
    next
      assume "\<exists>k \<le> length (d # bo). P (a + k) \<and> Q (a + k + 1) \<and> (\<forall>j < k. R (a + j))"
      then obtain k where k: "k \<le> length (d # bo)" "P (a + k)" "Q (a + k + 1)" "\<forall>j < k. R (a + j)" by blast
      then obtain l where "k = Suc l" using \<open>\<not> P a\<close> by (cases k) auto
      with k show "\<exists>k \<le> length bo. P (a + 1 + k) \<and> Q (a + 1 + k + 1) \<and> (\<forall>j < k. R (a + 1 + j))"
        by (intro exI [of _ l]) auto
    qed
    from this [of "\<lambda>i. post (http i) = PostOk" "\<lambda>i. (\<exists>e. post (http i) = PostRetry e) \<and> cancelled i = None"
        "\<lambda>i. snd (send_loop http cancelled bo (a + 1)) = i"] True
    show ?thesis unfolding s Cons.IH [of "a + 1"] by auto
  next
    case False
    show ?thesis
    proof (cases "post (http a)")
      case PostOk
      then show ?thesis by (subst (1 2) send_loop.simps) auto
    next
      case (PostRetry e)
      with False obtain w where "cancelled a = Some w" by auto
      with PostRetry show ?thesis
        by (subst (1 2) send_loop.simps) (auto intro!: exI [of _ 0])
    next
      case (PostFail e)
      then show ?thesis by (subst (1 2) send_loop.simps) (auto intro!: exI [of _ 0])
    qed
  qed
qed

section \<open>Properties\<close>



text \<open>The structured envelope reaches a custom webhook for balance alerts and
  subscription reminders, but never for a failed check: its envelope is built and then
  dropped, whatever the platform.\<close>
lemma check_failed_envelope_lost:
  "mg_envelope (CheckFailedAlert project owner provider reason) \<noteq> None
   \<and> payload_of n now (CheckFailedAlert project owner provider reason) \<noteq> EnvelopeP e
   \<and> payload_of (n\<lparr>nf_typ := TypeCustom\<rparr>) now (BalanceAlert project owner provider cur lmt)
       = EnvelopeP (the (mg_envelope (BalanceAlert project owner provider cur lmt)))
   \<and> payload_of (n\<lparr>nf_typ := TypeCustom\<rparr>) now (SubscriptionAlert name owner cycle rd days amount)
       = EnvelopeP (the (mg_envelope (SubscriptionAlert name owner cycle rd days amount)))"
  by (simp add: CheckFailedAlert_def BalanceAlert_def balanceAlert_def SubscriptionAlert_def Let_def
      payload_of_def richPayload_def plainPayload_def kind_defs platform_defs)

text \<open>The two copies of the month-and-day split agree, so a reminder's text names the date
  the calendar renews on.\<close>
lemma splitMMDD_agrees: "splitMMDD rd = split_mmdd rd"
proof (cases "rd \<le> 31")
  case False
  then have "go_div rd 100 = rd div 100" "go_mod rd 100 = rd mod 100"
    by (simp_all add: go_mod_def go_div_nonneg minus_mult_div_eq_mod)
  with False show ?thesis by (auto simp: splitMMDD_def split_mmdd_def Let_def)
qed (simp add: splitMMDD_def split_mmdd_def)

text \<open>Two webhook addresses that differ only after the fourth character of the secret have
  the same masked form, so the log shows no more of a secret than that.\<close>
lemma MaskURL_hides:
  assumes "cut url1 ''hook/'' = Some (p, s1)" and "cut url2 ''hook/'' = Some (p, s2)"
    and "s1 \<noteq> []" "s2 \<noteq> []" and "head_runes s1 4 = head_runes s2 4"
  shows "MaskURL url1 = MaskURL url2 \<and> MaskURL url1 = p @ ''hook/'' @ head_runes s1 4 @ ''***''"
proof -
  have "url1 \<noteq> []" "url2 \<noteq> []" using assms(1,2) by (auto dest: cut_Some)
  with assms show ?thesis by (simp add: MaskURL_def ellipsis_def)
qed

lemma MaskURL_hides_witness:
  "MaskURL ''https://h/hook/abcdefgh'' = MaskURL ''https://h/hook/abcd1234''"
proof -
  have "cut ''https://h/hook/abcdefgh'' ''hook/'' = Some (''https://h/'', ''abcdefgh'')"
    "cut ''https://h/hook/abcd1234'' ''hook/'' = Some (''https://h/'', ''abcd1234'')"
    "head_runes ''abcdefgh'' 4 = head_runes ''abcd1234'' 4" by code_simp+
  from MaskURL_hides [OF this(1,2) _ _ this(3)] show ?thesis by simp
qed

end
