(* ===== verification/Store.thy ===== *)
theory Store
  imports Model Renewal
begin

text \<open>
  The persistence layer (\<open>internal/store\<close>): the record types of the contract, the store
  in memory that stands in when the database is off (\<open>volatile.go\<close>), the alert and email
  history of the SQL store with the statements it runs, and the merged event list.  An
  instant is a number of nanoseconds; every operation takes the reading of the clock it makes.
  The tables keep their rows newest first; the database engine itself is not modelled beyond
  the meaning of the statements.
\<close>

section \<open>Records (\<open>store.go\<close>)\<close>

record balance_record =
  bc_project_id :: gostring
  bc_project_name :: gostring
  bc_provider :: gostring
  bc_balance :: f64
  bc_threshold :: "f64 option"
  bc_balance_type :: gostring
  bc_need_alarm :: bool

record alert_record =
  ar_id :: gostring
  ar_name :: gostring
  ar_type :: gostring
  ar_message :: gostring
  ar_value :: "f64 option"
  ar_threshold :: "f64 option"
  ar_status :: gostring

record email_alert_record =
  er_mailbox :: gostring
  er_sender :: gostring
  er_subject :: gostring
  er_date :: gostring
  er_service_name :: "gostring option"
  er_amount :: "f64 option"
  er_keywords :: "gostring list"
  er_alert_sent :: bool

record alert_query =
  aq_project_id :: gostring
  aq_alert_type :: gostring
  aq_days :: int
  aq_limit :: int

text \<open>A row of the alert history.  The source prints the timestamp as RFC 3339 text with
  nanoseconds and reads that text back; here it stays a number.\<close>

record alert_row =
  al_project_id :: gostring
  al_project_name :: gostring
  al_alert_type :: gostring
  al_status :: gostring
  al_message :: gostring
  al_balance_value :: "f64 option"
  al_threshold_value :: "f64 option"
  al_timestamp :: int

record email_alert_row =
  el_mailbox :: gostring
  el_sender :: gostring
  el_subject :: gostring
  el_date :: gostring
  el_alert_sent :: bool
  el_timestamp :: int

record usage_spend =
  us_project :: gostring
  us_source :: gostring
  us_currency :: gostring
  us_cost :: f64

text \<open>A difference of two instants, saturating as \<open>Time.Sub\<close> does.\<close>

definition ns_sub :: "int \<Rightarrow> int \<Rightarrow> duration" where
  "ns_sub a b = clamp64 (a - b)"

section \<open>Windows and limits (\<open>sql.go\<close>)\<close>

definition defaultAlertDays :: int where "defaultAlertDays = 7"
definition defaultAlertLimit :: int where "defaultAlertLimit = 50"
definition defaultEmailDays :: int where "defaultEmailDays = 30"
definition maxRowLimit :: int where "maxRowLimit = 1000"

definition daysOf :: "int \<Rightarrow> int \<Rightarrow> int" where
  "daysOf days fallback = (if days \<le> 0 then fallback else days)"

definition limitOf :: "int \<Rightarrow> int \<Rightarrow> int" where
  "limitOf lmt fallback = (if lmt \<le> 0 then fallback else if maxRowLimit < lmt then maxRowLimit else lmt)"

definition rowLimit32 :: "int \<Rightarrow> int" where
  "rowLimit32 lmt = (if lmt < 0 then 0 else if 2 ^ 31 - 1 < lmt then 2 ^ 31 - 1 else lmt)"

text \<open>Midnight does not matter here: \<open>AddDate\<close> on a UTC time moves it by whole days.\<close>

definition sinceDays :: "int \<Rightarrow> int \<Rightarrow> int" where
  "sinceDays now days = t_ns (add_date \<lparr>t_ns = now, t_zone = utc_zone\<rparr> 0 0 (- days))"

definition since :: "int \<Rightarrow> int \<Rightarrow> int \<Rightarrow> int" where
  "since now days fallback = sinceDays now (daysOf days fallback)"

lemma sinceDays_eq: "sinceDays now days = now - days * day_dur"
  by (simp add: sinceDays_def add_days_utc)

section \<open>The store in memory (\<open>volatile.go\<close>)\<close>

definition volatileRetention :: duration where "volatileRetention = 31 * 24 * hour"

type_synonym alertKey = "gostring \<times> gostring"
type_synonym emailKey = "gostring \<times> gostring \<times> gostring \<times> gostring"

record volatileStore =
  vs_sent :: "alertKey \<Rightarrow> int option"
  vs_emails :: "emailKey \<Rightarrow> int option"

definition Volatile :: volatileStore where
  "Volatile = \<lparr>vs_sent = (\<lambda>_. None), vs_emails = (\<lambda>_. None)\<rparr>"

definition drop_old :: "int \<Rightarrow> ('k \<Rightarrow> int option) \<Rightarrow> 'k \<Rightarrow> int option" where
  "drop_old now m k = (case m k of None \<Rightarrow> None
     | Some at_ns \<Rightarrow> if volatileRetention < ns_sub now at_ns then None else Some at_ns)"

definition vs_prune :: "int \<Rightarrow> volatileStore \<Rightarrow> volatileStore" where
  "vs_prune now v = v\<lparr>vs_sent := drop_old now (vs_sent v), vs_emails := drop_old now (vs_emails v)\<rparr>"

definition vs_SaveAlert :: "int \<Rightarrow> alert_record \<Rightarrow> volatileStore \<Rightarrow> volatileStore" where
  "vs_SaveAlert now rec v =
     (if ar_status rec \<noteq> [] \<and> ar_status rec \<noteq> ''sent'' then v
      else vs_prune now (v\<lparr>vs_sent := (vs_sent v)((ar_id rec, ar_type rec) := Some now)\<rparr>))"

definition vs_LastSentAlert :: "int \<Rightarrow> gostring \<Rightarrow> gostring \<Rightarrow> duration \<Rightarrow> volatileStore \<Rightarrow> int option" where
  "vs_LastSentAlert now alert_id alert_type cool v =
     (if cool \<le> 0 then None
      else (case vs_sent v (alert_id, alert_type) of None \<Rightarrow> None
        | Some at_ns \<Rightarrow> if cool < ns_sub now at_ns then None else Some at_ns))"

definition vs_HasRecentAlert :: "int \<Rightarrow> gostring \<Rightarrow> gostring \<Rightarrow> duration \<Rightarrow> volatileStore \<Rightarrow> bool" where
  "vs_HasRecentAlert now alert_id alert_type cool v =
     (vs_LastSentAlert now alert_id alert_type cool v \<noteq> None)"

definition email_key :: "email_alert_record \<Rightarrow> emailKey" where
  "email_key rec = (er_mailbox rec, er_sender rec, er_subject rec, er_date rec)"

definition vs_SaveEmailAlert :: "int \<Rightarrow> email_alert_record \<Rightarrow> volatileStore \<Rightarrow> volatileStore" where
  "vs_SaveEmailAlert now rec v =
     (if \<not> er_alert_sent rec then v
      else vs_prune now (v\<lparr>vs_emails := (vs_emails v)(email_key rec := Some now)\<rparr>))"

definition vs_HasRecentEmailAlert :: "int \<Rightarrow> gostring \<Rightarrow> gostring \<Rightarrow> gostring \<Rightarrow> gostring \<Rightarrow> int \<Rightarrow> volatileStore \<Rightarrow> bool" where
  "vs_HasRecentEmailAlert now mailbox sender subject date days v =
     (case vs_emails v (mailbox, sender, subject, date) of None \<Rightarrow> False
      | Some at_ns \<Rightarrow> ns_sub now at_ns \<le> daysOf days defaultEmailDays * 24 * hour)"

section \<open>Repairing old messages (\<open>sql.go\<close>)\<close>

text \<open>A leading \<open>(.+)\<close> of a pattern, longest first: the split of the text whose second part
  the rest of the pattern, \<open>f\<close>, accepts.  A text with a newline matches neither pattern, as
  the dot does not.\<close>

fun greedy :: "(gostring \<Rightarrow> 'b option) \<Rightarrow> gostring \<Rightarrow> nat \<Rightarrow> (gostring \<times> 'b) option" where
  "greedy f s 0 = None"
| "greedy f s (Suc n) = (case f (drop (Suc n) s) of Some r \<Rightarrow> Some (take (Suc n) s, r) | None \<Rightarrow> greedy f s n)"

definition legacy_prefix :: gostring where "legacy_prefix = ''Subscription renewal reminder: ''"

definition renews_tail :: "gostring \<Rightarrow> gostring option" where
  "renews_tail s = (if has_prefix s '' renews '' \<and> drop 8 s \<noteq> [] then Some (drop 8 s) else None)"

definition send_failed_mark :: gostring where
  "send_failed_mark = '' '' @ [CHR 0xE2, CHR 0x80, CHR 0x94] @ '' send failed: ''"

definition operation_tail :: "gostring \<Rightarrow> (gostring \<times> gostring) option" where
  "operation_tail s = (if \<not> has_prefix s '' operation '' then None
     else let r = drop 11 s; (sgn, r1) = (if has_prefix r ''-'' then (''-'', drop 1 r) else ([], r));
            (ds, t) = take_digits r1; u = drop 10 t
       in if ds = [] \<or> \<not> has_prefix t '' operation'' then None
          else if u = [] \<or> has_prefix u send_failed_mark then Some (sgn @ ds, u) else None)"

definition match_legacy :: "(gostring \<Rightarrow> 'b option) \<Rightarrow> gostring \<Rightarrow> (gostring \<times> 'b) option" where
  "match_legacy f message = (if CHR 0x0A \<in> set message \<or> \<not> has_prefix message legacy_prefix then None
     else let rest = drop (length legacy_prefix) message in greedy f rest (length rest))"

definition repairAlertMessage :: "gostring \<Rightarrow> gostring" where
  "repairAlertMessage message = (case match_legacy renews_tail message of
       Some (name, rest) \<Rightarrow> ''Subscription reminder: '' @ name @ '' due '' @ rest
     | None \<Rightarrow> (case match_legacy operation_tail message of
           None \<Rightarrow> message
         | Some (name, num, tl_text) \<Rightarrow> (case atoi num of None \<Rightarrow> message
             | Some days \<Rightarrow> ''Subscription reminder: '' @ name @ '' due '' @ renews_in days @ tl_text)))"

section \<open>The SQL tables (\<open>sql.go\<close>)\<close>

record sqlStore =
  db_alerts :: "alert_row list"
  db_emails :: "email_alert_row list"
  db_balances :: "(int \<times> balance_record) list"

definition sql_SaveAlert :: "int \<Rightarrow> alert_record \<Rightarrow> sqlStore \<Rightarrow> sqlStore" where
  "sql_SaveAlert now rec db =
     (let status = (if ar_status rec = [] then ''sent'' else ar_status rec) in
      db\<lparr>db_alerts := \<lparr>al_project_id = ar_id rec, al_project_name = ar_name rec, al_alert_type = ar_type rec,
          al_status = status, al_message = ar_message rec, al_balance_value = ar_value rec,
          al_threshold_value = ar_threshold rec, al_timestamp = now\<rparr> # db_alerts db\<rparr>)"

text \<open>\<open>SELECT COUNT(*) ... WHERE project_id = ? AND alert_type = ? AND status = ? AND timestamp
  >= ?\<close>.\<close>

definition countRecentAlerts :: "gostring \<Rightarrow> gostring \<Rightarrow> gostring \<Rightarrow> int \<Rightarrow> sqlStore \<Rightarrow> nat" where
  "countRecentAlerts alert_id alert_type status from db =
     count_if (\<lambda>r. al_project_id r = alert_id \<and> al_alert_type r = alert_type \<and> al_status r = status
       \<and> from \<le> al_timestamp r) (db_alerts db)"

definition sql_HasRecentAlert :: "int \<Rightarrow> gostring \<Rightarrow> gostring \<Rightarrow> duration \<Rightarrow> sqlStore \<Rightarrow> bool" where
  "sql_HasRecentAlert now alert_id alert_type cool db =
     (if cool \<le> 0 then False
      else 0 < countRecentAlerts alert_id alert_type ''sent'' (now - cool) db)"

text \<open>\<open>... WHERE timestamp >= ? [AND project_id = ?] [AND alert_type = ?] ORDER BY timestamp
  DESC LIMIT ?\<close>, where an empty argument does not filter.\<close>

definition listAlertHistory :: "int \<Rightarrow> gostring \<Rightarrow> gostring \<Rightarrow> int \<Rightarrow> sqlStore \<Rightarrow> alert_row list" where
  "listAlertHistory from pid alert_type lmt db =
     take (nat lmt) (sort_by (\<lambda>a b. al_timestamp b < al_timestamp a)
       (filter (\<lambda>r. from \<le> al_timestamp r \<and> (pid = [] \<or> al_project_id r = pid)
          \<and> (alert_type = [] \<or> al_alert_type r = alert_type)) (db_alerts db)))"

definition sql_RecentAlerts :: "int \<Rightarrow> alert_query \<Rightarrow> sqlStore \<Rightarrow> alert_row list" where
  "sql_RecentAlerts now q db =
     map (\<lambda>r. r\<lparr>al_message := repairAlertMessage (al_message r)\<rparr>)
       (listAlertHistory (since now (aq_days q) defaultAlertDays) (aq_project_id q) (aq_alert_type q)
          (limitOf (aq_limit q) defaultAlertLimit) db)"

fun newest_sent :: "alert_row list \<Rightarrow> int option \<Rightarrow> int option" where
  "newest_sent [] newest = newest"
| "newest_sent (r # rs) newest =
     (if al_status r \<noteq> ''sent'' then newest_sent rs newest
      else newest_sent rs (case newest of None \<Rightarrow> Some (al_timestamp r)
        | Some n \<Rightarrow> if n < al_timestamp r then Some (al_timestamp r) else newest))"

definition sql_LastSentAlert :: "int \<Rightarrow> gostring \<Rightarrow> gostring \<Rightarrow> duration \<Rightarrow> sqlStore \<Rightarrow> int option" where
  "sql_LastSentAlert now alert_id alert_type cool db =
     (if cool \<le> 0 then None
      else newest_sent (sql_RecentAlerts now
        \<lparr>aq_project_id = alert_id, aq_alert_type = alert_type,
         aq_days = f64_to_int64 (fdiv (dur_hours cool) (f64_of_int 24)) + 1, aq_limit = 50\<rparr> db) None)"

definition sql_SaveEmailAlert :: "int \<Rightarrow> email_alert_record \<Rightarrow> sqlStore \<Rightarrow> sqlStore" where
  "sql_SaveEmailAlert now rec db =
     db\<lparr>db_emails := \<lparr>el_mailbox = er_mailbox rec, el_sender = er_sender rec, el_subject = er_subject rec,
        el_date = er_date rec, el_alert_sent = er_alert_sent rec, el_timestamp = now\<rparr> # db_emails db\<rparr>"

definition sql_HasRecentEmailAlert :: "int \<Rightarrow> gostring \<Rightarrow> gostring \<Rightarrow> gostring \<Rightarrow> gostring \<Rightarrow> int \<Rightarrow> sqlStore \<Rightarrow> bool" where
  "sql_HasRecentEmailAlert now mailbox sender subject date days db =
     (0 < count_if (\<lambda>r. el_mailbox r = mailbox \<and> el_sender r = sender \<and> el_subject r = subject
        \<and> el_date r = date \<and> el_alert_sent r \<and> since now days defaultEmailDays \<le> el_timestamp r) (db_emails db))"

text \<open>The balance history; the newest row comes first.\<close>

definition defaultBalanceDays :: int where "defaultBalanceDays = 7"
definition defaultBalanceLimit :: int where "defaultBalanceLimit = 100"
definition defaultBalanceKindTag :: gostring where "defaultBalanceKindTag = TypeCredits"

definition sql_SaveBalance :: "int \<Rightarrow> balance_record \<Rightarrow> sqlStore \<Rightarrow> sqlStore" where
  "sql_SaveBalance now rec db =
     (let ty = (if bc_balance_type rec = [] then defaultBalanceKindTag else bc_balance_type rec)
      in db\<lparr>db_balances := (now, rec\<lparr>bc_balance_type := ty\<rparr>) # db_balances db\<rparr>)"

definition balance_point_of :: "int \<times> balance_record \<Rightarrow> balance_point" where
  "balance_point_of r = (case r of (t, b) \<Rightarrow>
     \<lparr>bp_project_id = bc_project_id b, bp_project_name = bc_project_name b, bp_provider = bc_provider b,
      bp_balance_type = bc_balance_type b, bp_balance = bc_balance b, bp_threshold = bc_threshold b,
      bp_need_alarm = bc_need_alarm b, bp_timestamp = t div second\<rparr>)"

text \<open>\<open>... WHERE timestamp >= ? ORDER BY timestamp\<close>.\<close>

definition sql_BalanceSeries :: "int \<Rightarrow> int \<Rightarrow> sqlStore \<Rightarrow> balance_point list" where
  "sql_BalanceSeries now days db = map balance_point_of
     (sort_by (\<lambda>a b. fst a < fst b) (filter (\<lambda>r. since now days defaultBalanceDays \<le> fst r) (rev (db_balances db))))"

record balance_query =
  bq_project_id :: gostring
  bq_provider :: gostring
  bq_days :: int
  bq_limit :: int

definition sql_BalanceHistory :: "int \<Rightarrow> balance_query \<Rightarrow> sqlStore \<Rightarrow> (int \<times> balance_record) list" where
  "sql_BalanceHistory now q db =
     take (nat (limitOf (bq_limit q) defaultBalanceLimit)) (sort_by (\<lambda>a b. fst b < fst a)
       (filter (\<lambda>(t, b). since now (bq_days q) defaultBalanceDays \<le> t
          \<and> (bq_project_id q = [] \<or> bc_project_id b = bq_project_id q)
          \<and> (bq_provider q = [] \<or> bc_provider b = bq_provider q)) (db_balances db)))"

section \<open>Retention (\<open>retention.go\<close>)\<close>

record prune_counts =
  pc_balance_history :: int
  pc_alert_history :: int
  pc_email_history :: int
  pc_usage_events :: int

definition prune_total :: "prune_counts \<Rightarrow> int" where
  "prune_total p = pc_balance_history p + pc_alert_history p + pc_email_history p + pc_usage_events p"

section \<open>The event list (\<open>events.go\<close>)\<close>

record event_row =
  vt_type :: gostring
  vt_source :: gostring
  vt_status :: gostring
  vt_message :: gostring
  vt_time :: gostring

text \<open>\<open>isoUTC\<close>, the text both feeds carry as their time; it is compared as a string.\<close>

definition isoUTC :: "int \<Rightarrow> gostring" where
  "isoUTC n = fmt_rfc3339nano \<lparr>t_ns = n, t_zone = utc_zone\<rparr>"

definition alert_event :: "alert_row \<Rightarrow> event_row" where
  "alert_event r = \<lparr>vt_type = al_alert_type r,
     vt_source = (if al_project_name r = [] then al_project_id r else al_project_name r),
     vt_status = al_status r, vt_message = al_message r, vt_time = isoUTC (al_timestamp r)\<rparr>"

definition email_event :: "email_alert_row \<Rightarrow> event_row" where
  "email_event r = \<lparr>vt_type = ''email_alert'', vt_source = el_mailbox r, vt_status = [],
     vt_message = el_subject r, vt_time = isoUTC (el_timestamp r)\<rparr>"

definition MergeEvents :: "alert_row list \<Rightarrow> email_alert_row list \<Rightarrow> int \<Rightarrow> event_row list" where
  "MergeEvents alerts emails lmt =
     (let events = sort_by (\<lambda>a b. string_less (vt_time b) (vt_time a))
            (map alert_event alerts @ map email_event emails)
      in if 0 < lmt \<and> lmt < int (length events) then take (nat lmt) events else events)"

section \<open>Properties\<close>

text \<open>The event list holds the events of both feeds and nothing else, newest text first, and a
  positive limit keeps the newest of them.\<close>
lemma MergeEvents_merges:
  "\<exists>rest. mset (MergeEvents alerts emails lmt @ rest) = mset (map alert_event alerts @ map email_event emails)
     \<and> sorted_wrt (\<lambda>a b. \<not> string_less (vt_time a) (vt_time b)) (MergeEvents alerts emails lmt @ rest)
     \<and> length (MergeEvents alerts emails lmt) =
         (if lmt \<le> 0 then length alerts + length emails else min (nat lmt) (length alerts + length emails))"
proof -
  define all where "all = sort_by (\<lambda>a b. string_less (vt_time b) (vt_time a))
    (map alert_event alerts @ map email_event emails)"
  have sw: "strict_weak (\<lambda>a b. string_less (vt_time b) (vt_time a))"
    using strict_weak_string_less unfolding strict_weak_def by blast
  have all: "mset all = mset (map alert_event alerts @ map email_event emails)"
    "sorted_wrt (\<lambda>a b. \<not> string_less (vt_time a) (vt_time b)) all" "length all = length alerts + length emails"
    using sorted_sort_by [OF sw] by (simp_all only: all_def mset_sort_by length_sort_by length_append length_map)
  have m: "MergeEvents alerts emails lmt = (if 0 < lmt \<and> lmt < int (length all) then take (nat lmt) all else all)"
    by (simp add: MergeEvents_def all_def Let_def)
  show ?thesis
  proof (cases "0 < lmt \<and> lmt < int (length all)")
    case True
    then show ?thesis
      using all unfolding m by (intro exI [of _ "drop (nat lmt) all"]) (auto simp: min_def)
  next
    case False
    then show ?thesis using all unfolding m by (intro exI [of _ "[]"]) (auto simp: min_def)
  qed
qed

text \<open>The texts compared drop the trailing zeros of the fraction, so within one second the
  list is not in order of time: an alert on the full second comes before an email a
  nanosecond newer.\<close>
lemma MergeEvents_subsecond:
  "map vt_time (MergeEvents
      [\<lparr>al_project_id = ''p'', al_project_name = [], al_alert_type = ''low_balance'', al_status = ''sent'',
        al_message = [], al_balance_value = None, al_threshold_value = None, al_timestamp = 0\<rparr>]
      [\<lparr>el_mailbox = ''m'', el_sender = ''s'', el_subject = ''t'', el_date = [], el_alert_sent = True,
        el_timestamp = 1\<rparr>] 0)
   = [isoUTC 0, isoUTC 1]"
  by code_simp

end
