(* ===== verification/Effects.thy ===== *)
theory Effects
  imports Notify Store
begin

text \<open>
  The outside world of the checkers: the clock, the notifier, the push channel and a store
  behind the interface of \<open>internal/store\<close>.  Readings of the clock and outcomes of sends are
  inputs, given by the number of the reading or send; the state keeps the store, how often the
  clock was read and everything that was sent.  The locale \<open>alert_log\<close> is what the checkers
  rely on of a store: a sent alert is remembered for its cooldown and a failed one is not.  The
  store in memory and the SQL store both provide it.
\<close>

section \<open>Inputs and state\<close>

record env =
  en_clock :: "nat \<Rightarrow> int"
  en_send :: "nat \<Rightarrow> goerror option"
  en_local :: zone
  en_load_zone :: "gostring \<Rightarrow> zone option"

text \<open>The store operations the checkers call; each gets the reading of the clock it makes, and
  may fail.\<close>

record 's store_ops =
  so_SaveAlert :: "int \<Rightarrow> alert_record \<Rightarrow> 's \<Rightarrow> goerror option \<times> 's"
  so_LastSentAlert :: "int \<Rightarrow> gostring \<Rightarrow> gostring \<Rightarrow> duration \<Rightarrow> 's \<Rightarrow> int option \<times> goerror option"
  so_HasRecentAlert :: "int \<Rightarrow> gostring \<Rightarrow> gostring \<Rightarrow> duration \<Rightarrow> 's \<Rightarrow> bool \<times> goerror option"

record 's history_ops =
  ho_BalanceSeries :: "int \<Rightarrow> int \<Rightarrow> 's \<Rightarrow> balance_point list \<times> goerror option"
  ho_ListUsageSpend :: "gostring \<Rightarrow> 's \<Rightarrow> usage_spend list \<times> goerror option"

record 's world =
  wd_reads :: nat
  wd_store :: 's
  wd_sent :: "(gostring option \<times> message \<times> goerror option) list"
  wd_pushed :: "(gostring \<times> gostring) list"
  wd_notified :: "(gostring \<times> bool) list"

definition read_clock :: "env \<Rightarrow> 's world \<Rightarrow> int \<times> 's world" where
  "read_clock e w = (en_clock e (wd_reads w), w\<lparr>wd_reads := wd_reads w + 1\<rparr>)"

text \<open>A delivery goes to the configured notifier (\<open>None\<close>) or to an address of its own.\<close>

definition deliver :: "env \<Rightarrow> gostring option \<Rightarrow> message \<Rightarrow> 's world \<Rightarrow> goerror option \<times> 's world" where
  "deliver e dest msg w = (let r = en_send e (length (wd_sent w))
     in (r, w\<lparr>wd_sent := wd_sent w @ [(dest, msg, r)]\<rparr>))"

definition push :: "gostring \<Rightarrow> gostring \<Rightarrow> 's world \<Rightarrow> 's world" where
  "push title body w = w\<lparr>wd_pushed := wd_pushed w @ [(title, body)]\<rparr>"

text \<open>The hook that counts notifications.\<close>

definition on_notify :: "gostring \<Rightarrow> bool \<Rightarrow> 's world \<Rightarrow> 's world" where
  "on_notify kind ok w = w\<lparr>wd_notified := wd_notified w @ [(kind, ok)]\<rparr>"

definition save_alert :: "'s store_ops \<Rightarrow> env \<Rightarrow> alert_record \<Rightarrow> 's world \<Rightarrow> goerror option \<times> 's world" where
  "save_alert so e rec w = (let (t, w1) = read_clock e w; (err, s) = so_SaveAlert so t rec (wd_store w1)
     in (err, w1\<lparr>wd_store := s\<rparr>))"

definition last_sent_alert :: "'s store_ops \<Rightarrow> env \<Rightarrow> gostring \<Rightarrow> gostring \<Rightarrow> duration \<Rightarrow> 's world
    \<Rightarrow> (int option \<times> goerror option) \<times> 's world" where
  "last_sent_alert so e i ty cool w = (let (t, w1) = read_clock e w in (so_LastSentAlert so t i ty cool (wd_store w1), w1))"

definition has_recent_alert :: "'s store_ops \<Rightarrow> env \<Rightarrow> gostring \<Rightarrow> gostring \<Rightarrow> duration \<Rightarrow> 's world
    \<Rightarrow> (bool \<times> goerror option) \<times> 's world" where
  "has_recent_alert so e i ty cool w = (let (t, w1) = read_clock e w in (so_HasRecentAlert so t i ty cool (wd_store w1), w1))"

lemma world_simps [simp]:
  "wd_store (push a b w) = wd_store w" "wd_sent (push a b w) = wd_sent w" "wd_reads (push a b w) = wd_reads w"
  "wd_store (on_notify k ok w) = wd_store w" "wd_sent (on_notify k ok w) = wd_sent w"
  "wd_reads (on_notify k ok w) = wd_reads w" "wd_pushed (on_notify k ok w) = wd_pushed w"
  by (simp_all add: push_def on_notify_def)

lemma deliver_sel [simp]:
  "fst (deliver e d m w) = en_send e (length (wd_sent w))" "wd_store (snd (deliver e d m w)) = wd_store w"
  "wd_reads (snd (deliver e d m w)) = wd_reads w" "wd_pushed (snd (deliver e d m w)) = wd_pushed w"
  "wd_sent (snd (deliver e d m w)) = wd_sent w @ [(d, m, en_send e (length (wd_sent w)))]"
  by (simp_all add: deliver_def Let_def)

lemma read_clock_sel [simp]:
  "fst (read_clock e w) = en_clock e (wd_reads w)"
  "wd_store (snd (read_clock e w)) = wd_store w" "wd_sent (snd (read_clock e w)) = wd_sent w"
  "wd_pushed (snd (read_clock e w)) = wd_pushed w" "wd_reads (snd (read_clock e w)) = wd_reads w + 1"
  by (simp_all add: read_clock_def)

lemma save_alert_sel [simp]:
  "wd_store (snd (save_alert so e rec w)) = snd (so_SaveAlert so (en_clock e (wd_reads w)) rec (wd_store w))"
  "wd_sent (snd (save_alert so e rec w)) = wd_sent w" "wd_reads (snd (save_alert so e rec w)) = wd_reads w + 1"
  "wd_pushed (snd (save_alert so e rec w)) = wd_pushed w"
  by (simp_all add: save_alert_def read_clock_def split: prod.splits)

lemma last_sent_alert_sel [simp]:
  "fst (last_sent_alert so e i ty cool w) = so_LastSentAlert so (en_clock e (wd_reads w)) i ty cool (wd_store w)"
  "wd_store (snd (last_sent_alert so e i ty cool w)) = wd_store w"
  "wd_sent (snd (last_sent_alert so e i ty cool w)) = wd_sent w"
  "wd_reads (snd (last_sent_alert so e i ty cool w)) = wd_reads w + 1"
  "wd_pushed (snd (last_sent_alert so e i ty cool w)) = wd_pushed w"
  by (simp_all add: last_sent_alert_def read_clock_def)

lemma has_recent_alert_sel [simp]:
  "fst (has_recent_alert so e i ty cool w) = so_HasRecentAlert so (en_clock e (wd_reads w)) i ty cool (wd_store w)"
  "wd_store (snd (has_recent_alert so e i ty cool w)) = wd_store w"
  "wd_sent (snd (has_recent_alert so e i ty cool w)) = wd_sent w"
  "wd_reads (snd (has_recent_alert so e i ty cool w)) = wd_reads w + 1"
  by (simp_all add: has_recent_alert_def read_clock_def)

section \<open>Stores that keep an alert log\<close>

definition counts_as_sent :: "gostring \<Rightarrow> bool" where
  "counts_as_sent status \<longleftrightarrow> status = [] \<or> status = ''sent''"

text \<open>\<open>known t s\<close>: the state \<open>s\<close> holds nothing later than \<open>t\<close>.  Cooldowns up to \<open>keep\<close> are
  covered.\<close>

locale alert_log =
  fixes so :: "'s store_ops" and known :: "int \<Rightarrow> 's \<Rightarrow> bool" and keep :: int
  assumes known_mono: "known t s \<Longrightarrow> t \<le> t' \<Longrightarrow> known t' s"
    and known_save: "known t s \<Longrightarrow> known t (snd (so_SaveAlert so t rec s))"
    and save_no_error: "fst (so_SaveAlert so t rec s) = None"
    and last_no_error: "snd (so_LastSentAlert so t i ty cool s) = None"
    and recent_no_error: "snd (so_HasRecentAlert so t i ty cool s) = None"
    and last_sent: "known t s \<Longrightarrow> counts_as_sent (ar_status rec) \<Longrightarrow> 0 < cool \<Longrightarrow> cool \<le> keep \<Longrightarrow>
      t \<le> now \<Longrightarrow> now - t \<le> cool \<Longrightarrow> i = ar_id rec \<Longrightarrow> ty = ar_type rec \<Longrightarrow> i \<noteq> [] \<Longrightarrow> ty \<noteq> [] \<Longrightarrow>
      fst (so_LastSentAlert so now i ty cool (snd (so_SaveAlert so t rec s))) = Some t"
    and recent_sent: "known t s \<Longrightarrow> counts_as_sent (ar_status rec) \<Longrightarrow> 0 < cool \<Longrightarrow> cool \<le> keep \<Longrightarrow>
      t \<le> now \<Longrightarrow> now - t \<le> cool \<Longrightarrow> i = ar_id rec \<Longrightarrow> ty = ar_type rec \<Longrightarrow>
      fst (so_HasRecentAlert so now i ty cool (snd (so_SaveAlert so t rec s)))"
    and last_failed: "\<not> counts_as_sent (ar_status rec) \<Longrightarrow> cool \<le> keep \<Longrightarrow> fst (so_LastSentAlert so now i ty cool s) = None \<Longrightarrow>
      fst (so_LastSentAlert so now i ty cool (snd (so_SaveAlert so t rec s))) = None"
    and recent_failed: "\<not> counts_as_sent (ar_status rec) \<Longrightarrow>
      fst (so_HasRecentAlert so now i ty cool (snd (so_SaveAlert so t rec s)))
        = fst (so_HasRecentAlert so now i ty cool s)"
    and last_other: "ar_id rec \<noteq> i \<or> ar_type rec \<noteq> ty \<Longrightarrow> i \<noteq> [] \<Longrightarrow> ty \<noteq> [] \<Longrightarrow> cool \<le> keep \<Longrightarrow> t \<le> now \<Longrightarrow>
      fst (so_LastSentAlert so now i ty cool (snd (so_SaveAlert so t rec s)))
        = fst (so_LastSentAlert so now i ty cool s)"
    and recent_other: "ar_id rec \<noteq> i \<or> ar_type rec \<noteq> ty \<Longrightarrow> cool \<le> keep \<Longrightarrow> t \<le> now \<Longrightarrow>
      fst (so_HasRecentAlert so now i ty cool (snd (so_SaveAlert so t rec s)))
        = fst (so_HasRecentAlert so now i ty cool s)"
section \<open>The store in memory\<close>

definition volatile_ops :: "volatileStore store_ops" where
  "volatile_ops = \<lparr>so_SaveAlert = (\<lambda>t rec v. (None, vs_SaveAlert t rec v)),
     so_LastSentAlert = (\<lambda>t i ty cool v. (vs_LastSentAlert t i ty cool v, None)),
     so_HasRecentAlert = (\<lambda>t i ty cool v. (vs_HasRecentAlert t i ty cool v, None))\<rparr>"

definition vs_known :: "int \<Rightarrow> volatileStore \<Rightarrow> bool" where
  "vs_known t v \<longleftrightarrow> (\<forall>k n. vs_sent v k = Some n \<longrightarrow> n \<le> t)"

lemma volatile_ops_sel [simp]:
  "so_SaveAlert volatile_ops t rec v = (None, vs_SaveAlert t rec v)"
  "so_LastSentAlert volatile_ops t i ty cool v = (vs_LastSentAlert t i ty cool v, None)"
  "so_HasRecentAlert volatile_ops t i ty cool v = (vs_HasRecentAlert t i ty cool v, None)"
  by (simp_all add: volatile_ops_def)

lemma ns_sub_le: "ns_sub a b \<le> c \<longleftrightarrow> a - b \<le> c" if "0 \<le> c" "c < 2 ^ 63 - 1"
  using that by (auto simp: ns_sub_def clamp64_def)

lemma volatileRetention_range: "0 \<le> volatileRetention" "volatileRetention < 2 ^ 63 - 1"
  by (simp_all add: volatileRetention_def second_def)

lemma drop_old_Some: "drop_old now m k = Some n \<Longrightarrow> m k = Some n"
  by (auto simp: drop_old_def split: option.splits if_splits)

lemma drop_old_kept: "drop_old now m k = (case m k of None \<Rightarrow> None | Some n \<Rightarrow> if now - n \<le> volatileRetention then Some n else None)"
  using ns_sub_le [OF volatileRetention_range] by (auto simp: drop_old_def not_less [symmetric] split: option.splits)

lemma vs_SaveAlert_sent:
  "vs_sent (vs_SaveAlert t rec v) k = (if counts_as_sent (ar_status rec)
     then drop_old t ((vs_sent v)((ar_id rec, ar_type rec) := Some t)) k else vs_sent v k)"
  by (simp add: vs_SaveAlert_def vs_prune_def counts_as_sent_def)

lemma vs_LastSentAlert_eq:
  assumes "cool \<le> volatileRetention"
  shows "vs_LastSentAlert now i ty cool v = (case vs_sent v (i, ty) of None \<Rightarrow> None
     | Some n \<Rightarrow> if 0 < cool \<and> now - n \<le> cool then Some n else None)"
  using ns_sub_le [of cool] assms volatileRetention_range
  by (auto simp: vs_LastSentAlert_def not_less [symmetric] split: option.splits)

lemma vs_LastSentAlert_pruned:
  assumes "cool \<le> volatileRetention" and "t \<le> now"
    and "vs_sent v' (i, ty) = drop_old t m (i, ty)" and "vs_sent v (i, ty) = m (i, ty)"
  shows "vs_LastSentAlert now i ty cool v' = vs_LastSentAlert now i ty cool v"
  unfolding vs_LastSentAlert_eq [OF assms(1)] assms(3,4) drop_old_kept using assms(1,2)
  by (auto split: option.splits)

lemma vs_LastSentAlert_other:
  assumes "ar_id rec \<noteq> i \<or> ar_type rec \<noteq> ty" and "cool \<le> volatileRetention" and "t \<le> now"
  shows "vs_LastSentAlert now i ty cool (vs_SaveAlert t rec v) = vs_LastSentAlert now i ty cool v"
proof (cases "counts_as_sent (ar_status rec)")
  case True
  then have "vs_sent (vs_SaveAlert t rec v) (i, ty) =
      drop_old t ((vs_sent v)((ar_id rec, ar_type rec) := Some t)) (i, ty)"
    by (simp add: vs_SaveAlert_sent)
  from vs_LastSentAlert_pruned [OF assms(2,3) this] assms(1) show ?thesis by auto
qed (simp add: vs_SaveAlert_def counts_as_sent_def)

interpretation volatile: alert_log volatile_ops vs_known volatileRetention
proof (unfold_locales, goal_cases)
  case (1 t s t')
  then show ?case by (fastforce simp: vs_known_def)
next
  case (2 t s rec)
  then show ?case by (auto simp: vs_known_def vs_SaveAlert_sent dest!: drop_old_Some split: if_splits)
next
  case (6 t s rec cool now i ty)
  then have "vs_sent (vs_SaveAlert t rec s) (i, ty) = Some t"
    using volatileRetention_range by (simp add: vs_SaveAlert_sent drop_old_kept)
  with 6 show ?case by (simp add: vs_LastSentAlert_eq)
next
  case (7 t s rec cool now i ty)
  then have "vs_sent (vs_SaveAlert t rec s) (i, ty) = Some t"
    using volatileRetention_range by (simp add: vs_SaveAlert_sent drop_old_kept)
  with 7 show ?case by (simp add: vs_HasRecentAlert_def vs_LastSentAlert_eq)
next
  case (8 rec now i ty cool s t)
  then show ?case by (simp add: vs_SaveAlert_def counts_as_sent_def)
next
  case (9 rec now i ty cool s t)
  then show ?case by (simp add: vs_SaveAlert_def counts_as_sent_def)
next
  case (10 rec i ty cool t now s)
  then show ?case by (simp add: vs_LastSentAlert_other)
next
  case (11 rec i ty cool t now s)
  then show ?case by (simp add: vs_HasRecentAlert_def vs_LastSentAlert_other)
qed simp_all

text \<open>The window that \<open>LastSentAlert\<close> queries is at least as long as the cooldown.\<close>

definition cooldown_days :: "duration \<Rightarrow> int" where
  "cooldown_days cool = f64_to_int64 (fdiv (dur_hours cool) (f64_of_int 24)) + 1"

lemma cooldown_days_cover:
  assumes "0 < cool" and "cool \<le> 100000 * day_dur"
  shows "cool \<le> cooldown_days cool * day_dur" "0 < cooldown_days cool"
proof -
  define k where "k = cool div day_dur"
  obtain v where v: "fdiv (dur_hours cool) (f64_of_int 24) = Fin v" "of_int k \<le> v" "v \<le> 100001" "0 \<le> k"
    unfolding k_def by (rule day_quotient [OF assms])
  have "k \<le> f64_to_int64 (Fin v)"
  proof -
    have fl: "k \<le> \<lfloor>v\<rfloor>" "\<lfloor>v\<rfloor> \<le> 100001" using v by (simp_all add: le_floor_iff floor_le_iff)
    have "0 \<le> v" using v by (meson of_int_0_le_iff order_trans)
    then show ?thesis using fl by (simp add: f64_to_int64_def trunc_rat_def Let_def)
  qed
  then have k: "k + 1 \<le> cooldown_days cool" by (simp add: cooldown_days_def v(1))
  then show "0 < cooldown_days cool" using v(4) by linarith
  show "cool \<le> cooldown_days cool * day_dur" using k unfolding k_def by (rule within_days)
qed

section \<open>The SQL store\<close>

definition sql_ops :: "sqlStore store_ops" where
  "sql_ops = \<lparr>so_SaveAlert = (\<lambda>t rec db. (None, sql_SaveAlert t rec db)),
     so_LastSentAlert = (\<lambda>t i ty cool db. (sql_LastSentAlert t i ty cool db, None)),
     so_HasRecentAlert = (\<lambda>t i ty cool db. (sql_HasRecentAlert t i ty cool db, None))\<rparr>"

definition db_known :: "int \<Rightarrow> sqlStore \<Rightarrow> bool" where
  "db_known t db \<longleftrightarrow> (\<forall>r \<in> set (db_alerts db). al_timestamp r \<le> t)"

lemma sql_ops_sel [simp]:
  "so_SaveAlert sql_ops t rec db = (None, sql_SaveAlert t rec db)"
  "so_LastSentAlert sql_ops t i ty cool db = (sql_LastSentAlert t i ty cool db, None)"
  "so_HasRecentAlert sql_ops t i ty cool db = (sql_HasRecentAlert t i ty cool db, None)"
  by (simp_all add: sql_ops_def)

lemma newest_sent_skip: "\<forall>r \<in> set rs. al_status r \<noteq> ''sent'' \<Longrightarrow> newest_sent rs m = m"
  by (induction rs m rule: newest_sent.induct) auto

lemma newest_sent_None: "newest_sent rs None = None \<longleftrightarrow> (\<forall>r \<in> set rs. al_status r \<noteq> ''sent'')"
proof -
  have "newest_sent rs m = None \<longleftrightarrow> m = None \<and> (\<forall>r \<in> set rs. al_status r \<noteq> ''sent'')" for m
    by (induction rs m rule: newest_sent.induct) (auto split: option.splits if_splits)
  then show ?thesis by simp
qed

lemma newest_sent_max:
  "\<forall>r \<in> set rs. al_timestamp r \<le> n \<Longrightarrow> newest_sent rs (Some n) = Some n"
  by (induction rs "Some n" rule: newest_sent.induct) auto

lemma newest_sent_map:
  "(\<And>r. al_status (g r) = al_status r \<and> al_timestamp (g r) = al_timestamp r) \<Longrightarrow>
   newest_sent (map g rs) m = newest_sent rs m"
  by (induction rs m rule: newest_sent.induct) (auto cong: option.case_cong if_cong)

text \<open>The newest rows stay where they are when the list is put in order.\<close>

lemma ins_by_front: "\<forall>y \<in> set ys. \<not> lt y x \<Longrightarrow> ins_by lt x ys = x # ys"
  by (cases ys) auto

lemma sort_by_Cons_front: "\<forall>y \<in> set ys. \<not> lt y x \<Longrightarrow> sort_by lt (x # ys) = x # sort_by lt ys"
proof -
  assume a: "\<forall>y \<in> set ys. \<not> lt y x"
  have "sort_by lt (x # ys) = ins_by lt x (sort_by lt ys)" by (simp add: sort_by_def)
  with a show ?thesis by (simp add: ins_by_front)
qed

definition sql_window :: "int \<Rightarrow> gostring \<Rightarrow> gostring \<Rightarrow> duration \<Rightarrow> alert_row \<Rightarrow> bool" where
  "sql_window now i ty cool r \<longleftrightarrow> now - cooldown_days cool * day_dur \<le> al_timestamp r
     \<and> (i = [] \<or> al_project_id r = i) \<and> (ty = [] \<or> al_alert_type r = ty)"

lemma sql_LastSentAlert_eq:
  assumes "cool \<le> 100000 * day_dur"
  shows "sql_LastSentAlert now i ty cool db = (if cool \<le> 0 then None
    else newest_sent (take 50 (sort_by (\<lambda>a b. al_timestamp b < al_timestamp a)
      (filter (sql_window now i ty cool) (db_alerts db)))) None)"
proof (cases "cool \<le> 0")
  case False
  then have "since now (cooldown_days cool) d = now - cooldown_days cool * day_dur" for d
    using cooldown_days_cover(2) [of cool] assms by (simp add: since_def daysOf_def sinceDays_eq)
  moreover have "(\<lambda>r. now - cooldown_days cool * day_dur \<le> al_timestamp r \<and> (i = [] \<or> al_project_id r = i)
      \<and> (ty = [] \<or> al_alert_type r = ty)) = sql_window now i ty cool"
    by (simp add: fun_eq_iff sql_window_def)
  ultimately show ?thesis
    using False by (simp add: sql_LastSentAlert_def sql_RecentAlerts_def newest_sent_map listAlertHistory_def
        limitOf_def maxRowLimit_def cooldown_days_def [symmetric])
qed (simp add: sql_LastSentAlert_def)

definition row_of :: "int \<Rightarrow> alert_record \<Rightarrow> alert_row" where
  "row_of t rec = \<lparr>al_project_id = ar_id rec, al_project_name = ar_name rec, al_alert_type = ar_type rec,
     al_status = (if ar_status rec = [] then ''sent'' else ar_status rec), al_message = ar_message rec,
     al_balance_value = ar_value rec, al_threshold_value = ar_threshold rec, al_timestamp = t\<rparr>"

lemma db_alerts_save: "db_alerts (sql_SaveAlert t rec db) = row_of t rec # db_alerts db"
  by (simp add: sql_SaveAlert_def row_of_def Let_def)

lemma row_of_sel [simp]: "al_project_id (row_of t rec) = ar_id rec" "al_alert_type (row_of t rec) = ar_type rec"
  "al_timestamp (row_of t rec) = t" "al_status (row_of t rec) = ''sent'' \<longleftrightarrow> counts_as_sent (ar_status rec)"
  by (auto simp: row_of_def counts_as_sent_def)

lemma newest_sent_take_insert:
  assumes "newest_sent (take n (sort_by lt rs)) None = None" and "al_status x \<noteq> ''sent''"
  shows "newest_sent (take n (sort_by lt (x # rs))) None = None"
proof -
  have ins: "take n (ins_by lt x zs) = take n zs \<or> set (take n (ins_by lt x zs)) \<subseteq> insert x (set (take n zs))" for zs
  proof (induction zs arbitrary: n)
    case (Cons z zs)
    show ?case
    proof (cases n)
      case (Suc m)
      have "set (take m (z # zs)) \<subseteq> set (take (Suc m) (z # zs))" by (rule set_take_subset_set_take) simp
      then show ?thesis using Cons [of m] Suc by auto
    qed simp
  next
    case Nil
    show ?case by (cases n) simp_all
  qed
  have e: "sort_by lt (x # rs) = ins_by lt x (sort_by lt rs)" by (simp add: sort_by_def)
  show ?thesis
    using assms ins [of "sort_by lt rs"] unfolding e newest_sent_None by auto
qed

interpretation sql: alert_log sql_ops db_known "100000 * day_dur"
proof (unfold_locales, goal_cases)
  case (1 t s t')
  then show ?case by (fastforce simp: db_known_def)
next
  case (2 t s rec)
  then show ?case by (auto simp: db_known_def db_alerts_save)
next
  case (6 t s rec cool now i ty)
  let ?lt = "\<lambda>a b. al_timestamp b < al_timestamp a" and ?P = "sql_window now i ty cool"
  have w: "?P (row_of t rec)" using 6 cooldown_days_cover(1) [of cool] by (simp add: sql_window_def)
  have le: "\<forall>r \<in> set (filter ?P (db_alerts s)). al_timestamp r \<le> t" using 6(1) by (simp add: db_known_def)
  then have "sort_by ?lt (filter ?P (db_alerts (sql_SaveAlert t rec s))) = row_of t rec # sort_by ?lt (filter ?P (db_alerts s))"
    using w by (simp add: db_alerts_save sort_by_Cons_front not_less)
  moreover have "newest_sent (take 49 (sort_by ?lt (filter ?P (db_alerts s)))) (Some t) = Some t"
    using le by (intro newest_sent_max) (auto dest: in_set_takeD)
  ultimately show ?case using 6 by (simp add: sql_LastSentAlert_eq numeral_eq_Suc)
next
  case (7 t s rec cool now i ty)
  then show ?case
    by (simp add: sql_HasRecentAlert_def countRecentAlerts_def db_alerts_save)
next
  case (8 rec now i ty cool s t)
  show ?case
  proof -
    have "al_status (row_of t rec) \<noteq> ''sent''" using 8(1) by simp
    from newest_sent_take_insert [OF _ this] show ?thesis
      using 8(3) by (auto simp: sql_LastSentAlert_eq [OF 8(2)] db_alerts_save)
  qed
next
  case (9 rec now i ty cool s t)
  then show ?case by (simp add: sql_HasRecentAlert_def countRecentAlerts_def db_alerts_save)
next
  case (10 rec i ty cool t now s)
  then show ?case by (auto simp: sql_LastSentAlert_eq db_alerts_save sql_window_def)
next
  case (11 rec i ty cool t now s)
  then show ?case by (auto simp: sql_HasRecentAlert_def countRecentAlerts_def db_alerts_save)
qed simp_all

section \<open>Runs that write the alert log\<close>

text \<open>Whatever happens to the store between two worlds is a sequence of saves, each made at a
  reading of the clock in between.\<close>

inductive log_run :: "'s store_ops \<Rightarrow> env \<Rightarrow> 's world \<Rightarrow> 's world \<Rightarrow> bool" for so e where
  quiet: "wd_store w' = wd_store w \<Longrightarrow> wd_reads w \<le> wd_reads w' \<Longrightarrow> log_run so e w w'"
| saved: "log_run so e w w1 \<Longrightarrow> wd_reads w1 \<le> k \<Longrightarrow> k < wd_reads w' \<Longrightarrow>
    wd_store w' = snd (so_SaveAlert so (en_clock e k) rec (wd_store w1)) \<Longrightarrow> log_run so e w w'"

lemma log_run_refl [simp]: "log_run so e w w"
  by (rule quiet) simp_all

lemma log_run_reads: "log_run so e w w' \<Longrightarrow> wd_reads w \<le> wd_reads w'"
  by (induction rule: log_run.induct) auto

lemma log_run_trans: "log_run so e w' w'' \<Longrightarrow> log_run so e w w' \<Longrightarrow> log_run so e w w''"
proof (induction rule: log_run.induct)
  case (quiet w'' w')
  from quiet(3) show ?case
  proof (cases rule: log_run.cases)
    case quiet
    then show ?thesis using \<open>wd_store w'' = wd_store w'\<close> \<open>wd_reads w' \<le> wd_reads w''\<close> by (intro log_run.quiet) auto
  next
    case (saved w1 k rec)
    then show ?thesis using \<open>wd_store w'' = wd_store w'\<close> \<open>wd_reads w' \<le> wd_reads w''\<close>
      by (intro log_run.saved [of so e w w1 k w'' rec]) auto
  qed
next
  case (saved w' w1 k w'' rec)
  then show ?case by (intro log_run.saved [of so e w w1 k w'' rec]) auto
qed

lemma log_run_step: "log_run so e w w1 \<Longrightarrow> wd_store w' = wd_store w1 \<Longrightarrow> wd_reads w1 \<le> wd_reads w' \<Longrightarrow> log_run so e w w'"
  using log_run_trans log_run.quiet by blast

lemma log_run_save_alert: "log_run so e w (snd (save_alert so e rec w))"
  by (rule log_run.saved [OF log_run_refl, of w "wd_reads w" _ so e rec]) simp_all

text \<open>From now on and for \<open>cool\<close> after \<open>t\<close> the store answers that there is a recent alert.\<close>

definition recent_until :: "'s store_ops \<Rightarrow> env \<Rightarrow> gostring \<Rightarrow> gostring \<Rightarrow> duration \<Rightarrow> int \<Rightarrow> 's world \<Rightarrow> bool" where
  "recent_until so e i ty cool t w \<longleftrightarrow> (\<forall>now. en_clock e (wd_reads w) \<le> now \<longrightarrow> now - t \<le> cool \<longrightarrow>
     fst (so_HasRecentAlert so now i ty cool (wd_store w)))"

lemma clock_le: "mono (en_clock e) \<Longrightarrow> a \<le> b \<Longrightarrow> en_clock e a \<le> en_clock e b"
  by (rule monoD)

context alert_log
begin

lemma known_run:
  assumes "log_run so e w w'" "mono (en_clock e)" "known (en_clock e (wd_reads w)) (wd_store w)"
  shows "known (en_clock e (wd_reads w')) (wd_store w')"
  using assms(1,3)
proof (induction rule: log_run.induct)
  case (quiet w' w)
  then show ?case using known_mono clock_le [OF assms(2)] by metis
next
  case (saved w w1 k w' rec)
  have "known (en_clock e k) (wd_store w')"
    unfolding saved(4) by (rule known_save [OF known_mono [OF saved(5) [OF saved(6)] clock_le [OF assms(2) saved(2)]]])
  then show ?case by (rule known_mono) (use saved(3) in \<open>auto intro: clock_le [OF assms(2)]\<close>)
qed

lemma recent_after_save:
  assumes "mono (en_clock e)" "known (en_clock e (wd_reads w)) (wd_store w)" "counts_as_sent (ar_status rec)"
    and "0 < cool" "cool \<le> keep"
  shows "recent_until so e (ar_id rec) (ar_type rec) cool (en_clock e (wd_reads w)) (snd (save_alert so e rec w))"
  unfolding recent_until_def
proof (intro allI impI)
  fix now
  assume "en_clock e (wd_reads (snd (save_alert so e rec w))) \<le> now" "now - en_clock e (wd_reads w) \<le> cool"
  moreover have "en_clock e (wd_reads w) \<le> en_clock e (wd_reads w + 1)" by (intro clock_le [OF assms(1)]) simp
  ultimately show "fst (so_HasRecentAlert so now (ar_id rec) (ar_type rec) cool (wd_store (snd (save_alert so e rec w))))"
    using assms by (simp, intro recent_sent) auto
qed

text \<open>Nothing that is saved later takes a cooldown back.\<close>

lemma recent_run:
  assumes "log_run so e w w'" "mono (en_clock e)" "known (en_clock e (wd_reads w)) (wd_store w)"
    and "recent_until so e i ty cool t w" "t \<le> en_clock e (wd_reads w)" "0 < cool" "cool \<le> keep"
  shows "recent_until so e i ty cool t w'"
  using assms(1,3-5)
proof (induction rule: log_run.induct)
  case (quiet w' w)
  have "en_clock e (wd_reads w) \<le> en_clock e (wd_reads w')" using quiet(2) by (rule clock_le [OF assms(2)])
  with quiet show ?case by (auto simp: recent_until_def)
next
  case (saved w w1 k w' rec)
  have r1: "recent_until so e i ty cool t w1" by (rule saved(5)) (use saved in auto)
  have k: "en_clock e (wd_reads w1) \<le> en_clock e k" "en_clock e k \<le> en_clock e (wd_reads w')"
    using saved(2,3) by (auto intro: clock_le [OF assms(2)])
  have kn: "known (en_clock e k) (wd_store w1)"
    by (rule known_mono [OF known_run [OF saved(1) assms(2) saved(6)] k(1)])
  have "t \<le> en_clock e k"
    using saved(8) clock_le [OF assms(2) log_run_reads [OF saved(1)]] k(1) by linarith
  show ?case unfolding recent_until_def
  proof (intro allI impI)
    fix now assume now: "en_clock e (wd_reads w') \<le> now" "now - t \<le> cool"
    have old: "fst (so_HasRecentAlert so now i ty cool (wd_store w1))"
      using r1 now k by (auto simp: recent_until_def)
    show "fst (so_HasRecentAlert so now i ty cool (wd_store w'))"
    proof (cases "ar_id rec = i \<and> ar_type rec = ty")
      case True
      show ?thesis
      proof (cases "counts_as_sent (ar_status rec)")
        case sent: True
        then show ?thesis unfolding saved(4) using True now k assms(6,7) \<open>t \<le> en_clock e k\<close>
          by (intro recent_sent [OF kn]) auto
      next
        case False
        then show ?thesis using old by (simp add: saved(4) recent_failed)
      qed
    next
      case False
      have "fst (so_HasRecentAlert so now i ty cool (snd (so_SaveAlert so (en_clock e k) rec (wd_store w1))))
          = fst (so_HasRecentAlert so now i ty cool (wd_store w1))"
        by (rule recent_other) (use False now k assms(7) in auto)
      with old show ?thesis by (simp add: saved(4))
    qed
  qed
qed

end

end
