(* ===== verification/SubscriptionCheck.thy ===== *)
theory SubscriptionCheck
  imports Effects
begin

text \<open>
  The subscription checker (\<open>internal/subscription/checker.go\<close>): which subscriptions need a
  reminder today, and sending and recording one.  Log lines are left out.  The properties rest
  on the laws of \<open>alert_log\<close>, so they hold for the store in memory and for the SQL store.
\<close>

section \<open>The checker\<close>

definition AlertStateSent :: gostring where "AlertStateSent = ''sent''"
definition AlertStateCooldownSkipped :: gostring where "AlertStateCooldownSkipped = ''cooldown_skipped''"
definition AlertStateFailed :: gostring where "AlertStateFailed = ''failed''"
definition AlertStateDryRun :: gostring where "AlertStateDryRun = ''dry_run''"
definition AlertStateSnoozed :: gostring where "AlertStateSnoozed = ''snoozed''"

lemmas state_defs = AlertStateSent_def AlertStateCooldownSkipped_def AlertStateFailed_def
  AlertStateDryRun_def AlertStateSnoozed_def

text \<open>The configuration of a checker; \<open>ck_notifier\<close> and \<open>ck_push\<close> say whether those are set.\<close>

record checker =
  ck_cooldown :: duration
  ck_notifier :: bool
  ck_push :: bool
  ck_on_notify :: bool
  ck_webhook_type :: gostring
  ck_source :: gostring

definition location :: "env \<Rightarrow> subscription \<Rightarrow> zone" where
  "location e sub = (if sb_timezone sub = [] then en_local e
     else (case en_load_zone e (sb_timezone sub) of None \<Rightarrow> en_local e | Some z \<Rightarrow> z))"

definition parseRenewedDate :: "gostring option \<Rightarrow> zone \<Rightarrow> gotime option" where
  "parseRenewedDate value z = (case value of None \<Rightarrow> None
     | Some s \<Rightarrow> if s = [] then None else parse_date_in s z)"

definition renewalOn :: "lunar_lib \<Rightarrow> subscription \<Rightarrow> gotime \<Rightarrow> renewal" where
  "renewalOn lib sub today =
     evaluate lib (sb_cycle_type sub) (sb_renewal_day sub) today
       (parseRenewedDate (sb_last_renewed sub) (t_zone today)) (sb_alert_days_before sub)"

text \<open>\<open>Renewal\<close>, which the mark-renewed endpoint calls too.\<close>

definition Renewal_of :: "lunar_lib \<Rightarrow> env \<Rightarrow> subscription \<Rightarrow> 's world \<Rightarrow> renewal \<times> 's world" where
  "Renewal_of lib e sub w = (let (t, w1) = read_clock e w
     in (renewalOn lib sub \<lparr>t_ns = t, t_zone = location e sub\<rparr>, w1))"

definition SubscriptionRenewal :: gostring where "SubscriptionRenewal = ''subscription_renewal''"

definition record_outcome :: "'s store_ops \<Rightarrow> env \<Rightarrow> gostring \<Rightarrow> subscription \<Rightarrow> int \<Rightarrow> gostring \<Rightarrow> gostring \<Rightarrow> 's world \<Rightarrow> 's world" where
  "record_outcome so e alert_id sub days status err_text w =
     (let msg = ''Subscription reminder: '' @ sb_name sub @ '' due '' @ renews_in days;
          msg' = (if status = ''failed'' \<and> err_text \<noteq> [] then msg @ send_failed_mark @ err_text else msg)
      in snd (save_alert so e \<lparr>ar_id = alert_id, ar_name = sb_name sub, ar_type = SubscriptionRenewal,
           ar_message = msg', ar_value = Some (sb_amount sub),
           ar_threshold = Some (f64_of_int (sb_alert_days_before sub)), ar_status = status\<rparr> w))"

text \<open>Where a reminder goes: the subscription's own address when it has one, otherwise the
  configured notifier, or nowhere.\<close>

definition choose_notifier :: "checker \<Rightarrow> subscription \<Rightarrow> goerror + gostring option option" where
  "choose_notifier c sub =
     (if sb_webhook_url sub \<noteq> [] then
        (case New (sb_webhook_url sub) (ck_webhook_type c) (ck_source c) of
           Inl err \<Rightarrow> Inl err | Inr None \<Rightarrow> Inr None | Inr (Some n) \<Rightarrow> Inr (Some (Some (nf_url n))))
      else Inr (if ck_notifier c then Some None else None))"

definition fmt_utc_rfc3339 :: "int \<Rightarrow> gostring" where
  "fmt_utc_rfc3339 n = fmt_rfc3339 \<lparr>t_ns = n, t_zone = utc_zone\<rparr>"

definition no_webhook :: goerror where "no_webhook = ''Webhook URL is not configured''"

definition announce :: "checker \<Rightarrow> subscription \<Rightarrow> int \<Rightarrow> 's world \<Rightarrow> 's world" where
  "announce c sub days w = (if ck_push c then push (''Subscription reminder: '' @ sb_name sub)
     (''Renews '' @ renews_in days @ '' ('' @ sb_cycle_type sub @ '')'') w else w)"

definition reminder :: "subscription \<Rightarrow> int \<Rightarrow> message" where
  "reminder sub days = SubscriptionAlert (sb_name sub) (sb_owner sub) (sb_cycle_type sub) (sb_renewal_day sub)
     days (sb_amount sub)"

definition send_reminder :: "'s store_ops \<Rightarrow> env \<Rightarrow> checker \<Rightarrow> subscription \<Rightarrow> int \<Rightarrow> int \<Rightarrow> 's world
    \<Rightarrow> (gostring \<times> gostring option \<times> gostring) \<times> 's world" where
  "send_reminder so e c sub days now w =
     (let alert_id = subscription_id (sb_name sub);
          w1 = announce c sub days w
      in case choose_notifier c sub of
           Inl err \<Rightarrow> ((AlertStateFailed, None, err), record_outcome so e alert_id sub days ''failed'' err w1)
         | Inr None \<Rightarrow> ((AlertStateFailed, None, no_webhook), w1)
         | Inr (Some dest) \<Rightarrow>
             (let msg = reminder sub days;
                  (send_err, w2) = deliver e dest msg w1;
                  w3 = (if ck_on_notify c then on_notify (mg_kind msg) (send_err = None) w2 else w2)
              in case send_err of
                   Some err \<Rightarrow> ((AlertStateFailed, None, err), record_outcome so e alert_id sub days ''failed'' err w3)
                 | None \<Rightarrow> ((AlertStateSent, Some (fmt_utc_rfc3339 (now + ck_cooldown c)), []),
                     record_outcome so e alert_id sub days ''sent'' [] w3)))"

definition dispatch :: "'s store_ops \<Rightarrow> env \<Rightarrow> checker \<Rightarrow> subscription \<Rightarrow> int \<Rightarrow> 's world
    \<Rightarrow> (gostring \<times> gostring option \<times> gostring) \<times> 's world" where
  "dispatch so e c sub days w =
     (let (now, w1) = read_clock e w;
          ((last, err), w2) = last_sent_alert so e (subscription_id (sb_name sub)) SubscriptionRenewal (ck_cooldown c) w1
      in case last of
           Some t \<Rightarrow> (let next = t + ck_cooldown c in
             if now < next then ((AlertStateCooldownSkipped, Some (fmt_utc_rfc3339 next), []), w2)
             else send_reminder so e c sub days now w2)
         | None \<Rightarrow> send_reminder so e c sub days now w2)"

definition is_snoozed :: "subscription \<Rightarrow> gotime \<Rightarrow> bool" where
  "is_snoozed sub today = (case sb_snoozed_until sub of None \<Rightarrow> False
     | Some s \<Rightarrow> \<not> string_less s (fmt_date today))"

definition checkOne :: "lunar_lib \<Rightarrow> 's store_ops \<Rightarrow> env \<Rightarrow> checker \<Rightarrow> subscription \<Rightarrow> bool \<Rightarrow> 's world
    \<Rightarrow> subscription_result \<times> 's world" where
  "checkOne lib so e c sub dry_run w =
     (let (t, w1) = read_clock e w;
          today = \<lparr>t_ns = t, t_zone = location e sub\<rparr>;
          rn = renewalOn lib sub today;
          need = (0 \<le> rn_days rn \<and> rn_days rn \<le> sb_alert_days_before sub \<and> \<not> rn_already_renewed rn);
          res = \<lparr>sr_name = sb_name sub, sr_owner = sb_owner sub, sr_renewal_day = sb_renewal_day sub,
            sr_cycle_type = sb_cycle_type sub, sr_days_until = rn_days rn, sr_next_date = fmt_date (rn_next rn),
            sr_need_alert = need, sr_alert_sent = False, sr_amount = sb_amount sub,
            sr_already_renewed = rn_already_renewed rn, sr_last_renewed = sb_last_renewed sub,
            sr_alert_state = [], sr_next_eligible = None, sr_last_error = [], sr_snoozed_until = None\<rparr>
      in if rn_already_renewed rn then (res, w1)
         else if \<not> need then (res, w1)
         else if is_snoozed sub today then
           (res\<lparr>sr_alert_state := AlertStateSnoozed, sr_snoozed_until := sb_snoozed_until sub\<rparr>, w1)
         else if dry_run then (res\<lparr>sr_alert_state := AlertStateDryRun\<rparr>, w1)
         else (let ((state, next, err), w2) = dispatch so e c sub (rn_days rn) w1
           in (res\<lparr>sr_alert_state := state, sr_next_eligible := next, sr_last_error := err,
                 sr_alert_sent := (state = AlertStateSent)\<rparr>, w2)))"

fun Check :: "lunar_lib \<Rightarrow> 's store_ops \<Rightarrow> env \<Rightarrow> checker \<Rightarrow> subscription list \<Rightarrow> bool \<Rightarrow> 's world
    \<Rightarrow> subscription_result list \<times> 's world" where
  "Check lib so e c [] dry_run w = ([], w)"
| "Check lib so e c (sub # subs) dry_run w =
     (let (r, w1) = checkOne lib so e c sub dry_run w; (rs, w2) = Check lib so e c subs dry_run w1
      in (r # rs, w2))"

section \<open>What a check does to the store\<close>

lemma save_alert_fst_snd: "save_alert so e rec w = (fst (save_alert so e rec w), snd (save_alert so e rec w))"
  by simp

text \<open>Either nothing is saved, or one record for the subscription, which is marked sent exactly
  when the reminder was.\<close>

definition saves_at :: "'s store_ops \<Rightarrow> env \<Rightarrow> nat \<Rightarrow> gostring \<Rightarrow> bool \<Rightarrow> 's world \<Rightarrow> 's world \<Rightarrow> bool" where
  "saves_at so e k i sent w w' \<longleftrightarrow> (\<exists>rec. wd_store w' = snd (so_SaveAlert so (en_clock e k) rec (wd_store w))
     \<and> ar_id rec = i \<and> ar_type rec = SubscriptionRenewal \<and> (sent \<longleftrightarrow> counts_as_sent (ar_status rec)))"

lemma record_outcome_saves:
  "saves_at so e (wd_reads w) i (counts_as_sent status) w (record_outcome so e i sub days status t w)
   \<and> wd_reads (record_outcome so e i sub days status t w) = wd_reads w + 1
   \<and> wd_sent (record_outcome so e i sub days status t w) = wd_sent w"
  by (auto simp: record_outcome_def saves_at_def Let_def intro!: exI)

lemma saves_at_store: "wd_store w = wd_store v \<Longrightarrow> saves_at so e k i b v w' = saves_at so e k i b w w'"
  by (simp add: saves_at_def)

lemma not_sent [simp]: "\<not> counts_as_sent ''failed''" "counts_as_sent ''sent''"
  by (simp_all add: counts_as_sent_def)

lemma send_reminder_effect:
  assumes "send_reminder so e c sub days now w = ((st, nx, err), w')"
  shows "wd_reads w \<le> wd_reads w' \<and> wd_reads w' \<le> wd_reads w + 1 \<and>
    ((wd_store w' = wd_store w \<and> st \<noteq> AlertStateSent) \<or>
     (wd_reads w' = wd_reads w + 1
        \<and> saves_at so e (wd_reads w) (subscription_id (sb_name sub)) (st = AlertStateSent) w w'))
    \<and> (st = AlertStateSent \<longleftrightarrow> (\<exists>d m. wd_sent w' = wd_sent w @ [(d, m, None)] \<and> mg_kind m = KindSubscription))"
proof -
  define w1 where "w1 = announce c sub days w"
  define msg where "msg = reminder sub days"
  let ?i = "subscription_id (sb_name sub)"
  have w1: "wd_store w1 = wd_store w" "wd_reads w1 = wd_reads w" "wd_sent w1 = wd_sent w"
    by (simp_all add: w1_def announce_def)
  have k: "mg_kind msg = KindSubscription" by (simp add: msg_def reminder_def SubscriptionAlert_def Let_def)
  note def = send_reminder_def [of so e c sub days now w, folded w1_def msg_def]
  show ?thesis
  proof (cases "choose_notifier c sub")
    case (Inl x)
    then have "st = AlertStateFailed" "w' = record_outcome so e ?i sub days ''failed'' x w1"
      using assms by (auto simp: def Let_def)
    then show ?thesis
      using record_outcome_saves [of so e w1 ?i "''failed''" sub days x] w1
      by (simp add: saves_at_store [OF w1(1)] state_defs)
  next
    case (Inr dest)
    show ?thesis
    proof (cases dest)
      case None
      then have "st = AlertStateFailed" "w' = w1" using assms Inr by (auto simp: def Let_def)
      then show ?thesis using w1 by (simp add: state_defs)
    next
      case (Some d)
      define r where "r = en_send e (length (wd_sent w1))"
      define dv where "dv = snd (deliver e d msg w1)"
      have dl: "deliver e d msg w1 = (r, dv)" by (simp add: dv_def r_def deliver_def Let_def)
      define w3 where "w3 = (if ck_on_notify c then on_notify (mg_kind msg) (r = None) dv else dv)"
      have w3: "wd_store w3 = wd_store w" "wd_reads w3 = wd_reads w" "wd_sent w3 = wd_sent w @ [(d, msg, r)]"
        using w1 by (simp_all add: w3_def r_def dv_def)
      have e: "send_reminder so e c sub days now w = (case r of
          Some err \<Rightarrow> ((AlertStateFailed, None, err), record_outcome so e ?i sub days ''failed'' err w3)
        | None \<Rightarrow> ((AlertStateSent, Some (fmt_utc_rfc3339 (now + ck_cooldown c)), []),
            record_outcome so e ?i sub days ''sent'' [] w3))"
        unfolding def Let_def Inr Some w3_def by (simp add: dl)
      show ?thesis
      proof (cases r)
        case None
        then have "st = AlertStateSent" "w' = record_outcome so e ?i sub days ''sent'' [] w3"
          using assms e by auto
        then show ?thesis
          using record_outcome_saves [of so e w3 ?i "''sent''" sub days "[]"] w3 k None
          by (simp add: saves_at_store [OF w3(1)])
      next
        case (Some x)
        then have "st = AlertStateFailed" "w' = record_outcome so e ?i sub days ''failed'' x w3"
          using assms e by auto
        then show ?thesis
          using record_outcome_saves [of so e w3 ?i "''failed''" sub days x] w3 Some
          by (simp add: saves_at_store [OF w3(1)] state_defs)
      qed
    qed
  qed
qed


text \<open>One check of one subscription: it reads the clock at least once, and its save, if any,
  falls between its first and its last reading.\<close>

definition check_effect :: "'s store_ops \<Rightarrow> env \<Rightarrow> gostring \<Rightarrow> bool \<Rightarrow> 's world \<Rightarrow> 's world \<Rightarrow> bool" where
  "check_effect so e i sent w w' \<longleftrightarrow> wd_reads w \<le> wd_reads w' \<and>
     ((wd_store w' = wd_store w \<and> \<not> sent) \<or> (\<exists>k. wd_reads w \<le> k \<and> k < wd_reads w' \<and> saves_at so e k i sent w w'))
     \<and> (sent \<longleftrightarrow> (\<exists>d m. wd_sent w' = wd_sent w @ [(d, m, None)] \<and> mg_kind m = KindSubscription))"

lemma check_effect_start:
  assumes "check_effect so e i b v w'" and "wd_store v = wd_store w" "wd_reads w \<le> wd_reads v" "wd_sent v = wd_sent w"
  shows "check_effect so e i b w w'"
  using assms unfolding check_effect_def saves_at_def by (auto intro: order_trans)

lemma send_reminder_check:
  assumes "send_reminder so e c sub days now w = ((st, nx, err), w')"
  shows "check_effect so e (subscription_id (sb_name sub)) (st = AlertStateSent) w w'"
  using send_reminder_effect [OF assms] unfolding check_effect_def by (metis le_refl less_add_one)

lemma dispatch_check:
  assumes "dispatch so e c sub days w = ((st, nx, err), w')"
  shows "check_effect so e (subscription_id (sb_name sub)) (st = AlertStateSent) w w'"
proof -
  let ?i = "subscription_id (sb_name sub)"
  define w2 where "w2 = snd (last_sent_alert so e ?i SubscriptionRenewal (ck_cooldown c) (snd (read_clock e w)))"
  have w2: "wd_store w2 = wd_store w" "wd_reads w \<le> wd_reads w2" "wd_sent w2 = wd_sent w" by (simp_all add: w2_def)
  define now where "now = en_clock e (wd_reads w)"
  consider nx' where "((st, nx, err), w') = ((AlertStateCooldownSkipped, nx', []), w2)"
    | "((st, nx, err), w') = send_reminder so e c sub days now w2"
    using assms by (auto simp: dispatch_def Let_def w2_def now_def read_clock_def last_sent_alert_def
        split: prod.splits option.splits if_splits)
  then show ?thesis
  proof cases
    case 1
    then show ?thesis using w2 by (simp add: check_effect_def state_defs)
  next
    case 2
    show ?thesis by (rule check_effect_start [OF send_reminder_check [OF 2 [symmetric]] w2])
  qed
qed

lemma checkOne_check:
  assumes "checkOne lib so e c sub dry_run w = (r, w')"
  shows "check_effect so e (subscription_id (sb_name sub)) (sr_alert_sent r) w w' \<and> wd_reads w < wd_reads w'"
proof -
  let ?i = "subscription_id (sb_name sub)"
  define w1 where "w1 = snd (read_clock e w)"
  have w1: "wd_store w1 = wd_store w" "wd_reads w \<le> wd_reads w1" "wd_sent w1 = wd_sent w" "wd_reads w < wd_reads w1"
    by (simp_all add: w1_def)
  consider "\<not> sr_alert_sent r" "w' = w1"
    | days st nx err where "dispatch so e c sub days w1 = ((st, nx, err), w')" "sr_alert_sent r \<longleftrightarrow> st = AlertStateSent"
    using assms by (auto simp: checkOne_def Let_def w1_def read_clock_def split: prod.splits if_splits)
  then show ?thesis
  proof cases
    case 1
    then show ?thesis using w1 by (simp add: check_effect_def)
  next
    case 2
    note d = check_effect_start [OF dispatch_check [OF 2(1)] w1(1-3)]
    moreover have "wd_reads w1 \<le> wd_reads w'" using dispatch_check [OF 2(1)] by (simp add: check_effect_def)
    ultimately show ?thesis using 2(2) w1(4) by simp
  qed
qed

lemma checkOne_dry_run:
  "checkOne lib so e c sub True w = (r, w') \<Longrightarrow>
   wd_store w' = wd_store w \<and> wd_sent w' = wd_sent w \<and> wd_pushed w' = wd_pushed w \<and> \<not> sr_alert_sent r"
  by (auto simp: checkOne_def Let_def read_clock_def split: prod.splits if_splits)

section \<open>Cooldowns\<close>

text \<open>From now on and for \<open>cool\<close> after \<open>t\<close> the store answers that the alert \<open>i\<close> was sent at
  \<open>t\<close>.\<close>

definition cooling :: "'s store_ops \<Rightarrow> env \<Rightarrow> gostring \<Rightarrow> duration \<Rightarrow> int \<Rightarrow> 's world \<Rightarrow> bool" where
  "cooling so e i cool t w \<longleftrightarrow> (\<forall>now. en_clock e (wd_reads w) \<le> now \<longrightarrow> now - t \<le> cool \<longrightarrow>
     fst (so_LastSentAlert so now i SubscriptionRenewal cool (wd_store w)) = Some t)"

lemma clock_mono: "mono (en_clock e) \<Longrightarrow> a \<le> b \<Longrightarrow> en_clock e a \<le> en_clock e b"
  by (simp add: monoD)

lemma SubscriptionRenewal_ne [simp]: "SubscriptionRenewal \<noteq> []"
  by (simp add: SubscriptionRenewal_def)

lemma subscription_id_nonempty: "subscription_id n \<noteq> []"
  by (simp only: subscription_id_def md5_hex_nonempty not_False_eq_True)

lemma send_reminder_reads:
  "send_reminder so e c sub days now w = ((st, nx, err), w') \<Longrightarrow>
   wd_reads w \<le> wd_reads w' \<and> wd_reads w' \<le> wd_reads w + 1"
  using send_reminder_effect by blast

lemma dispatch_reads:
  assumes "dispatch so e c sub days w = ((st, nx, err), w')"
  shows "wd_reads w + 2 \<le> wd_reads w' \<and> wd_reads w' \<le> wd_reads w + 3"
proof -
  define w2 where "w2 = snd (last_sent_alert so e (subscription_id (sb_name sub)) SubscriptionRenewal (ck_cooldown c) (snd (read_clock e w)))"
  have w2: "wd_reads w2 = wd_reads w + 2" by (simp add: w2_def)
  define now where "now = en_clock e (wd_reads w)"
  consider nx' where "((st, nx, err), w') = ((AlertStateCooldownSkipped, nx', []), w2)"
    | "((st, nx, err), w') = send_reminder so e c sub days now w2"
    using assms by (auto simp: dispatch_def Let_def w2_def now_def read_clock_def last_sent_alert_def
        split: prod.splits option.splits if_splits)
  then show ?thesis
    using w2 send_reminder_reads [of so e c sub days now w2] by cases (auto dest: sym)
qed

lemma checkOne_reads:
  assumes "checkOne lib so e c sub dry_run w = (r, w')"
  shows "wd_reads w' \<le> wd_reads w + 4"
proof -
  define w1 where "w1 = snd (read_clock e w)"
  have w1: "wd_reads w1 = wd_reads w + 1" by (simp add: w1_def)
  consider "w' = w1" | days st nx err where "dispatch so e c sub days w1 = ((st, nx, err), w')"
    using assms by (auto simp: checkOne_def Let_def w1_def read_clock_def split: prod.splits if_splits)
  then show ?thesis using dispatch_reads w1 by cases fastforce+
qed

lemma Check_reads: "Check lib so e c subs dry_run w = (rs, w') \<Longrightarrow> wd_reads w \<le> wd_reads w'"
proof (induction subs arbitrary: w rs)
  case (Cons sub subs)
  obtain r w1 where one: "checkOne lib so e c sub dry_run w = (r, w1)" by (cases "checkOne lib so e c sub dry_run w")
  obtain rs' where rest: "Check lib so e c subs dry_run w1 = (rs', w')"
    using Cons.prems one by (auto split: prod.splits)
  from Cons.IH [OF rest] checkOne_check [OF one] show ?case by simp
qed simp

context alert_log
begin

lemma known_check:
  assumes "check_effect so e i b w w'" and "mono (en_clock e)" and "known (en_clock e (wd_reads w)) (wd_store w)"
  shows "known (en_clock e (wd_reads w')) (wd_store w')"
proof -
  have le: "wd_reads w \<le> wd_reads w'" using assms(1) by (simp add: check_effect_def)
  from assms(1) consider "wd_store w' = wd_store w"
    | k rec where "wd_reads w \<le> k" "k < wd_reads w'" "wd_store w' = snd (so_SaveAlert so (en_clock e k) rec (wd_store w))"
    unfolding check_effect_def saves_at_def by blast
  then show ?thesis
  proof cases
    case 1
    then show ?thesis using known_mono [OF assms(3) clock_mono [OF assms(2) le]] by simp
  next
    case 2
    have "known (en_clock e k) (wd_store w')"
      unfolding 2(3) by (rule known_save [OF known_mono [OF assms(3) clock_mono [OF assms(2) 2(1)]]])
    moreover have "en_clock e k \<le> en_clock e (wd_reads w')" using 2(2) by (intro clock_mono [OF assms(2)]) simp
    ultimately show ?thesis by (rule known_mono)
  qed
qed

lemma sent_cools:
  assumes "check_effect so e i True w w'" and "mono (en_clock e)" and "known (en_clock e (wd_reads w)) (wd_store w)"
    and "0 < cool" "cool \<le> keep" "i \<noteq> []"
  shows "\<exists>t. en_clock e (wd_reads w) \<le> t \<and> cooling so e i cool t w'"
proof -
  from assms(1) obtain k where k: "wd_reads w \<le> k" "k < wd_reads w'" and "saves_at so e k i True w w'"
    unfolding check_effect_def by blast
  then obtain rec where st: "wd_store w' = snd (so_SaveAlert so (en_clock e k) rec (wd_store w))"
    and rec: "ar_id rec = i" "ar_type rec = SubscriptionRenewal" "counts_as_sent (ar_status rec)"
    unfolding saves_at_def by blast
  have kn: "known (en_clock e k) (wd_store w)"
    by (rule known_mono [OF assms(3) clock_mono [OF assms(2) k(1)]])
  have "en_clock e k \<le> en_clock e (wd_reads w')" using k(2) by (intro clock_mono [OF assms(2)]) simp
  then have "cooling so e i cool (en_clock e k) w'"
    unfolding cooling_def st using assms(4-6) rec by (auto intro!: last_sent [OF kn])
  with clock_mono [OF assms(2) k(1)] show ?thesis by blast
qed

lemma other_keeps_cooling:
  assumes "check_effect so e j b w w'" and "mono (en_clock e)" and "j \<noteq> i" "i \<noteq> []" "cool \<le> keep"
    and "cooling so e i cool t w"
  shows "cooling so e i cool t w'"
proof -
  have le: "en_clock e (wd_reads w) \<le> en_clock e (wd_reads w')"
    using assms(1) by (intro clock_mono [OF assms(2)]) (simp add: check_effect_def)
  from assms(1) consider "wd_store w' = wd_store w"
    | k rec where "k < wd_reads w'" "wd_store w' = snd (so_SaveAlert so (en_clock e k) rec (wd_store w))" "ar_id rec = j"
    unfolding check_effect_def saves_at_def by blast
  then show ?thesis
  proof cases
    case 1
    then show ?thesis using assms(6) le by (auto simp: cooling_def)
  next
    case 2
    have "en_clock e k \<le> en_clock e (wd_reads w')" using 2(1) by (intro clock_mono [OF assms(2)]) simp
    then have "fst (so_LastSentAlert so now i SubscriptionRenewal cool (wd_store w'))
        = fst (so_LastSentAlert so now i SubscriptionRenewal cool (wd_store w))"
      if "en_clock e (wd_reads w') \<le> now" for now
      unfolding 2(2) using that assms(3-5) 2(3) by (intro last_other) auto
    then show ?thesis using assms(6) le by (auto simp: cooling_def)
  qed
qed

lemma others_keep_cooling:
  assumes "Check lib so e c subs dry_run w = (rs, w')" and "mono (en_clock e)" "i \<noteq> []" "cool \<le> keep"
    and "\<forall>s \<in> set subs. subscription_id (sb_name s) \<noteq> i" and "cooling so e i cool t w"
  shows "cooling so e i cool t w'"
  using assms(1,5,6)
proof (induction subs arbitrary: w rs)
  case (Cons sub subs)
  obtain r w1 where one: "checkOne lib so e c sub dry_run w = (r, w1)" by (cases "checkOne lib so e c sub dry_run w")
  obtain rs' where rest: "Check lib so e c subs dry_run w1 = (rs', w')"
    using Cons.prems(1) one by (auto split: prod.splits)
  have "cooling so e i cool t w1"
    using other_keeps_cooling [OF conjunct1 [OF checkOne_check [OF one]] assms(2) _ assms(3,4) Cons.prems(3)] Cons.prems(2)
    by simp
  from Cons.IH [OF rest _ this] Cons.prems(2) show ?case by simp
qed simp

lemma cooling_skips:
  assumes "checkOne lib so e c sub dry_run w = (r, w')" and "mono (en_clock e)"
    and "cooling so e (subscription_id (sb_name sub)) (ck_cooldown c) t w"
    and "en_clock e (wd_reads w') < t + ck_cooldown c"
  shows "wd_store w' = wd_store w \<and> wd_sent w' = wd_sent w \<and> \<not> sr_alert_sent r"
proof -
  let ?i = "subscription_id (sb_name sub)"
  define w1 where "w1 = snd (read_clock e w)"
  have w1: "wd_store w1 = wd_store w" "wd_reads w1 = wd_reads w + 1" "wd_sent w1 = wd_sent w"
    by (simp_all add: w1_def)
  consider "wd_store w' = wd_store w1" "wd_sent w' = wd_sent w1" "\<not> sr_alert_sent r"
    | days st nx err where "dispatch so e c sub days w1 = ((st, nx, err), w')" "sr_alert_sent r \<longleftrightarrow> st = AlertStateSent"
    using assms(1) by (auto simp: checkOne_def Let_def w1_def read_clock_def split: prod.splits if_splits)
  then show ?thesis
  proof cases
    case 1
    then show ?thesis by (simp add: w1)
  next
    case 2
    have "wd_reads w1 + 2 \<le> wd_reads w'" using dispatch_reads [OF 2(1)] by blast
    then have late: "en_clock e (wd_reads w1 + 1) < t + ck_cooldown c"
      using clock_mono [OF assms(2), of "wd_reads w1 + 1" "wd_reads w'"] assms(4) by simp
    have "en_clock e (wd_reads w) \<le> en_clock e (wd_reads w1 + 1)" using w1(2) by (intro clock_mono [OF assms(2)]) simp
    then have last: "fst (so_LastSentAlert so (en_clock e (wd_reads w1 + 1)) ?i SubscriptionRenewal (ck_cooldown c) (wd_store w)) = Some t"
      using assms(3) late by (simp add: cooling_def)
    have "en_clock e (wd_reads w1) < t + ck_cooldown c"
      using late clock_mono [OF assms(2), of "wd_reads w1" "wd_reads w1 + 1"] by simp
    then have "st = AlertStateCooldownSkipped \<and> wd_store w' = wd_store w1 \<and> wd_sent w' = wd_sent w1"
      using 2(1) last w1
      by (auto simp: dispatch_def Let_def read_clock_def last_sent_alert_def split: prod.splits)
    with 2(2) w1 show ?thesis by (simp add: state_defs)
  qed
qed

lemma cooling_run:
  assumes "mono (en_clock e)" "cooling so e i (ck_cooldown c) t w" "i \<noteq> []" "ck_cooldown c \<le> keep"
    and "Check lib so e c subs dry_run w = (rs, w')" and "en_clock e (wd_reads w') < t + ck_cooldown c"
  shows "\<forall>j < length subs. subscription_id (sb_name (subs ! j)) = i \<longrightarrow> \<not> sr_alert_sent (rs ! j)"
  using assms(2,5)
proof (induction subs arbitrary: w rs)
  case (Cons sub subs)
  let ?j = "subscription_id (sb_name sub)"
  obtain r w1 where one: "checkOne lib so e c sub dry_run w = (r, w1)" by (cases "checkOne lib so e c sub dry_run w")
  obtain rs' where rest: "Check lib so e c subs dry_run w1 = (rs', w')" and rs: "rs = r # rs'"
    using Cons.prems(2) one by (auto split: prod.splits)
  have le: "wd_reads w1 \<le> wd_reads w'" by (rule Check_reads [OF rest])
  have early: "en_clock e (wd_reads w1) < t + ck_cooldown c"
    using clock_mono [OF assms(1) le] assms(6) by simp
  note eff = checkOne_check [OF one]
  have cool: "cooling so e i (ck_cooldown c) t w1" and head: "?j = i \<longrightarrow> \<not> sr_alert_sent r"
  proof -
    have mono: "cooling so e i (ck_cooldown c) t w1" if "wd_store w1 = wd_store w"
      using Cons.prems(1) clock_mono [OF assms(1), of "wd_reads w" "wd_reads w1"] eff that
      by (auto simp: cooling_def)
    show "cooling so e i (ck_cooldown c) t w1"
    proof (cases "?j = i")
      case True
      with cooling_skips [OF one assms(1) _ early] Cons.prems(1) mono show ?thesis by simp
    next
      case False
      with other_keeps_cooling [OF conjunct1 [OF eff] assms(1) _ assms(3,4) Cons.prems(1)] show ?thesis by simp
    qed
    show "?j = i \<longrightarrow> \<not> sr_alert_sent r"
      using cooling_skips [OF one assms(1) _ early] Cons.prems(1) by auto
  qed
  show ?case
  proof (intro allI impI)
    fix j assume "j < length (sub # subs)" "subscription_id (sb_name ((sub # subs) ! j)) = i"
    with head Cons.IH [OF cool rest] show "\<not> sr_alert_sent (rs ! j)" by (cases j) (auto simp: rs)
  qed
qed simp

lemma first_run:
  assumes "mono (en_clock e)" "0 < ck_cooldown c" "ck_cooldown c \<le> keep" "i \<noteq> []"
    and "known (en_clock e (wd_reads w)) (wd_store w)"
    and "Check lib so e c subs dry_run w = (rs, w')" and "distinct (map (\<lambda>s. subscription_id (sb_name s)) subs)"
    and "j < length subs" "subscription_id (sb_name (subs ! j)) = i" "sr_alert_sent (rs ! j)"
  shows "\<exists>t. en_clock e (wd_reads w) \<le> t \<and> cooling so e i (ck_cooldown c) t w'"
  using assms(5-10)
proof (induction subs arbitrary: w rs j)
  case (Cons sub subs)
  obtain r w1 where one: "checkOne lib so e c sub dry_run w = (r, w1)" by (cases "checkOne lib so e c sub dry_run w")
  obtain rs' where rest: "Check lib so e c subs dry_run w1 = (rs', w')" and rs: "rs = r # rs'"
    using Cons.prems(2) one by (auto split: prod.splits)
  note eff = conjunct1 [OF checkOne_check [OF one]]
  have le: "en_clock e (wd_reads w) \<le> en_clock e (wd_reads w1)"
    using eff by (intro clock_mono [OF assms(1)]) (simp add: check_effect_def)
  show ?case
  proof (cases j)
    case 0
    then have "check_effect so e i True w w1" using eff Cons.prems(5,6) rs by simp
    from sent_cools [OF this assms(1) Cons.prems(1) assms(2,3,4)] obtain t where
      t: "en_clock e (wd_reads w) \<le> t" "cooling so e i (ck_cooldown c) t w1" by blast
    have "\<forall>s \<in> set subs. subscription_id (sb_name s) \<noteq> i"
      using Cons.prems(3,5) 0 by (auto simp: image_iff)
    from others_keep_cooling [OF rest assms(1,4,3) this t(2)] t(1) show ?thesis by blast
  next
    case (Suc k)
    have kn: "known (en_clock e (wd_reads w1)) (wd_store w1)" by (rule known_check [OF eff assms(1) Cons.prems(1)])
    from Cons.IH [OF kn rest, of k] Cons.prems(3-6) Suc rs obtain t where
      "en_clock e (wd_reads w1) \<le> t" "cooling so e i (ck_cooldown c) t w'" by auto
    with le show ?thesis by (meson order_trans)
  qed
qed simp

text \<open>The cooldown of reminders, over two runs of the checker.\<close>

lemma once_per_cooldown:
  assumes "mono (en_clock e)" "0 < ck_cooldown c" "ck_cooldown c \<le> keep"
    and "known (en_clock e (wd_reads w)) (wd_store w)" and "distinct (map (\<lambda>s. subscription_id (sb_name s)) subs)"
    and "Check lib so e c subs dry_run w = (rs, w1)" and "Check lib so e c subs dry_run' w1 = (rs', w2)"
    and "en_clock e (wd_reads w2) < en_clock e (wd_reads w) + ck_cooldown c"
    and "j < length subs" "sr_alert_sent (rs ! j)"
  shows "\<not> sr_alert_sent (rs' ! j)"
proof -
  let ?i = "subscription_id (sb_name (subs ! j))"
  obtain t where t: "en_clock e (wd_reads w) \<le> t" "cooling so e ?i (ck_cooldown c) t w1"
    using first_run [OF assms(1-3) subscription_id_nonempty assms(4,6,5,9) refl assms(10)] by blast
  have "en_clock e (wd_reads w2) < t + ck_cooldown c" using t(1) assms(8) by simp
  from cooling_run [OF assms(1) t(2) subscription_id_nonempty assms(3,7) this] assms(9) show ?thesis by blast
qed

end

section \<open>Properties\<close>

lemma checkOne_fields:
  assumes "checkOne lib so e c sub dry_run w = (r, w')"
    and "rn = renewalOn lib sub \<lparr>t_ns = en_clock e (wd_reads w), t_zone = location e sub\<rparr>"
  shows "sr_days_until r = rn_days rn" "sr_already_renewed r = rn_already_renewed rn"
    "sr_need_alert r \<longleftrightarrow> 0 \<le> rn_days rn \<and> rn_days rn \<le> sb_alert_days_before sub \<and> \<not> rn_already_renewed rn"
    "sr_alert_sent r \<Longrightarrow> \<not> dry_run \<and> sr_need_alert r \<and>
       \<not> is_snoozed sub \<lparr>t_ns = en_clock e (wd_reads w), t_zone = location e sub\<rparr>"
  using assms by (auto simp: checkOne_def Let_def read_clock_def split: prod.splits if_splits)

text \<open>C12: a reminder is reported as sent only outside a dry run, for a renewal inside its
  reminder window that is neither paid nor snoozed, and exactly when one reminder was
  delivered.\<close>
lemma reminder_only_when_due:
  assumes "checkOne lib so e c sub dry_run w = (r, w')" and "sr_alert_sent r"
  shows "\<not> dry_run \<and> sr_need_alert r \<and> \<not> sr_already_renewed r
    \<and> 0 \<le> sr_days_until r \<and> sr_days_until r \<le> sb_alert_days_before sub
    \<and> \<not> is_snoozed sub \<lparr>t_ns = en_clock e (wd_reads w), t_zone = location e sub\<rparr>
    \<and> (\<exists>d m. wd_sent w' = wd_sent w @ [(d, m, None)] \<and> mg_kind m = KindSubscription)"
  using checkOne_fields [OF assms(1) refl] checkOne_check [OF assms(1)] assms(2)
  by (auto simp: check_effect_def)

lemma announce_sel [simp]: "wd_sent (announce c sub days w) = wd_sent w"
  by (simp add: announce_def)

lemma send_reminder_success:
  assumes "choose_notifier c sub = Inr (Some d)" and "en_send e (length (wd_sent w)) = None"
  shows "\<exists>nx w'. send_reminder so e c sub days now w = ((AlertStateSent, nx, []), w')
    \<and> wd_sent w' = wd_sent w @ [(d, reminder sub days, None)]"
proof -
  define w1 where "w1 = announce c sub days w"
  define dv where "dv = snd (deliver e d (reminder sub days) w1)"
  have s: "wd_sent w1 = wd_sent w" by (simp add: w1_def)
  then have dl: "deliver e d (reminder sub days) w1 = (None, dv)"
    using assms(2) by (simp add: dv_def deliver_def Let_def)
  have dv: "wd_sent dv = wd_sent w @ [(d, reminder sub days, None)]" using s assms(2) by (simp add: dv_def)
  show ?thesis
    unfolding send_reminder_def w1_def [symmetric] assms(1) Let_def
    by (simp add: dl dv record_outcome_def Let_def)
qed

lemma checkOne_due:
  assumes "rn = renewalOn lib sub \<lparr>t_ns = en_clock e (wd_reads w), t_zone = location e sub\<rparr>"
    and "0 \<le> rn_days rn" "rn_days rn \<le> sb_alert_days_before sub" "\<not> rn_already_renewed rn"
    and "\<not> is_snoozed sub \<lparr>t_ns = en_clock e (wd_reads w), t_zone = location e sub\<rparr>"
    and "fst (so_LastSentAlert so (en_clock e (wd_reads w + 2)) (subscription_id (sb_name sub))
           SubscriptionRenewal (ck_cooldown c) (wd_store w)) = None"
    and "choose_notifier c sub = Inr (Some d)" and "en_send e (length (wd_sent w)) = None"
  shows "sr_alert_sent (fst (checkOne lib so e c sub False w))
    \<and> (\<exists>m. wd_sent (snd (checkOne lib so e c sub False w)) = wd_sent w @ [(d, m, None)])"
proof -
  obtain r w' where one: "checkOne lib so e c sub False w = (r, w')" by (cases "checkOne lib so e c sub False w")
  define w1 where "w1 = w\<lparr>wd_reads := wd_reads w + 1\<rparr>"
  define w2 where "w2 = w\<lparr>wd_reads := wd_reads w + 3\<rparr>"
  obtain le where "so_LastSentAlert so (en_clock e (wd_reads w + 2)) (subscription_id (sb_name sub))
      SubscriptionRenewal (ck_cooldown c) (wd_store w) = (None, le)"
    using assms(6) by (metis prod.collapse)
  then have disp: "dispatch so e c sub (rn_days rn) w1 = send_reminder so e c sub (rn_days rn) (en_clock e (wd_reads w1)) w2"
    by (simp add: dispatch_def read_clock_def last_sent_alert_def w1_def w2_def eval_nat_numeral)
  obtain st nx err w'' where sr: "dispatch so e c sub (rn_days rn) w1 = ((st, nx, err), w'')"
    by (metis surj_pair)
  have st: "st = AlertStateSent \<and> (\<exists>m. wd_sent w'' = wd_sent w @ [(d, m, None)])"
    using sr send_reminder_success [OF assms(7), of e w2 so "rn_days rn" "en_clock e (wd_reads w1)"] assms(8)
    unfolding disp by (auto simp: w2_def)
  have "sr_alert_sent r \<and> w' = w''"
    using one assms(2-5) sr st
    by (auto simp: checkOne_def Let_def read_clock_def assms(1) [symmetric] w1_def)
  with st one show ?thesis by simp
qed

text \<open>C11: a reminder that is due is sent: with the renewal inside its window, unpaid and not
  snoozed, no earlier reminder on record, somewhere to send it and a delivery that succeeds,
  the check reports it as sent.\<close>
lemma due_reminder_sent:
  assumes "rn = renewalOn lib sub \<lparr>t_ns = en_clock e (wd_reads w), t_zone = location e sub\<rparr>"
    and "0 \<le> rn_days rn" "rn_days rn \<le> sb_alert_days_before sub" "\<not> rn_already_renewed rn"
    and "\<not> is_snoozed sub \<lparr>t_ns = en_clock e (wd_reads w), t_zone = location e sub\<rparr>"
    and "fst (so_LastSentAlert so (en_clock e (wd_reads w + 2)) (subscription_id (sb_name sub))
           SubscriptionRenewal (ck_cooldown c) (wd_store w)) = None"
    and "choose_notifier c sub = Inr (Some d)" and "en_send e (length (wd_sent w)) = None"
  shows "sr_alert_sent (fst (checkOne lib so e c sub False w))
    \<and> (\<exists>m. wd_sent (snd (checkOne lib so e c sub False w)) = wd_sent w @ [(d, m, None)])"
  using assms by (rule checkOne_due)

text \<open>A dry run leaves the outside world alone: nothing is sent, pushed or saved, and no
  result claims to have been sent.\<close>
lemma dry_run_silent:
  assumes "Check lib so e c subs True w = (rs, w')"
  shows "wd_store w' = wd_store w \<and> wd_sent w' = wd_sent w \<and> wd_pushed w' = wd_pushed w
    \<and> (\<forall>r \<in> set rs. \<not> sr_alert_sent r) \<and> length rs = length subs"
  using assms
proof (induction subs arbitrary: w rs)
  case (Cons sub subs)
  obtain r w1 where one: "checkOne lib so e c sub True w = (r, w1)" by (cases "checkOne lib so e c sub True w")
  obtain rs' where rest: "Check lib so e c subs True w1 = (rs', w')" and rs: "rs = r # rs'"
    using Cons.prems one by (auto split: prod.splits)
  from Cons.IH [OF rest] checkOne_dry_run [OF one] rs show ?case by simp
qed simp



subsection \<open>A concrete run\<close>

definition demo_sub :: subscription where
  "demo_sub = \<lparr>sb_name = ''Plan'', sb_owner = None, sb_cycle_type = CycleMonthly, sb_renewal_day = 5,
     sb_alert_days_before = 7, sb_amount = Fin 20, sb_enabled = True, sb_last_renewed = None,
     sb_snoozed_until = None, sb_timezone = [], sb_webhook_url = []\<rparr>"

definition demo_checker :: checker where
  "demo_checker = \<lparr>ck_cooldown = day_dur, ck_notifier = True, ck_push = False, ck_on_notify = False,
     ck_webhook_type = TypeWeCom, ck_source = ''q''\<rparr>"

definition demo_env :: env where
  "demo_env = \<lparr>en_clock = int, en_send = (\<lambda>_. None), en_local = utc_zone, en_load_zone = (\<lambda>_. None)\<rparr>"

definition demo_lib :: lunar_lib where
  "demo_lib = \<lparr>ll_year_of = (\<lambda>_. 0), ll_month_days = (\<lambda>_ _. None), ll_solar = (\<lambda>_ _ _. (0, 0, 0))\<rparr>"

definition demo_world :: "'s \<Rightarrow> 's world" where
  "demo_world s = \<lparr>wd_reads = 0, wd_store = s, wd_sent = [], wd_pushed = [], wd_notified = []\<rparr>"

lemmas demo_defs = demo_checker_def demo_env_def demo_world_def

text \<open>On 1 January 1970 a plan that renews on the 5th is four days away.\<close>

lemma demo_renewal:
  "renewalOn demo_lib demo_sub \<lparr>t_ns = 0, t_zone = utc_zone\<rparr> =
     \<lparr>rn_next = midnight utc_zone 4, rn_days = 4, rn_already_renewed = False\<rparr>"
proof -
  have "\<lparr>t_ns = 0, t_zone = utc_zone\<rparr> = midnight utc_zone 0"
    by (simp add: midnight_def resolve_def utc_zone_def)
  moreover have "monthly_occ (1 + int 4) 23640 = 4" "monthly_occ (1 + int 4) (23640 - 1) < 0" by code_simp+
  ultimately show ?thesis
    using monthly.evaluate_unmarked [where lib = demo_lib and k = 4 and lr = None and z = utc_zone
        and c = CycleMonthly and rd = 5 and today = 0 and i = 23640 and w = 7]
    by (simp add: renewalOn_def demo_sub_def parseRenewedDate_def)
qed

lemma demo_conditions:
  "location demo_env demo_sub = utc_zone" "is_snoozed demo_sub t = False"
  "choose_notifier demo_checker demo_sub = Inr (Some None)" "sb_alert_days_before demo_sub = 7"
  by (simp_all add: location_def demo_env_def demo_sub_def is_snoozed_def choose_notifier_def demo_checker_def)

lemma due_reminder_sent_witness:
  "sr_alert_sent (fst (checkOne demo_lib volatile_ops demo_env demo_checker demo_sub False (demo_world Volatile)))"
  using due_reminder_sent [OF refl, where e = demo_env and sub = demo_sub and w = "demo_world Volatile"
      and lib = demo_lib and so = volatile_ops and c = demo_checker and d = None] demo_renewal
  by (simp add: demo_conditions, simp add: demo_defs vs_LastSentAlert_def Volatile_def)

text \<open>The same reminder, with any store that has no record of it.\<close>

lemma demo_check_sent:
  assumes "fst (so_LastSentAlert so 2 (subscription_id (sb_name demo_sub)) SubscriptionRenewal day_dur s) = None"
  shows "sr_alert_sent (fst (Check demo_lib so demo_env demo_checker [demo_sub] False (demo_world s)) ! 0)"
proof -
  have "sr_alert_sent (fst (checkOne demo_lib so demo_env demo_checker demo_sub False (demo_world s)))"
    using checkOne_due [OF refl, where e = demo_env and sub = demo_sub and w = "demo_world s"
        and lib = demo_lib and so = so and c = demo_checker and d = None] demo_renewal assms
    by (simp add: demo_conditions, simp add: demo_defs)
  then show ?thesis
    by (cases "checkOne demo_lib so demo_env demo_checker demo_sub False (demo_world s)") simp
qed

lemma demo_bounds:
  assumes "Check demo_lib so demo_env demo_checker [demo_sub] False (demo_world s) = (rs, w1)"
    and "Check demo_lib so demo_env demo_checker [demo_sub] dry w1 = (rs', w2)"
  shows "en_clock demo_env (wd_reads w2) \<le> 8"
proof -
  have "wd_reads w1 \<le> 4" "wd_reads w2 \<le> wd_reads w1 + 4"
    using assms by (auto simp: demo_world_def split: prod.splits dest!: checkOne_reads)
  then show ?thesis by (simp add: demo_env_def)
qed



lemma dry_run_silent_witness:
  "wd_sent (snd (Check demo_lib volatile_ops demo_env demo_checker [demo_sub] True (demo_world Volatile))) = []"
  using dry_run_silent [of demo_lib volatile_ops demo_env demo_checker "[demo_sub]" "demo_world Volatile"]
  by (cases "Check demo_lib volatile_ops demo_env demo_checker [demo_sub] True (demo_world Volatile)")
    (simp add: demo_world_def)

lemma reminder_only_when_due_witness:
  "\<exists>r w'. checkOne demo_lib volatile_ops demo_env demo_checker demo_sub False (demo_world Volatile) = (r, w')
     \<and> sr_need_alert r \<and> sr_days_until r \<le> 7"
proof -
  obtain r w' where one: "checkOne demo_lib volatile_ops demo_env demo_checker demo_sub False (demo_world Volatile) = (r, w')"
    by (metis surj_pair)
  have "sr_alert_sent r"
    using demo_check_sent [of volatile_ops Volatile] one by (simp add: vs_LastSentAlert_def Volatile_def split: prod.splits)
  from reminder_only_when_due [OF one this] one show ?thesis by (auto simp: demo_conditions)
qed

end
