(* ===== verification/Runway.thy ===== *)
theory Runway
  imports Effects "HOL-Library.AList"
begin

text \<open>
  Spending profiles (\<open>internal/runway/runway.go\<close>) and the two alerts that rest on them
  (\<open>alerts.go\<close>).  The local zone and the current time are inputs.  The loop over days goes
  from midnight to midnight with \<open>AddDate\<close>; in a zone that skips a midnight it need not
  advance, so it is a partial function and a profile is an option.
\<close>

section \<open>Numbers\<close>

definition round_dec :: "f64 \<Rightarrow> nat \<Rightarrow> f64" where
  "round_dec value decimals = (let shift = Fin (10 ^ decimals)
     in fdiv (round_to_even (fmul value shift)) shift)"

text \<open>The order of \<open>sort.Float64s\<close> puts NaN first.\<close>

definition float_before :: "f64 \<Rightarrow> f64 \<Rightarrow> bool" where
  "float_before a b \<longleftrightarrow> flt a b \<or> a = NaN \<and> b \<noteq> NaN"

definition median :: "f64 list \<Rightarrow> f64" where
  "median values =
     (let sorted = sort_by float_before values; n = length sorted
      in if n = 0 then Fin 0
         else if n mod 2 = 1 then sorted ! (n div 2)
         else fdiv (fadd (sorted ! (n div 2 - 1)) (sorted ! (n div 2))) (Fin 2))"

section \<open>The profile\<close>

definition MinPoints :: nat where "MinPoints = 4"
definition MinSpanHours :: f64 where "MinSpanHours = Fin 6"
definition MinBaselineDay :: nat where "MinBaselineDay = 3"

record point =
  pt_at :: gotime
  pt_balance :: f64

definition validPoints :: "zone \<Rightarrow> balance_point list \<Rightarrow> point list" where
  "validPoints loc records = sort_by (\<lambda>a b. t_before (pt_at a) (pt_at b))
     (map (\<lambda>r. \<lparr>pt_at = unix_time (bp_timestamp r) loc, pt_balance = bp_balance r\<rparr>)
        (filter (\<lambda>r. bp_timestamp r \<noteq> 0) records))"

text \<open>Amounts by day; a day without an entry reads as 0.\<close>

type_synonym amounts = "gostring \<Rightarrow> f64 option"

definition amount_on :: "amounts \<Rightarrow> gostring \<Rightarrow> f64" where
  "amount_on m day = (case m day of None \<Rightarrow> Fin 0 | Some v \<Rightarrow> v)"

fun flows :: "point list \<Rightarrow> f64 \<Rightarrow> f64 \<Rightarrow> amounts \<Rightarrow> f64 \<times> f64 \<times> amounts" where
  "flows (p # q # ps) consumed topped_up per_day =
     (let delta = fsub (pt_balance p) (pt_balance q)
      in if flt (Fin 0) delta then
           (let d = fmt_date (pt_at q)
            in flows (q # ps) (fadd consumed delta) topped_up (per_day(d \<mapsto> fadd (amount_on per_day d) delta)))
         else if flt delta (Fin 0) then flows (q # ps) consumed (fadd topped_up (fneg delta)) per_day
         else flows (q # ps) consumed topped_up per_day)"
| "flows ps consumed topped_up per_day = (consumed, topped_up, per_day)"

definition splitFlows :: "point list \<Rightarrow> f64 \<times> f64 \<times> amounts" where
  "splitFlows points = (let (consumed, topped_up, per_day) = flows points (Fin 0) (Fin 0) (\<lambda>_. None)
     in (round_dec consumed 4, round_dec topped_up 4, per_day))"

partial_function (option) fill_from :: "amounts \<Rightarrow> gotime \<Rightarrow> gotime \<Rightarrow> daily_spend list \<Rightarrow> daily_spend list option" where
  "fill_from per_day day end_day daily =
     (if t_after day end_day then Some daily
      else fill_from per_day (add_date day 0 0 1) end_day
        (daily @ [\<lparr>ds_date = fmt_date day, ds_consumed = round_dec (amount_on per_day (fmt_date day)) 4\<rparr>]))"

definition day_start :: "gotime \<Rightarrow> gotime" where
  "day_start t = date_time (t_year t) (t_month t) (t_day t) 0 0 0 0 (t_zone t)"

definition fillDaily :: "amounts \<Rightarrow> gotime \<Rightarrow> gotime \<Rightarrow> daily_spend list option" where
  "fillDaily per_day start fin = fill_from per_day (day_start start) (day_start fin) []"

definition spike :: "daily_spend list \<Rightarrow> gostring \<Rightarrow> f64 option \<times> f64 option \<times> f64 option" where
  "spike daily today =
     (if daily = [] \<or> ds_date (last daily) \<noteq> today then (None, None, None)
      else let consumed = ds_consumed (last daily); history = butlast daily
        in if length history < MinBaselineDay then (Some consumed, None, None)
           else let mid = round_dec (median (map ds_consumed history)) 4
             in (Some consumed, Some mid,
                 if flt (Fin 0) mid then Some (round_dec (fdiv consumed mid) 2) else None))"

definition confidence :: "nat \<Rightarrow> f64 \<Rightarrow> gostring" where
  "confidence points span_hours =
     (if points < MinPoints \<or> flt span_hours MinSpanHours then ConfidenceNone
      else if flt span_hours (Fin 24) then ConfidenceLow
      else if flt span_hours (Fin 72) then ConfidenceMedium
      else ConfidenceHigh)"

definition empty_runway :: "balance_point list \<Rightarrow> int \<Rightarrow> point list \<Rightarrow> runway" where
  "empty_runway records window_days points =
     (let of_last = (\<lambda>f. if records = [] then [] else f (last records))
      in \<lparr>rw_project_id = of_last bp_project_id, rw_project_name = of_last bp_project_name,
          rw_provider = of_last bp_provider, rw_balance_type = of_last bp_balance_type,
          rw_current_balance = (if points = [] then None else Some (pt_balance (last points))),
          rw_window_days = window_days, rw_data_points = int (length points), rw_span_hours = Fin 0,
          rw_consumed = Fin 0, rw_topped_up = Fin 0, rw_burn_per_day = None, rw_runway_days = None,
          rw_depletion_date = None, rw_confidence = ConfidenceNone, rw_daily = [],
          rw_today_consumed = None, rw_baseline = None, rw_spike_ratio = None,
          rw_monthly_projection = None\<rparr>)"

definition burn_rate :: "f64 \<Rightarrow> f64 \<Rightarrow> f64" where
  "burn_rate consumed span_hours =
     round_dec (fdiv consumed (math_max (fdiv span_hours (Fin 24)) (rnd (1 / 24)))) 4"

definition depletion :: "gotime \<Rightarrow> f64 \<Rightarrow> gotime" where
  "depletion now days = t_add now (f64_to_int64 (fmul days (f64_of_int day_dur)))"

text \<open>What is known once the confidence suffices: the rate, how long the balance lasts, and the
  days.\<close>

definition estimate :: "runway \<Rightarrow> gotime \<Rightarrow> runway" where
  "estimate r now =
     (let burn = burn_rate (rw_consumed r) (rw_span_hours r);
          r1 = r\<lparr>rw_burn_per_day := Some burn\<rparr>
      in case rw_current_balance r1 of
           None \<Rightarrow> r1
         | Some balance \<Rightarrow>
             if flt (Fin 0) burn then
               (let days = round_dec (fdiv (math_max balance (Fin 0)) burn) 2
                in r1\<lparr>rw_runway_days := Some days, rw_depletion_date := Some (fmt_date (depletion now days))\<rparr>)
             else r1)"

definition with_days :: "runway \<Rightarrow> daily_spend list \<Rightarrow> gotime \<Rightarrow> runway" where
  "with_days r daily now =
     (let (today, baseline, ratio) = spike daily (fmt_date now)
      in r\<lparr>rw_daily := daily, rw_today_consumed := today, rw_baseline := baseline, rw_spike_ratio := ratio,
           rw_monthly_projection := map_option (\<lambda>b. fmul b (Fin 30)) (rw_burn_per_day r)\<rparr>)"

text \<open>\<open>clock\<close> stands in for a zero \<open>now\<close>; \<open>loc\<close> is the local zone.\<close>

definition Compute :: "zone \<Rightarrow> gotime \<Rightarrow> balance_point list \<Rightarrow> int \<Rightarrow> gotime \<Rightarrow> runway option" where
  "Compute loc clock records window_days now0 =
     (let now = (if is_zero now0 then clock else now0);
          points = validPoints loc records;
          result = empty_runway records window_days points
      in if rw_balance_type result = TypeQuota \<or> length points < 2 then Some result
         else
           let span_hours = round_dec (dur_hours (t_sub (pt_at (last points)) (pt_at (hd points)))) 2;
               (consumed, topped_up, per_day) = splitFlows points;
               result = result\<lparr>rw_span_hours := span_hours, rw_consumed := consumed,
                 rw_topped_up := topped_up, rw_confidence := confidence (length points) span_hours\<rparr>
           in if rw_confidence result = ConfidenceNone then Some result
              else case fillDaily per_day (pt_at (hd points)) (pt_at (last points)) of
                None \<Rightarrow> None
              | Some daily \<Rightarrow> Some (with_days (estimate result now) daily now))"

section \<open>All accounts\<close>

definition containsQuota :: "balance_point list \<Rightarrow> bool" where
  "containsQuota records \<longleftrightarrow> (\<exists>r \<in> set records. bp_balance_type r = TypeQuota)"

text \<open>Groups in the order of their first snapshot; the source walks a map, whose order does not
  matter here.\<close>

fun group_points :: "balance_point list \<Rightarrow> (gostring \<times> balance_point list) list
    \<Rightarrow> (gostring \<times> balance_point list) list" where
  "group_points [] g = g"
| "group_points (r # rs) g =
     group_points rs (AList.update (bp_project_id r)
       ((case map_of g (bp_project_id r) of None \<Rightarrow> [] | Some l \<Rightarrow> l) @ [r]) g)"

fun compute_groups :: "zone \<Rightarrow> gotime \<Rightarrow> int \<Rightarrow> gotime \<Rightarrow> (gostring \<times> balance_point list) list
    \<Rightarrow> (gostring \<Rightarrow> runway option) \<Rightarrow> (gostring \<Rightarrow> runway option) option" where
  "compute_groups loc clock window_days now [] out = Some out"
| "compute_groups loc clock window_days now ((i, records) # gs) out =
     (if containsQuota records then compute_groups loc clock window_days now gs out
      else case Compute loc clock records window_days now of
        None \<Rightarrow> None
      | Some r \<Rightarrow> compute_groups loc clock window_days now gs (out(i \<mapsto> r)))"

definition ComputeAll :: "zone \<Rightarrow> gotime \<Rightarrow> balance_point list \<Rightarrow> int \<Rightarrow> gotime
    \<Rightarrow> (gostring \<Rightarrow> runway option) option" where
  "ComputeAll loc clock series window_days now =
     (if series = [] then Some (\<lambda>_. None)
      else compute_groups loc clock window_days now (group_points series []) (\<lambda>_. None))"

definition Attach :: "check_result list \<Rightarrow> (gostring \<Rightarrow> runway option) \<Rightarrow> check_result list" where
  "Attach results runways = map (\<lambda>r.
     if cr_success r then
       (case runways (project_id (cr_provider r) (cr_project r)) of
          None \<Rightarrow> r
        | Some w \<Rightarrow> r\<lparr>cr_runway := Some w\<rparr>)
     else r) results"

section \<open>Alerts (\<open>alerts.go\<close>)\<close>

fun thousands_loop :: "nat \<Rightarrow> nat \<Rightarrow> gostring \<Rightarrow> gostring" where
  "thousands_loop n i [] = []"
| "thousands_loop n i (c # cs) =
     (if 0 < i \<and> (n - i) mod 3 = 0 then '','' else []) @ c # thousands_loop n (i + 1) cs"

definition thousands :: "f64 \<Rightarrow> nat \<Rightarrow> gostring" where
  "thousands value decimals =
     (let t = format_fixed decimals value;
          (sgn, t') = (if has_prefix t ''-'' then (''-'', drop 1 t) else ([], t));
          (int_part, fr) = (case cut t' ''.'' of None \<Rightarrow> (t', []) | Some p \<Rightarrow> p);
          grouped = thousands_loop (length int_part) 0 int_part
      in if fr = [] then sgn @ grouped else sgn @ grouped @ ''.'' @ fr)"

definition trimFloat :: "f64 \<Rightarrow> gostring" where "trimFloat v = format_g v"

definition deref_num :: "f64 option \<Rightarrow> f64" where
  "deref_num p = (case p of None \<Rightarrow> Fin 0 | Some v \<Rightarrow> v)"

definition deref_text :: "gostring option \<Rightarrow> gostring" where
  "deref_text p = (case p of None \<Rightarrow> [] | Some v \<Rightarrow> v)"

record alerter =
  ra_notifier :: bool
  ra_runway_days :: f64
  ra_spike_ratio :: f64
  ra_spike_min :: f64
  ra_cooldown :: duration

record sent_counts =
  sn_runway :: nat
  sn_spike :: nat

record notice =
  nt_alert_type :: gostring
  nt_kind :: gostring
  nt_title :: gostring
  nt_lines :: "gostring list"
  nt_message :: gostring
  nt_value :: "f64 option"
  nt_threshold :: "f64 option"

definition runwayDue :: "alerter \<Rightarrow> check_result \<Rightarrow> runway \<Rightarrow> bool" where
  "runwayDue a result r \<longleftrightarrow> flt (Fin 0) (ra_runway_days a)
     \<and> (case rw_runway_days r of None \<Rightarrow> False | Some d \<Rightarrow> fle d (ra_runway_days a))
     \<and> \<not> cr_need_alarm result"

definition spikeDue :: "alerter \<Rightarrow> runway \<Rightarrow> bool" where
  "spikeDue a r =
     (if fle (ra_spike_ratio a) (Fin 0) then False
      else case rw_spike_ratio r of
        None \<Rightarrow> False
      | Some x \<Rightarrow> if flt x (ra_spike_ratio a) then False
          else fle (ra_spike_min a) (deref_num (rw_today_consumed r)))"

definition account_lines :: "check_result \<Rightarrow> gostring list" where
  "account_lines result = [''**Account**: '' @ cr_project result] @
     (case cr_owner result of None \<Rightarrow> []
      | Some t \<Rightarrow> if t = [] then [] else [''**Owner project**: '' @ t])"

definition low_runway :: gostring where "low_runway = ''low_runway''"
definition spend_spike :: gostring where "spend_spike = ''spend_spike''"

definition runwayNotice :: "alerter \<Rightarrow> check_result \<Rightarrow> runway \<Rightarrow> notice" where
  "runwayNotice a result r =
     \<lparr>nt_alert_type = low_runway, nt_kind = ''runway'', nt_title = ''Short runway: '' @ cr_project result,
      nt_lines = account_lines result @
        [''**Provider**: '' @ cr_provider result,
         ''**Current balance**: '' @ thousands (deref_num (rw_current_balance r)) 2,
         ''**Average daily spend**: '' @ thousands (deref_num (rw_burn_per_day r)) 2 @ '' (last ''
           @ quantity (rw_window_days r) ''day'' ''days'' @ '')'',
         ''**Estimated depletion**: '' @ deref_text (rw_depletion_date r) @ '', remaining ''
           @ format_fixed 1 (deref_num (rw_runway_days r)) @ '' days (threshold ''
           @ trimFloat (ra_runway_days a) @ '' days)''],
      nt_message = ''Short runway: '' @ format_fixed 1 (deref_num (rw_runway_days r))
        @ '' days, estimated depletion on '' @ deref_text (rw_depletion_date r),
      nt_value = rw_current_balance r, nt_threshold = Some (ra_runway_days a)\<rparr>"

definition spikeNotice :: "alerter \<Rightarrow> check_result \<Rightarrow> runway \<Rightarrow> notice" where
  "spikeNotice a result r =
     \<lparr>nt_alert_type = spend_spike, nt_kind = spend_spike, nt_title = ''Spending spike: '' @ cr_project result,
      nt_lines = account_lines result @
        [''**Today's spending**: '' @ thousands (deref_num (rw_today_consumed r)) 2,
         ''**Baseline spending**: '' @ thousands (deref_num (rw_baseline r)) 2 @ '' (median over the last ''
           @ quantity (rw_window_days r) ''day'' ''days'' @ '')'',
         ''**Spike multiplier**: '' @ format_fixed 1 (deref_num (rw_spike_ratio r)) @ ''x'',
         ''**Current balance**: '' @ thousands (deref_num (rw_current_balance r)) 2] @
        (case rw_runway_days r of None \<Rightarrow> []
         | Some d \<Rightarrow> [''**At the current rate**: '' @ format_fixed 1 d @ '' days remaining'']),
      nt_message = ''Spending spike: today '' @ thousands (deref_num (rw_today_consumed r)) 2 @ '' is ''
        @ format_fixed 1 (deref_num (rw_spike_ratio r)) @ ''x the baseline'',
      nt_value = rw_today_consumed r, nt_threshold = rw_baseline r\<rparr>"

definition notice_message :: "notice \<Rightarrow> message" where
  "notice_message n = \<lparr>mg_title = nt_title n, mg_lines = nt_lines n, mg_kind = nt_kind n, mg_envelope = None\<rparr>"

definition emit :: "'s store_ops \<Rightarrow> env \<Rightarrow> alerter \<Rightarrow> gostring \<Rightarrow> gostring \<Rightarrow> notice \<Rightarrow> 's world \<Rightarrow> bool \<times> 's world" where
  "emit so e a project name n w =
     (let ((cooling, _), w1) = has_recent_alert so e project (nt_alert_type n) (ra_cooldown a) w
      in if cooling then (False, w1)
         else if \<not> ra_notifier a then (False, w1)
         else let (err, w2) = deliver e None (notice_message n) w1
           in if err \<noteq> None then (False, w2)
              else let (_, w3) = save_alert so e \<lparr>ar_id = project, ar_name = name, ar_type = nt_alert_type n,
                     ar_message = nt_message n, ar_value = nt_value n, ar_threshold = nt_threshold n,
                     ar_status = []\<rparr> w2
                in (True, w3))"

text \<open>The trend alerts of one account with a profile.\<close>

definition check_result_alerts :: "'s store_ops \<Rightarrow> env \<Rightarrow> alerter \<Rightarrow> bool \<Rightarrow> check_result \<Rightarrow> runway
    \<Rightarrow> sent_counts \<Rightarrow> 's world \<Rightarrow> sent_counts \<times> 's world" where
  "check_result_alerts so e a dry_run result r sent w =
     (let project = project_id (cr_provider result) (cr_project result);
          (sent1, w1) = (if runwayDue a result r \<and> \<not> dry_run then
             (let (ok, w') = emit so e a project (cr_project result) (runwayNotice a result r) w
              in (if ok then sent\<lparr>sn_runway := sn_runway sent + 1\<rparr> else sent, w'))
             else (sent, w))
      in if spikeDue a r \<and> \<not> dry_run then
           (let (ok, w') = emit so e a project (cr_project result) (spikeNotice a result r) w1
            in (if ok then sent1\<lparr>sn_spike := sn_spike sent1 + 1\<rparr> else sent1, w'))
         else (sent1, w1))"

fun check_results :: "'s store_ops \<Rightarrow> env \<Rightarrow> alerter \<Rightarrow> bool \<Rightarrow> check_result list \<Rightarrow> sent_counts
    \<Rightarrow> 's world \<Rightarrow> sent_counts \<times> 's world" where
  "check_results so e a dry_run [] sent w = (sent, w)"
| "check_results so e a dry_run (result # rest) sent w =
     (if \<not> cr_success result \<or> \<not> alertable (cr_runway result) then check_results so e a dry_run rest sent w
      else case cr_runway result of
        None \<Rightarrow> check_results so e a dry_run rest sent w
      | Some r \<Rightarrow> (let (sent', w') = check_result_alerts so e a dry_run result r sent w
                  in check_results so e a dry_run rest sent' w'))"

definition trend_check :: "'s store_ops \<Rightarrow> env \<Rightarrow> alerter \<Rightarrow> check_result list \<Rightarrow> bool \<Rightarrow> 's world
    \<Rightarrow> sent_counts \<times> 's world" where
  "trend_check so e a results dry_run w =
     (let sent = \<lparr>sn_runway = 0, sn_spike = 0\<rparr>
      in if fle (ra_runway_days a) (Fin 0) \<and> fle (ra_spike_ratio a) (Fin 0) then (sent, w)
         else check_results so e a dry_run results sent w)"

section \<open>Lemmas on profiles\<close>

definition day_entry :: "amounts \<Rightarrow> int \<Rightarrow> daily_spend" where
  "day_entry m n = \<lparr>ds_date = fmt_civil (civil n), ds_consumed = round_dec (amount_on m (fmt_civil (civil n))) 4\<rparr>"

lemma day_start_midnight: "day_start t = midnight (t_zone t) (local_day t)"
  unfolding day_start_def date_time_midnight day_number_t_civil(1) ..

lemma fill_from_days:
  assumes "day_ordered z"
  shows "fill_from m (midnight z a) (midnight z b) daily = Some (daily @ map (day_entry m) [a..b])"
proof (induction "nat (b + 1 - a)" arbitrary: a daily)
  case 0
  then have "b < a" by simp
  then show ?case using assms by (subst fill_from.simps) (simp add: t_after_def flip: t_before_def)
next
  case (Suc k)
  then have "a \<le> b" by simp
  have e: "fill_from m (midnight z (a + 1)) (midnight z b) d = Some (d @ map (day_entry m) [a + 1..b])" for d
    using Suc.hyps(2) by (intro Suc.hyps(1)) simp
  have "\<not> t_after (midnight z a) (midnight z b)"
    using assms \<open>a \<le> b\<close> by (simp add: t_after_def flip: t_before_def)
  then show ?case using assms \<open>a \<le> b\<close>
    by (subst fill_from.simps) (simp add: add_days_midnight e day_entry_def fmt_date_def t_civil_midnight upto_rec1)
qed

lemma fillDaily_days:
  assumes "day_ordered (t_zone s)" "t_zone f = t_zone s"
  shows "fillDaily m s f = Some (map (day_entry m) [local_day s..local_day f])"
  using assms by (simp add: fillDaily_def day_start_midnight fill_from_days)

lemma validPoints_zone: "p \<in> set (validPoints loc records) \<Longrightarrow> t_zone (pt_at p) = loc"
  by (auto simp: validPoints_def unix_time_def)

text \<open>Rounding leaves small whole numbers alone.\<close>

lemma rep_int: "\<bar>n\<bar> \<le> 2 ^ 53 \<Longrightarrow> rnd (of_int n) = Fin (of_int n)"
  by (intro rnd_representable representable_of_int)

lemma round_dec_int:
  assumes "\<bar>n\<bar> \<le> 9 * 10 ^ 11"
  shows "round_dec (Fin (of_int n)) 4 = Fin (of_int n)"
proof -
  have "rnd (of_int n * 10 ^ 4) = rnd (of_int (n * 10 ^ 4))" by simp
  also have "\<dots> = Fin (of_int (n * 10 ^ 4))" using assms by (intro rep_int) simp
  finally have e: "fmul (Fin (of_int n)) (Fin (10 ^ 4)) = Fin (of_int (n * 10 ^ 4))" by simp
  have q: "(of_int (n * 10 ^ 4) :: rat) / 10 ^ 4 = of_int n" by simp
  have "fdiv (Fin (of_int (n * 10 ^ 4))) (Fin (10 ^ 4)) = rnd (of_int n)"
    by (subst fdiv_Fin) (simp, simp only: q)
  then show ?thesis unfolding round_dec_def Let_def e using assms
    by (simp only: round_to_even_def f64.case rhe_of_int) (simp add: rep_int)
qed

section \<open>Money in, money out\<close>

definition whole :: "int \<Rightarrow> f64" where "whole n = Fin (of_int n)"

fun total_drop :: "int list \<Rightarrow> int" where
  "total_drop (a # b # r) = max (a - b) 0 + total_drop (b # r)"
| "total_drop _ = 0"

fun total_rise :: "int list \<Rightarrow> int" where
  "total_rise (a # b # r) = max (b - a) 0 + total_rise (b # r)"
| "total_rise _ = 0"

lemma total_nonneg: "0 \<le> total_drop bs" "0 \<le> total_rise bs"
  by (induction bs rule: total_drop.induct) auto

lemma total_diff: "bs \<noteq> [] \<Longrightarrow> total_drop bs - total_rise bs = hd bs - last bs"
  by (induction bs rule: total_drop.induct) (auto simp: max_def)

lemma flows_whole:
  assumes "map pt_balance ps = map whole bs"
    and "0 \<le> c" "0 \<le> t" "c + total_drop bs \<le> 9 * 10 ^ 11" "t + total_rise bs \<le> 9 * 10 ^ 11"
  shows "\<exists>m. flows ps (whole c) (whole t) d = (whole (c + total_drop bs), whole (t + total_rise bs), m)"
  using assms
proof (induction bs arbitrary: ps c t d rule: total_drop.induct)
  case (1 a b r)
  then obtain p q ps' where ps: "ps = p # q # ps'" "pt_balance p = whole a" "pt_balance q = whole b"
    "map pt_balance ps' = map whole r" by (auto simp: map_eq_Cons_conv)
  note nn = total_nonneg [of "b # r"]
  have ab: "\<bar>a - b\<bar> \<le> 9 * 10 ^ 11" using 1(3-6) nn by (auto simp: max_def split: if_splits)
  have delta: "fsub (whole a) (whole b) = whole (a - b)"
    using ab rep_int [of "a - b"] by (simp add: whole_def)
  have tail: "map pt_balance (q # ps') = map whole (b # r)" using ps by simp
  consider "b < a" | "a < b" | "a = b" by linarith
  then show ?case
  proof cases
    case 1
    have "fadd (whole c) (whole (a - b)) = whole (c + (a - b))"
      using 1 "1.prems" nn rep_int [of "c + (a - b)"] by (simp add: whole_def)
    moreover have "\<exists>m. flows (q # ps') (whole (c + (a - b))) (whole t) d'
        = (whole ((c + (a - b)) + total_drop (b # r)), whole (t + total_rise (b # r)), m)" for d'
      by (rule "1.IH" [OF tail]) (use 1 "1.prems" in auto)
    ultimately show ?thesis using 1 delta ps by (auto simp: Let_def add.assoc) (simp_all add: whole_def)
  next
    case 2
    have "fadd (whole t) (fneg (whole (a - b))) = whole (t + (b - a))"
      using 2 "1.prems" nn rep_int [of "t + (b - a)"] by (simp add: whole_def fneg_def algebra_simps)
    moreover have "\<exists>m. flows (q # ps') (whole c) (whole (t + (b - a))) d'
        = (whole (c + total_drop (b # r)), whole ((t + (b - a)) + total_rise (b # r)), m)" for d'
      by (rule "1.IH" [OF tail]) (use 2 "1.prems" in auto)
    ultimately show ?thesis using 2 delta ps by (auto simp: Let_def add.assoc) (simp_all add: whole_def)
  next
    case 3
    have "\<exists>m. flows (q # ps') (whole c) (whole t) d'
        = (whole (c + total_drop (b # r)), whole (t + total_rise (b # r)), m)" for d'
      by (rule "1.IH" [OF tail]) (use 3 "1.prems" in auto)
    then show ?thesis using 3 delta ps by (auto simp: Let_def whole_def)
  qed
qed auto

lemma splitFlows_whole:
  assumes "map pt_balance ps = map whole bs" "total_drop bs \<le> 9 * 10 ^ 11" "total_rise bs \<le> 9 * 10 ^ 11"
  shows "\<exists>m. splitFlows ps = (whole (total_drop bs), whole (total_rise bs), m)"
proof -
  obtain m where "flows ps (whole 0) (whole 0) (\<lambda>_. None) = (whole (total_drop bs), whole (total_rise bs), m)"
    using flows_whole [OF assms(1), of 0 0 "\<lambda>_. None"] assms(2,3) by auto
  then have f: "flows ps (Fin 0) (Fin 0) (\<lambda>_. None) = (whole (total_drop bs), whole (total_rise bs), m)"
    by (simp add: whole_def)
  have "round_dec (whole (total_drop bs)) 4 = whole (total_drop bs)" "round_dec (whole (total_rise bs)) 4 = whole (total_rise bs)"
    using assms(2,3) total_nonneg [of bs] by (simp_all add: whole_def round_dec_int)
  then show ?thesis unfolding splitFlows_def f by simp
qed

text \<open>With whole amounts, what was consumed less what was topped up is the fall of the balance
  over the window: no money appears or gets lost.\<close>
lemma splitFlows_conserves:
  assumes "map pt_balance ps = map whole bs" "bs \<noteq> []" "total_drop bs \<le> 9 * 10 ^ 11" "total_rise bs \<le> 9 * 10 ^ 11"
  shows "\<exists>c t m. splitFlows ps = (whole c, whole t, m) \<and> 0 \<le> c \<and> 0 \<le> t \<and> c - t = hd bs - last bs"
  using splitFlows_whole [OF assms(1,3,4)] total_nonneg [of bs] total_diff [OF assms(2)] by blast

lemma splitFlows_conserves_witness:
  "\<exists>c t m. splitFlows (map (\<lambda>b. \<lparr>pt_at = unix_time b utc_zone, pt_balance = whole b\<rparr>) [100, 60, 90, 70])
     = (whole c, whole t, m) \<and> 0 \<le> c \<and> 0 \<le> t \<and> c - t = 30"
  using splitFlows_conserves [of "map (\<lambda>b. \<lparr>pt_at = unix_time b utc_zone, pt_balance = whole b\<rparr>) [100, 60, 90, 70]"
      "[100, 60, 90, 70]"] by simp

lemma sorted_points: "sorted_wrt (\<lambda>a b. t_ns (pt_at a) \<le> t_ns (pt_at b)) (validPoints loc records)"
proof -
  have "strict_weak (\<lambda>a b. t_before (pt_at a) (pt_at b))" by (auto simp: strict_weak_def t_before_def)
  from sorted_sort_by [OF this] show ?thesis by (simp add: validPoints_def t_before_def not_less)
qed

lemma estimate_sel [simp]:
  "rw_daily (estimate r now) = rw_daily r" "rw_confidence (estimate r now) = rw_confidence r"
  "rw_span_hours (estimate r now) = rw_span_hours r" "rw_data_points (estimate r now) = rw_data_points r"
  "rw_consumed (estimate r now) = rw_consumed r" "rw_balance_type (estimate r now) = rw_balance_type r"
  "rw_burn_per_day (estimate r now) = Some (burn_rate (rw_consumed r) (rw_span_hours r))"
  "rw_current_balance (estimate r now) = rw_current_balance r"
  by (simp_all add: estimate_def Let_def split: option.splits)

lemma with_days_sel [simp]:
  "rw_daily (with_days r daily now) = daily" "rw_confidence (with_days r daily now) = rw_confidence r"
  "rw_span_hours (with_days r daily now) = rw_span_hours r" "rw_data_points (with_days r daily now) = rw_data_points r"
  "rw_consumed (with_days r daily now) = rw_consumed r" "rw_balance_type (with_days r daily now) = rw_balance_type r"
  "rw_burn_per_day (with_days r daily now) = rw_burn_per_day r"
  "rw_runway_days (with_days r daily now) = rw_runway_days r"
  "rw_depletion_date (with_days r daily now) = rw_depletion_date r"
  by (simp_all add: with_days_def split: prod.splits)

lemma empty_runway_sel [simp]:
  "rw_confidence (empty_runway records n ps) = ConfidenceNone" "rw_burn_per_day (empty_runway records n ps) = None"
  "rw_data_points (empty_runway records n ps) = int (length ps)" "rw_runway_days (empty_runway records n ps) = None"
  "rw_daily (empty_runway records n ps) = []"
  by (simp_all add: empty_runway_def Let_def)

definition known_points :: "zone \<Rightarrow> balance_point list \<Rightarrow> bool" where
  "known_points loc records \<longleftrightarrow> 2 \<le> length (validPoints loc records) \<and> bp_balance_type (last records) \<noteq> TypeQuota"

definition span_of :: "point list \<Rightarrow> f64" where
  "span_of ps = round_dec (dur_hours (t_sub (pt_at (last ps)) (pt_at (hd ps)))) 2"

lemma validPoints_Nil [simp]: "validPoints loc [] = []"
  by (simp add: validPoints_def)

lemma TypeQuota_ne: "[] \<noteq> TypeQuota"
  by (simp add: TypeQuota_def)

lemma empty_runway_type: "rw_balance_type (empty_runway records n ps) = (if records = [] then [] else bp_balance_type (last records))"
  by (simp add: empty_runway_def)

lemma Compute_cases:
  assumes "day_ordered loc"
  and "ps = validPoints loc records"
  shows "if \<not> known_points loc records then Compute loc clock records wd now0 = Some (empty_runway records wd ps)
    else \<exists>c t m. splitFlows ps = (c, t, m) \<and>
      Compute loc clock records wd now0 =
       (let r = (empty_runway records wd ps)\<lparr>rw_span_hours := span_of ps, rw_consumed := c, rw_topped_up := t,
                  rw_confidence := confidence (length ps) (span_of ps)\<rparr>;
            now = (if is_zero now0 then clock else now0)
        in Some (if confidence (length ps) (span_of ps) = ConfidenceNone then r
             else with_days (estimate r now)
               (map (day_entry m) [local_day (pt_at (hd ps))..local_day (pt_at (last ps))]) now))"
proof (cases "known_points loc records")
  case False
  then have "rw_balance_type (empty_runway records wd ps) = TypeQuota \<or> length ps < 2"
    using assms(2) by (cases "records = []") (auto simp: known_points_def empty_runway_type)
  then show ?thesis using False by (simp add: Compute_def Let_def assms(2) [symmetric])
next
  case True
  have ne: "ps \<noteq> []" "records \<noteq> []" using True by (auto simp: known_points_def assms(2))
  have k: "\<not> (rw_balance_type (empty_runway records wd ps) = TypeQuota \<or> length ps < 2)"
    using True ne by (auto simp: known_points_def assms(2) empty_runway_type)
  obtain c t m where f: "splitFlows ps = (c, t, m)" by (metis prod_cases3)
  have z: "t_zone (pt_at (hd ps)) = loc" "t_zone (pt_at (last ps)) = loc"
    using ne by (auto intro!: validPoints_zone [of _ loc records] simp: assms(2) [symmetric])
  have d: "fillDaily m (pt_at (hd ps)) (pt_at (last ps)) =
      Some (map (day_entry m) [local_day (pt_at (hd ps))..local_day (pt_at (last ps))])"
    using assms(1) z by (intro fillDaily_days) auto
  show ?thesis using True k f d
    by (simp add: Compute_def Let_def assms(2) [symmetric] span_of_def)
qed

text \<open>C33: in a zone whose midnights exist a profile is always computed; it has a burn rate exactly
  when its confidence is not none, takes at least four snapshots to alert on, and then lists
  every day between the first and the last snapshot once and in order.\<close>
lemma Compute_profile:
  assumes "day_ordered loc"
  shows "\<exists>r. Compute loc clock records wd now = Some r
    \<and> (rw_burn_per_day r \<noteq> None \<longleftrightarrow> rw_confidence r \<noteq> ConfidenceNone)
    \<and> (alertable (Some r) \<longrightarrow> 4 \<le> rw_data_points r \<and> \<not> flt (rw_span_hours r) (Fin 24))
    \<and> map ds_date (rw_daily r) = (if rw_confidence r = ConfidenceNone then []
        else map (\<lambda>n. fmt_civil (civil n))
          [local_day (pt_at (hd (validPoints loc records)))..local_day (pt_at (last (validPoints loc records)))])"
proof (cases "known_points loc records")
  case False
  then show ?thesis using Compute_cases [OF assms refl, of records clock wd now]
    by (simp add: alertable_def confidence_defs)
next
  case True
  let ?ps = "validPoints loc records"
  show ?thesis
  proof (cases "confidence (length ?ps) (span_of ?ps) = ConfidenceNone")
    case none: True
    then show ?thesis using True Compute_cases [OF assms refl, of records clock wd now]
      by (auto simp: alertable_def Let_def confidence_defs)
  next
    case False
    have "4 \<le> length ?ps \<and> \<not> flt (span_of ?ps) (Fin 24)"
      if "confidence (length ?ps) (span_of ?ps) \<in> {ConfidenceMedium, ConfidenceHigh}"
      using that by (auto simp: confidence_def MinPoints_def confidence_defs split: if_splits)
    then show ?thesis using True False Compute_cases [OF assms refl, of records clock wd now]
      by (auto simp: alertable_def Let_def day_entry_def o_def)
  qed
qed

lemma Compute_profile_witness:
  "\<exists>r. Compute utc_zone zero_time
      (map (\<lambda>(s, b). \<lparr>bp_project_id = ''p'', bp_project_name = ''P'', bp_provider = ''x'', bp_balance_type = TypeBalance,
          bp_balance = whole b, bp_threshold = None, bp_need_alarm = False, bp_timestamp = s\<rparr>)
        [(86400, 100), (100000, 80), (172800, 60), (180000, 55)]) 7 zero_time = Some r
    \<and> (rw_burn_per_day r \<noteq> None \<longleftrightarrow> rw_confidence r \<noteq> ConfidenceNone)"
  using Compute_profile [OF utc_zone_ordered] by blast

section \<open>Grouping\<close>

lemma map_of_group_points:
  "map_of (group_points rs g) i = (let l = filter (\<lambda>r. bp_project_id r = i) rs in
     if l = [] then map_of g i else Some ((case map_of g i of None \<Rightarrow> [] | Some k \<Rightarrow> k) @ l))"
  by (induction rs arbitrary: g) (auto simp: Let_def update_conv' split: option.splits)

lemma distinct_group_points: "distinct (map fst g) \<Longrightarrow> distinct (map fst (group_points rs g))"
  by (induction rs arbitrary: g) (auto simp: distinct_update)

lemma compute_groups_map:
  assumes "\<And>records. Compute loc clock records wd now \<noteq> None" and "distinct (map fst gs)"
  shows "\<exists>m. compute_groups loc clock wd now gs out = Some m \<and>
    (\<forall>i. m i = (case map_of gs i of None \<Rightarrow> out i
       | Some l \<Rightarrow> if containsQuota l then out i else Compute loc clock l wd now))"
  using assms(2)
proof (induction gs arbitrary: out)
  case (Cons g gs)
  obtain j l where g: "g = (j, l)" by (cases g)
  obtain r where r: "Compute loc clock l wd now = Some r" using assms(1) by blast
  have nj: "map_of gs j = None" using Cons.prems g by (simp add: map_of_eq_None_iff)
  from Cons.IH [of out] Cons.IH [of "out(j \<mapsto> r)"] Cons.prems g r nj show ?case
    by (fastforce split: option.splits)
qed simp

text \<open>An account gets a profile exactly when it has snapshots and none of them is a quota, and
  then the profile is computed from all of its snapshots, in their order, and no others.\<close>
lemma ComputeAll_accounts:
  assumes "day_ordered loc"
  shows "\<exists>m. ComputeAll loc clock series wd now = Some m \<and>
    (\<forall>i. m i = (let own = filter (\<lambda>r. bp_project_id r = i) series
       in if own = [] \<or> (\<exists>r \<in> set own. bp_balance_type r = TypeQuota) then None
          else Compute loc clock own wd now))"
proof (cases "series = []")
  case False
  have total: "Compute loc clock records wd now \<noteq> None" for records
    using Compute_profile [OF assms, of clock records wd now] by auto
  have "distinct (map fst (group_points series []))" by (rule distinct_group_points) simp
  from compute_groups_map [OF total this, of "\<lambda>_. None"] False show ?thesis
    by (fastforce simp: ComputeAll_def map_of_group_points containsQuota_def Let_def split: option.splits)
qed (simp add: ComputeAll_def Let_def)

lemma ComputeAll_accounts_witness:
  "\<exists>m. ComputeAll utc_zone zero_time [\<lparr>bp_project_id = ''p'', bp_project_name = ''P'', bp_provider = ''x'',
     bp_balance_type = TypeQuota, bp_balance = Fin 5, bp_threshold = None, bp_need_alarm = False,
     bp_timestamp = 86400\<rparr>] 7 zero_time = Some m \<and> m ''p'' = None"
  using ComputeAll_accounts [OF utc_zone_ordered, of zero_time "[\<lparr>bp_project_id = ''p'', bp_project_name = ''P'',
     bp_provider = ''x'', bp_balance_type = TypeQuota, bp_balance = Fin 5, bp_threshold = None,
     bp_need_alarm = False, bp_timestamp = 86400\<rparr>]" 7 zero_time] by (auto simp: Let_def)

section \<open>The day the balance runs out\<close>

lemma day_product: "f64_of_int day_dur = Fin 86400000000000"
  by (simp add: f64_of_int_def second_def)

lemma depletion_ns:
  assumes "representable y" "y * 86400000000000 = z" "representable z"
  shows "fle (Fin y) (Fin d) \<Longrightarrow> fle (Fin z) (fmul (Fin d) (f64_of_int day_dur))"
    "fle (Fin d) (Fin y) \<Longrightarrow> fle (fmul (Fin d) (f64_of_int day_dur)) (Fin z)"
proof -
  have z: "rnd (y * 86400000000000) = Fin z" using assms(2,3) by (simp add: rnd_representable)
  show "fle (Fin y) (Fin d) \<Longrightarrow> fle (Fin z) (fmul (Fin d) (f64_of_int day_dur))"
    unfolding day_product fmul_Fin z [symmetric] by (rule rnd_mono) simp
  show "fle (Fin d) (Fin y) \<Longrightarrow> fle (fmul (Fin d) (f64_of_int day_dur)) (Fin z)"
    unfolding day_product fmul_Fin z [symmetric] by (rule rnd_mono) simp
qed

lemma representable_scaled:
  assumes "\<bar>m\<bar> \<le> 2 ^ 53" and "k \<le> 100"
  shows "representable (of_int m * 2 ^ k)"
proof -
  have e: "rndq (of_int m * 2 ^ k) = of_int m * 2 ^ k"
    using assms rndq_exact [of m "int k"] by simp
  have "\<bar>of_int m * 2 ^ k :: rat\<bar> \<le> 2 ^ 53 * 2 ^ 100"
  proof -
    have "\<bar>of_int m :: rat\<bar> \<le> of_int (2 ^ 53)" using assms(1) by (simp only: of_int_abs [symmetric] of_int_le_iff)
    moreover have "(2 :: rat) ^ k \<le> 2 ^ 100" using assms(2) by (intro power_increasing) auto
    ultimately show ?thesis unfolding abs_mult by (intro mult_mono) auto
  qed
  also have "\<dots> < (2 :: rat) ^ 1024" by (simp only: power_add [symmetric], rule power_strict_increasing) auto
  finally have "of_int m * 2 ^ k < (2 ^ 1024 :: rat)" "- (2 ^ 1024 :: rat) < of_int m * 2 ^ k"
    by (simp_all only: abs_less_iff) linarith
  then show ?thesis by (simp add: representable_def rnd_def e Let_def not_le)
qed

lemma rep_day_limits: "representable 106752" "representable 106751"
    "representable 9223372800000000000" "representable 9223286400000000000"
  using representable_of_int [of 106752] representable_of_int [of 106751]
    representable_scaled [of 549755859375 24] representable_scaled [of 140736181640625 16]
  by simp_all

text \<open>A runway of up to 106751 days gives a depletion time that is not in the past; from 106752
  days on the conversion to a duration overflows and the time lies 292 years in the past.\<close>
lemma depletion_wraps:
  "(fle (Fin 0) days \<and> fle days (Fin 106751) \<longrightarrow> t_ns now \<le> t_ns (depletion now days))
   \<and> (fle (Fin 106752) days \<longrightarrow> t_ns (depletion now days) = t_ns now - 2 ^ 63)"
proof (intro conjI impI)
  assume a: "fle (Fin 0) days \<and> fle days (Fin 106751)"
  then obtain d where d: "days = Fin d" "0 \<le> d" "d \<le> 106751" by (cases days) auto
  obtain v where v: "fmul (Fin d) (f64_of_int day_dur) = Fin v" "0 \<le> v" "v \<le> 9223286400000000000"
    using depletion_ns(2) [of 106751 9223286400000000000 d] depletion_ns(1) [of 0 0 d] rep_day_limits d
    by (cases "fmul (Fin d) (f64_of_int day_dur)") auto
  have "0 \<le> f64_to_int64 (Fin v)" using v(2,3)
    by (auto simp: f64_to_int64_def trunc_rat_def Let_def floor_less_iff)
  then show "t_ns now \<le> t_ns (depletion now days)" unfolding depletion_def d(1) v(1) by (simp add: t_add_def)
next
  assume a: "fle (Fin 106752) days"
  show "t_ns (depletion now days) = t_ns now - 2 ^ 63"
  proof (cases days)
    case (Fin d)
    from depletion_ns(1) [of 106752 9223372800000000000 d] rep_day_limits a Fin
    have "fle (Fin 9223372800000000000) (fmul (Fin d) (f64_of_int day_dur))" by simp
    then have "f64_to_int64 (fmul (Fin d) (f64_of_int day_dur)) = - (2 ^ 63)"
      by (cases "fmul (Fin d) (f64_of_int day_dur)")
         (auto simp: f64_to_int64_def trunc_rat_def Let_def floor_less_iff)
    then show ?thesis by (simp add: depletion_def t_add_def Fin)
  next
    case PInf
    show ?thesis unfolding depletion_def day_product PInf
      by (simp add: t_add_def fmul_def inf_of_sign_def sign_of_def f64_to_int64_def)
  qed (use a in auto)
qed

lemma depletion_wraps_witness:
  "t_ns (depletion zero_time (Fin 200000)) = zero_ns - 2 ^ 63 \<and> zero_ns \<le> t_ns (depletion zero_time (Fin 30))"
  using depletion_wraps [of "Fin 200000" zero_time] depletion_wraps [of "Fin 30" zero_time] by (simp add: zero_time_def)

section \<open>Alerts\<close>

lemma thousands_loop_append:
  "thousands_loop n i (a @ b) = thousands_loop n i a @ thousands_loop n (i + length a) b"
  by (induction a arbitrary: i) simp_all

lemma thousands_loop_threes:
  "length cs mod 3 = 0 \<Longrightarrow> 0 < i \<Longrightarrow> n = i + length cs \<Longrightarrow>
   thousands_loop n i cs = concat (map (\<lambda>g. '','' @ g) (chunks3 cs))"
proof (induction cs arbitrary: i rule: chunks3.induct)
  case (4 a b c s)
  obtain k where k: "length s = 3 * k"
  proof -
    have "length (a # b # c # s) = length s + 3" by simp
    with 4(2) have "length s mod 3 = 0" by (simp only: mod_add_self2)
    with that show thesis by (metis mod_0_imp_dvd dvdE)
  qed
  have t: "thousands_loop n (Suc (Suc (Suc i))) s = concat (map (\<lambda>g. '','' @ g) (chunks3 s))"
    using 4(3,4) k by (intro "4.IH") auto
  have n: "n - i = 3 + 3 * k" "n - Suc i = 2 + 3 * k" "n - Suc (Suc i) = 1 + 3 * k"
    using 4(4) k by auto
  have m: "(n - i) mod 3 = 0" "(n - Suc i) mod 3 \<noteq> 0" "(n - Suc (Suc i)) mod 3 \<noteq> 0"
    unfolding n by (simp_all add: mod_Suc)
  have "thousands_loop n i (a # b # c # s) = '','' @ a # b # c # thousands_loop n (Suc (Suc (Suc i))) s"
    using 4(3) m by simp
  with t show ?case by simp
qed auto

lemma thousands_loop_head:
  "length a \<le> 3 \<Longrightarrow> n mod 3 = length a mod 3 \<Longrightarrow> length a \<le> n \<Longrightarrow> thousands_loop n 0 a = a"
proof -
  assume a: "length a \<le> 3" "n mod 3 = length a mod 3" "length a \<le> n"
  have "\<exists>k. n = length a + 3 * k" using a by (metis le_add_diff_inverse mod_eq_dvd_iff_nat dvdE)
  then obtain k where k: "n = length a + 3 * k" by blast
  consider "a = []" | x where "a = [x]" | x y where "a = [x, y]" | x y z where "a = [x, y, z]"
    using a(1) by (cases a; cases "tl a"; cases "tl (tl a)") auto
  then show ?thesis using k by cases (auto simp: mod_Suc)
qed

lemma join_commas: "ss \<noteq> [] \<Longrightarrow> join '','' ss = hd ss @ concat (map (\<lambda>g. '','' @ g) (tl ss))"
proof (induction ss)
  case (Cons s ss)
  then show ?case by (cases ss) simp_all
qed simp

lemma thousands_loop_group:
  assumes "ds \<noteq> []"
  shows "thousands_loop (length ds) 0 ds = group ds"
proof -
  define h where "h = (if length ds mod 3 = 0 then 3 else length ds mod 3)"
  have r: "length ds mod 3 < 3" "length ds mod 3 \<le> length ds" by simp_all
  have h: "0 < h" "h \<le> 3" "length ds mod 3 = h mod 3" using r(1) by (auto simp: h_def)
  have "length ds mod 3 = 0 \<Longrightarrow> 3 \<le> length ds" 
    using assms by (intro dvd_imp_le) (auto dest: mod_0_imp_dvd)
  then have hl: "h \<le> length ds" using r by (simp add: h_def)
  have m: "(length ds - h) mod 3 = 0" using hl h(3) by (metis mod_eq_dvd_iff_nat dvd_imp_mod_0)
  have "thousands_loop (length ds) 0 (take h ds @ drop h ds) = take h ds @ concat (map (\<lambda>g. '','' @ g) (chunks3 (drop h ds)))"
    unfolding thousands_loop_append using h hl m
    by (simp add: thousands_loop_head thousands_loop_threes min_absorb2)
  also have "\<dots> = join '','' (take h ds # chunks3 (drop h ds))" by (simp add: join_commas)
  also have "take h ds # chunks3 (drop h ds) = digit_groups ds"
  proof (cases "length ds mod 3 = 0")
    case True
    have "chunks3 ds = take 3 ds # chunks3 (drop 3 ds)" using assms by (rule chunks3_step)
    moreover have "length ds \<le> 3 \<Longrightarrow> length ds = 3" using hl True by (simp add: h_def)
    ultimately show ?thesis using True by (auto simp: digit_groups_def h_def Let_def)
  next
    case False
    have "length ds \<le> 3 \<Longrightarrow> length ds mod 3 = length ds" using False by (cases "length ds = 3") auto
    with False show ?thesis by (auto simp: digit_groups_def h_def Let_def)
  qed
  finally show ?thesis by (simp add: group_eq)
qed

text \<open>The trend alerts and the balance alerts print a finite amount the same way, though each has
  its own routine for it.\<close>
lemma thousands_is_formatAmount: "thousands (Fin x) 2 = formatAmount (Fin x)"
proof -
  obtain wh fr where d: "fixed_digits 2 x = (wh, fr)" by (cases "fixed_digits 2 x")
  note p = fixed_digits_parts [OF d]
  have dot: "CHR ''.'' \<notin> set wh" using p(2) by (auto simp: list_all_iff is_digit_def byte_def)
  have minus: "\<not> has_prefix (wh @ ''.'' @ fr) ''-''"
    using p(1,2) by (cases wh) (auto simp: is_digit_def byte_def)
  have fr: "fr \<noteq> []" using p(4) by auto
  have c: "cut (wh @ ''.'' @ fr) ''.'' = Some (wh, fr)" using cut_char [OF dot] by simp
  have f: "format_fixed 2 (Fin x) = (if x < 0 then ''-'' else []) @ wh @ ''.'' @ fr"
    by (simp add: format_fixed_def d)
  show ?thesis
  proof (cases "x < 0")
    case True
    then show ?thesis unfolding thousands_def formatAmount_def f using c fr
      by (simp add: nonFinite_def Let_def thousands_loop_group [OF p(1)])
  next
    case False
    then show ?thesis unfolding thousands_def formatAmount_def f using c fr minus
      by (simp add: nonFinite_def Let_def thousands_loop_group [OF p(1)])
  qed
qed

subsection \<open>Cooldowns of the trend alerts\<close>

definition emit_record :: "gostring \<Rightarrow> gostring \<Rightarrow> notice \<Rightarrow> alert_record" where
  "emit_record i nm n = \<lparr>ar_id = i, ar_name = nm, ar_type = nt_alert_type n, ar_message = nt_message n,
     ar_value = nt_value n, ar_threshold = nt_threshold n, ar_status = []\<rparr>"

lemma emit_eq:
  "emit so e a i nm n w =
     (let w1 = snd (has_recent_alert so e i (nt_alert_type n) (ra_cooldown a) w);
          w2 = snd (deliver e None (notice_message n) w1)
      in if fst (fst (has_recent_alert so e i (nt_alert_type n) (ra_cooldown a) w)) \<or> \<not> ra_notifier a then (False, w1)
         else if fst (deliver e None (notice_message n) w1) \<noteq> None then (False, w2)
         else (True, snd (save_alert so e (emit_record i nm n) w2)))"
  unfolding emit_def emit_record_def Let_def case_prod_beta by simp

lemma emit_steps:
  assumes "emit so e a i nm n w = (b, w')"
  shows "\<exists>w2. log_run so e w w2 \<and> (if b then w' = snd (save_alert so e (emit_record i nm n) w2) else w' = w2)"
proof -
  define w1 where "w1 = snd (has_recent_alert so e i (nt_alert_type n) (ra_cooldown a) w)"
  define w2 where "w2 = snd (deliver e None (notice_message n) w1)"
  have "log_run so e w w1" "log_run so e w w2" by (rule quiet; simp add: w1_def w2_def)+
  then show ?thesis using assms unfolding emit_eq w1_def [symmetric] Let_def w2_def [symmetric]
    by (auto split: if_splits)
qed

lemma emit_run: "emit so e a i nm n w = (b, w') \<Longrightarrow> log_run so e w w'"
  using emit_steps log_run_trans [OF log_run_save_alert] by (metis (full_types))

lemma emit_sent:
  assumes "emit so e a i nm n w = (True, w')"
  shows "\<exists>w2 rec. w' = snd (save_alert so e rec w2) \<and> log_run so e w w2 \<and> ar_id rec = i
    \<and> ar_type rec = nt_alert_type n \<and> ar_status rec = []"
  using emit_steps [OF assms] by (auto simp: emit_record_def intro!: exI [of _ "emit_record i nm n"])

lemma emit_cooling:
  assumes "recent_until so e i (nt_alert_type n) (ra_cooldown a) t w" "en_clock e (wd_reads w) \<le> t + ra_cooldown a"
  shows "fst (emit so e a i nm n w) = False \<and> wd_sent (snd (emit so e a i nm n w)) = wd_sent w"
proof -
  have "fst (fst (has_recent_alert so e i (nt_alert_type n) (ra_cooldown a) w))"
    using assms by (simp add: recent_until_def)
  then show ?thesis unfolding emit_eq Let_def by simp
qed

context alert_log
begin

lemma emit_starts_cooldown:
  assumes "emit so e a i nm n w = (True, w')" "mono (en_clock e)" "known (en_clock e (wd_reads w)) (wd_store w)"
    and "0 < ra_cooldown a" "ra_cooldown a \<le> keep"
  shows "\<exists>t. en_clock e (wd_reads w) \<le> t \<and> t \<le> en_clock e (wd_reads w')
    \<and> recent_until so e i (nt_alert_type n) (ra_cooldown a) t w'"
proof -
  from emit_sent [OF assms(1)] obtain w2 rec where w': "w' = snd (save_alert so e rec w2)" and run: "log_run so e w w2"
    and rec: "ar_id rec = i" "ar_type rec = nt_alert_type n" "ar_status rec = []" by blast
  have "recent_until so e (ar_id rec) (ar_type rec) (ra_cooldown a) (en_clock e (wd_reads w2)) w'"
    unfolding w' by (rule recent_after_save [OF assms(2) known_run [OF run assms(2,3)] _ assms(4,5)])
      (simp add: counts_as_sent_def rec)
  moreover have "en_clock e (wd_reads w) \<le> en_clock e (wd_reads w2)"
    by (rule clock_le [OF assms(2) log_run_reads [OF run]])
  moreover have "en_clock e (wd_reads w2) \<le> en_clock e (wd_reads w')"
    unfolding w' by (rule clock_le [OF assms(2)]) simp
  ultimately show ?thesis using rec by auto
qed

text \<open>A notice that went out is not repeated within the cooldown, whatever the log sees in
  between.\<close>

lemma emit_once:
  assumes "emit so e a i nm n w = (True, w1)" "log_run so e w1 w2" "nt_alert_type n' = nt_alert_type n"
    and "mono (en_clock e)" "known (en_clock e (wd_reads w)) (wd_store w)"
    and "0 < ra_cooldown a" "ra_cooldown a \<le> keep"
    and "en_clock e (wd_reads w2) \<le> en_clock e (wd_reads w) + ra_cooldown a"
  shows "fst (emit so e a i nm' n' w2) = False \<and> wd_sent (snd (emit so e a i nm' n' w2)) = wd_sent w2"
proof -
  from emit_starts_cooldown [OF assms(1,4-7)] obtain t where t: "en_clock e (wd_reads w) \<le> t"
    "t \<le> en_clock e (wd_reads w1)" "recent_until so e i (nt_alert_type n) (ra_cooldown a) t w1" by blast
  have "known (en_clock e (wd_reads w1)) (wd_store w1)"
    by (rule known_run [OF emit_run [OF assms(1)] assms(4,5)])
  from recent_run [OF assms(2,4) this t(3,2) assms(6,7)]
  have "recent_until so e i (nt_alert_type n') (ra_cooldown a) t w2" by (simp add: assms(3))
  then show ?thesis by (rule emit_cooling) (use t(1) assms(8) in linarith)
qed

end

text \<open>The check of one account: the runway notice first, the spike notice from the world it
  leaves.\<close>

definition try_emit :: "'s store_ops \<Rightarrow> env \<Rightarrow> alerter \<Rightarrow> bool \<Rightarrow> check_result \<Rightarrow> notice \<Rightarrow> 's world \<Rightarrow> bool \<times> 's world" where
  "try_emit so e a due result n w = (if due then
     emit so e a (project_id (cr_provider result) (cr_project result)) (cr_project result) n w else (False, w))"

lemma try_emit_run: "log_run so e w (snd (try_emit so e a due result n w))"
  unfolding try_emit_def by (cases due) (auto intro: emit_run [OF prod.collapse [symmetric]])

lemma check_result_alerts_eq:
  "check_result_alerts so e a dry result r sent w =
     (let e1 = try_emit so e a (runwayDue a result r \<and> \<not> dry) result (runwayNotice a result r) w;
          e2 = try_emit so e a (spikeDue a r \<and> \<not> dry) result (spikeNotice a result r) (snd e1)
      in (\<lparr>sn_runway = sn_runway sent + (if fst e1 then 1 else 0),
           sn_spike = sn_spike sent + (if fst e2 then 1 else 0)\<rparr>, snd e2))"
  by (auto simp: check_result_alerts_def try_emit_def Let_def split: prod.splits)

lemma check_result_alerts_run:
  "check_result_alerts so e a dry result r sent w = (sent', w') \<Longrightarrow> log_run so e w w'"
  unfolding check_result_alerts_eq Let_def using log_run_trans [OF try_emit_run try_emit_run] by auto

lemma check_results_run: "check_results so e a dry results sent w = (sent', w') \<Longrightarrow> log_run so e w w'"
proof (induction results arbitrary: sent w)
  case (Cons result rest)
  then show ?case
    by (auto split: if_splits option.splits prod.splits dest: check_result_alerts_run intro: log_run_trans)
qed simp

lemma trend_check_run: "trend_check so e a results dry w = (sent, w') \<Longrightarrow> log_run so e w w'"
  by (auto simp: trend_check_def Let_def split: if_splits dest: check_results_run)

lemma notice_types [simp]: "nt_alert_type (runwayNotice a res r) = low_runway"
  "nt_alert_type (spikeNotice a res r) = spend_spike"
  by (simp_all add: runwayNotice_def spikeNotice_def)

text \<open>What the check of one account did: which of the two notices went out, and from where.\<close>

lemma check_results_one:
  "check_results so e a dry [result] s w =
     (case cr_runway result of None \<Rightarrow> (s, w)
      | Some r \<Rightarrow> if cr_success result \<and> alertable (Some r) then check_result_alerts so e a dry result r s w else (s, w))"
  by (simp add: case_prod_beta split: option.split)

lemma trend_check_one:
  assumes "trend_check so e a [result] dry w = (sent, w')"
  shows "\<exists>due1 due2 n1 n2. nt_alert_type n1 = low_runway \<and> nt_alert_type n2 = spend_spike \<and>
    (let e1 = try_emit so e a due1 result n1 w; e2 = try_emit so e a due2 result n2 (snd e1)
     in sn_runway sent = (if fst e1 then 1 else 0) \<and> sn_spike sent = (if fst e2 then 1 else 0) \<and> w' = snd e2)"
proof -
  define s0 :: sent_counts where "s0 = \<lparr>sn_runway = 0, sn_spike = 0\<rparr>"
  have "(if fle (ra_runway_days a) (Fin 0) \<and> fle (ra_spike_ratio a) (Fin 0) then (s0, w)
      else check_results so e a dry [result] s0 w) = (sent, w')"
    using assms by (simp only: trend_check_def Let_def s0_def)
  then consider "(s0, w) = (sent, w')" | r where "check_result_alerts so e a dry result r s0 w = (sent, w')"
    unfolding check_results_one by (cases "cr_runway result") (auto simp only: option.case split: if_split_asm)
  then show ?thesis
  proof cases
    case 1
    have "nt_alert_type (runwayNotice a result undefined) = low_runway"
      "nt_alert_type (spikeNotice a result undefined) = spend_spike" by simp_all
    moreover have "sent = s0" "w' = w" using 1 by simp_all
    ultimately show ?thesis
      by (intro exI [of _ False] exI [of _ "runwayNotice a result undefined"] exI [of _ "spikeNotice a result undefined"])
         (simp add: try_emit_def s0_def)
  next
    case 2
    then show ?thesis unfolding check_result_alerts_eq Let_def s0_def
      by (intro exI [of _ "runwayDue a result r \<and> \<not> dry"] exI [of _ "spikeDue a r \<and> \<not> dry"]
          exI [of _ "runwayNotice a result r"] exI [of _ "spikeNotice a result r"]) auto
  qed
qed

context alert_log
begin

lemma try_emit_once:
  assumes "fst (try_emit so e a due result n w)" "log_run so e (snd (try_emit so e a due result n w)) w2"
    and "nt_alert_type n' = nt_alert_type n" "cr_provider result' = cr_provider result" "cr_project result' = cr_project result"
    and "mono (en_clock e)" "known (en_clock e (wd_reads w)) (wd_store w)" "0 < ra_cooldown a" "ra_cooldown a \<le> keep"
    and "en_clock e (wd_reads w2) \<le> en_clock e (wd_reads w) + ra_cooldown a"
  shows "\<not> fst (try_emit so e a due' result' n' w2)"
proof -
  let ?i = "project_id (cr_provider result) (cr_project result)"
  obtain w1 where em: "emit so e a ?i (cr_project result) n w = (True, w1)" and d: "due"
    using assms(1) by (cases "emit so e a ?i (cr_project result) n w") (auto simp: try_emit_def split: if_splits)
  have "log_run so e w1 w2" using assms(2) d by (simp add: try_emit_def em)
  from emit_once [OF em this assms(3,6-10)] show ?thesis using assms(4,5) by (auto simp: try_emit_def)
qed

lemma trend_once:
  assumes "trend_check so e a [result] dry w = (s1, w1)" "log_run so e w1 w2"
    and "trend_check so e a [result'] dry' w2 = (s2, w3)"
    and "cr_provider result' = cr_provider result" "cr_project result' = cr_project result"
    and "mono (en_clock e)" "known (en_clock e (wd_reads w)) (wd_store w)" "0 < ra_cooldown a" "ra_cooldown a \<le> keep"
    and "en_clock e (wd_reads w3) \<le> en_clock e (wd_reads w) + ra_cooldown a"
  shows "sn_runway s1 + sn_runway s2 \<le> 1 \<and> sn_spike s1 + sn_spike s2 \<le> 1"
proof -
  from trend_check_one [OF assms(1)] obtain d1 d2 n1 n2 where n: "nt_alert_type n1 = low_runway" "nt_alert_type n2 = spend_spike"
    and s1: "sn_runway s1 = (if fst (try_emit so e a d1 result n1 w) then 1 else 0)"
      "sn_spike s1 = (if fst (try_emit so e a d2 result n2 (snd (try_emit so e a d1 result n1 w))) then 1 else 0)"
      "w1 = snd (try_emit so e a d2 result n2 (snd (try_emit so e a d1 result n1 w)))"
    unfolding Let_def by blast
  from trend_check_one [OF assms(3)] obtain d1' d2' n1' n2' where n': "nt_alert_type n1' = low_runway" "nt_alert_type n2' = spend_spike"
    and s2: "sn_runway s2 = (if fst (try_emit so e a d1' result' n1' w2) then 1 else 0)"
      "sn_spike s2 = (if fst (try_emit so e a d2' result' n2' (snd (try_emit so e a d1' result' n1' w2))) then 1 else 0)"
      "w3 = snd (try_emit so e a d2' result' n2' (snd (try_emit so e a d1' result' n1' w2)))"
    unfolding Let_def by blast
  define wa where "wa = snd (try_emit so e a d1 result n1 w)"
  define wb where "wb = snd (try_emit so e a d1' result' n1' w2)"
  have ra: "log_run so e w wa" "log_run so e wa w1" "log_run so e w2 wb" "log_run so e wb w3"
    unfolding wa_def wb_def s1(3) s2(3) by (rule try_emit_run)+
  have rb: "log_run so e wa w2" by (rule log_run_trans [OF assms(2) ra(2)])
  have rc: "log_run so e w1 wb" by (rule log_run_trans [OF ra(3) assms(2)])
  have le: "en_clock e (wd_reads w2) \<le> en_clock e (wd_reads w3)" "en_clock e (wd_reads wb) \<le> en_clock e (wd_reads w3)"
      "en_clock e (wd_reads w) \<le> en_clock e (wd_reads wa)"
    using log_run_reads [OF ra(1)] log_run_reads [OF ra(3)] log_run_reads [OF ra(4)] by (auto intro: clock_le [OF assms(6)])
  have ka: "known (en_clock e (wd_reads wa)) (wd_store wa)" by (rule known_run [OF ra(1) assms(6,7)])
  have "\<not> fst (try_emit so e a d1' result' n1' w2)" if "fst (try_emit so e a d1 result n1 w)"
    by (rule try_emit_once [OF that rb [unfolded wa_def] _ assms(4,5,6,7,8,9)]) (use n n' le assms(10) in auto)
  moreover have "\<not> fst (try_emit so e a d2' result' n2' wb)" if "fst (try_emit so e a d2 result n2 wa)"
    by (rule try_emit_once [OF that rc [unfolded s1(3) wa_def [symmetric]] _ assms(4,5,6) ka assms(8,9)])
      (use n n' le assms(10) in auto)
  ultimately show ?thesis by (auto simp: s1 s2 wa_def wb_def)
qed

end

text \<open>C13: with the store in memory, an account is alerted about a short runway at most once and
  about a spending spike at most once within a cooldown, whatever else is logged between two
  checks.\<close>
lemma trend_alert_once:
  assumes "trend_check volatile_ops e a [result] dry w = (s1, w1)" "log_run volatile_ops e w1 w2"
    and "trend_check volatile_ops e a [result'] dry' w2 = (s2, w3)"
    and "cr_provider result' = cr_provider result" "cr_project result' = cr_project result"
    and "mono (en_clock e)" "vs_known (en_clock e (wd_reads w)) (wd_store w)" "0 < ra_cooldown a" "ra_cooldown a \<le> volatileRetention"
    and "en_clock e (wd_reads w3) \<le> en_clock e (wd_reads w) + ra_cooldown a"
  shows "sn_runway s1 + sn_runway s2 \<le> 1 \<and> sn_spike s1 + sn_spike s2 \<le> 1"
  using assms by (rule volatile.trend_once)

definition demo_trend :: "check_result" where
  "demo_trend = \<lparr>cr_project = ''A'', cr_owner = None, cr_provider = ''x'', cr_type = TypeBalance, cr_success = True,
     cr_credits = Some (Fin 5), cr_threshold = None, cr_need_alarm = False, cr_alarm_sent = False, cr_error = None,
     cr_cached = False, cr_runway = Some ((empty_runway [] 7 []) \<lparr>rw_confidence := ConfidenceHigh, rw_runway_days := Some (Fin 2)\<rparr>),
     cr_checked_at = None, cr_latency_ms = None\<rparr>"

definition demo_alerter :: alerter where
  "demo_alerter = \<lparr>ra_notifier = True, ra_runway_days = Fin 3, ra_spike_ratio = Fin 0, ra_spike_min = Fin 0, ra_cooldown = hour\<rparr>"

definition quiet_env :: env where
  "quiet_env = \<lparr>en_clock = int, en_send = (\<lambda>_. None), en_local = utc_zone, en_load_zone = (\<lambda>_. None)\<rparr>"

definition quiet_world :: "'s \<Rightarrow> 's world" where
  "quiet_world s = \<lparr>wd_reads = 0, wd_store = s, wd_sent = [], wd_pushed = [], wd_notified = []\<rparr>"

lemma demo_trend_sent:
  "sn_runway (fst (trend_check volatile_ops quiet_env demo_alerter [demo_trend] False (quiet_world Volatile))) = 1"
proof -
  have cr: "cr_runway demo_trend = Some ((empty_runway [] 7 []) \<lparr>rw_confidence := ConfidenceHigh, rw_runway_days := Some (Fin 2)\<rparr>)"
    "cr_success demo_trend" "\<not> cr_need_alarm demo_trend" by (simp_all add: demo_trend_def)
  have "fst (fst (has_recent_alert volatile_ops quiet_env i ty c (quiet_world Volatile))) = False" for i ty c
    by (simp add: quiet_world_def Volatile_def vs_HasRecentAlert_def vs_LastSentAlert_def)
  then have "fst (emit volatile_ops quiet_env demo_alerter i nm n (quiet_world Volatile))" for i nm n
    unfolding emit_eq Let_def by (simp add: demo_alerter_def quiet_env_def)
  then show ?thesis
    unfolding trend_check_def Let_def check_results_one cr(1) option.case check_result_alerts_eq
    using cr(2,3)
    by (simp add: alertable_def confidence_defs runwayDue_def demo_alerter_def try_emit_def [abs_def])
qed

lemma try_emit_reads: "wd_reads (snd (try_emit so e a due result n w)) \<le> wd_reads w + 2"
  unfolding try_emit_def emit_eq Let_def by simp

lemma trend_check_reads: "trend_check so e a [result] dry w = (s, w') \<Longrightarrow> wd_reads w' \<le> wd_reads w + 4"
proof -
  assume "trend_check so e a [result] dry w = (s, w')"
  from trend_check_one [OF this] obtain d1 d2 n1 n2
    where "w' = snd (try_emit so e a d2 result n2 (snd (try_emit so e a d1 result n1 w)))"
    unfolding Let_def by blast
  with try_emit_reads [of so e a d1 result n1 w] try_emit_reads [of so e a d2 result n2 "snd (try_emit so e a d1 result n1 w)"]
  show ?thesis by simp
qed

lemma trend_alert_once_witness:
  "sn_runway (fst (trend_check volatile_ops quiet_env demo_alerter [demo_trend] False
     (snd (trend_check volatile_ops quiet_env demo_alerter [demo_trend] False (quiet_world Volatile))))) = 0"
proof -
  let ?c = "trend_check volatile_ops quiet_env demo_alerter [demo_trend] False"
  obtain s1 w1 where 1: "?c (quiet_world Volatile) = (s1, w1)" by (cases "?c (quiet_world Volatile)")
  obtain s2 w3 where 2: "?c w1 = (s2, w3)" by (cases "?c w1")
  have r: "en_clock quiet_env (wd_reads w3) \<le> en_clock quiet_env (wd_reads (quiet_world Volatile)) + ra_cooldown demo_alerter"
    using trend_check_reads [OF 1] trend_check_reads [OF 2]
    by (simp add: quiet_env_def quiet_world_def demo_alerter_def second_def)
  have "sn_runway s1 + sn_runway s2 \<le> 1 \<and> sn_spike s1 + sn_spike s2 \<le> 1"
    by (rule trend_alert_once [OF 1 log_run_refl 2 _ _ _ _ _ _ r])
       (auto simp: quiet_env_def mono_def vs_known_def quiet_world_def Volatile_def demo_alerter_def volatileRetention_def second_def)
  with demo_trend_sent show ?thesis by (simp add: 1 2)
qed

end
