(* ===== verification/Cost.thy ===== *)
theory Cost
  imports Runway
begin

text \<open>
  Monthly spend and budget alerts (\<open>internal/cost\<close>): what each project consumed this month,
  its extrapolation to the end of the month and the alert when that passes the budget.  The
  store is behind the same operations as in the other checkers; the map from a project to its
  currency and the exchange rates are parameters.  The notifier is taken to be there; theory \<open>App\<close>
  has what happens without one.
\<close>

section \<open>Spend of a month (\<open>cost.go\<close>)\<close>

record project_spend =
  sp_project :: gostring
  sp_provider :: gostring
  sp_currency :: gostring
  sp_spend :: f64
  sp_spend_base :: f64
  sp_budget :: f64
  sp_projected :: f64
  sp_over_budget :: bool

record summary =
  sm_month :: gostring
  sm_base :: gostring
  sm_days_elapsed :: int
  sm_days_in_month :: int
  sm_projects :: "project_spend list"
  sm_total_base :: f64
  sm_unknown_fx :: "gostring list"

definition MonthWindow :: "gotime \<Rightarrow> gotime \<times> int" where
  "MonthWindow now = (let first = date_time (t_year now) (t_month now) 1 0 0 0 0 (t_zone now)
     in (first, t_day (t_add (add_date first 0 1 0) (- 1))))"

text \<open>The condition under which the source moves \<open>prev\<close> holds always.\<close>

fun spend_loop :: "balance_point list \<Rightarrow> gotime \<Rightarrow> gotime \<Rightarrow> balance_point option \<Rightarrow> f64 \<Rightarrow> f64" where
  "spend_loop [] m_start now prev spend = spend"
| "spend_loop (p # ps) m_start now prev spend =
     (let at_time = unix_time (bp_timestamp p) (t_zone now);
          in_window = (\<not> t_before at_time m_start \<and> t_before at_time (t_add now second));
          spend' = (case prev of None \<Rightarrow> spend
            | Some q \<Rightarrow> let delta = fsub (bp_balance q) (bp_balance p)
                in if in_window \<and> flt (Fin 0) delta then fadd spend delta else spend)
      in spend_loop ps m_start now
           (if \<not> t_before at_time m_start \<or> prev = None \<or> t_before at_time m_start then Some p else prev)
           spend')"

definition SpendInMonth :: "balance_point list \<Rightarrow> gotime \<Rightarrow> gotime \<Rightarrow> f64" where
  "SpendInMonth points m_start now = spend_loop points m_start now None (Fin 0)"

definition Projected :: "f64 \<Rightarrow> int \<Rightarrow> int \<Rightarrow> f64" where
  "Projected spend days_elapsed m_days =
     (if days_elapsed \<le> 1 \<or> m_days \<le> days_elapsed then spend
      else fmul (fdiv spend (f64_of_int days_elapsed)) (f64_of_int m_days))"

definition round2 :: "f64 \<Rightarrow> f64" where
  "round2 v = fdiv (f64_of_int (f64_to_int64 (fadd (fmul v (Fin 100)) (Fin (1 / 2))))) (Fin 100)"

text \<open>\<open>sortStrings\<close>: the sorted part is kept reversed, so the inner loop sinks the next text from
  its end.\<close>

fun sink :: "gostring \<Rightarrow> gostring list \<Rightarrow> gostring list" where
  "sink x [] = [x]"
| "sink x (y # ys) = (if string_less x y then y # sink x ys else x # y # ys)"

definition sortStrings :: "gostring list \<Rightarrow> gostring list" where
  "sortStrings s = rev (foldl (\<lambda>done x. sink x done) [] s)"

fun by_name :: "balance_point list \<Rightarrow> (gostring \<Rightarrow> balance_point list) \<Rightarrow> gostring \<Rightarrow> balance_point list" where
  "by_name [] m = m"
| "by_name (p # ps) m = by_name ps (m(bp_project_name p := m (bp_project_name p) @ [p]))"

definition spend_entry :: "gostring \<Rightarrow> f64 \<Rightarrow> int \<Rightarrow> int \<Rightarrow> project \<Rightarrow> project_spend" where
  "spend_entry currency spend days_elapsed m_days p =
     (let entry = \<lparr>sp_project = pj_name p, sp_provider = pj_provider p, sp_currency = currency,
            sp_spend = round2 spend, sp_spend_base = Fin 0, sp_budget = Fin 0,
            sp_projected = round2 (Projected spend days_elapsed m_days), sp_over_budget = False\<rparr>
      in if flt (Fin 0) (pj_monthly_budget p) then
           entry\<lparr>sp_budget := pj_monthly_budget p, sp_over_budget := flt (pj_monthly_budget p) (sp_projected entry)\<rparr>
         else entry)"

text \<open>The loop over the projects; \<open>unknown\<close> holds the currencies without a rate, each once.\<close>

fun build_projects :: "(gostring \<Rightarrow> balance_point list) \<Rightarrow> (project \<Rightarrow> gostring) \<Rightarrow> (gostring \<Rightarrow> f64 option) \<Rightarrow> gotime \<Rightarrow> int \<Rightarrow> gotime
    \<Rightarrow> project list \<Rightarrow> project_spend list \<Rightarrow> f64 \<Rightarrow> gostring list \<Rightarrow> project_spend list \<times> f64 \<times> gostring list" where
  "build_projects points currency_of fx m_start m_days now [] entries tot unknown = (entries, tot, unknown)"
| "build_projects points currency_of fx m_start m_days now (p # ps) entries tot unknown =
     (let currency = currency_of p;
          spend = SpendInMonth (points (pj_name p)) m_start now;
          entry = spend_entry currency spend (t_day now) m_days p
      in if currency = [] then
           build_projects points currency_of fx m_start m_days now ps (entries @ [entry]) tot unknown
         else case fx currency of
           Some rate \<Rightarrow>
             (let entry' = entry\<lparr>sp_spend_base := round2 (fmul spend rate)\<rparr>
              in build_projects points currency_of fx m_start m_days now ps (entries @ [entry'])
                   (fadd tot (sp_spend_base entry')) unknown)
         | None \<Rightarrow> build_projects points currency_of fx m_start m_days now ps (entries @ [entry])
             tot (List.insert currency unknown))"

definition fmt_month :: "gotime \<Rightarrow> gostring" where
  "fmt_month t = fmt_year (t_year t) @ ''-'' @ pad_int 2 (t_month t)"

definition Build :: "balance_point list \<Rightarrow> project list \<Rightarrow> (project \<Rightarrow> gostring) \<Rightarrow> (gostring \<Rightarrow> f64 option) \<Rightarrow> gostring \<Rightarrow> gotime
    \<Rightarrow> summary" where
  "Build points projects currency_of fx base now =
     (let (m_start, m_days) = MonthWindow now;
          (entries, tot, unknown) = build_projects (by_name points (\<lambda>_. [])) currency_of fx m_start m_days
            now projects [] (Fin 0) []
      in \<lparr>sm_month = fmt_month m_start, sm_base = base, sm_days_elapsed = t_day now,
          sm_days_in_month = m_days, sm_projects = entries, sm_total_base = round2 tot,
          sm_unknown_fx = sortStrings unknown\<rparr>)"

section \<open>Budget alerts (\<open>alerter.go\<close>)\<close>

record budget_alerter =
  ba_store :: bool
  ba_cooldown_seconds :: int

definition wrap64 :: "int \<Rightarrow> int" where
  "wrap64 n = (n + 2 ^ 63) mod 2 ^ 64 - 2 ^ 63"

definition budget_cooldown :: "budget_alerter \<Rightarrow> duration" where
  "budget_cooldown a = wrap64 (ba_cooldown_seconds a * second)"

definition candidates :: "project list \<Rightarrow> project list" where
  "candidates projects = filter (\<lambda>p. flt (Fin 0) (pj_monthly_budget p)) projects"

definition balance_series :: "'s history_ops \<Rightarrow> env \<Rightarrow> int \<Rightarrow> 's world \<Rightarrow> (balance_point list \<times> goerror option) \<times> 's world" where
  "balance_series ho e days w = (let (t, w1) = read_clock e w in (ho_BalanceSeries ho t days (wd_store w1), w1))"

definition money_line :: "gostring \<Rightarrow> f64 \<Rightarrow> gostring \<Rightarrow> gostring" where
  "money_line label v currency = label @ '': '' @ format_fixed 2 v @ '' '' @ currency"

definition budget_lines :: "(project \<Rightarrow> gostring) \<Rightarrow> project \<Rightarrow> f64 \<Rightarrow> f64 \<Rightarrow> int \<Rightarrow> int \<Rightarrow> gostring list" where
  "budget_lines currency_of p spend projected days_elapsed m_days =
     [money_line ''Spent so far'' spend (currency_of p),
      money_line ''Projected by month end'' projected (currency_of p),
      money_line ''Budget'' (pj_monthly_budget p) (currency_of p),
      ''Month is '' @ itoa days_elapsed @ '' of '' @ itoa m_days @ '' days in'']"

definition usage_lines :: "(project \<Rightarrow> gostring) \<Rightarrow> project \<Rightarrow> f64 \<Rightarrow> f64 \<Rightarrow> gostring list" where
  "usage_lines currency_of p spend projected =
     [money_line ''Reported spend so far'' spend (currency_of p),
      money_line ''Projected by month end'' projected (currency_of p),
      money_line ''Budget'' (pj_monthly_budget p) (currency_of p)]"

definition budget_record :: "gostring \<Rightarrow> project \<Rightarrow> gostring \<Rightarrow> f64 \<Rightarrow> alert_record" where
  "budget_record i p what projected =
     \<lparr>ar_id = i, ar_name = pj_name p, ar_type = AlertBudget,
      ar_message = what @ '': projected '' @ format_fixed 2 projected @ '' over '' @ format_fixed 2 (pj_monthly_budget p),
      ar_value = None, ar_threshold = None, ar_status = ''sent''\<rparr>"

text \<open>What both checks do once a project is over its budget: unless it cools down, count it in a
  dry run, otherwise send the message and record it under \<open>record_id\<close>.  The result says whether
  it counts as sent.\<close>

definition alert_overrun :: "'s store_ops \<Rightarrow> env \<Rightarrow> budget_alerter \<Rightarrow> bool \<Rightarrow> project \<Rightarrow> gostring list \<Rightarrow> gostring \<Rightarrow> gostring \<Rightarrow> f64
    \<Rightarrow> 's world \<Rightarrow> bool \<times> 's world" where
  "alert_overrun so e a dry_run p lines record_id what projected w =
     (let ((cooling, err), w1) = has_recent_alert so e (project_ID p) AlertBudget (budget_cooldown a) w
      in if err = None \<and> cooling then (False, w1)
         else if dry_run then (True, w1)
         else let (send_err, w2) = deliver e None (Custom (''Budget overrun: '' @ pj_name p) lines KindBudget) w1
           in if send_err \<noteq> None then (False, w2)
              else (True, snd (save_alert so e (budget_record record_id p what projected) w2)))"

fun check_budgets :: "'s store_ops \<Rightarrow> env \<Rightarrow> budget_alerter \<Rightarrow> (project \<Rightarrow> gostring) \<Rightarrow> bool \<Rightarrow> (gostring \<Rightarrow> balance_point list) \<Rightarrow> gotime \<Rightarrow> int
    \<Rightarrow> gotime \<Rightarrow> project list \<Rightarrow> nat \<Rightarrow> 's world \<Rightarrow> nat \<times> 's world" where
  "check_budgets so e a currency_of dry_run points m_start m_days now [] sent w = (sent, w)"
| "check_budgets so e a currency_of dry_run points m_start m_days now (p # ps) sent w =
     (let spend = SpendInMonth (points (pj_name p)) m_start now;
          projected = Projected spend (t_day now) m_days
      in if fle projected (pj_monthly_budget p) then
           check_budgets so e a currency_of dry_run points m_start m_days now ps sent w
         else let (ok, w1) = alert_overrun so e a dry_run p
                    (budget_lines currency_of p spend projected (t_day now) m_days) (project_ID p)
                    ''Budget overrun'' projected w
           in check_budgets so e a currency_of dry_run points m_start m_days now ps
                (if ok then sent + 1 else sent) w1)"

definition budget_check :: "'s store_ops \<Rightarrow> 's history_ops \<Rightarrow> env \<Rightarrow> budget_alerter \<Rightarrow> project list \<Rightarrow> (project \<Rightarrow> gostring) \<Rightarrow> bool
    \<Rightarrow> 's world \<Rightarrow> nat \<times> 's world" where
  "budget_check so ho e a projects currency_of dry_run w =
     (if candidates projects = [] \<or> \<not> ba_store a then (0, w)
      else let (t, w1) = read_clock e w;
               now = \<lparr>t_ns = t, t_zone = en_local e\<rparr>;
               (m_start, m_days) = MonthWindow now;
               ((series, err), w2) = balance_series ho e (m_days + 1) w1
           in if err \<noteq> None then (0, w2)
              else check_budgets so e a currency_of dry_run (by_name series (\<lambda>_. [])) m_start m_days now
                     (candidates projects) 0 w2)"

text \<open>Reported usage, summed by project; projects with balance snapshots are dropped.\<close>

fun usage_by_name :: "usage_spend list \<Rightarrow> amounts \<Rightarrow> amounts" where
  "usage_by_name [] m = m"
| "usage_by_name (u # us) m = usage_by_name us (m(us_project u \<mapsto> fadd (amount_on m (us_project u)) (us_cost u)))"

definition without_balanced :: "balance_point list \<Rightarrow> amounts \<Rightarrow> amounts" where
  "without_balanced balanced m = foldl (\<lambda>m p. m(bp_project_name p := None)) m balanced"

fun check_usages :: "'s store_ops \<Rightarrow> env \<Rightarrow> budget_alerter \<Rightarrow> (project \<Rightarrow> gostring) \<Rightarrow> bool \<Rightarrow> amounts \<Rightarrow> int
    \<Rightarrow> gotime \<Rightarrow> project list \<Rightarrow> nat \<Rightarrow> 's world \<Rightarrow> nat \<times> 's world" where
  "check_usages so e a currency_of dry_run spends m_days now [] sent w = (sent, w)"
| "check_usages so e a currency_of dry_run spends m_days now (p # ps) sent w =
     (case spends (pj_name p) of
        None \<Rightarrow> check_usages so e a currency_of dry_run spends m_days now ps sent w
      | Some spend \<Rightarrow>
          (let projected = Projected spend (t_day now) m_days
           in if feq spend (Fin 0) \<or> fle projected (pj_monthly_budget p) then
                check_usages so e a currency_of dry_run spends m_days now ps sent w
              else let (ok, w1) = alert_overrun so e a dry_run p (usage_lines currency_of p spend projected)
                         (project_ID p @ ''-usage'') ''Budget overrun (reported usage)'' projected w
                in check_usages so e a currency_of dry_run spends m_days now ps
                     (if ok then sent + 1 else sent) w1))"

definition CheckUsage :: "'s store_ops \<Rightarrow> 's history_ops \<Rightarrow> env \<Rightarrow> budget_alerter \<Rightarrow> project list \<Rightarrow> (project \<Rightarrow> gostring) \<Rightarrow> bool
    \<Rightarrow> 's world \<Rightarrow> nat \<times> 's world" where
  "CheckUsage so ho e a projects currency_of dry_run w =
     (if candidates projects = [] then (0, w)
      else let (t, w1) = read_clock e w;
               (usage, err) = ho_ListUsageSpend ho (take 8 (fmt_date \<lparr>t_ns = t, t_zone = en_local e\<rparr>) @ ''01'') (wd_store w1)
           in if err \<noteq> None then (0, w1)
              else let ((balanced, _), w2) = balance_series ho e 1 w1;
                       spends = without_balanced balanced (usage_by_name usage (\<lambda>_. None));
                       (t', w3) = read_clock e w2;
                       now = \<lparr>t_ns = t', t_zone = en_local e\<rparr>
                   in check_usages so e a currency_of dry_run spends (snd (MonthWindow now)) now (candidates projects) 0 w3)"

section \<open>Lemmas\<close>

lemma mset_sink [simp]: "mset (sink x ys) = add_mset x (mset ys)"
  by (induction ys) auto

lemma mset_sortStrings [simp]: "mset (sortStrings s) = mset s"
proof -
  have "mset (foldl (\<lambda>d x. sink x d) d s) = mset d + mset s" for d
    by (induction s arbitrary: d) auto
  then show ?thesis by (simp add: sortStrings_def)
qed

abbreviation falling :: "gostring list \<Rightarrow> bool" where
  "falling \<equiv> sorted_wrt (\<lambda>a b. \<not> string_less a b)"

lemma set_sink [simp]: "set (sink x ys) = insert x (set ys)"
  by (metis mset_sink set_mset_add_mset_insert set_mset_mset)

lemma falling_sink: "falling ys \<Longrightarrow> falling (sink x ys)"
proof (induction ys)
  case (Cons y ys)
  show ?case
  proof (cases "string_less x y")
    case True
    then show ?thesis using Cons string_less_asym [of x y] by auto
  next
    case False
    have "\<not> string_less x z" if "z \<in> set ys" for z
      using False Cons.prems that strict_weak_trans [OF strict_weak_string_less, of x y z]
      by (auto simp: strict_weak_def)
         (metis string_less_linear string_less_trans)
    with False Cons.prems show ?thesis by auto
  qed
qed simp

lemma rising_sortStrings: "sorted_wrt (\<lambda>a b. \<not> string_less b a) (sortStrings s)"
proof -
  have "falling (foldl (\<lambda>d x. sink x d) d s)" if "falling d" for d
    using that by (induction s arbitrary: d) (auto simp: falling_sink)
  from this [of "[]"] show ?thesis by (simp add: sortStrings_def sorted_wrt_rev)
qed

lemma by_name_filter: "by_name ps m n = m n @ filter (\<lambda>p. bp_project_name p = n) ps"
  by (induction ps arbitrary: m) auto

subsection \<open>Spend against the profile of the same points\<close>

definition to_point :: "zone \<Rightarrow> balance_point \<Rightarrow> point" where
  "to_point z p = \<lparr>pt_at = unix_time (bp_timestamp p) z, pt_balance = bp_balance p\<rparr>"

lemma to_point_sel [simp]: "pt_balance (to_point z p) = bp_balance p"
  by (simp add: to_point_def)

definition inside :: "gotime \<Rightarrow> gotime \<Rightarrow> balance_point \<Rightarrow> bool" where
  "inside m_start now p \<longleftrightarrow> t_ns m_start \<le> bp_timestamp p * second \<and> bp_timestamp p * second < t_ns now + second"

lemma spend_loop_flows:
  assumes "\<forall>p \<in> set ps. inside m_start now p"
  shows "spend_loop ps m_start now (Some q) c = fst (flows (map (to_point z) (q # ps)) c t m)"
  using assms
proof (induction ps arbitrary: q c t m)
  case (Cons p ps)
  have i: "\<not> t_before (unix_time (bp_timestamp p) (t_zone now)) m_start"
    "t_before (unix_time (bp_timestamp p) (t_zone now)) (t_add now second)"
    using Cons.prems by (auto simp: inside_def t_before_def unix_time_def t_add_def)
  have IH: "spend_loop ps m_start now (Some p) c' = fst (flows (map (to_point z) (p # ps)) c' t' m')" for c' t' m'
    using Cons.prems by (intro Cons.IH) auto
  show ?case
    using IH i by (simp add: Let_def del: fsub_Fin)
qed simp

text \<open>Over snapshots that all lie in the month, the month's spend is what the spending profile
  counts as consumed: the two packages read a balance history the same way.\<close>
lemma SpendInMonth_flows:
  assumes "\<forall>p \<in> set ps. inside m_start now p"
  shows "SpendInMonth ps m_start now = fst (flows (map (to_point z) ps) (Fin 0) (Fin 0) (\<lambda>_. None))"
proof (cases ps)
  case (Cons p ps')
  then show ?thesis using assms spend_loop_flows [of ps' m_start now p "Fin 0" z "Fin 0" "\<lambda>_. None"]
    by (simp add: SpendInMonth_def Let_def)
qed (simp add: SpendInMonth_def)

definition snap :: "gostring \<Rightarrow> int \<Rightarrow> int \<Rightarrow> balance_point" where
  "snap name t b = \<lparr>bp_project_id = name, bp_project_name = name, bp_provider = ''x'', bp_balance_type = TypeBalance,
     bp_balance = whole b, bp_threshold = None, bp_need_alarm = False, bp_timestamp = t\<rparr>"

lemma SpendInMonth_flows_witness:
  "SpendInMonth [snap ''p'' 10 100, snap ''p'' 20 70, snap ''p'' 30 90, snap ''p'' 40 85] (unix_time 0 utc_zone) (unix_time 50 utc_zone)
     = Fin 35"
proof -
  let ?ps = "[snap ''p'' 10 100, snap ''p'' 20 70, snap ''p'' 30 90, snap ''p'' 40 85]"
  have "\<forall>p \<in> set ?ps. inside (unix_time 0 utc_zone) (unix_time 50 utc_zone) p"
    by (simp add: inside_def snap_def unix_time_def second_def)
  from SpendInMonth_flows [OF this, of utc_zone] show ?thesis
    by (simp add: to_point_def snap_def whole_def Let_def)
qed

subsection \<open>The summary\<close>

text \<open>The converted amounts, in the order of the projects.\<close>

lemma build_projects_result:
  "build_projects points currency_of fx m_start m_days now ps entries tot unknown = (entries', tot', unknown') \<Longrightarrow>
   distinct unknown \<Longrightarrow>
   map sp_project entries' = map sp_project entries @ map pj_name ps
   \<and> distinct unknown' \<and> set unknown' = set unknown \<union> {c. c \<noteq> [] \<and> fx c = None \<and> c \<in> currency_of ` set ps}"
proof (induction ps arbitrary: entries tot unknown)
  case (Cons p ps)
  have n: "sp_project (spend_entry c s d m p) = pj_name p" for c s d m by (simp add: spend_entry_def Let_def)
  from Cons show ?case
    by (cases "currency_of p = []"; cases "fx (currency_of p)")
       (fastforce simp: Let_def n)+
qed auto

text \<open>The summary has one entry per project in their order, and names every currency without a
  rate exactly once, in order.\<close>
lemma Build_summary:
  "map sp_project (sm_projects (Build points projects currency_of fx base now)) = map pj_name projects
   \<and> distinct (sm_unknown_fx (Build points projects currency_of fx base now))
   \<and> sorted_wrt (\<lambda>a b. \<not> string_less b a) (sm_unknown_fx (Build points projects currency_of fx base now))
   \<and> set (sm_unknown_fx (Build points projects currency_of fx base now))
       = {c. c \<noteq> [] \<and> fx c = None \<and> c \<in> currency_of ` set projects}"
proof -
  obtain m_start m_days where mw: "MonthWindow now = (m_start, m_days)" by (cases "MonthWindow now")
  obtain es tot un where b: "build_projects (by_name points (\<lambda>_. [])) currency_of fx m_start m_days now projects [] (Fin 0) [] = (es, tot, un)"
    by (metis prod_cases3)
  have s: "distinct (sortStrings un) \<longleftrightarrow> distinct un" "set (sortStrings un) = set un"
    by (metis mset_sortStrings mset_eq_imp_distinct_iff) (metis mset_sortStrings set_mset_mset)
  from build_projects_result [OF b] show ?thesis
    by (simp add: Build_def mw b s rising_sortStrings)
qed

section \<open>Budget alerts and their cooldown\<close>

lemma alert_overrun_eq:
  "alert_overrun so e a dry p lines i what v w =
     (let r = has_recent_alert so e (project_ID p) AlertBudget (budget_cooldown a) w;
          d = deliver e None (Custom (''Budget overrun: '' @ pj_name p) lines KindBudget) (snd r)
      in if snd (fst r) = None \<and> fst (fst r) then (False, snd r)
         else if dry then (True, snd r)
         else if fst d \<noteq> None then (False, snd d)
         else (True, snd (save_alert so e (budget_record i p what v) (snd d))))"
  unfolding alert_overrun_def Let_def case_prod_beta by simp

lemma budget_record_sel [simp]: "ar_id (budget_record i p what v) = i" "ar_type (budget_record i p what v) = AlertBudget"
  "ar_status (budget_record i p what v) = ''sent''"
  by (simp_all add: budget_record_def)

text \<open>At most one record is saved, under the given identity.\<close>

lemma alert_overrun_saves:
  assumes "alert_overrun so e a dry p lines i what v w = (b, w')"
  shows "(wd_store w' = wd_store w \<and> wd_reads w \<le> wd_reads w')
    \<or> (b \<and> wd_reads w' = wd_reads w + 2
        \<and> wd_store w' = snd (so_SaveAlert so (en_clock e (wd_reads w + 1)) (budget_record i p what v) (wd_store w)))"
  using assms unfolding alert_overrun_eq Let_def by (auto split: if_split_asm)

lemma alert_overrun_run:
  assumes "alert_overrun so e a dry p lines i what v w = (b, w')"
  shows "log_run so e w w'"
  using alert_overrun_saves [OF assms]
  by (auto intro: quiet saved [OF log_run_refl, where k = "wd_reads w + 1"])

lemma md5_hex_no_dash: "CHR ''-'' \<notin> set (md5_hex s)"
proof
  assume "CHR ''-'' \<in> set (md5_hex s)"
  then obtain n where "n < 16" "CHR ''-'' = hex_digit n" using hex_encode_chars unfolding md5_hex_def by blast
  then have "(48 \<le> byte (CHR ''-'') \<and> byte (CHR ''-'') \<le> 57) \<or> (97 \<le> byte (CHR ''-'') \<and> byte (CHR ''-'') \<le> 102)"
    using hex_digit_hex by simp
  then show False by (simp add: byte_def)
qed

lemma project_ID_no_dash: "CHR ''-'' \<notin> set (project_ID p)"
  by (simp add: project_ID_def project_id_def md5_hex_no_dash)

lemma usage_id_differs: "project_ID p @ ''-usage'' \<noteq> project_ID q"
proof
  assume "project_ID p @ ''-usage'' = project_ID q"
  then have "set (project_ID q) = set (project_ID p @ ''-usage'')" by simp
  with project_ID_no_dash [of q] show False by simp
qed

lemma check_usages_run: "check_usages so e a cur dry m md now ps n w = (n', w') \<Longrightarrow> log_run so e w w'"
proof (induction ps arbitrary: n w)
  case (Cons p ps)
  show ?case
  proof (cases "m (pj_name p)")
    case None
    with Cons show ?thesis by simp
  next
    case (Some spend)
    let ?pr = "Projected spend (t_day now) md"
    obtain b w1 where o: "alert_overrun so e a dry p (usage_lines cur p spend ?pr) (project_ID p @ ''-usage'')
        ''Budget overrun (reported usage)'' ?pr w = (b, w1)" by fastforce
    show ?thesis
    proof (cases "feq spend (Fin 0) \<or> fle ?pr (pj_monthly_budget p)")
      case True
      with Cons Some show ?thesis by (simp add: Let_def)
    next
      case False
      then have "check_usages so e a cur dry m md now ps (if b then n + 1 else n) w1 = (n', w')"
        using Cons.prems Some o by (simp add: Let_def)
      from log_run_trans [OF Cons.IH [OF this] alert_overrun_run [OF o]] show ?thesis .
    qed
  qed
qed simp

context alert_log
begin

lemma overrun_other_id:
  assumes "alert_overrun so e a dry p lines i what v w = (b, w')" "i \<noteq> j" "mono (en_clock e)"
    and "en_clock e (wd_reads w') \<le> now" "cool \<le> keep"
  shows "fst (so_HasRecentAlert so now j ty cool (wd_store w')) = fst (so_HasRecentAlert so now j ty cool (wd_store w))"
proof -
  have "en_clock e (wd_reads w + 1) \<le> now" if "wd_reads w' = wd_reads w + 2"
    using clock_le [OF assms(3), of "wd_reads w + 1" "wd_reads w'"] assms(4) that by simp
  then show ?thesis using alert_overrun_saves [OF assms(1)] assms(2,5) recent_other [of "budget_record i p what v" j ty cool] by auto
qed

lemma check_usages_keep_cooldowns:
  assumes "check_usages so e a cur dry m md now ps n w = (n', w')" "mono (en_clock e)"
    and "en_clock e (wd_reads w') \<le> t" "cool \<le> keep"
  shows "fst (so_HasRecentAlert so t (project_ID q) ty cool (wd_store w'))
    = fst (so_HasRecentAlert so t (project_ID q) ty cool (wd_store w))"
  using assms(1)
proof (induction ps arbitrary: n w)
  case (Cons p ps)
  show ?case
  proof (cases "m (pj_name p)")
    case None
    with Cons show ?thesis by simp
  next
    case (Some spend)
    let ?pr = "Projected spend (t_day now) md"
    obtain b w1 where o: "alert_overrun so e a dry p (usage_lines cur p spend ?pr) (project_ID p @ ''-usage'')
        ''Budget overrun (reported usage)'' ?pr w = (b, w1)" by fastforce
    show ?thesis
    proof (cases "feq spend (Fin 0) \<or> fle ?pr (pj_monthly_budget p)")
      case True
      with Cons Some show ?thesis by (simp add: Let_def)
    next
      case False
      then have c: "check_usages so e a cur dry m md now ps (if b then n + 1 else n) w1 = (n', w')"
        using Cons.prems Some o by (simp add: Let_def)
      have "en_clock e (wd_reads w1) \<le> t"
        using clock_le [OF assms(2) log_run_reads [OF check_usages_run [OF c]]] assms(3) by linarith
      with Cons.IH [OF c] overrun_other_id [OF o usage_id_differs assms(2) _ assms(4)] show ?thesis by simp
    qed
  qed
qed simp

lemma usage_no_cooldown:
  assumes "CheckUsage so ho e a projects cur dry w = (n, w')" "mono (en_clock e)"
    and "en_clock e (wd_reads w') \<le> t" "cool \<le> keep"
  shows "fst (so_HasRecentAlert so t (project_ID q) ty cool (wd_store w'))
    = fst (so_HasRecentAlert so t (project_ID q) ty cool (wd_store w))"
proof -
  consider "wd_store w' = wd_store w"
    | m md now w3 where "check_usages so e a cur dry m md now (candidates projects) 0 w3 = (n, w')" "wd_store w3 = wd_store w"
    using assms(1)
    by (auto simp: CheckUsage_def Let_def balance_series_def read_clock_def split: if_split_asm prod.split_asm)
  then show ?thesis
  proof cases
    case 2
    with check_usages_keep_cooldowns [OF 2(1) assms(2-4)] show ?thesis by simp
  qed simp
qed

end

text \<open>The alert about reported usage is recorded under another identity than its cooldown is
  looked up with, so a usage check never starts a cooldown: whatever it sent, the next check is
  answered as if nothing had been.\<close>
lemma usage_alert_never_cools:
  assumes "CheckUsage volatile_ops ho e a projects cur dry w = (n, w')" "mono (en_clock e)"
    and "en_clock e (wd_reads w') \<le> t" "budget_cooldown a \<le> volatileRetention"
  shows "fst (so_HasRecentAlert volatile_ops t (project_ID q) AlertBudget (budget_cooldown a) (wd_store w'))
    = fst (so_HasRecentAlert volatile_ops t (project_ID q) AlertBudget (budget_cooldown a) (wd_store w))"
  using assms by (rule volatile.usage_no_cooldown)

definition demo_usage :: "volatileStore history_ops" where
  "demo_usage = \<lparr>ho_BalanceSeries = (\<lambda>_ _ _. ([], None)),
     ho_ListUsageSpend = (\<lambda>_ _. ([\<lparr>us_project = ''P'', us_source = [], us_currency = [], us_cost = Fin 90\<rparr>], None))\<rparr>"

definition demo_budget_project :: project where
  "demo_budget_project = \<lparr>pj_name = ''P'', pj_provider = ''usage'', pj_api_key = [], pj_threshold = Fin 0, pj_type = [],
     pj_currency = [], pj_monthly_budget = Fin 50, pj_owner = None, pj_enabled = True, pj_from_env = False\<rparr>"

lemma usage_alert_never_cools_witness:
  "\<exists>n w'. CheckUsage volatile_ops demo_usage quiet_env \<lparr>ba_store = True, ba_cooldown_seconds = 3600\<rparr>
       [demo_budget_project] (\<lambda>_. ''USD'') False (quiet_world Volatile) = (n, w')
     \<and> \<not> fst (so_HasRecentAlert volatile_ops (en_clock quiet_env (wd_reads w')) (project_ID demo_budget_project)
           AlertBudget (budget_cooldown \<lparr>ba_store = True, ba_cooldown_seconds = 3600\<rparr>) (wd_store w'))"
proof -
  let ?a = "\<lparr>ba_store = True, ba_cooldown_seconds = 3600\<rparr> :: budget_alerter"
  obtain n w' where c: "CheckUsage volatile_ops demo_usage quiet_env ?a [demo_budget_project] (\<lambda>_. ''USD'') False
      (quiet_world Volatile) = (n, w')" by fastforce
  have "\<not> fst (so_HasRecentAlert volatile_ops t i ty d (wd_store (quiet_world Volatile)))" for t i ty d
    by (simp add: quiet_world_def Volatile_def vs_HasRecentAlert_def vs_LastSentAlert_def)
  moreover have "budget_cooldown ?a \<le> volatileRetention"
    by (simp add: budget_cooldown_def wrap64_def volatileRetention_def second_def)
  moreover have "mono (en_clock quiet_env)" by (simp add: quiet_env_def mono_def)
  ultimately show ?thesis using usage_alert_never_cools [OF c, of "en_clock quiet_env (wd_reads w')"] c by blast
qed

end
