(* ===== verification/Trend.thy ===== *)
theory Trend
  imports Runway
begin

text \<open>
  Balance trends: the summary and the thinned series of the trend endpoint
  (\<open>BalanceTrend\<close> and \<open>downsampleTrend\<close> in \<open>internal/store/sql.go\<close>) and the bucketed trend of
  the MCP tools (\<open>internal/mcpserver/trend.go\<close>).  The rows a query returns are an input.
\<close>

section \<open>The trend endpoint\<close>

definition defaultTrendDays :: int where "defaultTrendDays = 30"
definition trendPointCap :: nat where "trendPointCap = 600"

record trend_point =
  tp_timestamp :: gostring
  tp_balance :: f64
  tp_need_alarm :: bool

record trend =
  td_project_id :: gostring
  td_project_name :: gostring
  td_days :: int
  td_data_points :: nat
  td_current :: f64
  td_min :: f64
  td_max :: f64
  td_avg :: f64
  td_threshold :: f64
  td_first_timestamp :: gostring
  td_last_timestamp :: gostring
  td_history :: "trend_point list"
  td_change :: "f64 option"
  td_change_percent :: "f64 option"

record balance_row =
  br_name :: gostring
  br_amount :: f64
  br_limit :: "f64 option"
  br_alarm :: bool
  br_time :: int

definition add_point :: "trend_point \<Rightarrow> trend_point list \<Rightarrow> trend_point list" where
  "add_point p out = (if out \<noteq> [] \<and> tp_timestamp (last out) = tp_timestamp p then out else out @ [p])"

definition bucket_end :: "nat \<Rightarrow> nat \<Rightarrow> nat" where
  "bucket_end n i =
     (let buckets = trendPointCap div 2;
          bucket = i * buckets div n;
          fin = ((bucket + 1) * n + buckets - 1) div buckets;
          fin = (if fin \<le> i then i + 1 else fin)
      in if n < fin then n else fin)"

fun extremes :: "trend_point list \<Rightarrow> nat list \<Rightarrow> nat \<Rightarrow> nat \<Rightarrow> nat \<times> nat" where
  "extremes points [] min_idx max_idx = (min_idx, max_idx)"
| "extremes points (j # js) min_idx max_idx =
     (if flt (tp_balance (points ! j)) (tp_balance (points ! min_idx)) then extremes points js j max_idx
      else if flt (tp_balance (points ! max_idx)) (tp_balance (points ! j)) then extremes points js min_idx j
      else extremes points js min_idx max_idx)"

definition thin_bucket :: "trend_point list \<Rightarrow> nat \<Rightarrow> nat \<Rightarrow> trend_point list \<Rightarrow> trend_point list" where
  "thin_bucket points i fin out =
     (if fin \<le> i + 2 then foldl (\<lambda>out j. add_point (points ! j) out) out [i..<fin]
      else let (min_idx, max_idx) = extremes points [i..<fin] i i
           in add_point (points ! max min_idx max_idx) (add_point (points ! min min_idx max_idx) out))"

function thin_from :: "trend_point list \<Rightarrow> nat \<Rightarrow> trend_point list \<Rightarrow> trend_point list" where
  "thin_from points i out =
     (if i < length points
      then let fin = bucket_end (length points) i in thin_from points fin (thin_bucket points i fin out)
      else out)"
  by auto

lemma bucket_end_less: "i < n \<Longrightarrow> i < bucket_end n i"
  by (auto simp: bucket_end_def Let_def)

termination thin_from
  by (relation "measure (\<lambda>(points, i, out). length points - i)") (use bucket_end_less in \<open>auto intro: diff_less_mono2\<close>)

declare thin_from.simps [simp del]

definition downsampleTrend :: "trend_point list \<Rightarrow> trend_point list" where
  "downsampleTrend points =
     (if length points \<le> trendPointCap then points
      else add_point (last points) (thin_from points 1 (add_point (hd points) [])))"

definition BalanceTrend :: "gostring \<Rightarrow> int \<Rightarrow> balance_row list \<Rightarrow> trend option" where
  "BalanceTrend project_id' days rows =
     (case rows of [] \<Rightarrow> None
      | first # _ \<Rightarrow>
         (let final = last rows;
              (lo, hi, s) = foldl (\<lambda>(lo, hi, s) r. (builtin_min lo (br_amount r), builtin_max hi (br_amount r),
                  fadd s (br_amount r))) (br_amount first, br_amount first, Fin 0) rows;
              history = map (\<lambda>r. \<lparr>tp_timestamp = isoUTC (br_time r), tp_balance = br_amount r, tp_need_alarm = br_alarm r\<rparr>) rows;
              change = fsub (br_amount final) (br_amount first);
              percent = (if feq (br_amount first) (Fin 0) then Fin 0
                else fmul (fdiv change (br_amount first)) (Fin 100))
          in Some \<lparr>td_project_id = project_id', td_project_name = br_name first, td_days = daysOf days defaultTrendDays,
               td_data_points = length rows, td_current = br_amount final, td_min = lo, td_max = hi,
               td_avg = fdiv s (f64_of_int (int (length rows))),
               td_threshold = deref_num (br_limit final),
               td_first_timestamp = isoUTC (br_time first), td_last_timestamp = isoUTC (br_time final),
               td_history = downsampleTrend history,
               td_change = (if 2 \<le> length rows then Some change else None),
               td_change_percent = (if 2 \<le> length rows then Some percent else None)\<rparr>))"

section \<open>The MCP trend (\<open>trend.go\<close>)\<close>

definition trendIntervals :: "gostring list" where
  "trendIntervals = [''raw'', ''hour'', ''day'', ''week'']"

record sample =
  sa_at :: gotime
  sa_balance :: f64
  sa_below :: bool

record trend_point_view =
  pv_timestamp :: gostring
  pv_balance :: f64
  pv_min :: f64
  pv_max :: f64
  pv_samples :: nat
  pv_below :: bool

record trend_summary =
  ts_samples :: nat
  ts_first :: f64
  ts_first_at :: gostring
  ts_last :: f64
  ts_last_at :: gostring
  ts_min :: f64
  ts_max :: f64
  ts_average :: f64
  ts_change :: f64
  ts_consumed :: f64
  ts_topped_up :: f64
  ts_top_ups :: nat

definition bucketStart :: "gotime \<Rightarrow> gostring \<Rightarrow> zone \<Rightarrow> gotime" where
  "bucketStart t interval loc =
     (let t = in_zone t loc; day = date_time (t_year t) (t_month t) (t_day t) 0 0 0 0 loc
      in if interval = ''hour'' then date_time (t_year t) (t_month t) (t_day t) (t_hour t) 0 0 0 loc
         else if interval = ''week'' then add_date day 0 0 (- ((t_weekday day + 6) mod 7))
         else day)"

definition round6 :: "f64 \<Rightarrow> f64" where
  "round6 v = fdiv (math_round (fmul v (Fin 1000000))) (Fin 1000000)"

fun bucket_loop :: "sample list \<Rightarrow> gostring \<Rightarrow> zone \<Rightarrow> gotime \<Rightarrow> trend_point_view list \<Rightarrow> trend_point_view list" where
  "bucket_loop [] interval loc start points = points"
| "bucket_loop (s # ss) interval loc start points =
     (let b = round6 (sa_balance s);
          at_time = bucketStart (sa_at s) interval loc;
          fresh = (points = [] \<or> \<not> t_equal at_time start);
          start' = (if fresh then at_time else start);
          points' = (if fresh then points @ [\<lparr>pv_timestamp = fmt_rfc3339 at_time, pv_balance = Fin 0, pv_min = b, pv_max = b,
                       pv_samples = 0, pv_below = False\<rparr>] else points);
          p = last points';
          p' = p\<lparr>pv_balance := b, pv_below := sa_below s, pv_min := builtin_min (pv_min p) b,
                 pv_max := builtin_max (pv_max p) b, pv_samples := pv_samples p + 1\<rparr>
      in bucket_loop ss interval loc start' (butlast points' @ [p']))"

definition bucket :: "sample list \<Rightarrow> gostring \<Rightarrow> zone \<Rightarrow> trend_point_view list" where
  "bucket samples interval loc =
     (if interval = ''raw'' then
        map (\<lambda>s. let b = round6 (sa_balance s) in \<lparr>pv_timestamp = fmt_rfc3339nano (t_utc (sa_at s)), pv_balance = b,
          pv_min = b, pv_max = b, pv_samples = 1, pv_below = sa_below s\<rparr>) samples
      else bucket_loop samples interval loc zero_time [])"

fun summarize_moves :: "sample list \<Rightarrow> trend_summary \<Rightarrow> trend_summary" where
  "summarize_moves (p # q # ps) s =
     (let delta = fsub (sa_balance q) (sa_balance p);
          s' = (if flt delta (Fin 0) then s\<lparr>ts_consumed := fsub (ts_consumed s) delta\<rparr>
                else if flt (Fin 0) delta then s\<lparr>ts_topped_up := fadd (ts_topped_up s) delta, ts_top_ups := ts_top_ups s + 1\<rparr>
                else s)
      in summarize_moves (q # ps) s')"
| "summarize_moves ps s = s"

definition empty_summary :: "trend_summary" where
  "empty_summary = \<lparr>ts_samples = 0, ts_first = Fin 0, ts_first_at = [], ts_last = Fin 0, ts_last_at = [], ts_min = Fin 0,
     ts_max = Fin 0, ts_average = Fin 0, ts_change = Fin 0, ts_consumed = Fin 0, ts_topped_up = Fin 0, ts_top_ups = 0\<rparr>"

definition summarize :: "sample list \<Rightarrow> trend_summary" where
  "summarize samples =
     (case samples of [] \<Rightarrow> empty_summary
      | first # _ \<Rightarrow>
         (let final = last samples;
              s0 = empty_summary\<lparr>ts_samples := length samples\<rparr>;
              (lo, hi, total') = foldl (\<lambda>(lo, hi, s) p. (builtin_min lo (sa_balance p), builtin_max hi (sa_balance p),
                 fadd s (sa_balance p))) (sa_balance first, sa_balance first, Fin 0) samples;
              s1 = summarize_moves samples s0
          in s1\<lparr>ts_first := round6 (sa_balance first), ts_first_at := fmt_rfc3339nano (t_utc (sa_at first)),
                ts_last := round6 (sa_balance final), ts_last_at := fmt_rfc3339nano (t_utc (sa_at final)),
                ts_min := round6 lo, ts_max := round6 hi,
                ts_average := round6 (fdiv total' (f64_of_int (int (length samples)))),
                ts_change := round6 (fsub (sa_balance final) (sa_balance first)),
                ts_consumed := round6 (ts_consumed s1), ts_topped_up := round6 (ts_topped_up s1)\<rparr>))"

section \<open>What thinning keeps\<close>

lemma bucket_end_le: "bucket_end n i \<le> n"
  by (simp add: bucket_end_def Let_def)

text \<open>Every bucket ends in a later 300th of the series than it starts in.\<close>

lemma bucket_end_next:
  assumes "i < n"
  shows "i * 300 div n + 1 \<le> bucket_end n i * 300 div n"
proof -
  define b where "b = i * 300 div n"
  have n: "0 < n" using assms by simp
  have b: "b < 300" unfolding b_def using assms n by (simp add: div_less_iff_less_mult)
  define f where "f = ((b + 1) * n + 299) div 300"
  have "f * 300 + ((b + 1) * n + 299) mod 300 = (b + 1) * n + 299" unfolding f_def by (rule div_mult_mod_eq)
  moreover have "((b + 1) * n + 299) mod 300 < 300" by simp
  ultimately have f: "(b + 1) * n \<le> f * 300" by linarith
  have e: "bucket_end n i = n \<or> f \<le> bucket_end n i"
    by (auto simp: bucket_end_def Let_def trendPointCap_def b_def [symmetric] f_def)
  have "(b + 1) * n \<le> bucket_end n i * 300"
  proof (cases "f \<le> bucket_end n i")
    case True
    then show ?thesis using f by linarith
  next
    case False
    have "(b + 1) * n \<le> 300 * n" using b by (intro mult_right_mono) auto
    with False e show ?thesis by (simp add: ac_simps)
  qed
  then show ?thesis using n by (simp add: less_eq_div_iff_mult_less_eq b_def)
qed

text \<open>On a series whose times are all different, adding a point by its index appends the index
  unless it was the last.\<close>

definition picks :: "trend_point list \<Rightarrow> nat list \<Rightarrow> trend_point list" where
  "picks points ks = map ((!) points) ks"

definition rising_below :: "nat list \<Rightarrow> nat \<Rightarrow> bool" where
  "rising_below ks n \<longleftrightarrow> ks \<noteq> [] \<and> sorted_wrt (<) ks \<and> last ks < n"

lemma rising_below_last: "rising_below ks n \<Longrightarrow> k \<in> set ks \<Longrightarrow> k \<le> last ks"
  unfolding rising_below_def by (induction ks) (auto simp: order_less_imp_le)

definition add_index :: "nat \<Rightarrow> nat list \<Rightarrow> nat list" where
  "add_index k ks = (if last ks = k then ks else ks @ [k])"

lemma add_index_in: "ks \<noteq> [] \<Longrightarrow> k \<in> set (add_index k ks)"
  by (auto simp: add_index_def)

lemma rising_below_ne: "rising_below ks n \<Longrightarrow> ks \<noteq> []"
  by (simp add: rising_below_def)

lemma add_point_picks:
  assumes "distinct (map tp_timestamp points)" "rising_below ks (length points)" "last ks \<le> k" "k < length points"
  shows "add_point (points ! k) (picks points ks) = picks points (add_index k ks)
    \<and> rising_below (add_index k ks) (length points) \<and> last (add_index k ks) = k
    \<and> set ks \<subseteq> set (add_index k ks) \<and> hd (add_index k ks) = hd ks \<and> length (add_index k ks) \<le> length ks + 1"
proof -
  have ne: "ks \<noteq> []" "last ks < length points" using assms(2) by (auto simp: rising_below_def)
  have "tp_timestamp (points ! last ks) = tp_timestamp (points ! k) \<longleftrightarrow> last ks = k"
    using assms(1,4) ne by (metis distinct_conv_nth length_map nth_map)
  moreover have "\<forall>j \<in> set ks. j \<le> last ks" using rising_below_last [OF assms(2)] by blast
  ultimately show ?thesis using assms ne
    by (auto simp: add_point_def picks_def add_index_def last_map rising_below_def sorted_wrt_append)
qed

definition covers :: "trend_point list \<Rightarrow> nat list \<Rightarrow> nat \<Rightarrow> bool" where
  "covers points ks j \<longleftrightarrow> (\<exists>k \<in> set ks. fle (tp_balance (points ! k)) (tp_balance (points ! j)))
     \<and> (\<exists>k \<in> set ks. fle (tp_balance (points ! j)) (tp_balance (points ! k)))"

lemma covers_mono: "covers points ks j \<Longrightarrow> set ks \<subseteq> set ks' \<Longrightarrow> covers points ks' j"
  unfolding covers_def by blast

abbreviation numbers :: "trend_point list \<Rightarrow> bool" where
  "numbers points \<equiv> \<forall>j < length points. tp_balance (points ! j) \<noteq> NaN"

lemma covers_self: "numbers points \<Longrightarrow> j < length points \<Longrightarrow> j \<in> set ks \<Longrightarrow> covers points ks j"
  unfolding covers_def using fle_refl by blast

lemma extremes_bounds:
  assumes "extremes points js m M = (a, b)" "numbers points" "m < length points" "M < length points"
    "\<forall>j \<in> set js. j < length points" "fle (tp_balance (points ! m)) (tp_balance (points ! M))"
  shows "a \<in> insert m (set js) \<and> b \<in> insert M (set js)
    \<and> (\<forall>j \<in> insert m (insert M (set js)). fle (tp_balance (points ! a)) (tp_balance (points ! j))
         \<and> fle (tp_balance (points ! j)) (tp_balance (points ! b)))"
  using assms
proof (induction points js m M rule: extremes.induct)
  case (1 points m M)
  then show ?case using fle_refl by auto
next
  case (2 points j js m M)
  let ?v = "\<lambda>k. tp_balance (points ! k)"
  have nn: "?v j \<noteq> NaN" "?v m \<noteq> NaN" "?v M \<noteq> NaN" using "2.prems" by auto
  consider "flt (?v j) (?v m)" | "\<not> flt (?v j) (?v m)" "flt (?v M) (?v j)" | "\<not> flt (?v j) (?v m)" "\<not> flt (?v M) (?v j)" by blast
  then show ?case
  proof cases
    case 1
    then have le: "fle (?v j) (?v m)" "fle (?v j) (?v M)" using flt_le fle_trans "2.prems"(6) by blast+
    from 1 "2.IH"(1) [OF 1] "2.prems" le show ?thesis by (auto intro: fle_trans)
  next
    case 2
    then have le: "fle (?v M) (?v j)" "fle (?v m) (?v j)" using flt_le fle_trans "2.prems"(6) by blast+
    from 2 "2.IH"(2) [OF 2] "2.prems" le show ?thesis by (auto intro: fle_trans)
  next
    case 3
    then have le: "fle (?v m) (?v j)" "fle (?v j) (?v M)" using not_flt nn by blast+
    from 3 "2.IH"(3) [OF 3] "2.prems" le show ?thesis by (auto intro: fle_trans)
  qed
qed

text \<open>One bucket: at most two points more, and the bucket's lowest and highest are among them.\<close>

lemma thin_bucket_picks:
  assumes "distinct (map tp_timestamp points)" "numbers points" "rising_below ks (length points)" "last ks < i"
    and "i < fin" "fin \<le> length points"
  shows "\<exists>ks'. thin_bucket points i fin (picks points ks) = picks points ks' \<and> rising_below ks' (length points)
    \<and> last ks' < fin \<and> set ks \<subseteq> set ks' \<and> hd ks' = hd ks \<and> length ks' \<le> length ks + 2
    \<and> (\<forall>j \<in> {i..<fin}. covers points ks' j)"
proof (cases "fin \<le> i + 2")
  case True
  note a1 = add_point_picks [OF assms(1,3), of i]
  show ?thesis
  proof (cases "fin = i + 1")
    case True
    then show ?thesis using a1 assms add_index_in [OF rising_below_ne [OF assms(3)], of i]
      by (intro exI [of _ "add_index i ks"]) (auto simp: thin_bucket_def intro!: covers_self)
  next
    case False
    then have f: "fin = Suc (Suc i)" using True assms(5) by simp
    let ?k1 = "add_index i ks"
    have k1: "rising_below ?k1 (length points)" "last ?k1 = i" using a1 assms by auto
    have d: "{i..<fin} = {i, Suc i}" using f by auto
    have "i \<in> set ?k1" "Suc i \<in> set (add_index (Suc i) ?k1)"
      by (rule add_index_in [OF rising_below_ne] assms(3) k1(1))+
    then show ?thesis using a1 k1 f add_point_picks [OF assms(1) k1(1), of "Suc i"] assms d
      by (intro exI [of _ "add_index (Suc i) ?k1"]) (auto simp: thin_bucket_def intro!: covers_self)
  qed
next
  case False
  obtain a b where e: "extremes points [i..<fin] i i = (a, b)" by (cases "extremes points [i..<fin] i i")
  have bounds: "a \<in> {i..<fin}" "b \<in> {i..<fin}" "\<forall>j \<in> {i..<fin}. fle (tp_balance (points ! a)) (tp_balance (points ! j))
      \<and> fle (tp_balance (points ! j)) (tp_balance (points ! b))"
    using extremes_bounds [OF e assms(2)] assms(2,5,6) fle_refl by auto
  let ?k1 = "add_index (min a b) ks" and ?k2 = "add_index (max a b) (add_index (min a b) ks)"
  have ml: "min a b < length points" "max a b < length points" "last ks \<le> min a b" "min a b \<le> max a b"
    using bounds assms(4,6) by auto
  have 1: "add_point (points ! min a b) (picks points ks) = picks points ?k1" "rising_below ?k1 (length points)"
      "last ?k1 = min a b" "set ks \<subseteq> set ?k1" "hd ?k1 = hd ks" "length ?k1 \<le> length ks + 1"
    using add_point_picks [OF assms(1,3) ml(3,1)] by auto
  have 2: "add_point (points ! max a b) (picks points ?k1) = picks points ?k2" "rising_below ?k2 (length points)"
      "last ?k2 = max a b" "set ?k1 \<subseteq> set ?k2" "hd ?k2 = hd ?k1" "length ?k2 \<le> length ?k1 + 1"
    using add_point_picks [OF assms(1) 1(2) _ ml(2)] 1(3) ml(4) by auto
  have "min a b \<in> set ?k1" "max a b \<in> set ?k2"
    using 1(2,3) 2(2,3) last_in_set unfolding rising_below_def by metis+
  then have ab: "a \<in> set ?k2" "b \<in> set ?k2" using 2(4) by (auto simp: min_def max_def split: if_splits)
  have "\<forall>j \<in> {i..<fin}. covers points ?k2 j" using ab bounds(3) unfolding covers_def by blast
  then show ?thesis using False e 1 2 bounds by (intro exI [of _ ?k2]) (auto simp: thin_bucket_def)
qed

lemma thin_from_picks:
  assumes "distinct (map tp_timestamp points)" "numbers points"
  shows "rising_below ks (length points) \<Longrightarrow> last ks < i \<Longrightarrow> i \<le> length points \<Longrightarrow>
    length ks \<le> 1 + 2 * (i * 300 div length points) \<Longrightarrow> \<forall>j < i. covers points ks j \<Longrightarrow>
    \<exists>ks'. thin_from points i (picks points ks) = picks points ks' \<and> rising_below ks' (length points)
      \<and> hd ks' = hd ks \<and> length ks' \<le> 601 \<and> (\<forall>j < length points. covers points ks' j)"
proof (induction "length points - i" arbitrary: i ks rule: less_induct)
  case less
  let ?n = "length points"
  show ?case
  proof (cases "i < ?n")
    case False
    then have "i = ?n" using less.prems(3) by simp
    moreover have "?n > 0" using less.prems(1) by (auto simp: rising_below_def)
    ultimately show ?thesis using less.prems by (intro exI [of _ ks]) (simp add: thin_from.simps [of points])
  next
    case True
    define fin where "fin = bucket_end ?n i"
    have f: "i < fin" "fin \<le> ?n" unfolding fin_def using bucket_end_less [OF True] bucket_end_le by auto
    from thin_bucket_picks [OF assms less.prems(1,2) f] obtain ks1 where
      ks1: "thin_bucket points i fin (picks points ks) = picks points ks1" "rising_below ks1 ?n" "last ks1 < fin"
        "set ks \<subseteq> set ks1" "hd ks1 = hd ks" "length ks1 \<le> length ks + 2" "\<forall>j \<in> {i..<fin}. covers points ks1 j"
      by blast
    have "length ks1 \<le> 1 + 2 * (fin * 300 div ?n)"
      using bucket_end_next [OF True] less.prems(4) ks1(6) unfolding fin_def [symmetric] by linarith
    moreover have "covers points ks1 j" if "j < fin" for j
      using that ks1(7) covers_mono [OF _ ks1(4)] less.prems(5) by (cases "j < i") auto
    ultimately obtain ks' where "thin_from points fin (picks points ks1) = picks points ks'" "rising_below ks' ?n"
        "hd ks' = hd ks1" "length ks' \<le> 601" "\<forall>j < ?n. covers points ks' j"
      using less.hyps [OF _ ks1(2,3) f(2)] f True by (metis (no_types, lifting) diff_less_mono2)
    then show ?thesis using True ks1
      by (intro exI [of _ ks']) (simp add: thin_from.simps [of points i] fin_def [symmetric] Let_def)
  qed
qed

text \<open>The thinned series is a selection of at most 602 points in their order, with the first and
  the last point and, for every point left out, one at least as low and one at least as high.\<close>
lemma downsampleTrend_keeps:
  assumes "distinct (map tp_timestamp points)" "numbers points" "600 < length points"
  shows "\<exists>ks. downsampleTrend points = map ((!) points) ks \<and> sorted_wrt (<) ks
    \<and> hd ks = 0 \<and> last ks = length points - 1 \<and> length ks \<le> 602
    \<and> (\<forall>p \<in> set points. (\<exists>q \<in> set (downsampleTrend points). fle (tp_balance q) (tp_balance p))
                        \<and> (\<exists>q \<in> set (downsampleTrend points). fle (tp_balance p) (tp_balance q)))"
proof -
  have ne: "points \<noteq> []" using assms(3) by auto
  have s: "add_point (hd points) [] = picks points [0]" using ne by (simp add: add_point_def picks_def hd_conv_nth)
  obtain ks where ks: "thin_from points 1 (picks points [0]) = picks points ks" "rising_below ks (length points)"
      "hd ks = 0" "length ks \<le> 601" "\<forall>j < length points. covers points ks j"
  proof -
    have "covers points [0] 0" using assms(2) ne by (intro covers_self) auto
    with thin_from_picks [OF assms(1,2), of "[0]" 1] assms(3) ne that show thesis
      by (auto simp: rising_below_def)
  qed
  define ks' where "ks' = add_index (length points - 1) ks"
  have a: "add_point (last points) (picks points ks) = picks points ks'" "rising_below ks' (length points)"
      "last ks' = length points - 1" "set ks \<subseteq> set ks'" "hd ks' = 0" "length ks' \<le> 602"
  proof -
    have "last points = points ! (length points - 1)" using ne by (rule last_conv_nth)
    moreover have "last ks \<le> length points - 1" using ks(2) by (auto simp: rising_below_def)
    ultimately show "add_point (last points) (picks points ks) = picks points ks'" "rising_below ks' (length points)"
      "last ks' = length points - 1" "set ks \<subseteq> set ks'" "hd ks' = 0" "length ks' \<le> 602"
      using add_point_picks [OF assms(1) ks(2), of "length points - 1"] ks ne by (simp_all add: ks'_def)
  qed
  have d: "downsampleTrend points = map ((!) points) ks'"
    unfolding downsampleTrend_def s ks(1) a(1) using assms(3) by (simp add: trendPointCap_def picks_def)
  have "covers points ks' j" if "j < length points" for j using covers_mono [OF _ a(4)] ks(5) that by blast
  then show ?thesis using a unfolding d
    by (intro exI [of _ ks']) (fastforce simp: rising_below_def covers_def in_set_conv_nth)
qed

definition demo_series :: "trend_point list" where
  "demo_series = map (\<lambda>n. \<lparr>tp_timestamp = replicate n (CHR ''t''), tp_balance = Fin (of_nat n), tp_need_alarm = False\<rparr>) [0..<700]"

lemma downsampleTrend_keeps_witness:
  "length (downsampleTrend demo_series) \<le> 602"
proof -
  have "distinct (map tp_timestamp demo_series)"
    by (auto simp: demo_series_def distinct_map o_def inj_on_def)
  moreover have "numbers demo_series" "600 < length demo_series" by (simp_all add: demo_series_def)
  ultimately show ?thesis using downsampleTrend_keeps [of demo_series] by auto
qed

end
