(* ===== verification/GoParse.thy ===== *)
theory GoParse
  imports GoTime
begin

text \<open>
  Reading what the standard library printed: times in RFC 3339 layout (\<open>time.Parse\<close>, which takes
  a fraction of a second whether the layout has one or not) and URL-safe base64 without
  padding.  A time is read as an instant in nanoseconds.
\<close>

section \<open>\<open>time.Parse(time.RFC3339, ...)\<close>\<close>

text \<open>\<open>getnum\<close>: two digits, or one when the layout does not fix the width.\<close>

fun getnum :: "bool \<Rightarrow> gostring \<Rightarrow> (int \<times> gostring) option" where
  "getnum fixed (c # d # r) =
     (if \<not> is_digit c then None
      else if is_digit d then Some (int (10 * digit_val c + digit_val d), r)
      else if fixed then None else Some (int (digit_val c), d # r))"
| "getnum fixed [c] = (if is_digit c \<and> \<not> fixed then Some (int (digit_val c), []) else None)"
| "getnum fixed [] = None"

definition expect :: "char \<Rightarrow> gostring \<Rightarrow> gostring option" where
  "expect c s = (case s of [] \<Rightarrow> None | d # r \<Rightarrow> if d = c then Some r else None)"

definition parse_year :: "gostring \<Rightarrow> (int \<times> gostring) option" where
  "parse_year s = (if 4 \<le> length s \<and> list_all is_digit (take 4 s)
     then Some (int (digits_val (take 4 s)), drop 4 s) else None)"

text \<open>A point or a comma and digits; the tenth digit and later ones are dropped.\<close>

definition parse_fraction :: "gostring \<Rightarrow> int \<times> gostring" where
  "parse_fraction s = (case s of
       c # d # r \<Rightarrow> if (c = CHR ''.'' \<or> c = CHR '','') \<and> is_digit d then
         (let ds = takeWhile is_digit (d # r); ns = take 9 ds
          in (int (digits_val ns) * 10 ^ (9 - length ns), dropWhile is_digit (d # r)))
         else (0, s)
     | _ \<Rightarrow> (0, s))"

text \<open>The zone: \<open>Z\<close>, or a sign and hours and minutes; the offset is in seconds.\<close>

definition parse_zone :: "gostring \<Rightarrow> (int \<times> gostring) option" where
  "parse_zone s = (case s of
       [] \<Rightarrow> None
     | c # r \<Rightarrow> if c = CHR ''Z'' then Some (0, r)
         else if length s < 6 \<or> s ! 3 \<noteq> CHR '':'' then None
         else case (getnum True (take 2 r), getnum True (take 2 (drop 4 s))) of
             (Some (h, _), Some (m, _)) \<Rightarrow>
               if 24 < h \<or> 60 < m then None
               else if c = CHR ''+'' then Some ((h * 60 + m) * 60, drop 6 s)
               else if c = CHR ''-'' then Some (- ((h * 60 + m) * 60), drop 6 s)
               else None
           | _ \<Rightarrow> None)"

definition parse_rfc3339 :: "gostring \<Rightarrow> int option" where
  "parse_rfc3339 s =
     Option.bind (parse_year s) (\<lambda>(y, s1).
     Option.bind (expect (CHR ''-'') s1) (\<lambda>s2.
     Option.bind (getnum True s2) (\<lambda>(m, s3).
     if m < 1 \<or> 12 < m then None else
     Option.bind (expect (CHR ''-'') s3) (\<lambda>s4.
     Option.bind (getnum True s4) (\<lambda>(d, s5).
     Option.bind (expect (CHR ''T'') s5) (\<lambda>s6.
     Option.bind (getnum False s6) (\<lambda>(hh, s7).
     if 24 \<le> hh then None else
     Option.bind (expect (CHR '':'') s7) (\<lambda>s8.
     Option.bind (getnum True s8) (\<lambda>(mi, s9).
     if 60 \<le> mi then None else
     Option.bind (expect (CHR '':'') s9) (\<lambda>s10.
     Option.bind (getnum True s10) (\<lambda>(se, s11).
     if 60 \<le> se then None else
     (let (ns, s12) = parse_fraction s11 in
     Option.bind (parse_zone s12) (\<lambda>(off, s13).
     if s13 \<noteq> [] \<or> d < 1 \<or> days_in y m < d then None
     else Some ((day_number y m d * 86400 + hh * 3600 + mi * 60 + se - off) * second + ns))))))))))))))"

section \<open>Printing and reading back\<close>

lemma getnum_pad:
  assumes "0 \<le> n" "n < 100"
  shows "getnum fixed (pad_int 2 n @ r) = Some (n, r)"
proof -
  have "nat n div 10 < 10" "nat n mod 10 < 10" using assms by (simp_all add: less_mult_imp_div_less nat_less_iff)
  moreover have "10 * (nat n div 10) + nat n mod 10 = nat n" by simp
  ultimately show ?thesis using assms by (simp add: pad_int_2)
qed

lemma expect_hit [simp]: "expect c (c # r) = Some r"
  by (simp add: expect_def)

lemma replicate_zero_val: "digits_val (replicate k (CHR ''0'') @ ds) = digits_val ds"
proof (induction k)
  case (Suc k)
  have "digit_val (CHR ''0'') = 0" by (simp add: digit_val_def byte_def)
  then have "digits_val (CHR ''0'' # xs) = digits_val xs" for xs by (simp add: digits_val_def)
  with Suc show ?case by simp
qed simp

lemma nat_digits_length: "n < 10 ^ Suc k \<Longrightarrow> length (nat_digits n) \<le> Suc k"
proof (induction k arbitrary: n)
  case 0
  then show ?case by (subst nat_digits.simps) simp
next
  case (Suc k)
  then have "n div 10 < 10 ^ Suc k" by (simp add: less_mult_imp_div_less)
  from Suc.IH [OF this] show ?case by (subst nat_digits.simps) simp
qed

lemma zero_is_digit: "is_digit (CHR ''0'')"
  by (simp add: is_digit_def byte_def)

text \<open>Padded numbers: as many digits as asked for, and their value.\<close>

lemma pad_int_digits:
  assumes "0 \<le> n" "n < 10 ^ Suc k"
  shows "length (pad_int (Suc k) n) = Suc k" "list_all is_digit (pad_int (Suc k) n)" "digits_val (pad_int (Suc k) n) = nat n"
proof -
  have "nat n < 10 ^ Suc k" using assms by (simp add: nat_less_iff)
  from nat_digits_length [OF this] show "length (pad_int (Suc k) n) = Suc k" using assms by (simp add: pad_int_def Let_def)
  show "list_all is_digit (pad_int (Suc k) n)" "digits_val (pad_int (Suc k) n) = nat n"
    using assms nat_digits_are_digits [of "nat n"] zero_is_digit
    by (auto simp: pad_int_def Let_def replicate_zero_val list_all_iff)
qed

lemma parse_year_fmt:
  assumes "0 \<le> y" "y < 10000"
  shows "parse_year (fmt_year y @ r) = Some (y, r)"
  using assms pad_int_digits [of y 3] by (simp add: parse_year_def fmt_year_def numeral_eq_Suc)

lemma digits_val_zeros: "digits_val (ds @ replicate k (CHR ''0'')) = digits_val ds * 10 ^ k"
proof (induction k)
  case (Suc k)
  have "digit_val (CHR ''0'') = 0" by (simp add: digit_val_def byte_def)
  then show ?case using Suc digits_val_append [of "ds @ replicate k (CHR ''0'')" "CHR ''0''"]
    by (simp add: replicate_append_same [symmetric] del: replicate_Suc)
       (simp add: replicate_append_same)
qed simp

lemma takeWhile_zeros: "takeWhile (\<lambda>c. c = z) ds = replicate (length (takeWhile (\<lambda>c. c = z) ds)) z"
  by (induction ds) auto

lemma parse_fraction_fmt:
  assumes "0 \<le> n" "n < second" "r \<noteq> []" "\<not> is_digit (hd r)" "hd r \<noteq> CHR ''.''" "hd r \<noteq> CHR '',''"
  shows "parse_fraction (fmt_frac 9 n @ r) = (n, r)"
proof (cases "n = 0")
  case True
  then show ?thesis using assms by (cases r; cases "tl r") (auto simp: fmt_frac_def parse_fraction_def)
next
  case False
  define ds where "ds = pad_int 9 n"
  have n9: "n < 10 ^ Suc 8" using assms(2) by (simp add: second_def)
  have p: "length ds = 9" "list_all is_digit ds" "digits_val ds = nat n"
    using pad_int_digits [OF assms(1) n9] by (simp_all add: ds_def)
  define ks where "ks = rev (dropWhile (\<lambda>c. c = CHR ''0'') (rev ds))"
  define z where "z = length (takeWhile (\<lambda>c. c = CHR ''0'') (rev ds))"
  have split: "ds = ks @ replicate z (CHR ''0'')"
  proof -
    have "rev ds = replicate z (CHR ''0'') @ dropWhile (\<lambda>c. c = CHR ''0'') (rev ds)"
      using takeWhile_zeros [of "CHR ''0''" "rev ds"] takeWhile_dropWhile_id [of "\<lambda>c. c = CHR ''0''" "rev ds"]
      unfolding z_def by metis
    then have "rev (rev ds) = rev (replicate z (CHR ''0'') @ dropWhile (\<lambda>c. c = CHR ''0'') (rev ds))" by simp
    then show ?thesis by (simp add: ks_def)
  qed
  have len: "length ks + z = 9" using p(1) split by (metis length_append length_replicate)
  have val: "digits_val ks * 10 ^ z = nat n" using p(3) split by (metis digits_val_zeros)
  have ne: "ks \<noteq> []" using val False assms(1) by (auto simp: digits_val_def)
  have dig: "list_all is_digit ks" using p(2) split by (metis list_all_append)
  obtain d k where kd: "ks = d # k" using ne by (cases ks) auto
  have tw: "takeWhile is_digit (ks @ r) = ks" "dropWhile is_digit (ks @ r) = r"
    using dig assms(3,4) by (cases r; auto simp: list_all_iff takeWhile_append dropWhile_append)+
  have "int (digits_val ks) * 10 ^ (9 - length ks) = n"
  proof -
    have "9 - length ks = z" using len by simp
    moreover have "int (digits_val ks * 10 ^ z) = n" using val assms(1) by simp
    ultimately show ?thesis by simp
  qed
  then show ?thesis using tw dig kd len False
    by (simp add: fmt_frac_def parse_fraction_def ds_def [symmetric] ks_def [symmetric] Let_def)
qed

lemma second_int: "second = 1000000000"
  by (simp add: second_def)

lemma int_div_less: "0 < (k :: int) \<Longrightarrow> n < m * k \<Longrightarrow> n div k < m"
proof -
  assume k: "0 < k" "n < m * k"
  have "n div k * k \<le> n" using div_mult_mod_eq [of n k] pos_mod_sign [OF k(1), of n] by linarith
  then have "n div k * k < m * k" using k(2) by linarith
  then show ?thesis using k(1) by simp
qed

lemma clock_ranges:
  "0 \<le> t_hour t" "t_hour t < 24" "0 \<le> t_minute t" "t_minute t < 60" "0 \<le> t_second t" "t_second t < 60"
proof -
  define x where "x = local_sec t mod 86400"
  have x: "0 \<le> x" "x < 86400" by (simp_all add: x_def)
  have y: "0 \<le> x mod 3600" "x mod 3600 < 3600" by simp_all
  show "0 \<le> t_hour t" "t_hour t < 24" "0 \<le> t_minute t" "t_minute t < 60" "0 \<le> t_second t" "t_second t < 60"
    unfolding t_hour_def t_minute_def t_second_def sec_of_day_def x_def [symmetric]
    using x y by (simp_all add: pos_imp_zdiv_nonneg_iff int_div_less)
qed

lemma date_ranges:
  "1 \<le> t_month t" "t_month t \<le> 12" "1 \<le> t_day t" "t_day t \<le> days_in (t_year t) (t_month t)" "t_day t < 100"
  using day_number_t_civil(2) [of t] days_in_bounds [of "t_month t" "t_year t"] by (auto simp: valid_date_def)

lemma utc_instant:
  assumes "t_zone t = utc_zone"
  shows "(day_number (t_year t) (t_month t) (t_day t) * 86400 + t_hour t * 3600 + t_minute t * 60 + t_second t) * second
     + t_nsec t = t_ns t"
proof -
  have "day_number (t_year t) (t_month t) (t_day t) * 86400 + (t_hour t * 3600 + t_minute t * 60 + t_second t) = local_sec t"
    unfolding day_number_t_civil(1) hms_sec_of_day by (simp add: local_day_def sec_of_day_def)
  also have "\<dots> = t_sec t" using assms by (simp add: local_sec_def utc_zone_def)
  finally show ?thesis by (simp add: t_sec_def t_nsec_def add.assoc)
qed

lemma parse_rfc3339_nano:
  assumes "t_zone t = utc_zone" "0 \<le> t_year t" "t_year t < 10000"
  shows "parse_rfc3339 (fmt_rfc3339nano t) = Some (t_ns t)"
proof -
  have off: "fmt_offset (t_zone t (t_sec t)) = ''Z''" using assms(1) by (simp add: utc_zone_def fmt_offset_def)
  have ns: "0 \<le> t_nsec t" "t_nsec t < second" by (simp_all add: t_nsec_def)
  have fr: "parse_fraction (fmt_frac 9 (t_nsec t) @ ''Z'') = (t_nsec t, ''Z'')"
    by (rule parse_fraction_fmt [OF ns]) (simp_all add: is_digit_def byte_def)
  note c = clock_ranges [of t] and d = date_ranges [of t]
  have g: "getnum f (pad_int 2 (t_hour t) @ r) = Some (t_hour t, r)" "getnum f (pad_int 2 (t_minute t) @ r) = Some (t_minute t, r)"
    "getnum f (pad_int 2 (t_second t) @ r) = Some (t_second t, r)" "getnum f (pad_int 2 (t_month t) @ r) = Some (t_month t, r)"
    "getnum f (pad_int 2 (t_day t) @ r) = Some (t_day t, r)" for f r
    using c d by (auto intro!: getnum_pad)
  have s: "fmt_rfc3339nano t = fmt_year (t_year t) @ CHR ''-'' # (pad_int 2 (t_month t) @ CHR ''-'' # (pad_int 2 (t_day t)
      @ CHR ''T'' # (pad_int 2 (t_hour t) @ CHR '':'' # (pad_int 2 (t_minute t) @ CHR '':'' # (pad_int 2 (t_second t)
      @ (fmt_frac 9 (t_nsec t) @ ''Z''))))))"
    by (simp add: fmt_rfc3339nano_def fmt_date_def fmt_civil_def fmt_clock_def off t_year_def t_month_def t_day_def
        split: prod.split)
  have z: "parse_zone ''Z'' = Some (0, [])" by (simp add: parse_zone_def)
  show ?thesis unfolding s parse_rfc3339_def
    using c d assms utc_instant [OF assms(1)]
    by (simp add: parse_year_fmt g fr z Let_def not_le not_less)
qed

section \<open>Base64\<close>

text \<open>\<open>base64.RawURLEncoding\<close>.  Decoding skips line breaks and ignores the bits left over.\<close>

definition b64_alphabet :: gostring where
  "b64_alphabet = ''ABCDEFGHIJKLMNOPQRSTUVWXYZabcdefghijklmnopqrstuvwxyz0123456789-_''"

definition b64_char :: "nat \<Rightarrow> char" where "b64_char n = b64_alphabet ! n"

definition b64_val :: "char \<Rightarrow> nat option" where
  "b64_val c = (if c \<in> set b64_alphabet then Some (length (takeWhile (\<lambda>d. d \<noteq> c) b64_alphabet)) else None)"

fun b64_groups :: "nat list \<Rightarrow> nat list" where
  "b64_groups [] = []"
| "b64_groups [a] = [a div 4, a mod 4 * 16]"
| "b64_groups [a, b] = [a div 4, a mod 4 * 16 + b div 16, b mod 16 * 4]"
| "b64_groups (a # b # c # r) =
     [a div 4, a mod 4 * 16 + b div 16, b mod 16 * 4 + c div 64, c mod 64] @ b64_groups r"

fun b64_bytes :: "nat list \<Rightarrow> nat list option" where
  "b64_bytes [] = Some []"
| "b64_bytes [x] = None"
| "b64_bytes [x, y] = Some [x * 4 + y div 16]"
| "b64_bytes [x, y, z] = Some [x * 4 + y div 16, y mod 16 * 16 + z div 4]"
| "b64_bytes (x # y # z # w # r) =
     map_option (\<lambda>bs. [x * 4 + y div 16, y mod 16 * 16 + z div 4, z mod 4 * 64 + w] @ bs) (b64_bytes r)"

definition b64_encode :: "gostring \<Rightarrow> gostring" where
  "b64_encode s = map b64_char (b64_groups (map byte s))"

definition b64_decode :: "gostring \<Rightarrow> gostring option" where
  "b64_decode s = (let vs = map b64_val (filter (\<lambda>c. c \<noteq> CHR 0x0A \<and> c \<noteq> CHR 0x0D) s)
     in if None \<in> set vs then None else map_option (map char_of) (b64_bytes (map the vs)))"

lemma takeWhile_nth: "distinct xs \<Longrightarrow> n < length xs \<Longrightarrow> takeWhile (\<lambda>d. d \<noteq> xs ! n) xs = take n xs"
  by (intro takeWhile_eq_take_P_nth) (auto simp: nth_eq_iff_index_eq)

lemma b64_alphabet: "length b64_alphabet = 64" "distinct b64_alphabet"
    "CHR 0x0A \<notin> set b64_alphabet" "CHR 0x0D \<notin> set b64_alphabet"
  by (simp_all add: b64_alphabet_def)

lemma b64_val_char:
  assumes "n < 64"
  shows "b64_val (b64_char n) = Some n" "b64_char n \<noteq> CHR 0x0A" "b64_char n \<noteq> CHR 0x0D"
proof -
  have m: "b64_alphabet ! n \<in> set b64_alphabet" using assms b64_alphabet(1) by simp
  then show "b64_char n \<noteq> CHR 0x0A" "b64_char n \<noteq> CHR 0x0D" using b64_alphabet(3,4) by (auto simp: b64_char_def)
  show "b64_val (b64_char n) = Some n"
    using m assms b64_alphabet(1) takeWhile_nth [OF b64_alphabet(2), of n] by (simp add: b64_val_def b64_char_def)
qed

lemma b64_parts:
  fixes a b :: nat
  assumes "b < 256"
  shows "b div 4 < 64" "b div 16 < 16" "b div 64 < 4" "a mod 4 * 16 + b div 16 < 64" "a mod 16 * 4 + b div 64 < 64"
    "(a mod 4 * 16 + b div 16) div 16 = a mod 4" "(a mod 4 * 16 + b div 16) mod 16 = b div 16"
    "(a mod 16 * 4 + b div 64) div 4 = a mod 16" "(a mod 16 * 4 + b div 64) mod 4 = b div 64"
proof -
  show d: "b div 4 < 64" "b div 16 < 16" "b div 64 < 4" using assms by (simp_all add: less_mult_imp_div_less)
  have m: "a mod 4 < 4" "a mod 16 < 16" by simp_all
  show "a mod 4 * 16 + b div 16 < 64" "a mod 16 * 4 + b div 64 < 64" using d m by linarith+
  show "(a mod 4 * 16 + b div 16) div 16 = a mod 4" "(a mod 4 * 16 + b div 16) mod 16 = b div 16"
    "(a mod 16 * 4 + b div 64) div 4 = a mod 16" "(a mod 16 * 4 + b div 64) mod 4 = b div 64"
    using d by simp_all
qed

lemma b64_low: "(a :: nat) mod 4 * 16 < 64" "a mod 16 * 4 < 64"
proof -
  have "a mod 4 < 4" "a mod 16 < 16" by simp_all
  then show "a mod 4 * 16 < 64" "a mod 16 * 4 < 64" by linarith+
qed

lemma b64_groups_range: "\<forall>b \<in> set bs. b < 256 \<Longrightarrow> v \<in> set (b64_groups bs) \<Longrightarrow> v < 64"
  by (induction bs rule: b64_groups.induct) (auto simp: b64_parts b64_low)

lemma b64_bytes_groups: "\<forall>b \<in> set bs. b < 256 \<Longrightarrow> b64_bytes (b64_groups bs) = Some bs"
  by (induction bs rule: b64_groups.induct) (auto simp: b64_parts mult.commute)

lemma b64_decode_encode [simp]: "b64_decode (b64_encode s) = Some s"
proof -
  let ?g = "b64_groups (map byte s)"
  have bs: "\<forall>b \<in> set (map byte s). b < 256" using byte_less_256 by auto
  have r: "v < 64" if "v \<in> set ?g" for v using b64_groups_range [OF bs that] .
  have f: "filter (\<lambda>c. c \<noteq> CHR 0x0A \<and> c \<noteq> CHR 0x0D) (map b64_char ?g) = map b64_char ?g"
    using r b64_val_char by (simp add: filter_map o_def)
  have v: "map b64_val (map b64_char ?g) = map Some ?g" using r b64_val_char by simp
  have "map char_of (map byte s) = s" by (simp add: byte_def o_def)
  then show ?thesis unfolding b64_decode_def b64_encode_def f v Let_def
    using b64_bytes_groups [OF bs] by (auto simp: o_def)
qed
end
