(* ===== verification/Paging.thy ===== *)
theory Paging
  imports GoParse Store
begin

text \<open>
  \<open>internal/mcpserver/paging.go\<close>: the window of a history request, the cursors that continue it
  and the cutting of one page, newest row first.  A time is its instant in nanoseconds; the
  zero time stands for an open bound, as in the code.
\<close>

section \<open>Windows and positions\<close>

definition historyReadLimit :: int where "historyReadLimit = 1000"

record time_range =
  tr_since :: gostring
  tr_until :: gostring
  tr_days :: int
  tr_cursor :: gostring

record position =
  pos_at :: int
  pos_id :: gostring

record window =
  w_since :: int
  w_until :: int
  w_days :: int
  w_after :: "position option"

definition pos_before :: "position \<Rightarrow> position \<Rightarrow> bool" where
  "pos_before p q = (if pos_at p \<noteq> pos_at q then pos_at q < pos_at p else string_less (pos_id q) (pos_id p))"

definition bounded :: "int \<Rightarrow> int \<Rightarrow> int \<Rightarrow> int \<Rightarrow> int" where
  "bounded val fallback lo hi =
     (if val = 0 then fallback else if val < lo then lo else if hi < val then hi else val)"

text \<open>The error texts.\<close>

definition bound_error :: goerror where
  "bound_error = ''must be an RFC 3339 time or a YYYY-MM-DD date''"

definition order_error :: goerror where "order_error = ''since must be earlier than until''"

definition cursor_error :: goerror where
  "cursor_error = ''cursor is not a next_cursor this tool returned''"

definition parseBound :: "gostring \<Rightarrow> zone \<Rightarrow> bool \<Rightarrow> goerror + int" where
  "parseBound raw0 loc fin = (let raw = trim_space raw0 in
     if raw = [] then Inr zero_ns
     else case parse_rfc3339 raw of Some t \<Rightarrow> Inr t
     | None \<Rightarrow> (case parse_date_in raw loc of None \<Rightarrow> Inl bound_error
         | Some day \<Rightarrow> Inr (t_ns (if fin then add_date day 0 0 1 else day))))"

definition contains :: "window \<Rightarrow> int \<Rightarrow> bool" where
  "contains w t \<longleftrightarrow> (w_since w = zero_ns \<or> w_since w \<le> t) \<and> (w_until w = zero_ns \<or> t < w_until w)"

section \<open>Cursors\<close>

definition encodeCursor :: "position \<Rightarrow> gostring" where
  "encodeCursor p = b64_encode (fmt_rfc3339nano (utc_at (pos_at p)) @ ''|'' @ pos_id p)"

definition decodeCursor :: "gostring \<Rightarrow> goerror + position" where
  "decodeCursor raw = (case b64_decode raw of None \<Rightarrow> Inl cursor_error
     | Some body \<Rightarrow> (case cut body ''|'' of None \<Rightarrow> Inl cursor_error
         | Some (at0, ident) \<Rightarrow> (case parse_rfc3339 at0 of None \<Rightarrow> Inl cursor_error
             | Some t \<Rightarrow> Inr \<lparr>pos_at = t, pos_id = ident\<rparr>)))"

definition reach_days :: "int \<Rightarrow> int \<Rightarrow> int" where
  "reach_days now from = min 365 (max 1
     (f64_to_int64 (math_ceil (fdiv (dur_hours (ns_sub now from)) (f64_of_int 24))) + 1))"

definition parse :: "time_range \<Rightarrow> int \<Rightarrow> zone \<Rightarrow> goerror + window" where
  "parse r now loc = (case parseBound (tr_since r) loc False of Inl e \<Rightarrow> Inl (''since '' @ e)
     | Inr from \<Rightarrow> (case parseBound (tr_until r) loc True of Inl e \<Rightarrow> Inl (''until '' @ e)
     | Inr to \<Rightarrow>
         if from \<noteq> zero_ns \<and> to \<noteq> zero_ns \<and> \<not> from < to then Inl order_error
         else let days = (if from \<noteq> zero_ns then reach_days now from else bounded (tr_days r) 30 1 365) in
           if tr_cursor r = [] then Inr \<lparr>w_since = from, w_until = to, w_days = days, w_after = None\<rparr>
           else (case decodeCursor (tr_cursor r) of Inl e \<Rightarrow> Inl e
             | Inr p \<Rightarrow> Inr \<lparr>w_since = from, w_until = to, w_days = days, w_after = Some p\<rparr>)))"

section \<open>Pages\<close>

record 'a entry =
  e_pos :: position
  e_item :: 'a

definition newEntry :: "gostring \<Rightarrow> gostring \<Rightarrow> 'a \<Rightarrow> 'a entry" where
  "newEntry ts ident x = \<lparr>e_pos = \<lparr>pos_at = (case parse_rfc3339 ts of None \<Rightarrow> zero_ns | Some t \<Rightarrow> t), pos_id = ident\<rparr>, e_item = x\<rparr>"

definition rowID :: "gostring \<Rightarrow> int \<Rightarrow> gostring" where
  "rowID kind n = kind @ '':'' @ pad_int 20 n"

record 'a page =
  pg_items :: "'a list"
  pg_next :: gostring
  pg_truncated :: bool

definition on_page :: "window \<Rightarrow> 'a entry \<Rightarrow> bool" where
  "on_page w e \<longleftrightarrow> contains w (pos_at (e_pos e)) \<and>
     (case w_after w of None \<Rightarrow> True | Some p \<Rightarrow> pos_before p (e_pos e))"

fun page_loop :: "window \<Rightarrow> int \<Rightarrow> bool \<Rightarrow> 'a entry list \<Rightarrow> 'a list \<Rightarrow> position \<Rightarrow> 'a page" where
  "page_loop w limit capped [] items prev = \<lparr>pg_items = items, pg_next = [], pg_truncated = capped\<rparr>"
| "page_loop w limit capped (e # es) items prev =
     (if \<not> on_page w e then page_loop w limit capped es items prev
      else if int (length items) = limit
        then \<lparr>pg_items = items, pg_next = encodeCursor prev, pg_truncated = False\<rparr>
      else page_loop w limit capped es (items @ [e_item e]) (e_pos e))"

definition entry_before :: "'a entry \<Rightarrow> 'a entry \<Rightarrow> bool" where
  "entry_before a b = pos_before (e_pos a) (e_pos b)"

definition paginate :: "'a entry list \<Rightarrow> window \<Rightarrow> int \<Rightarrow> bool \<Rightarrow> 'a page" where
  "paginate entries w limit capped =
     page_loop w limit capped (sort_by entry_before entries) [] \<lparr>pos_at = zero_ns, pos_id = []\<rparr>"

text \<open>A client that follows the cursors: the pages it sees, each asked for with the cursor of
  the one before.\<close>

fun walk :: "nat \<Rightarrow> 'a entry list \<Rightarrow> window \<Rightarrow> int \<Rightarrow> bool \<Rightarrow> 'a page list" where
  "walk 0 entries w limit capped = []"
| "walk (Suc n) entries w limit capped = (let p = paginate entries w limit capped in
     p # (if pg_next p = [] then []
          else case decodeCursor (pg_next p) of Inl _ \<Rightarrow> []
            | Inr q \<Rightarrow> walk n entries (w\<lparr>w_after := Some q\<rparr>) limit capped))"

section \<open>Cursors come back\<close>

definition rfc_instant :: "int \<Rightarrow> bool" where
  "rfc_instant n \<longleftrightarrow> 0 \<le> t_year (utc_at n) \<and> t_year (utc_at n) < 10000"

lemma digits_no_bar: "list_all is_digit s \<Longrightarrow> CHR ''|'' \<notin> set s"
  by (auto simp: list_all_iff is_digit_def byte_def)

lemma pad_int_no_bar: "CHR ''|'' \<notin> set (pad_int k n)"
  using digits_no_bar [OF nat_digits_are_digits] by (auto simp: pad_int_def Let_def)

lemma fmt_frac_no_bar: "CHR ''|'' \<notin> set (fmt_frac k n)"
  using pad_int_no_bar [of k n] by (auto simp: fmt_frac_def dest: set_dropWhileD)

lemma time_text_no_bar: "CHR ''|'' \<notin> set (fmt_rfc3339nano t)"
  by (auto simp: fmt_rfc3339nano_def fmt_date_def fmt_civil_def fmt_year_def fmt_clock_def fmt_offset_def Let_def
      pad_int_no_bar fmt_frac_no_bar split: prod.split)

lemma decode_encode_cursor: "rfc_instant (pos_at p) \<Longrightarrow> decodeCursor (encodeCursor p) = Inr p"
  using cut_char [OF time_text_no_bar, of "utc_at (pos_at p)" "pos_id p"] parse_rfc3339_nano [of "utc_at (pos_at p)"]
  by (simp add: decodeCursor_def encodeCursor_def rfc_instant_def utc_at_def)

lemma b64_encode_Nil [simp]: "b64_encode s = [] \<longleftrightarrow> s = []"
  by (cases "map byte s" rule: b64_groups.cases) (auto simp: b64_encode_def)

lemma encodeCursor_nonempty [simp]: "encodeCursor p \<noteq> []"
  by (simp add: encodeCursor_def)

section \<open>The order of positions\<close>

lemma before_irrefl [simp]: "\<not> pos_before p p"
  by (simp add: pos_before_def)

lemma before_trans: "pos_before a b \<Longrightarrow> pos_before b c \<Longrightarrow> pos_before a c"
  using string_less_trans [of "pos_id c" "pos_id b" "pos_id a"] by (auto simp: pos_before_def split: if_split_asm)

lemma before_linear: "pos_before a b \<or> a = b \<or> pos_before b a"
  using string_less_linear [of "pos_id a" "pos_id b"] by (auto simp: pos_before_def)

lemma strict_weak_before: "strict_weak entry_before"
proof -
  have "\<not> pos_before a b \<or> \<not> pos_before b a" for a b using before_trans [of a b a] by auto
  moreover have "pos_before a b \<or> pos_before b c \<or> \<not> pos_before a c" for a b c
    using before_linear [of a b] before_linear [of b c] before_trans [of b a c] before_trans [of a c b] by auto
  ultimately show ?thesis unfolding strict_weak_def entry_before_def by blast
qed

section \<open>Following the cursors\<close>

abbreviation visible :: "window \<Rightarrow> 'a entry list \<Rightarrow> 'a entry list" where
  "visible w entries \<equiv> filter (on_page w) (sort_by entry_before entries)"

lemma page_loop_eq:
  "length items \<le> k \<Longrightarrow> page_loop w (int k) capped es items prev =
     (let f = filter (on_page w) es; j = k - length items in
      if length f \<le> j then \<lparr>pg_items = items @ map e_item f, pg_next = [], pg_truncated = capped\<rparr>
      else \<lparr>pg_items = items @ map e_item (take j f),
        pg_next = encodeCursor (last (prev # map e_pos (take j f))), pg_truncated = False\<rparr>)"
proof (induction es arbitrary: items prev)
  case (Cons e es)
  show ?case
  proof (cases "on_page w e \<and> length items < k")
    case True
    then obtain j where "k - length items = Suc j" "k - length (items @ [e_item e]) = j" by (cases "k - length items") auto
    with True Cons.IH [of "items @ [e_item e]" "e_pos e"] Cons.prems show ?thesis by (simp add: Let_def)
  next
    case False
    with Cons show ?thesis by (auto simp: Let_def)
  qed
qed (simp add: Let_def)

lemma paginate_eq:
  "paginate entries w (int k) capped = (let f = visible w entries in
     if length f \<le> k then \<lparr>pg_items = map e_item f, pg_next = [], pg_truncated = capped\<rparr>
     else \<lparr>pg_items = map e_item (take k f),
       pg_next = encodeCursor (last (\<lparr>pos_at = zero_ns, pos_id = []\<rparr> # map e_pos (take k f))), pg_truncated = False\<rparr>)"
  by (simp add: paginate_def page_loop_eq Let_def)

lemma visible_strict:
  assumes "distinct (map e_pos entries)"
  shows "sorted_wrt entry_before (sort_by entry_before entries)"
proof -
  let ?s = "sort_by entry_before entries"
  have "mset (map e_pos ?s) = mset (map e_pos entries)" by simp
  then have d: "distinct (map e_pos ?s)" using assms mset_eq_imp_distinct_iff by blast
  have "sorted_wrt (\<lambda>a b. \<not> entry_before b a) ?s" by (rule sorted_sort_by [OF strict_weak_before])
  then show ?thesis unfolding sorted_wrt_iff_nth_less
  proof (intro allI impI)
    fix i j
    assume h: "\<forall>i j. i < j \<longrightarrow> j < length ?s \<longrightarrow> \<not> entry_before (?s ! j) (?s ! i)" "i < j" "j < length ?s"
    then have "e_pos (?s ! i) \<noteq> e_pos (?s ! j)" using d by (auto simp: distinct_conv_nth)
    then show "entry_before (?s ! i) (?s ! j)" using h before_linear unfolding entry_before_def by blast
  qed
qed

lemma sorted_after_drop:
  assumes "sorted_wrt entry_before f" "j < length f"
  shows "filter (\<lambda>e. pos_before (e_pos (f ! j)) (e_pos e)) f = drop (Suc j) f"
proof -
  have s: "sorted_wrt entry_before (take (Suc j) f @ drop (Suc j) f)" using assms(1) by simp
  have "\<not> pos_before (e_pos (f ! j)) (e_pos e)" if e: "e \<in> set (take (Suc j) f)" for e
  proof -
    obtain i where i: "i \<le> j" "e = f ! i" using e assms(2) by (auto simp: in_set_conv_nth less_Suc_eq_le)
    show ?thesis
    proof (cases "i = j")
      case False
      then have "pos_before (e_pos e) (e_pos (f ! j))"
        using i assms by (auto simp: sorted_wrt_iff_nth_less entry_before_def)
      then show ?thesis using before_trans [of "e_pos e" "e_pos (f ! j)" "e_pos e"] by auto
    qed (simp add: i)
  qed
  then have "filter (\<lambda>e. pos_before (e_pos (f ! j)) (e_pos e)) (take (Suc j) f) = []" by (auto simp: filter_empty_conv)
  moreover have "pos_before (e_pos (f ! j)) (e_pos e)" if "e \<in> set (drop (Suc j) f)" for e
    using s that assms(2) by (auto simp: sorted_wrt_append take_Suc_conv_app_nth entry_before_def)
  then have "filter (\<lambda>e. pos_before (e_pos (f ! j)) (e_pos e)) (drop (Suc j) f) = drop (Suc j) f" by simp
  ultimately show ?thesis by (metis append_Nil append_take_drop_id filter_append)
qed

text \<open>What is left after a page is what the cursor of its last row shows.\<close>

lemma visible_continue:
  assumes "distinct (map e_pos entries)" "j < length (visible w entries)"
  shows "visible (w\<lparr>w_after := Some (e_pos (visible w entries ! j))\<rparr>) entries = drop (Suc j) (visible w entries)"
proof -
  let ?s = "sort_by entry_before entries" and ?f = "visible w entries"
  let ?q = "e_pos (?f ! j)"
  have "?f ! j \<in> set ?f" using assms(2) by (rule nth_mem)
  then have q: "on_page w (?f ! j)" by simp
  have "on_page (w\<lparr>w_after := Some ?q\<rparr>) e \<longleftrightarrow> on_page w e \<and> pos_before ?q (e_pos e)" for e
    using q before_trans by (auto simp: on_page_def contains_def split: option.splits)
  then have "visible (w\<lparr>w_after := Some ?q\<rparr>) entries = filter (\<lambda>e. pos_before ?q (e_pos e)) ?f"
    unfolding filter_filter by (intro filter_cong) auto
  also have "\<dots> = drop (Suc j) ?f"
    using visible_strict [OF assms(1)] assms(2) by (intro sorted_after_drop sorted_wrt_filter)
  finally show ?thesis .
qed

lemma walk_pages:
  assumes "distinct (map e_pos entries)" "\<forall>e \<in> set entries. rfc_instant (pos_at (e_pos e))" "0 < k"
  shows "length (visible w entries) < n \<Longrightarrow>
    concat (map pg_items (walk n entries w (int k) capped)) = map e_item (visible w entries) \<and>
    (\<forall>p \<in> set (walk n entries w (int k) capped). length (pg_items p) \<le> k) \<and>
    pg_next (last (walk n entries w (int k) capped)) = [] \<and> walk n entries w (int k) capped \<noteq> []"
proof (induction n arbitrary: w)
  case (Suc n)
  let ?f = "visible w entries" and ?p = "paginate entries w (int k) capped"
  show ?case
  proof (cases "length ?f \<le> k")
    case True
    then show ?thesis by (simp add: paginate_eq Let_def)
  next
    case False
    then have l: "k - 1 < length ?f" by simp
    let ?e = "?f ! (k - 1)"
    have "last (take k ?f) = ?e" using False assms(3) by (subst last_conv_nth) auto
    then have p: "pg_items ?p = map e_item (take k ?f)" "pg_next ?p = encodeCursor (e_pos ?e)"
      using False assms(3) by (auto simp: paginate_eq Let_def last_map)
    have "?e \<in> set ?f" using l by (rule nth_mem)
    then have "?e \<in> set entries" by simp
    then have d: "decodeCursor (encodeCursor (e_pos ?e)) = Inr (e_pos ?e)" using assms(2) by (simp add: decode_encode_cursor)
    have v: "visible (w\<lparr>w_after := Some (e_pos ?e)\<rparr>) entries = drop k ?f"
      using visible_continue [OF assms(1) l] assms(3) by simp
    have IH: "length (drop k ?f) < n" using Suc.prems False assms(3) by simp
    let ?w = "walk n entries (w\<lparr>w_after := Some (e_pos ?e)\<rparr>) (int k) capped"
    have w: "walk (Suc n) entries w (int k) capped = ?p # ?w" using p d by (simp add: Let_def)
    note IH = Suc.IH [of "w\<lparr>w_after := Some (e_pos ?e)\<rparr>", unfolded v, OF IH]
    show ?thesis using IH p unfolding w
      by (auto simp del: walk.simps simp flip: map_append)
  qed
qed simp

section \<open>Properties\<close>

text \<open>A position whose time lies in the years 0 to 9999 comes back from its cursor, whatever its
  identifier holds.\<close>

theorem cursor_roundtrip: "rfc_instant (pos_at p) \<Longrightarrow> decodeCursor (encodeCursor p) = Inr p"
  by (rule decode_encode_cursor)

theorem cursor_roundtrip_witness:
  "decodeCursor (encodeCursor \<lparr>pos_at = 1, pos_id = ''a|b''\<rparr>) = Inr \<lparr>pos_at = 1, pos_id = ''a|b''\<rparr>"
  by (rule cursor_roundtrip) (simp, code_simp)

text \<open>C20: A client that follows the cursors sees every row of the window once and in order, at most
  the limit on each page, and reaches a last page: the pages implement the sorted list of the
  rows inside the window.\<close>

theorem walk_lists_window:
  assumes "distinct (map e_pos entries)" "\<forall>e \<in> set entries. rfc_instant (pos_at (e_pos e))" "0 < k"
    "length entries < n"
  shows "concat (map pg_items (walk n entries w (int k) capped)) =
      map e_item (filter (on_page w) (sort_by entry_before entries)) \<and>
    (\<forall>p \<in> set (walk n entries w (int k) capped). length (pg_items p) \<le> k) \<and>
    pg_next (last (walk n entries w (int k) capped)) = []"
proof -
  have "length (visible w entries) < n"
    using assms(4) length_filter_le [of "on_page w" "sort_by entry_before entries"] by simp
  from walk_pages [OF assms(1-3) this] show ?thesis by simp
qed

definition demo_rows :: "nat entry list" where
  "demo_rows = [\<lparr>e_pos = \<lparr>pos_at = 5, pos_id = ''a''\<rparr>, e_item = 0\<rparr>, \<lparr>e_pos = \<lparr>pos_at = 7, pos_id = ''b''\<rparr>, e_item = 1\<rparr>,
     \<lparr>e_pos = \<lparr>pos_at = 5, pos_id = ''c''\<rparr>, e_item = 2\<rparr>, \<lparr>e_pos = \<lparr>pos_at = 9, pos_id = ''a''\<rparr>, e_item = 3\<rparr>]"

definition demo_window :: window where
  "demo_window = \<lparr>w_since = zero_ns, w_until = 8, w_days = 30, w_after = None\<rparr>"

lemma demo_rows_list: "map e_item (filter (on_page demo_window) (sort_by entry_before demo_rows)) = [1, 2, 0]"
  by code_simp

theorem walk_lists_window_witness:
  "concat (map pg_items (walk 5 demo_rows demo_window 2 False)) = [1, 2, 0]"
proof -
  have "distinct (map e_pos demo_rows)" by code_simp
  moreover have "\<forall>e \<in> set demo_rows. rfc_instant (pos_at (e_pos e))" unfolding demo_rows_def by code_simp
  moreover have "length demo_rows < 5" by (simp add: demo_rows_def)
  ultimately show ?thesis
    using walk_lists_window [of demo_rows 2 5 demo_window False] demo_rows_list by simp
qed

text \<open>A range is rejected with one of four messages, or it gives a window that is not turned
  around, reaches back one to 365 days and continues a page exactly when there is a cursor.\<close>

theorem parse_outcomes:
  "case parse r now loc of
     Inl e \<Rightarrow> e \<in> {''since '' @ bound_error, ''until '' @ bound_error, order_error, cursor_error}
   | Inr w \<Rightarrow> 1 \<le> w_days w \<and> w_days w \<le> 365 \<and>
       (w_since w = zero_ns \<or> w_until w = zero_ns \<or> w_since w < w_until w) \<and>
       (w_after w = None \<longleftrightarrow> tr_cursor r = [])"
proof -
  have b: "e = bound_error" if "parseBound s z fin = Inl e" for s z fin e
    using that by (auto simp: parseBound_def Let_def split: if_splits option.splits)
  have c: "e = cursor_error" if "decodeCursor s = Inl e" for s e
    using that by (auto simp: decodeCursor_def split: option.splits prod.splits)
  have d: "1 \<le> reach_days now x" "reach_days now x \<le> 365" for x by (auto simp: reach_days_def)
  have e: "1 \<le> bounded x 30 1 365" "bounded x 30 1 365 \<le> 365" for x by (auto simp: bounded_def)
  show ?thesis using b c d e by (auto simp: parse_def Let_def split: sum.splits)
qed

lemma reach_days_covers:
  assumes "from < now" "now - from \<le> 364 * day_dur"
  shows "now - reach_days now from * day_dur \<le> from"
proof -
  define d where "d = now - from"
  have d: "0 < d" "d \<le> 364 * day_dur" using assms by (simp_all add: d_def)
  then have l: "d \<le> 100000 * day_dur" by (simp add: second_def)
  have s: "ns_sub now from = d" using d by (simp add: ns_sub_def clamp64_def d_def [symmetric] second_def)
  define k where "k = d div day_dur"
  obtain v where v: "fdiv (dur_hours d) (f64_of_int 24) = Fin v" "of_int k \<le> v" "v \<le> 100001" "0 \<le> k"
    unfolding k_def by (rule day_quotient [OF d(1) l])
  have c: "k \<le> \<lceil>v\<rceil>" "\<lceil>v\<rceil> \<le> 100001" using v by (simp_all add: le_ceiling_iff ceiling_le_iff)
  define n where "n = \<lceil>v\<rceil>"
  have n: "k \<le> n" "n \<le> 100001" "0 \<le> n" using c v(4) unfolding n_def by linarith+
  have "math_ceil (Fin v) = Fin (of_int n)" by (simp add: math_ceil_def n_def)
  then have "f64_to_int64 (math_ceil (fdiv (dur_hours d) (f64_of_int 24))) = n"
    using n by (simp add: v(1) f64_to_int64_def trunc_rat_def Let_def)
  then have "k + 1 \<le> reach_days now from \<or> reach_days now from = 365" using n by (auto simp: reach_days_def s)
  moreover have "k \<le> 364"
  proof -
    have "k \<le> (364 * day_dur) div day_dur" unfolding k_def by (rule zdiv_mono1 [OF d(2)]) simp
    then show ?thesis by simp
  qed
  ultimately have "k + 1 \<le> reach_days now from" by auto
  then have "d \<le> reach_days now from * day_dur" unfolding k_def by (rule within_days)
  then show ?thesis by (simp add: d_def)
qed

text \<open>A window that starts at most 364 days back is read from the store far enough back to hold
  all of it: the days asked for reach back to its start.\<close>

theorem window_is_covered:
  assumes "parse r now loc = Inr w" "w_since w \<noteq> zero_ns" "w_since w < now" "now - w_since w \<le> 364 * day_dur"
  shows "sinceDays now (w_days w) \<le> w_since w"
proof -
  have "w_days w = reach_days now (w_since w)"
    using assms(1,2) by (auto simp: parse_def Let_def split: sum.splits if_splits)
  then show ?thesis using reach_days_covers [OF assms(3,4)] by (simp add: sinceDays_eq)
qed

definition demo_range :: time_range where
  "demo_range = \<lparr>tr_since = ''2026-07-01'', tr_until = [], tr_days = 0, tr_cursor = []\<rparr>"

theorem window_is_covered_witness:
  "\<exists>w. parse demo_range (20640 * day_dur) utc_zone = Inr w \<and> sinceDays (20640 * day_dur) (w_days w) \<le> w_since w"
proof -
  have s: "parseBound (tr_since demo_range) utc_zone False = Inr (20635 * day_dur)" by code_simp
  have u: "parseBound (tr_until demo_range) utc_zone True = Inr zero_ns" by code_simp
  let ?now = "20640 * day_dur"
  have z: "20635 * day_dur \<noteq> zero_ns" by (simp add: zero_ns_def second_def)
  have r: "parse demo_range ?now utc_zone = Inr \<lparr>w_since = 20635 * day_dur, w_until = zero_ns,
      w_days = reach_days ?now (20635 * day_dur), w_after = None\<rparr>"
    unfolding parse_def s u using z by (simp add: demo_range_def Let_def)
  have b: "20635 * day_dur < ?now" "?now - 20635 * day_dur \<le> 364 * day_dur" by (simp_all add: second_def)
  from window_is_covered [OF r] z b r show ?thesis by auto
qed

end
