(* ===== verification/State.thy ===== *)
theory State
  imports Store Schedule
begin

text \<open>
  \<open>internal/state/state.go\<close>: what the dashboard shows, the result of the last checks and runs.
  The lock makes every operation atomic, so the state evolves by whole operations; the clock
  is an argument of those that read it.  The detail of a job run is any value (a type
  parameter).  A returned copy is a value here.
\<close>

section \<open>The state\<close>

record balance_state =
  bst_last_update :: "gostring option"
  bst_projects :: "check_result list"
  bst_summary :: balance_summary

record subscription_summary =
  ss_total :: nat
  ss_need_alert :: nat

record subscription_state =
  sst_last_update :: "gostring option"
  sst_subscriptions :: "subscription_result list"
  sst_summary :: subscription_summary

record email_summary =
  es_total_mailboxes :: nat
  es_failed_mailboxes :: nat
  es_total_emails :: int
  es_total_alerts :: nat
  es_alerts_sent :: nat

record email_state =
  est_last_update :: "gostring option"
  est_days :: "int option"
  est_dry_run :: "bool option"
  est_mailboxes :: "mailbox_result list"
  est_alerts :: "email_alert list"
  est_summary :: email_summary

record 'd job =
  job_name :: gostring
  job_description :: gostring
  job_schedule :: gostring
  job_enabled :: bool
  job_next_run :: "gostring option"
  job_last_run :: "gostring option"
  job_last_success :: "gostring option"
  job_last_error :: "gostring option"
  job_last_duration :: "f64 option"
  job_last_detail :: "'d option"
  job_runs :: nat
  job_failures :: nat

record 'd job_state =
  js_healthy :: bool
  js_jobs :: "'d job list"

record 'd manager =
  mg_start :: int
  mg_balance :: balance_state
  mg_checked :: bool
  mg_subs :: subscription_state
  mg_email :: email_state
  mg_jobs :: "gostring \<Rightarrow> 'd job option"
  mg_order :: "gostring list"

definition new_manager :: "int \<Rightarrow> 'd manager" where
  "new_manager now = \<lparr>mg_start = now,
     mg_balance = \<lparr>bst_last_update = None, bst_projects = [], bst_summary = summarize_balance []\<rparr>,
     mg_checked = False,
     mg_subs = \<lparr>sst_last_update = None, sst_subscriptions = [], sst_summary = \<lparr>ss_total = 0, ss_need_alert = 0\<rparr>\<rparr>,
     mg_email = \<lparr>est_last_update = None, est_days = None, est_dry_run = None, est_mailboxes = [], est_alerts = [],
       est_summary = \<lparr>es_total_mailboxes = 0, es_failed_mailboxes = 0, es_total_emails = 0, es_total_alerts = 0,
         es_alerts_sent = 0\<rparr>\<rparr>,
     mg_jobs = Map.empty, mg_order = []\<rparr>"

text \<open>\<open>Duration.Seconds\<close>.\<close>

definition dur_seconds :: "duration \<Rightarrow> f64" where
  "dur_seconds d = fadd (f64_of_int (go_div d second)) (fdiv (f64_of_int (go_mod d second)) (f64_of_int second))"

definition UptimeSeconds :: "int \<Rightarrow> 'd manager \<Rightarrow> f64" where
  "UptimeSeconds now m = dur_seconds (ns_sub now (mg_start m))"

definition now_iso :: "int \<Rightarrow> gostring" where
  "now_iso now = fmt_iso_utc (utc_at now)"

section \<open>Balances\<close>

fun anySucceeded :: "check_result list \<Rightarrow> bool" where
  "anySucceeded [] = False"
| "anySucceeded (r # rs) = (if cr_success r then True else anySucceeded rs)"

definition setBalanceLocked :: "int \<Rightarrow> check_result list \<Rightarrow> bool \<Rightarrow> 'd manager \<Rightarrow> 'd manager" where
  "setBalanceLocked now results fresh m = m\<lparr>mg_balance :=
     \<lparr>bst_last_update = (if fresh then Some (now_iso now) else bst_last_update (mg_balance m)),
      bst_projects = results, bst_summary = summarize_balance results\<rparr>\<rparr>"

definition SetBalance :: "int \<Rightarrow> check_result list \<Rightarrow> 'd manager \<Rightarrow> 'd manager" where
  "SetBalance now results m =
     setBalanceLocked now results (results = [] \<or> anySucceeded results) (m\<lparr>mg_checked := True\<rparr>)"

text \<open>The index of the merged list by project name: of two rows with one name, the later.\<close>

fun name_index :: "check_result list \<Rightarrow> nat \<Rightarrow> (gostring \<Rightarrow> nat option) \<Rightarrow> gostring \<Rightarrow> nat option" where
  "name_index [] i idx = idx"
| "name_index (p # ps) i idx = name_index ps (i + 1) (idx(cr_project p \<mapsto> i))"

fun merge_loop :: "check_result list \<Rightarrow> check_result list \<Rightarrow> (gostring \<Rightarrow> nat option) \<Rightarrow> check_result list" where
  "merge_loop [] merged idx = merged"
| "merge_loop (r # rs) merged idx = (case idx (cr_project r) of
       Some i \<Rightarrow> merge_loop rs (merged[i := r]) idx
     | None \<Rightarrow> merge_loop rs (merged @ [r]) (idx(cr_project r \<mapsto> length merged)))"

definition merge_results :: "check_result list \<Rightarrow> check_result list \<Rightarrow> check_result list" where
  "merge_results old new = merge_loop new old (name_index old 0 Map.empty)"

definition MergeBalance :: "int \<Rightarrow> check_result list \<Rightarrow> 'd manager \<Rightarrow> 'd manager" where
  "MergeBalance now results m =
     setBalanceLocked now (merge_results (bst_projects (mg_balance m)) results) (anySucceeded results)
       (m\<lparr>mg_checked := True\<rparr>)"

definition RemoveBalanceProject :: "int \<Rightarrow> gostring \<Rightarrow> 'd manager \<Rightarrow> 'd manager" where
  "RemoveBalanceProject now name m =
     (let kept = filter (\<lambda>p. cr_project p \<noteq> name) (bst_projects (mg_balance m))
      in if length kept \<noteq> length (bst_projects (mg_balance m)) then setBalanceLocked now kept False m else m)"

definition BalanceChecked :: "'d manager \<Rightarrow> bool" where "BalanceChecked m = mg_checked m"

definition Balance :: "'d manager \<Rightarrow> balance_state" where "Balance m = mg_balance m"

section \<open>Subscriptions and mailboxes\<close>

definition SetSubscriptions :: "int \<Rightarrow> subscription_result list \<Rightarrow> 'd manager \<Rightarrow> 'd manager" where
  "SetSubscriptions now results m = m\<lparr>mg_subs :=
     \<lparr>sst_last_update = Some (now_iso now), sst_subscriptions = results,
      sst_summary = \<lparr>ss_total = length results, ss_need_alert = count_if sr_need_alert results\<rparr>\<rparr>\<rparr>"

definition Subscriptions :: "'d manager \<Rightarrow> subscription_state" where "Subscriptions m = mg_subs m"

definition SetEmailScan :: "int \<Rightarrow> scan_result \<Rightarrow> 'd manager \<Rightarrow> 'd manager" where
  "SetEmailScan now r m = m\<lparr>mg_email :=
     \<lparr>est_last_update = Some (now_iso now), est_days = Some (sc_days r), est_dry_run = Some (sc_dry_run r),
      est_mailboxes = sc_mailboxes r, est_alerts = sc_alerts r,
      est_summary = \<lparr>es_total_mailboxes = length (sc_mailboxes r),
        es_failed_mailboxes = count_if (\<lambda>b. mr_error b \<noteq> None) (sc_mailboxes r),
        es_total_emails = sum_list (map mr_total_emails (sc_mailboxes r)),
        es_total_alerts = length (sc_alerts r),
        es_alerts_sent = count_if ea_alert_sent (sc_alerts r)\<rparr>\<rparr>\<rparr>"

definition EmailScan :: "'d manager \<Rightarrow> email_state" where "EmailScan m = mg_email m"

section \<open>Scheduled jobs\<close>

definition fresh_job :: "gostring \<Rightarrow> bool \<Rightarrow> 'd job" where
  "fresh_job name on = \<lparr>job_name = name, job_description = [], job_schedule = [], job_enabled = on,
     job_next_run = None, job_last_run = None, job_last_success = None, job_last_error = None,
     job_last_duration = None, job_last_detail = None, job_runs = 0, job_failures = 0\<rparr>"

text \<open>The job of that name, entered at the end of the order when it is new.\<close>

definition find_job :: "gostring \<Rightarrow> bool \<Rightarrow> 'd manager \<Rightarrow> 'd job \<times> gostring list" where
  "find_job name on m = (case mg_jobs m name of Some j \<Rightarrow> (j, mg_order m)
     | None \<Rightarrow> (fresh_job name on, mg_order m @ [name]))"

definition RegisterJob :: "gostring \<Rightarrow> gostring \<Rightarrow> gostring \<Rightarrow> bool \<Rightarrow> gotime \<Rightarrow> 'd manager \<Rightarrow> 'd manager" where
  "RegisterJob name description schedule enabled next_run m =
     (let (j, ord) = find_job name False m;
          j' = j\<lparr>job_description := description, job_schedule := schedule, job_enabled := enabled,
                 job_next_run := (if enabled then utc_iso next_run else None)\<rparr>
      in m\<lparr>mg_jobs := (mg_jobs m)(name \<mapsto> j'), mg_order := ord\<rparr>)"

definition record_run :: "bool \<Rightarrow> gotime \<Rightarrow> duration \<Rightarrow> goerror option \<Rightarrow> 'd option \<Rightarrow> gotime \<Rightarrow> 'd job \<Rightarrow> 'd job" where
  "record_run success started dur err detail next_run j =
     (let j1 = j\<lparr>job_last_run := utc_iso started, job_last_duration := Some (dur_seconds dur),
            job_next_run := (if job_enabled j then utc_iso next_run else None), job_runs := job_runs j + 1\<rparr>
      in if success then j1\<lparr>job_last_success := job_last_run j1, job_last_error := None, job_last_detail := detail\<rparr>
         else j1\<lparr>job_failures := job_failures j1 + 1,
                 job_last_error := Some (case err of None \<Rightarrow> ''Unknown error'' | Some e \<Rightarrow> e)\<rparr>)"

definition RecordJobRun ::
  "gostring \<Rightarrow> bool \<Rightarrow> gotime \<Rightarrow> duration \<Rightarrow> goerror option \<Rightarrow> 'd option \<Rightarrow> gotime \<Rightarrow> 'd manager \<Rightarrow> 'd manager" where
  "RecordJobRun name success started dur err detail next_run m =
     (let (j, ord) = find_job name True m
      in m\<lparr>mg_jobs := (mg_jobs m)(name \<mapsto> record_run success started dur err detail next_run j), mg_order := ord\<rparr>)"

text \<open>Every name in the order has a job (an invariant, below), so \<open>the\<close> never meets \<open>None\<close>.\<close>

definition failing :: "'d job \<Rightarrow> bool" where
  "failing j \<longleftrightarrow> job_enabled j \<and> job_last_error j \<noteq> None"

definition Jobs :: "'d manager \<Rightarrow> 'd job_state" where
  "Jobs m = (let js = map (\<lambda>n. the (mg_jobs m n)) (mg_order m)
     in \<lparr>js_healthy = (\<not> list_ex failing js), js_jobs = js\<rparr>)"

definition FailedJobs :: "'d manager \<Rightarrow> gostring list" where
  "FailedJobs m = filter (\<lambda>n. failing (the (mg_jobs m n))) (mg_order m)"

section \<open>Merging a partial refresh\<close>

text \<open>What a list of results promises: the result of each project.\<close>

definition by_project :: "check_result list \<Rightarrow> gostring \<Rightarrow> check_result option" where
  "by_project rs = map_of (map (\<lambda>r. (cr_project r, r)) rs)"

definition index_ok :: "check_result list \<Rightarrow> (gostring \<Rightarrow> nat option) \<Rightarrow> bool" where
  "index_ok ps idx \<longleftrightarrow> distinct (map cr_project ps) \<and>
     (\<forall>n i. idx n = Some i \<longleftrightarrow> i < length ps \<and> cr_project (ps ! i) = n)"

lemma by_project_simps [simp]:
  "by_project [] = Map.empty" "by_project (r # rs) = (by_project rs)(cr_project r \<mapsto> r)"
  by (simp_all add: by_project_def)

lemma by_project_append: "by_project (ps @ qs) = by_project qs ++ by_project ps"
  by (simp add: by_project_def)

lemma by_project_dom: "by_project ps n = None \<longleftrightarrow> n \<notin> cr_project ` set ps"
  by (induction ps) auto

lemma by_project_nth: "distinct (map cr_project ps) \<Longrightarrow> i < length ps \<Longrightarrow> by_project ps (cr_project (ps ! i)) = Some (ps ! i)"
  unfolding by_project_def by (rule map_of_is_SomeI) (auto simp: o_def)

lemma by_project_update:
  assumes "distinct (map cr_project ps)" "i < length ps" "cr_project (ps ! i) = cr_project r"
  shows "by_project (ps[i := r]) = (by_project ps)(cr_project r \<mapsto> r)"
  using assms
proof (induction ps arbitrary: i)
  case (Cons p ps)
  show ?case
  proof (cases i)
    case (Suc k)
    then have "cr_project p \<noteq> cr_project r" using Cons.prems by (metis distinct.simps(2) image_eqI list.set_map list.simps(9) nth_Cons_Suc nth_mem length_Cons Suc_less_eq)
    with Suc Cons show ?thesis by (auto simp: fun_upd_twist)
  next
    case 0
    with Cons.prems have "cr_project p = cr_project r" by simp
    then show ?thesis using 0 by (simp add: by_project_def fun_eq_iff)
  qed
qed simp

lemma name_index_eq:
  "distinct (map cr_project ps) \<Longrightarrow> name_index ps k idx n =
     (if n \<in> cr_project ` set ps then Some (k + length (takeWhile (\<lambda>p. cr_project p \<noteq> n) ps)) else idx n)"
  by (induction ps arbitrary: k idx) (auto simp: image_iff)

lemma name_index_ok:
  assumes "distinct (map cr_project ps)"
  shows "index_ok ps (name_index ps 0 Map.empty)"
proof -
  have "(n \<in> cr_project ` set ps \<and> length (takeWhile (\<lambda>p. cr_project p \<noteq> n) ps) = i) \<longleftrightarrow>
      i < length ps \<and> cr_project (ps ! i) = n" for n i
  proof
    assume h: "n \<in> cr_project ` set ps \<and> length (takeWhile (\<lambda>p. cr_project p \<noteq> n) ps) = i"
    then obtain x where "x \<in> set ps" "cr_project x = n" by auto
    then have "length (takeWhile (\<lambda>p. cr_project p \<noteq> n) ps) < length ps" by (induction ps) auto
    with h show "i < length ps \<and> cr_project (ps ! i) = n" using nth_length_takeWhile [of "\<lambda>p. cr_project p \<noteq> n" ps] by auto
  next
    assume h: "i < length ps \<and> cr_project (ps ! i) = n"
    then have "takeWhile (\<lambda>p. cr_project p \<noteq> n) ps = take i ps"
      using assms by (intro takeWhile_eq_take_P_nth) (auto simp: distinct_conv_nth)
    with h show "n \<in> cr_project ` set ps \<and> length (takeWhile (\<lambda>p. cr_project p \<noteq> n) ps) = i" by auto
  qed
  then show ?thesis using assms by (auto simp: index_ok_def name_index_eq)
qed

lemma index_ok_new:
  assumes "index_ok ps idx" "idx (cr_project r) = None"
  shows "cr_project r \<notin> cr_project ` set ps"
proof
  assume "cr_project r \<in> cr_project ` set ps"
  then obtain i where "i < length ps" "cr_project (ps ! i) = cr_project r" by (metis imageE in_set_conv_nth)
  then have "idx (cr_project r) = Some i" using assms(1) unfolding index_ok_def by blast
  with assms(2) show False by simp
qed

lemma index_ok_append:
  assumes "index_ok ps idx" "idx (cr_project r) = None"
  shows "index_ok (ps @ [r]) (idx(cr_project r \<mapsto> length ps))"
proof -
  have n: "cr_project r \<notin> cr_project ` set ps" by (rule index_ok_new [OF assms])
  then have "cr_project (ps ! i) \<noteq> cr_project r" if "i < length ps" for i using that by (metis image_eqI nth_mem)
  with n assms(1) show ?thesis by (auto simp: index_ok_def nth_append less_Suc_eq)
qed

lemma index_ok_update:
  assumes "index_ok ps idx" "idx (cr_project r) = Some i"
  shows "index_ok (ps[i := r]) idx"
proof -
  have "map cr_project (ps[i := r]) = map cr_project ps"
    using assms by (simp add: index_ok_def map_update) (metis list_update_id nth_map)
  then have "cr_project (ps[i := r] ! k) = cr_project (ps ! k)" if "k < length ps" for k
    using that by (metis length_list_update nth_map)
  then show ?thesis using assms(1) \<open>map cr_project (ps[i := r]) = map cr_project ps\<close> by (auto simp: index_ok_def)
qed

lemma merge_loop_result:
  "index_ok ps idx \<Longrightarrow> distinct (map cr_project (merge_loop rs ps idx)) \<and>
     by_project (merge_loop rs ps idx) = by_project ps ++ by_project (rev rs) \<and>
     take (length ps) (map cr_project (merge_loop rs ps idx)) = map cr_project ps"
proof (induction rs arbitrary: ps idx)
  case Nil
  then show ?case by (simp add: index_ok_def)
next
  case (Cons r rs)
  have u: "m ++ by_project (rev (r # rs)) = m(cr_project r \<mapsto> r) ++ by_project (rev rs)" for m
    by (simp add: by_project_append)
  show ?case
  proof (cases "idx (cr_project r)")
    case None
    have "by_project (ps @ [r]) = (by_project ps)(cr_project r \<mapsto> r)"
    proof -
      have "cr_project r \<notin> cr_project ` set ps" by (rule index_ok_new [OF Cons.prems None])
      then have "by_project ps (cr_project r) = None" by (simp add: by_project_dom)
      then show ?thesis by (auto simp: by_project_append map_add_def fun_eq_iff split: option.split)
    qed
    moreover define idx' where "idx' = idx(cr_project r := Some (length ps))"
    have ok: "index_ok (ps @ [r]) idx'" using index_ok_append [OF Cons.prems None] by (simp only: idx'_def)
    have "merge_loop (r # rs) ps idx = merge_loop rs (ps @ [r]) idx'" using None by (simp only: idx'_def merge_loop.simps option.case)
    moreover note IH = Cons.IH [OF ok]
    moreover have "take (length ps) (map cr_project (merge_loop rs (ps @ [r]) idx')) = map cr_project ps"
      using arg_cong [OF conjunct2 [OF conjunct2 [OF IH]], of "take (length ps)"] by (simp add: min_def)
    ultimately show ?thesis unfolding u by (simp add: fun_upd_def)
  next
    case (Some i)
    then have i: "i < length ps" "cr_project (ps ! i) = cr_project r" "distinct (map cr_project ps)"
      using Cons.prems by (auto simp: index_ok_def)
    have "map cr_project (ps[i := r]) = map cr_project ps"
      using i by (simp add: map_update) (metis list_update_id nth_map)
    with Cons.IH [OF index_ok_update [OF Cons.prems Some]] Some show ?thesis
      unfolding u by (simp add: by_project_update [OF i(3,1,2)] fun_upd_def)
  qed
qed

lemma merge_loop_set: "set (merge_loop rs ps idx) \<subseteq> set ps \<union> set rs"
proof (induction rs arbitrary: ps idx)
  case (Cons r rs)
  show ?case
  proof (cases "idx (cr_project r)")
    case None
    define idx' where "idx' = idx(cr_project r := Some (length ps))"
    have "merge_loop (r # rs) ps idx = merge_loop rs (ps @ [r]) idx'" using None by (simp only: idx'_def merge_loop.simps option.case)
    then show ?thesis using Cons.IH [of "ps @ [r]" idx'] by auto
  next
    case (Some i)
    then show ?thesis using Cons.IH [of "ps[i := r]" idx] set_update_subset_insert [of ps i r] by auto
  qed
qed simp

section \<open>What holds of the state at any time\<close>

text \<open>The state evolves by the operations, in any order and with any arguments.\<close>

inductive op_step :: "'d manager \<Rightarrow> 'd manager \<Rightarrow> bool" where
  set_balance: "op_step m (SetBalance now rs m)"
| merge_balance: "op_step m (MergeBalance now rs m)"
| remove_project: "op_step m (RemoveBalanceProject now name m)"
| set_subscriptions: "op_step m (SetSubscriptions now srs m)"
| set_email_scan: "op_step m (SetEmailScan now scan m)"
| register_job: "op_step m (RegisterJob name descr sched on nxt m)"
| record_job_run: "op_step m (RecordJobRun name success started dur err detail nxt m)"

inductive reachable :: "'d manager \<Rightarrow> bool" where
  start: "reachable (new_manager now)"
| step: "reachable m \<Longrightarrow> op_step m m' \<Longrightarrow> reachable m'"

inductive_cases op_stepE: "op_step m m'"

definition job_ok :: "gostring \<Rightarrow> 'd job \<Rightarrow> bool" where
  "job_ok n j \<longleftrightarrow> job_name j = n \<and> job_failures j \<le> job_runs j \<and>
     (job_last_error j \<noteq> None \<longrightarrow> 0 < job_failures j) \<and> (job_next_run j \<noteq> None \<longrightarrow> job_enabled j)"

definition jobs_ok :: "'d manager \<Rightarrow> bool" where
  "jobs_ok m \<longleftrightarrow> distinct (mg_order m) \<and> set (mg_order m) = dom (mg_jobs m) \<and>
     (\<forall>n j. mg_jobs m n = Some j \<longrightarrow> job_ok n j)"

definition balance_ok :: "'d manager \<Rightarrow> bool" where
  "balance_ok m \<longleftrightarrow> bst_summary (mg_balance m) = summarize_balance (bst_projects (mg_balance m)) \<and>
     (anySucceeded (bst_projects (mg_balance m)) \<longrightarrow> bst_last_update (mg_balance m) \<noteq> None) \<and>
     (bst_projects (mg_balance m) \<noteq> [] \<longrightarrow> mg_checked m)"

definition summaries_ok :: "'d manager \<Rightarrow> bool" where
  "summaries_ok m \<longleftrightarrow>
     ss_total (sst_summary (mg_subs m)) = length (sst_subscriptions (mg_subs m)) \<and>
     ss_need_alert (sst_summary (mg_subs m)) = count_if sr_need_alert (sst_subscriptions (mg_subs m)) \<and>
     es_total_mailboxes (est_summary (mg_email m)) = length (est_mailboxes (mg_email m)) \<and>
     es_failed_mailboxes (est_summary (mg_email m)) \<le> es_total_mailboxes (est_summary (mg_email m)) \<and>
     es_total_alerts (est_summary (mg_email m)) = length (est_alerts (mg_email m)) \<and>
     es_alerts_sent (est_summary (mg_email m)) \<le> es_total_alerts (est_summary (mg_email m))"

lemma anySucceeded_iff: "anySucceeded rs \<longleftrightarrow> (\<exists>r \<in> set rs. cr_success r)"
  by (induction rs) auto

lemma setBalanceLocked_sel [simp]:
  "mg_start (setBalanceLocked now rs b m) = mg_start m" "mg_checked (setBalanceLocked now rs b m) = mg_checked m"
  "mg_subs (setBalanceLocked now rs b m) = mg_subs m" "mg_email (setBalanceLocked now rs b m) = mg_email m"
  "mg_jobs (setBalanceLocked now rs b m) = mg_jobs m" "mg_order (setBalanceLocked now rs b m) = mg_order m"
  "bst_projects (mg_balance (setBalanceLocked now rs b m)) = rs"
  "bst_summary (mg_balance (setBalanceLocked now rs b m)) = summarize_balance rs"
  "bst_last_update (mg_balance (setBalanceLocked now rs b m)) =
     (if b then Some (now_iso now) else bst_last_update (mg_balance m))"
  by (simp_all add: setBalanceLocked_def)

lemma merge_results_succeeded: "anySucceeded (merge_results old new) \<Longrightarrow> anySucceeded old \<or> anySucceeded new"
  using merge_loop_set [of new old "name_index old 0 Map.empty"] by (auto simp: anySucceeded_iff merge_results_def)

lemma record_run_ok: "job_ok n j \<Longrightarrow> job_ok n (record_run success started dur err detail nxt j)"
  by (auto simp: record_run_def job_ok_def Let_def)

lemma find_job_ok:
  assumes "jobs_ok m" "find_job n on m = (j, ord)"
  shows "job_ok n j" "distinct ord" "set ord = insert n (dom (mg_jobs m))"
  using assms by (auto simp: find_job_def jobs_ok_def job_ok_def fresh_job_def split: option.splits)

lemma jobs_ok_update:
  assumes "jobs_ok m" "find_job n on m = (j, ord)" "job_ok n j'"
  shows "jobs_ok (m\<lparr>mg_jobs := (mg_jobs m)(n \<mapsto> j'), mg_order := ord\<rparr>)"
  using find_job_ok [OF assms(1,2)] assms(1,3) by (auto simp: jobs_ok_def)

lemma jobs_ok_step: "op_step m m' \<Longrightarrow> jobs_ok m \<Longrightarrow> jobs_ok m'"
proof (induction rule: op_step.induct)
  case (register_job m name descr sched on nxt)
  obtain j ord where f: "find_job name False m = (j, ord)" by fastforce
  have "job_ok name j" by (rule find_job_ok [OF register_job f])
  then show ?case unfolding RegisterJob_def f Let_def prod.case
    by (intro jobs_ok_update [OF register_job f]) (auto simp: job_ok_def)
next
  case (record_job_run m name success started dur err detail nxt)
  obtain j ord where f: "find_job name True m = (j, ord)" by fastforce
  show ?case unfolding RecordJobRun_def f Let_def prod.case
    by (intro jobs_ok_update [OF record_job_run f] record_run_ok find_job_ok [OF record_job_run f])
qed (simp_all add: jobs_ok_def SetBalance_def MergeBalance_def RemoveBalanceProject_def SetSubscriptions_def
      SetEmailScan_def Let_def)

lemma balance_ok_step: "op_step m m' \<Longrightarrow> balance_ok m \<Longrightarrow> balance_ok m'"
proof (induction rule: op_step.induct)
  case (merge_balance m now rs)
  then show ?case using merge_results_succeeded by (auto simp: balance_ok_def MergeBalance_def)
qed (auto simp: balance_ok_def SetBalance_def RemoveBalanceProject_def SetSubscriptions_def anySucceeded_iff
      SetEmailScan_def RegisterJob_def RecordJobRun_def Let_def split: prod.split)

lemma summaries_ok_step: "op_step m m' \<Longrightarrow> summaries_ok m \<Longrightarrow> summaries_ok m'"
  by (induction rule: op_step.induct)
     (auto simp: summaries_ok_def SetBalance_def MergeBalance_def RemoveBalanceProject_def SetSubscriptions_def
      SetEmailScan_def RegisterJob_def RecordJobRun_def Let_def count_if_le split: prod.split)

lemma new_manager_ok: "jobs_ok (new_manager now)" "balance_ok (new_manager now)" "summaries_ok (new_manager now)"
  by (simp_all add: new_manager_def jobs_ok_def balance_ok_def summaries_ok_def)

lemma reachable_ok: "reachable m \<Longrightarrow> jobs_ok m \<and> balance_ok m \<and> summaries_ok m"
  by (induction rule: reachable.induct) (use new_manager_ok jobs_ok_step balance_ok_step summaries_ok_step in blast)+

section \<open>Properties\<close>

text \<open>C21: Whatever operations ran, the job list names every job once, each under its own name with no
  more failures than runs and a next run only when enabled; the headers count what is shown;
  and a project that is shown as read successfully has a time of last update.\<close>

theorem manager_invariant:
  assumes "reachable m"
  shows "distinct (mg_order m) \<and> set (mg_order m) = dom (mg_jobs m) \<and>
    (\<forall>n j. mg_jobs m n = Some j \<longrightarrow> job_ok n j) \<and>
    bst_summary (Balance m) = summarize_balance (bst_projects (Balance m)) \<and>
    (anySucceeded (bst_projects (Balance m)) \<longrightarrow> bst_last_update (Balance m) \<noteq> None \<and> BalanceChecked m) \<and>
    summaries_ok m"
proof -
  have "anySucceeded rs \<Longrightarrow> rs \<noteq> []" for rs by auto
  with reachable_ok [OF assms] show ?thesis
    unfolding jobs_ok_def balance_ok_def Balance_def BalanceChecked_def by blast
qed

definition demo_result :: "gostring \<Rightarrow> bool \<Rightarrow> f64 option \<Rightarrow> check_result" where
  "demo_result name ok bal = \<lparr>cr_project = name, cr_owner = None, cr_provider = ''glm'', cr_type = TypeBalance,
     cr_success = ok, cr_credits = bal, cr_threshold = None, cr_need_alarm = False, cr_alarm_sent = False,
     cr_error = None, cr_cached = False, cr_runway = None, cr_checked_at = None, cr_latency_ms = None\<rparr>"

definition demo_manager :: "nat manager" where
  "demo_manager = RecordJobRun ''refresh'' False (utc_at 5) second None None (utc_at 6)
     (SetBalance 5 [demo_result ''a'' True None] (new_manager 0))"

theorem manager_invariant_witness:
  "mg_order demo_manager = [''refresh''] \<and> bst_last_update (Balance demo_manager) \<noteq> None"
proof -
  have r: "reachable demo_manager"
    unfolding demo_manager_def by (intro reachable.step [OF _ record_job_run] reachable.step [OF _ set_balance] start)
  have s: "anySucceeded (bst_projects (Balance demo_manager))" and o: "mg_order demo_manager = [''refresh'']"
    by (simp_all add: demo_manager_def Balance_def RecordJobRun_def SetBalance_def new_manager_def demo_result_def
        find_job_def setBalanceLocked_def Let_def)
  show ?thesis using manager_invariant [OF r] s o by simp
qed

text \<open>C22: A partial refresh implements the overriding of one map from projects to results by another:
  afterwards each project has its newest result, no project appears twice, and those that were
  shown keep their places.\<close>

theorem MergeBalance_overrides:
  assumes "distinct (map cr_project (bst_projects (Balance m)))"
  shows "let old = bst_projects (Balance m); new = bst_projects (Balance (MergeBalance now rs m)) in
    by_project new = by_project old ++ by_project (rev rs) \<and> distinct (map cr_project new) \<and>
    take (length old) (map cr_project new) = map cr_project old"
proof -
  have "index_ok (bst_projects (mg_balance m)) (name_index (bst_projects (mg_balance m)) 0 Map.empty)"
    using assms by (intro name_index_ok) (simp add: Balance_def)
  from merge_loop_result [OF this, of rs] show ?thesis
    by (simp add: Let_def Balance_def MergeBalance_def merge_results_def)
qed

theorem MergeBalance_overrides_witness:
  "by_project (bst_projects (Balance (MergeBalance 9 [demo_result ''a'' False None, demo_result ''b'' True None]
     (SetBalance 5 [demo_result ''a'' True None] (new_manager 0 :: nat manager))))) ''a'' = Some (demo_result ''a'' False None)"
proof -
  let ?m = "SetBalance 5 [demo_result ''a'' True None] (new_manager 0 :: nat manager)"
  have d: "distinct (map cr_project (bst_projects (Balance ?m)))" by (simp add: Balance_def SetBalance_def)
  from MergeBalance_overrides [OF d, of 9 "[demo_result ''a'' False None, demo_result ''b'' True None]"]
  show ?thesis by (simp add: Let_def) (simp add: demo_result_def)
qed

text \<open>The time of the last update moves only when a balance was freshly read (or there is none to
  read): a refresh in which every provider failed leaves it alone.\<close>

theorem last_update_is_a_read:
  assumes "op_step m m'" "bst_last_update (Balance m') \<noteq> bst_last_update (Balance m)"
  shows "\<exists>now rs. bst_last_update (Balance m') = Some (now_iso now) \<and>
    (m' = SetBalance now rs m \<and> (rs = [] \<or> anySucceeded rs) \<or> m' = MergeBalance now rs m \<and> anySucceeded rs)"
  using assms(1)
proof cases
  case (set_balance now rs)
  then have "rs = [] \<or> anySucceeded rs" "bst_last_update (Balance m') = Some (now_iso now)"
    using assms(2) by (auto simp: Balance_def SetBalance_def split: if_splits)
  with set_balance show ?thesis by blast
next
  case (merge_balance now rs)
  then have "anySucceeded rs" "bst_last_update (Balance m') = Some (now_iso now)"
    using assms(2) by (auto simp: Balance_def MergeBalance_def split: if_splits)
  with merge_balance show ?thesis by blast
qed (use assms(2) in \<open>auto simp: Balance_def RemoveBalanceProject_def SetSubscriptions_def SetEmailScan_def
      RegisterJob_def RecordJobRun_def Let_def split: prod.splits if_splits\<close>)

theorem last_update_is_a_read_witness:
  "\<exists>now. bst_last_update (Balance (SetBalance 5 [demo_result ''a'' True None] (new_manager 0 :: nat manager))) = Some (now_iso now)"
proof -
  let ?m = "SetBalance 5 [demo_result ''a'' True None] (new_manager 0 :: nat manager)"
  have "bst_last_update (Balance ?m) \<noteq> bst_last_update (Balance (new_manager 0 :: nat manager))"
    by (simp add: Balance_def SetBalance_def new_manager_def demo_result_def)
  from last_update_is_a_read [OF set_balance this] show ?thesis by blast
qed

text \<open>The job report is healthy exactly when no job is cited as failed, and the cited jobs are the
  enabled ones whose last run failed.\<close>

theorem healthy_iff_none_failed:
  assumes "reachable m"
  shows "(js_healthy (Jobs m) \<longleftrightarrow> FailedJobs m = []) \<and>
    FailedJobs m = map job_name (filter failing (js_jobs (Jobs m)))"
proof -
  have "job_name (the (mg_jobs m n)) = n" if "n \<in> set (mg_order m)" for n
    using that reachable_ok [OF assms] by (auto simp: jobs_ok_def job_ok_def)
  then have "map job_name (filter failing (js_jobs (Jobs m))) = FailedJobs m"
    by (auto simp: Jobs_def FailedJobs_def Let_def filter_map o_def intro!: map_idI)
  moreover have "js_healthy (Jobs m) \<longleftrightarrow> FailedJobs m = []"
    by (auto simp: Jobs_def FailedJobs_def list_ex_iff filter_empty_conv)
  ultimately show ?thesis by simp
qed

theorem healthy_iff_none_failed_witness: "\<not> js_healthy (Jobs demo_manager) \<and> FailedJobs demo_manager = [''refresh'']"
proof -
  have r: "reachable demo_manager"
    unfolding demo_manager_def by (intro reachable.step [OF _ record_job_run] reachable.step [OF _ set_balance] start)
  have f: "FailedJobs demo_manager = [''refresh'']"
    by (simp add: demo_manager_def RecordJobRun_def SetBalance_def new_manager_def find_job_def setBalanceLocked_def Let_def
        FailedJobs_def failing_def record_run_def fresh_job_def)
  show ?thesis using healthy_iff_none_failed [OF r] f by simp
qed

end
