(* ===== verification/McpKeys.thy ===== *)
theory McpKeys
  imports GoParse
begin

text \<open>
  \<open>internal/config/mcpkeys.go\<close>: the scoped, read-only credentials of agents.  A set of scopes is
  the source's map from scope to true; an expiry is an instant in nanoseconds.
\<close>

section \<open>Scopes and callers\<close>

definition ScopeBalance :: gostring where "ScopeBalance = ''balance''"
definition ScopeAlerts :: gostring where "ScopeAlerts = ''alerts''"
definition ScopeSubscriptions :: gostring where "ScopeSubscriptions = ''subscriptions''"
definition ScopeEmail :: gostring where "ScopeEmail = ''email''"
definition ScopeConfig :: gostring where "ScopeConfig = ''config''"

definition AllScopes :: "gostring list" where
  "AllScopes = [ScopeBalance, ScopeAlerts, ScopeSubscriptions, ScopeEmail, ScopeConfig]"

record mcp_key =
  mk_name :: gostring
  mk_key :: gostring
  mk_scopes :: "gostring set"
  mk_expires :: "int option"

definition Expired :: "mcp_key \<Rightarrow> int \<Rightarrow> bool" where
  "Expired k now = (case mk_expires k of None \<Rightarrow> False | Some t \<Rightarrow> \<not> now < t)"

record mcp_caller =
  mc_name :: gostring
  mc_scopes :: "gostring set"

definition Allows :: "mcp_caller \<Rightarrow> gostring \<Rightarrow> bool" where "Allows c scope = (scope \<in> mc_scopes c)"

definition FullMCPCaller :: "gostring \<Rightarrow> mcp_caller" where
  "FullMCPCaller name = \<lparr>mc_name = name, mc_scopes = set AllScopes\<rparr>"

section \<open>Reading \<open>MCP_API_KEYS\<close>\<close>

definition minMCPKeyLength :: nat where "minMCPKeyLength = 16"

text \<open>\<open>^[A-Za-z0-9_.-]{1,40}$\<close>.\<close>

definition name_char :: "char \<Rightarrow> bool" where
  "name_char c \<longleftrightarrow> is_digit c \<or> 65 \<le> byte c \<and> byte c \<le> 90 \<or> 97 \<le> byte c \<and> byte c \<le> 122 \<or>
     c = CHR ''_'' \<or> c = CHR ''.'' \<or> c = CHR ''-''"

definition mcpKeyName :: "gostring \<Rightarrow> bool" where
  "mcpKeyName s \<longleftrightarrow> 1 \<le> length s \<and> length s \<le> 40 \<and> list_all name_char s"

fun scopes_loop :: "gostring list \<Rightarrow> gostring set \<Rightarrow> goerror + gostring set" where
  "scopes_loop [] acc = Inr acc"
| "scopes_loop (p # ps) acc = (let scope = to_lower (trim_space p) in
     if scope = [] then scopes_loop ps acc
     else if scope = ''all'' then scopes_loop ps (acc \<union> set AllScopes)
     else if scope \<in> set AllScopes then scopes_loop ps (insert scope acc)
     else Inl (''unknown scope '' @ quote scope @ ''; use '' @ join '', '' AllScopes @ '' or all''))"

definition parseScopes :: "gostring \<Rightarrow> goerror + gostring set" where
  "parseScopes raw = (case scopes_loop (split_on (CHR '','') raw) {} of Inl e \<Rightarrow> Inl e
     | Inr ss \<Rightarrow> if ss = {} then Inl ''no scopes given'' else Inr ss)"

definition parseExpiry :: "gostring \<Rightarrow> goerror + int" where
  "parseExpiry raw = (case parse_date_in raw utc_zone of Some day \<Rightarrow> Inr (t_ns (t_add day (24 * hour)))
     | None \<Rightarrow> (case parse_rfc3339 raw of Some t \<Rightarrow> Inr t
         | None \<Rightarrow> Inl (''expiry '' @ quote raw @ '' must be YYYY-MM-DD or an RFC 3339 time'')))"

definition redactEntry :: "gostring \<Rightarrow> gostring" where
  "redactEntry entry = (case cut entry '':'' of Some (name, _) \<Rightarrow> name @ '':***'' | None \<Rightarrow> ''***'')"

text \<open>One entry: its parts, and the checks against the names and keys already seen.\<close>

definition entry_parts :: "gostring \<Rightarrow> gostring list" where
  "entry_parts entry = (let parts = split_on (CHR '':'') entry in
     if 4 < length parts then take 3 parts @ [join '':'' (drop 3 parts)] else parts)"

definition env_error :: "gostring \<Rightarrow> goerror" where "env_error e = ''MCP_API_KEYS: '' @ e"

definition key_error :: "gostring \<Rightarrow> gostring set \<Rightarrow> gostring set \<Rightarrow> gostring \<Rightarrow> goerror option" where
  "key_error name names secrets key =
     (if \<not> mcpKeyName name then
        Some (env_error (''key name '' @ quote name @ '' may only use letters, digits, '' @ [CHR 0x27]
          @ ''.'' @ [CHR 0x27] @ '', '' @ [CHR 0x27] @ ''_'' @ [CHR 0x27] @ '' and '' @ [CHR 0x27] @ ''-'' @ [CHR 0x27] @ '' (up to 40)''))
      else if length key < minMCPKeyLength \<or> CHR '' '' \<in> set key \<or> CHR 0x09 \<in> set key then
        Some (env_error (''the key for '' @ quote name @ '' must be at least '' @ itoa (int minMCPKeyLength)
          @ '' characters without spaces''))
      else if name \<in> names then Some (env_error (''key name '' @ quote name @ '' is used twice''))
      else if key \<in> secrets then Some (env_error (quote name @ '' reuses another entry'' @ [CHR 0x27] @ ''s key''))
      else None)"

text \<open>The part at an index, when it is there and not blank.\<close>

definition part_at :: "gostring list \<Rightarrow> nat \<Rightarrow> gostring option" where
  "part_at parts i = (if i < length parts \<and> trim_space (parts ! i) \<noteq> [] then Some (parts ! i) else None)"

definition parse_entry :: "gostring \<Rightarrow> gostring set \<Rightarrow> gostring set \<Rightarrow> goerror + mcp_key" where
  "parse_entry entry names secrets = (let parts = entry_parts entry in
     if length parts < 2 then
       Inl (env_error (quote (redactEntry entry) @ '' must look like name:key[:scopes[:expires]]''))
     else let name = trim_space (parts ! 0); key = trim_space (parts ! 1) in
       case key_error name names secrets key of Some e \<Rightarrow> Inl e
       | None \<Rightarrow> (case parseScopes (case part_at parts 2 of None \<Rightarrow> ''all'' | Some s \<Rightarrow> s) of
           Inl e \<Rightarrow> Inl (env_error (quote name @ '': '' @ e))
         | Inr scopes \<Rightarrow> (case part_at parts 3 of
             None \<Rightarrow> Inr \<lparr>mk_name = name, mk_key = key, mk_scopes = scopes, mk_expires = None\<rparr>
           | Some x \<Rightarrow> (case parseExpiry (trim_space x) of
               Inl e \<Rightarrow> Inl (env_error (quote name @ '': '' @ e))
             | Inr t \<Rightarrow> Inr \<lparr>mk_name = name, mk_key = key, mk_scopes = scopes, mk_expires = Some t\<rparr>))))"

fun keys_loop :: "gostring list \<Rightarrow> gostring set \<Rightarrow> gostring set \<Rightarrow> mcp_key list \<Rightarrow> goerror + mcp_key list" where
  "keys_loop [] names secrets keys = Inr keys"
| "keys_loop (e # es) names secrets keys = (let entry = trim_space e in
     if entry = [] then keys_loop es names secrets keys
     else case parse_entry entry names secrets of Inl err \<Rightarrow> Inl err
       | Inr k \<Rightarrow> keys_loop es (insert (mk_name k) names) (insert (mk_key k) secrets) (keys @ [k]))"

definition ParseMCPKeys :: "gostring \<Rightarrow> goerror + mcp_key list" where
  "ParseMCPKeys raw =
     keys_loop (fields_func (\<lambda>c. c = CHR '';'' \<or> c = CHR 0x0A) [] raw) {} {} []"

section \<open>What a parsed key is like\<close>

definition wf_key :: "mcp_key \<Rightarrow> bool" where
  "wf_key k \<longleftrightarrow> mcpKeyName (mk_name k) \<and> minMCPKeyLength \<le> length (mk_key k) \<and>
     CHR '' '' \<notin> set (mk_key k) \<and> CHR 0x09 \<notin> set (mk_key k) \<and> mk_scopes k \<noteq> {} \<and> mk_scopes k \<subseteq> set AllScopes"

lemma scopes_loop_subset: "scopes_loop ps acc = Inr ss \<Longrightarrow> acc \<subseteq> set AllScopes \<Longrightarrow> ss \<subseteq> set AllScopes"
  by (induction ps arbitrary: acc) (auto simp: Let_def split: if_split_asm)

lemma parseScopes_ok: "parseScopes raw = Inr ss \<Longrightarrow> ss \<noteq> {} \<and> ss \<subseteq> set AllScopes"
  using scopes_loop_subset [of "split_on (CHR '','') raw" "{}"]
  by (auto simp: parseScopes_def split: sum.splits if_splits)

lemma key_error_None:
  "key_error name names secrets key = None \<longleftrightarrow> mcpKeyName name \<and> minMCPKeyLength \<le> length key \<and>
     CHR '' '' \<notin> set key \<and> CHR 0x09 \<notin> set key \<and> name \<notin> names \<and> key \<notin> secrets"
  by (auto simp: key_error_def not_less)

lemma parse_entry_ok:
  "parse_entry entry names secrets = Inr k \<Longrightarrow> wf_key k \<and> mk_name k \<notin> names \<and> mk_key k \<notin> secrets"
  by (auto simp: parse_entry_def Let_def wf_key_def key_error_None dest!: parseScopes_ok split: if_split_asm option.split_asm sum.split_asm)

lemma keys_loop_ok:
  "keys_loop es names secrets ks = Inr out \<Longrightarrow> \<forall>k \<in> set ks. wf_key k \<Longrightarrow>
   distinct (map mk_name ks) \<Longrightarrow> distinct (map mk_key ks) \<Longrightarrow> names = mk_name ` set ks \<Longrightarrow> secrets = mk_key ` set ks \<Longrightarrow>
   (\<forall>k \<in> set out. wf_key k) \<and> distinct (map mk_name out) \<and> distinct (map mk_key out)"
proof (induction es arbitrary: names secrets ks)
  case (Cons e es)
  show ?case
  proof (cases "trim_space e = []")
    case True
    with Cons show ?thesis by simp
  next
    case False
    with Cons.prems(1) obtain k where k: "parse_entry (trim_space e) names secrets = Inr k"
      "keys_loop es (insert (mk_name k) names) (insert (mk_key k) secrets) (ks @ [k]) = Inr out"
      by (auto simp: Let_def split: sum.splits)
    from Cons.IH [OF k(2)] parse_entry_ok [OF k(1)] Cons.prems show ?thesis by auto
  qed
qed simp

section \<open>Printing keys the documented way\<close>

definition print_key :: "mcp_key \<Rightarrow> gostring list \<Rightarrow> gostring" where
  "print_key k ss = mk_name k @ '':'' @ mk_key k @ '':'' @ join '','' ss @
     (case mk_expires k of None \<Rightarrow> [] | Some t \<Rightarrow> '':'' @ fmt_rfc3339nano (utc_at t))"

definition printable :: "mcp_key \<Rightarrow> gostring list \<Rightarrow> bool" where
  "printable k ss \<longleftrightarrow> mcpKeyName (mk_name k) \<and> minMCPKeyLength \<le> length (mk_key k) \<and>
     (\<forall>c \<in> set (mk_key k). graphic c \<and> c \<noteq> CHR '':'' \<and> c \<noteq> CHR '';'') \<and>
     ss \<noteq> [] \<and> set ss \<subseteq> set AllScopes \<and> mk_scopes k = set ss \<and>
     (case mk_expires k of None \<Rightarrow> True | Some t \<Rightarrow> 0 \<le> t_year (utc_at t) \<and> t_year (utc_at t) < 10000)"

lemma name_char_facts: "name_char c \<Longrightarrow> graphic c \<and> c \<noteq> CHR '':'' \<and> c \<noteq> CHR '';'' \<and> c \<noteq> CHR '','' \<and> c \<noteq> CHR 0x0A"
  by (auto simp: name_char_def graphic_def is_digit_def byte_def)

lemma trim_all_graphic: "s \<noteq> [] \<Longrightarrow> \<forall>c \<in> set s. graphic c \<Longrightarrow> trim_space s = s"
  by (rule trim_space_graphic) auto

lemma scope_chars: "s \<in> set AllScopes \<Longrightarrow> s \<noteq> [] \<and> list_all (\<lambda>c. name_char c \<and> lower_char c = c) s"
  by (auto simp: AllScopes_def ScopeBalance_def ScopeAlerts_def ScopeSubscriptions_def ScopeEmail_def ScopeConfig_def
      name_char_def lower_char_def byte_def is_digit_def)

lemma all_not_scope: "''all'' \<notin> set AllScopes"
  by (simp add: AllScopes_def ScopeBalance_def ScopeAlerts_def ScopeSubscriptions_def ScopeEmail_def ScopeConfig_def)

lemma scope_cleaned: "s \<in> set AllScopes \<Longrightarrow> to_lower (trim_space s) = s"
proof -
  assume a: "s \<in> set AllScopes"
  from scope_chars [OF a] have "trim_space s = s" by (intro trim_all_graphic) (auto simp: list_all_iff dest: name_char_facts)
  with scope_chars [OF a] show ?thesis by (simp add: to_lower_def list_all_iff map_idI)
qed

lemma scopes_loop_print: "set ss \<subseteq> set AllScopes \<Longrightarrow> scopes_loop ss acc = Inr (acc \<union> set ss)"
  using scope_chars all_not_scope by (induction ss arbitrary: acc) (auto simp: Let_def scope_cleaned)

lemma parseScopes_print: "ss \<noteq> [] \<Longrightarrow> set ss \<subseteq> set AllScopes \<Longrightarrow> parseScopes (join '','' ss) = Inr (set ss)"
proof -
  assume a: "ss \<noteq> []" "set ss \<subseteq> set AllScopes"
  have "split_on (CHR '','') (join '','' ss) = ss"
    using a scope_chars by (intro split_on_join) (auto simp: list_all_iff dest: name_char_facts)
  then show ?thesis using a by (simp add: parseScopes_def scopes_loop_print)
qed

lemma scopes_text: "set ss \<subseteq> set AllScopes \<Longrightarrow> c \<in> set (join '','' ss) \<Longrightarrow> name_char c \<or> c = CHR '',''"
  using join_chars [of c "'',''" ss] scope_chars by (auto simp: list_all_iff)

lemma time_text_chars: "c \<in> set (fmt_rfc3339nano t) \<Longrightarrow> is_digit c \<or> c \<in> set ''-T:.Z+''"
proof -
  have p: "c \<in> set (pad_int k n) \<Longrightarrow> is_digit c \<or> c = CHR ''-''" for k n
    using nat_digits_are_digits zero_is_digit by (auto simp: pad_int_def Let_def list_all_iff split: if_splits)
  have f: "c \<in> set (fmt_frac k n) \<Longrightarrow> is_digit c \<or> c = CHR ''-'' \<or> c = CHR ''.''" for k n
    using p [of k n] by (auto simp: fmt_frac_def dest: set_dropWhileD split: if_splits)
  assume "c \<in> set (fmt_rfc3339nano t)"
  then show ?thesis using p f
    by (auto simp: fmt_rfc3339nano_def fmt_date_def fmt_civil_def fmt_year_def fmt_clock_def fmt_offset_def Let_def
        split: prod.splits if_splits)
qed

lemma graphic_not: "graphic c \<Longrightarrow> c \<noteq> CHR 0x0A \<and> c \<noteq> CHR 0x09 \<and> c \<noteq> CHR '' ''"
  by (auto simp: graphic_def byte_def)

lemma time_text_graphic: "c \<in> set (fmt_rfc3339nano t) \<Longrightarrow> graphic c \<and> c \<noteq> CHR '';''"
  using time_text_chars [of c t] by (auto simp: is_digit_def graphic_def byte_def)

lemma time_text_length: "10 < length (fmt_rfc3339nano t)"
proof -
  have y: "4 \<le> length (fmt_year y)" for y by (auto simp: fmt_year_def pad_int_def Let_def)
  have p: "2 \<le> length (pad_int 2 n)" for n by (auto simp: pad_int_def Let_def)
  obtain a b c where "t_civil t = (a, b, c)" by (cases "t_civil t") auto
  then have "16 \<le> length (fmt_date t @ ''T'' @ fmt_clock t)"
    using y [of "t_year t"] p [of "t_month t"] p [of "t_day t"] p [of "t_hour t"] p [of "t_minute t"] p [of "t_second t"]
    by (simp add: fmt_date_def fmt_civil_def fmt_clock_def t_year_def t_month_def t_day_def split: prod.split)
  then show ?thesis by (simp add: fmt_rfc3339nano_def)
qed

lemma parseExpiry_print:
  assumes "0 \<le> t_year (utc_at t)" "t_year (utc_at t) < 10000"
  shows "parseExpiry (trim_space (fmt_rfc3339nano (utc_at t))) = Inr t"
proof -
  have "fmt_rfc3339nano (utc_at t) \<noteq> []" using time_text_length [of "utc_at t"] by auto
  then have "trim_space (fmt_rfc3339nano (utc_at t)) = fmt_rfc3339nano (utc_at t)"
    using time_text_graphic by (intro trim_all_graphic) auto
  moreover have "parse_date_in (fmt_rfc3339nano (utc_at t)) utc_zone = None"
    using time_text_length [of "utc_at t"] by (simp add: parse_date_in_def parse_civil_def)
  moreover have "parse_rfc3339 (fmt_rfc3339nano (utc_at t)) = Some t"
    using parse_rfc3339_nano [of "utc_at t"] assms by (simp add: utc_at_def)
  ultimately show ?thesis by (simp add: parseExpiry_def)
qed

lemma entry_parts_print:
  assumes "printable k ss"
  shows "entry_parts (print_key k ss) = [mk_name k, mk_key k, join '','' ss] @
    (case mk_expires k of None \<Rightarrow> [] | Some t \<Rightarrow> [fmt_rfc3339nano (utc_at t)])"
proof -
  have n: "CHR '':'' \<notin> set (mk_name k)" using assms by (auto simp: printable_def mcpKeyName_def list_all_iff dest: name_char_facts)
  have m: "CHR '':'' \<notin> set (mk_key k)" using assms by (auto simp: printable_def)
  have s: "CHR '':'' \<notin> set (join '','' ss)" using assms scopes_text [of ss] by (auto simp: printable_def dest: name_char_facts)
  show ?thesis
  proof (cases "mk_expires k")
    case None
    then show ?thesis using split_on_append [OF n] split_on_append [OF m] split_on_none [OF s]
      by (simp add: print_key_def entry_parts_def Let_def)
  next
    case (Some t)
    let ?ts = "split_on (CHR '':'') (fmt_rfc3339nano (utc_at t))"
    have e: "split_on (CHR '':'') (print_key k ss) = [mk_name k, mk_key k, join '','' ss] @ ?ts"
      using Some split_on_append [OF n] split_on_append [OF m] split_on_append [OF s] by (simp add: print_key_def)
    obtain a as where ts: "?ts = a # as" by (cases ?ts) simp_all
    have j: "join '':'' (a # as) = fmt_rfc3339nano (utc_at t)"
      unfolding ts [symmetric] by (rule join_split_on)
    show ?thesis unfolding entry_parts_def e ts using j Some by (cases as) (simp_all add: Let_def)
  qed
qed

lemma print_key_chars:
  assumes "printable k ss" "c \<in> set (print_key k ss)"
  shows "graphic c \<and> c \<noteq> CHR '';''"
proof -
  have "c \<in> set (mk_name k) \<or> c \<in> set (mk_key k) \<or> c \<in> set (join '','' ss) \<or> c = CHR '':'' \<or>
      (\<exists>t. c \<in> set (fmt_rfc3339nano (utc_at t)))"
    using assms(2) by (auto simp: print_key_def split: option.splits)
  moreover have "graphic (CHR '':'')" "graphic (CHR '','')" by (simp_all add: graphic_def byte_def)
  moreover have "c \<in> set (mk_name k) \<Longrightarrow> name_char c" using assms(1) by (auto simp: printable_def mcpKeyName_def list_all_iff)
  moreover have "c \<in> set (join '','' ss) \<Longrightarrow> name_char c \<or> c = CHR '',''" using assms(1) scopes_text by (auto simp: printable_def)
  moreover have "c \<in> set (mk_key k) \<Longrightarrow> graphic c \<and> c \<noteq> CHR '';''" using assms(1) by (auto simp: printable_def)
  ultimately show ?thesis using name_char_facts [of c] time_text_graphic [of c] by auto
qed

lemma parse_entry_print:
  assumes "printable k ss" "mk_name k \<notin> names" "mk_key k \<notin> secrets"
  shows "parse_entry (print_key k ss) names secrets = Inr k"
proof -
  have ne: "mk_name k \<noteq> []" "mk_key k \<noteq> []" "ss \<noteq> []" "set ss \<subseteq> set AllScopes"
    using assms(1) unfolding printable_def mcpKeyName_def minMCPKeyLength_def by force+
  have g: "\<forall>c \<in> set (mk_name k). graphic c" "\<forall>c \<in> set (mk_key k). graphic c"
    using assms(1) name_char_facts by (auto simp: printable_def mcpKeyName_def list_all_iff)
  have t: "trim_space (mk_name k) = mk_name k" "trim_space (mk_key k) = mk_key k"
    by (rule trim_all_graphic [OF ne(1) g(1)], rule trim_all_graphic [OF ne(2) g(2)])
  have sp: "CHR '' '' \<notin> set (mk_key k)" "CHR 0x09 \<notin> set (mk_key k)"
    using assms(1) graphic_not by (auto simp: printable_def)
  have ke: "key_error (mk_name k) names secrets (mk_key k) = None"
    using assms sp by (simp add: key_error_None printable_def)
  have comma: "graphic (CHR '','')" by (simp add: graphic_def byte_def)
  have j: "join '','' ss \<noteq> []" "\<forall>c \<in> set (join '','' ss). graphic c"
  proof -
    show "join '','' ss \<noteq> []" using ne scope_chars by (cases ss; cases "tl ss") auto
    show "\<forall>c \<in> set (join '','' ss). graphic c"
      using scopes_text [OF ne(4)] name_char_facts comma by blast
  qed
  have p2: "trim_space (join '','' ss) \<noteq> []" using trim_all_graphic [OF j] j by simp
  have sc: "parseScopes (join '','' ss) = Inr (mk_scopes k)"
    using parseScopes_print [OF ne(3,4)] assms(1) by (simp add: printable_def)
  show ?thesis
  proof (cases "mk_expires k")
    case None
    then show ?thesis using entry_parts_print [OF assms(1)] t ke p2 sc
      by (simp add: parse_entry_def Let_def part_at_def)
  next
    case (Some e)
    then have pe: "parseExpiry (trim_space (fmt_rfc3339nano (utc_at e))) = Inr e"
      using assms(1) by (intro parseExpiry_print) (simp_all add: printable_def)
    have "fmt_rfc3339nano (utc_at e) \<noteq> []" using time_text_length [of "utc_at e"] by auto
    then have "trim_space (fmt_rfc3339nano (utc_at e)) \<noteq> []"
      using time_text_graphic trim_all_graphic [of "fmt_rfc3339nano (utc_at e)"] by metis
    then show ?thesis using entry_parts_print [OF assms(1)] t ke p2 sc pe Some
      by (simp add: parse_entry_def Let_def part_at_def)
  qed
qed

lemma fields_func_skip: "\<forall>c \<in> set s. \<not> p c \<Longrightarrow> fields_func p acc (s @ r) = fields_func p (rev s @ acc) r"
  by (induction s arbitrary: acc) auto

lemma fields_func_join:
  "\<forall>s \<in> set ss. s \<noteq> [] \<and> (\<forall>c \<in> set s. \<not> p c) \<Longrightarrow> p d \<Longrightarrow> fields_func p [] (join [d] ss) = ss"
proof (induction "[d]" ss rule: join.induct)
  case (2 s)
  then show ?case using fields_func_skip [of s p "[]" "[]"] by simp
next
  case (3 s s' ss)
  then show ?case using fields_func_skip [of s p "[]" "d # join [d] (s' # ss)"] by simp
qed simp

lemma keys_loop_print:
  "\<forall>(k, ss) \<in> set ps. printable k ss \<Longrightarrow> distinct (map (mk_name \<circ> fst) ps) \<Longrightarrow> distinct (map (mk_key \<circ> fst) ps) \<Longrightarrow>
   names \<inter> (mk_name \<circ> fst) ` set ps = {} \<Longrightarrow> secrets \<inter> (mk_key \<circ> fst) ` set ps = {} \<Longrightarrow>
   keys_loop (map (\<lambda>(k, ss). print_key k ss) ps) names secrets ks = Inr (ks @ map fst ps)"
proof (induction ps arbitrary: names secrets ks)
  case (Cons p ps)
  obtain k ss where p: "p = (k, ss)" by fastforce
  have pr: "printable k ss" using Cons.prems p by auto
  have ne: "print_key k ss \<noteq> []" by (simp add: print_key_def)
  then have t: "trim_space (print_key k ss) = print_key k ss"
    using print_key_chars [OF pr] by (intro trim_all_graphic) auto
  have pe: "parse_entry (print_key k ss) names secrets = Inr k"
    using Cons.prems p by (intro parse_entry_print [OF pr]) auto
  have IH: "keys_loop (map (\<lambda>(k, ss). print_key k ss) ps) (insert (mk_name k) names) (insert (mk_key k) secrets) (ks @ [k])
      = Inr ((ks @ [k]) @ map fst ps)"
    using Cons.prems p by (intro Cons.IH) (auto simp: image_iff)
  show ?case using IH ne t pe by (simp add: p Let_def)
qed simp

section \<open>Properties\<close>

text \<open>A key list that is accepted has distinct names and distinct secrets; each secret has at least 16
  characters and no blank, and each key has some scope and none that does not exist.\<close>

theorem ParseMCPKeys_wf:
  assumes "ParseMCPKeys raw = Inr ks"
  shows "distinct (map mk_name ks) \<and> distinct (map mk_key ks) \<and> (\<forall>k \<in> set ks. wf_key k)"
  using keys_loop_ok [of "fields_func (\<lambda>c. c = CHR '';'' \<or> c = CHR 0x0A) [] raw" "{}" "{}" "[]" ks] assms
  by (simp add: ParseMCPKeys_def)


definition demo_key :: mcp_key where
  "demo_key = \<lparr>mk_name = ''agent'', mk_key = ''0123456789abcdef'', mk_scopes = {ScopeBalance, ScopeEmail}, mk_expires = Some 0\<rparr>"

lemma demo_key_printable: "printable demo_key [ScopeBalance, ScopeEmail]"
proof -
  have y: "0 \<le> t_year (utc_at 0)" "t_year (utc_at 0) < 10000" by code_simp+
  have k: "list_all (\<lambda>c. graphic c \<and> c \<noteq> CHR '':'' \<and> c \<noteq> CHR '';'') (mk_key demo_key)" by code_simp
  have n: "mcpKeyName (mk_name demo_key)" by code_simp
  show ?thesis using y k n by (simp add: printable_def demo_key_def list_all_iff AllScopes_def minMCPKeyLength_def)
qed

lemma demo_key_parses: "ParseMCPKeys (print_key demo_key [ScopeBalance, ScopeEmail]) = Inr [demo_key]"
  using keys_loop_print [of "[(demo_key, [ScopeBalance, ScopeEmail])]" "{}" "{}" "[]"] demo_key_printable
    fields_func_join [of "[print_key demo_key [ScopeBalance, ScopeEmail]]" "\<lambda>c. c = CHR '';'' \<or> c = CHR 0x0A" "CHR '';''"]
    print_key_chars [OF demo_key_printable]
  graphic_not by (simp add: ParseMCPKeys_def) (auto simp: print_key_def)


theorem ParseMCPKeys_wf_witness: "wf_key demo_key"
  using ParseMCPKeys_wf [OF demo_key_parses] by simp

lemma le_div_iff_int: "0 < (k :: int) \<Longrightarrow> m \<le> n div k \<longleftrightarrow> m * k \<le> n"
  using int_div_less [of k n m] zdiv_mono1 [of "m * k" n k] by fastforce

lemma midnight_utc: "t_ns (midnight utc_zone n) = n * 86400 * second"
proof -
  have "t_sec (midnight utc_zone n) = n * 86400"
    using local_sec_midnight [of utc_zone n] by (simp add: local_sec_def utc_zone_def)
  moreover have "t_nsec (midnight utc_zone n) = 0" by simp
  moreover have "t_ns t = t_sec t * second + t_nsec t" for t by (simp add: t_sec_def t_nsec_def)
  ultimately show ?thesis by simp
qed

text \<open>A key given by a date is valid through that whole day in UTC and expired from the next midnight
  on.\<close>

theorem expiry_date_is_inclusive:
  assumes "parse_civil raw = Some (y, m, d)"
  shows "\<exists>t. parseExpiry raw = Inr t \<and> (\<forall>k now. mk_expires k = Some t \<longrightarrow>
    (Expired k now \<longleftrightarrow> day_number y m d < local_day (utc_at now)))"
proof -
  define n where "n = day_number y m d"
  define t where "t = (n + 1) * 86400 * second"
  have "parseExpiry raw = Inr t"
    using assms by (simp add: parseExpiry_def parse_date_in_def date_time_midnight t_add_def midnight_utc t_def n_def algebra_simps)
  moreover have e: "t \<le> now \<longleftrightarrow> n < local_day (utc_at now)" for now
  proof -
    have "n < local_day (utc_at now) \<longleftrightarrow> n + 1 \<le> now div second div 86400"
      by (simp add: local_day_def local_sec_def utc_at_def utc_zone_def t_sec_def zless_iff_Suc_zadd add1_zle_eq)
    also have "\<dots> \<longleftrightarrow> t \<le> now" by (simp add: le_div_iff_int t_def)
    finally show ?thesis by simp
  qed
  moreover have "Expired k now \<longleftrightarrow> t \<le> now" if "mk_expires k = Some t" for k now
    unfolding Expired_def that option.case not_less ..
  ultimately show ?thesis unfolding n_def by blast
qed

theorem expiry_date_is_inclusive_witness:
  "\<exists>t. parseExpiry ''2026-09-30'' = Inr t \<and> \<not> Expired (demo_key\<lparr>mk_expires := Some t\<rparr>) (20726 * 86400 * second)
    \<and> Expired (demo_key\<lparr>mk_expires := Some t\<rparr>) (20727 * 86400 * second)"
proof -
  have c: "parse_civil ''2026-09-30'' = Some (2026, 9, 30)" and n: "day_number 2026 9 30 = 20726" by code_simp+
  have l: "local_day (utc_at (k * 86400 * second)) = k" for k
    by (simp add: local_day_def local_sec_def utc_at_def utc_zone_def t_sec_def)
  from expiry_date_is_inclusive [OF c] obtain t where t: "parseExpiry ''2026-09-30'' = Inr t"
    "\<And>k now. mk_expires k = Some t \<Longrightarrow> Expired k now \<longleftrightarrow> day_number 2026 9 30 < local_day (utc_at now)" by blast
  have "mk_expires (demo_key\<lparr>mk_expires := Some t\<rparr>) = Some t" by simp
  note e = t(2) [OF this, unfolded n]
  have "\<not> Expired (demo_key\<lparr>mk_expires := Some t\<rparr>) (20726 * 86400 * second)"
    "Expired (demo_key\<lparr>mk_expires := Some t\<rparr>) (20727 * 86400 * second)" unfolding e l by simp_all
  then show ?thesis using t(1) by blast
qed

end
