(* ===== verification/GoNum.thy ===== *)
theory GoNum
  imports GoFloat
begin

text \<open>
  \<open>strconv.ParseFloat(s, 64)\<close>: decimal and hexadecimal numbers with an optional exponent and
  underscores between digits, infinities and NaN.  \<open>None\<close> is an error, of syntax or of range.
\<close>

definition hex_digit_val :: "char \<Rightarrow> nat option" where
  "hex_digit_val c = (let n = byte (lower_char c) in
     if is_digit c then Some (digit_val c) else if 97 \<le> n \<and> n \<le> 102 then Some (n - 87) else None)"

text \<open>\<open>underscoreOK\<close> after the sign and the base prefix: an underscore comes after a digit (or the
  prefix) and before one.\<close>

fun underscore_ok :: "bool \<Rightarrow> char \<Rightarrow> gostring \<Rightarrow> bool" where
  "underscore_ok hex saw [] = (saw \<noteq> CHR ''_'')"
| "underscore_ok hex saw (c # s) =
     (if is_digit c \<or> hex \<and> hex_digit_val c \<noteq> None then underscore_ok hex (CHR ''0'') s
      else if c = CHR ''_'' then saw = CHR ''0'' \<and> underscore_ok hex (CHR ''_'') s
      else saw \<noteq> CHR ''_'' \<and> underscore_ok hex (CHR ''!'') s)"

definition no_underscores :: "gostring \<Rightarrow> gostring" where
  "no_underscores s = filter (\<lambda>c. c \<noteq> CHR ''_'') s"

text \<open>The sign, if any, and the rest.\<close>

definition split_sign :: "gostring \<Rightarrow> bool \<times> gostring" where
  "split_sign s = (case s of [] \<Rightarrow> (False, [])
     | c # r \<Rightarrow> if c = CHR ''-'' then (True, r) else if c = CHR ''+'' then (False, r) else (False, s))"

text \<open>The exponent after its letter; it stops growing at 10000.\<close>

definition exp_digits :: "gostring \<Rightarrow> nat" where
  "exp_digits s = foldl (\<lambda>e c. if e < 10000 then 10 * e + digit_val c else e) 0 s"

definition parse_exponent :: "gostring \<Rightarrow> int option" where
  "parse_exponent s0 = (let (neg, s) = split_sign s0 in
     case s of [] \<Rightarrow> None
     | c # r \<Rightarrow> if \<not> is_digit c \<or> \<not> list_all (\<lambda>d. is_digit d \<or> d = CHR ''_'') r then None
         else let e = int (exp_digits (no_underscores s)) in Some (if neg then - e else e))"

definition is_mantissa :: "bool \<Rightarrow> char \<Rightarrow> bool" where
  "is_mantissa hex c \<longleftrightarrow> c = CHR ''_'' \<or> (if hex then hex_digit_val c \<noteq> None else is_digit c)"

definition mantissa_val :: "bool \<Rightarrow> gostring \<Rightarrow> nat" where
  "mantissa_val hex ds = (if hex then foldl (\<lambda>n c. 16 * n + the (hex_digit_val c)) 0 ds else digits_val ds)"

definition rat_pow :: "rat \<Rightarrow> int \<Rightarrow> rat" where
  "rat_pow b e = (if 0 \<le> e then b ^ nat e else 1 / b ^ nat (- e))"

text \<open>The number without its sign and, when hexadecimal, without its prefix.\<close>

definition parse_mantissa :: "bool \<Rightarrow> gostring \<Rightarrow> rat option" where
  "parse_mantissa hex s =
     (let ip = takeWhile (is_mantissa hex) s; r1 = dropWhile (is_mantissa hex) s;
          (fp, r2) = (case r1 of c # r \<Rightarrow> if c = CHR ''.'' then (takeWhile (is_mantissa hex) r, dropWhile (is_mantissa hex) r)
                        else ([], r1) | [] \<Rightarrow> ([], []));
          ds = no_underscores (ip @ fp); scale = int (length (no_underscores fp))
      in if ds = [] then None
         else case (case r2 of [] \<Rightarrow> if hex then None else Some 0
                | c # r \<Rightarrow> if lower_char c = (if hex then CHR ''p'' else CHR ''e'') then parse_exponent r else None) of
             None \<Rightarrow> None
           | Some e \<Rightarrow> Some (if hex then of_nat (mantissa_val hex ds) * rat_pow 2 (e - 4 * scale)
                             else of_nat (mantissa_val hex ds) * rat_pow 10 (e - scale)))"

definition with_sign :: "bool \<Rightarrow> f64 \<Rightarrow> f64" where
  "with_sign neg v = (if neg then fneg v else v)"

definition parse_float :: "gostring \<Rightarrow> f64 option" where
  "parse_float s =
     (let (neg, r) = split_sign s; w = to_lower r; hex = has_prefix w ''0x'';
          prefixed = (hex \<or> has_prefix w ''0b'' \<or> has_prefix w ''0o'')
      in if w = ''inf'' \<or> w = ''infinity'' then Some (with_sign neg PInf)
         else if to_lower s = ''nan'' then Some NaN
         else if CHR ''_'' \<in> set r \<and> \<not> underscore_ok hex (if prefixed then CHR ''0'' else CHR ''^'') (if prefixed then drop 2 r else r)
           then None
         else case parse_mantissa hex (if hex then drop 2 r else r) of
             None \<Rightarrow> None
           | Some x \<Rightarrow> (case rnd x of Fin v \<Rightarrow> Some (with_sign neg (Fin v)) | _ \<Rightarrow> None))"

lemma parse_float_nan: "parse_float ''nan'' = Some NaN"
  by code_simp

end
