(* ===== verification/Settings.thy ===== *)
theory Settings
  imports McpKeys GoNum Schedule
begin

text \<open>
  \<open>internal/config/settings.go\<close>: the settings read from the environment, a map from names to
  values.  A reader returns its value and the problem it adds to the report, if any.
\<close>

section \<open>Reading the environment\<close>

type_synonym env = "gostring \<Rightarrow> gostring option"

definition raw :: "env \<Rightarrow> gostring \<Rightarrow> gostring option" where
  "raw env key = (case env key of None \<Rightarrow> None
     | Some v \<Rightarrow> if trim_space v = [] then None else Some (trim_space v))"

type_synonym 'a reading = "'a \<times> goerror list"

definition env_text :: "env \<Rightarrow> gostring \<Rightarrow> gostring \<Rightarrow> gostring reading" where
  "env_text env key fallback = (case raw env key of Some v \<Rightarrow> (v, []) | None \<Rightarrow> (fallback, []))"

definition truthy :: "gostring list" where "truthy = [''1'', ''true'', ''yes'', ''on'', ''y'', ''t'']"
definition falsy :: "gostring list" where "falsy = [''0'', ''false'', ''no'', ''off'', ''n'', ''f'']"

definition env_boolean :: "env \<Rightarrow> gostring \<Rightarrow> bool \<Rightarrow> bool reading" where
  "env_boolean env key fallback = (case raw env key of None \<Rightarrow> (fallback, [])
     | Some v \<Rightarrow> if to_lower v \<in> set truthy then (True, [])
         else if to_lower v \<in> set falsy then (False, [])
         else (fallback, [key @ ''='' @ quote v @ '' is not a boolean; use true or false'']))"

definition env_integer :: "env \<Rightarrow> gostring \<Rightarrow> int \<Rightarrow> int reading" where
  "env_integer env key fallback = (case raw env key of None \<Rightarrow> (fallback, [])
     | Some v \<Rightarrow> (case atoi v of None \<Rightarrow> (fallback, [key @ ''='' @ quote v @ '' is not an integer'']) | Some n \<Rightarrow> (n, [])))"

definition env_optional_int :: "env \<Rightarrow> gostring \<Rightarrow> int option reading" where
  "env_optional_int env key = (case raw env key of None \<Rightarrow> (None, [])
     | Some v \<Rightarrow> (case atoi v of None \<Rightarrow> (None, [key @ ''='' @ quote v @ '' is not an integer'']) | Some n \<Rightarrow> (Some n, [])))"

definition env_number :: "env \<Rightarrow> gostring \<Rightarrow> f64 \<Rightarrow> f64 reading" where
  "env_number env key fallback = (case raw env key of None \<Rightarrow> (fallback, [])
     | Some v \<Rightarrow> (case parse_float v of None \<Rightarrow> (fallback, [key @ ''='' @ quote v @ '' is not a number'']) | Some f \<Rightarrow> (f, [])))"

definition problems_err :: "goerror list \<Rightarrow> goerror option" where
  "problems_err ps = (if ps = [] then None
     else Some (''Invalid environment variables:'' @ [CHR 0x0A] @ ''  '' @ join ([CHR 0x0A] @ ''  '') ps))"

section \<open>The settings\<close>

record settings =
  st_database :: bool
  st_dynamic :: bool
  st_history :: bool
  st_subscriptions :: bool
  st_email_scan :: bool
  st_prometheus :: bool
  st_web_alarm :: bool
  st_mcp :: bool
  st_mcp_keys :: "mcp_key list"
  st_scoped_only :: bool
  st_mcp_rate :: int
  st_refresh_interval :: "int option"
  st_max_concurrent :: "int option"
  st_cooldown :: "int option"
  st_sub_cooldown :: "int option"
  st_job_failures :: "int option"
  st_job_timeout :: "int option"
  st_retention :: "int option"
  st_backup_schedule :: gostring
  st_backup_times :: "clock_time list"
  st_backup_dir :: gostring
  st_backup_keep :: "int option"
  st_webhook_url :: gostring
  st_webhook_type :: gostring
  st_webhook_source :: gostring
  st_base_currency :: gostring
  st_fx_rates :: gostring
  st_alert_schedule :: gostring
  st_scan_schedule :: gostring
  st_scan_days :: int
  st_weekly_schedule :: gostring
  st_keywords :: gostring
  st_extra_keywords :: gostring
  st_burn_window :: int
  st_runway_days :: f64
  st_spike_ratio :: f64
  st_spike_min :: f64
  st_request_timeout :: int
  st_max_emails :: int
  st_cache_ttl :: int
  st_log_level :: gostring
  st_log_format :: gostring
  st_log_file :: gostring
  st_database_url :: gostring
  st_strict_db :: bool
  st_auto_encrypt :: bool
  st_encryption_key :: gostring
  st_web_port :: int
  st_metrics_port :: int
  st_version :: gostring
  st_cors :: bool
  st_cors_origins :: gostring
  st_web_key :: gostring
  st_shutdown_delay :: int
  st_alert_times :: "clock_time list"
  st_scan_times :: "clock_time list"
  st_weekly_times :: "clock_time list"
  st_weekly_days :: "int list"

definition DefaultRefreshInterval :: int where "DefaultRefreshInterval = 3600"
definition DefaultMaxConcurrent :: int where "DefaultMaxConcurrent = 20"
definition MaxConcurrentUpper :: int where "MaxConcurrentUpper = 50"
definition DefaultCooldownSeconds :: int where "DefaultCooldownSeconds = 86400"
definition DefaultJobFailureAlertThreshold :: int where "DefaultJobFailureAlertThreshold = 3"
definition DefaultJobTimeoutSeconds :: int where "DefaultJobTimeoutSeconds = 600"
definition DefaultHistoryRetentionDays :: int where "DefaultHistoryRetentionDays = 730"
definition DefaultBackupKeep :: int where "DefaultBackupKeep = 7"
definition DefaultBaseCurrency :: gostring where "DefaultBaseCurrency = ''CNY''"

text \<open>\<open>version\<close> is the one injected at build time.\<close>

definition read_settings :: "gostring \<Rightarrow> env \<Rightarrow> settings" where
  "read_settings version env = \<lparr>
     st_database = fst (env_boolean env ''ENABLE_DATABASE'' False),
     st_dynamic = fst (env_boolean env ''ENABLE_DYNAMIC_CONFIG'' False),
     st_history = fst (env_boolean env ''ENABLE_HISTORY_API'' False),
     st_subscriptions = fst (env_boolean env ''ENABLE_SUBSCRIPTIONS'' False),
     st_email_scan = fst (env_boolean env ''ENABLE_EMAIL_SCAN'' False),
     st_prometheus = fst (env_boolean env ''ENABLE_PROMETHEUS'' False),
     st_web_alarm = fst (env_boolean env ''ENABLE_WEB_ALARM'' False),
     st_mcp = fst (env_boolean env ''ENABLE_MCP'' False),
     st_mcp_keys = [],
     st_scoped_only = fst (env_boolean env ''MCP_REQUIRE_SCOPED_KEY'' False),
     st_mcp_rate = fst (env_integer env ''MCP_RATE_LIMIT_PER_MINUTE'' 120),
     st_refresh_interval = fst (env_optional_int env ''BALANCE_REFRESH_INTERVAL_SECONDS''),
     st_max_concurrent = fst (env_optional_int env ''MAX_CONCURRENT_CHECKS''),
     st_cooldown = fst (env_optional_int env ''ALERT_COOLDOWN_SECONDS''),
     st_sub_cooldown = fst (env_optional_int env ''SUBSCRIPTION_ALERT_COOLDOWN_SECONDS''),
     st_job_failures = fst (env_optional_int env ''JOB_FAILURE_ALERT_THRESHOLD''),
     st_job_timeout = fst (env_optional_int env ''JOB_TIMEOUT_SECONDS''),
     st_retention = fst (env_optional_int env ''HISTORY_RETENTION_DAYS''),
     st_backup_schedule = trim_space (fst (env_text env ''DB_BACKUP_SCHEDULE'' [])),
     st_backup_times = [],
     st_backup_dir = fst (env_text env ''DB_BACKUP_DIR'' ''backups''),
     st_backup_keep = fst (env_optional_int env ''DB_BACKUP_KEEP''),
     st_webhook_url = fst (env_text env ''WEBHOOK_URL'' []),
     st_webhook_type = fst (env_text env ''WEBHOOK_TYPE'' []),
     st_webhook_source = fst (env_text env ''WEBHOOK_SOURCE'' []),
     st_base_currency = to_upper (trim_space (fst (env_text env ''BASE_CURRENCY'' DefaultBaseCurrency))),
     st_fx_rates = fst (env_text env ''FX_RATES'' []),
     st_alert_schedule = fst (env_text env ''ALERT_SCHEDULE'' ''09:00,15:00''),
     st_scan_schedule = fst (env_text env ''EMAIL_SCAN_SCHEDULE'' ''10:00''),
     st_scan_days = fst (env_integer env ''EMAIL_SCAN_DAYS'' 1),
     st_weekly_schedule = fst (env_text env ''WEEKLY_REPORT_SCHEDULE'' ''Mon 09:00''),
     st_keywords = fst (env_text env ''EMAIL_ALERT_KEYWORDS'' []),
     st_extra_keywords = fst (env_text env ''EMAIL_EXTRA_ALERT_KEYWORDS'' []),
     st_burn_window = fst (env_integer env ''BURN_RATE_WINDOW_DAYS'' 7),
     st_runway_days = fst (env_number env ''RUNWAY_ALERT_DAYS'' (Fin 7)),
     st_spike_ratio = fst (env_number env ''SPEND_SPIKE_RATIO'' (Fin 3)),
     st_spike_min = fst (env_number env ''SPEND_SPIKE_MIN_AMOUNT'' (Fin 1)),
     st_request_timeout = fst (env_integer env ''REQUEST_TIMEOUT'' 10),
     st_max_emails = fst (env_integer env ''MAX_EMAILS_TO_SCAN'' 1000),
     st_cache_ttl = fst (env_integer env ''RESPONSE_CACHE_TTL'' 300),
     st_log_level = fst (env_text env ''LOG_LEVEL'' ''INFO''),
     st_log_format = fst (env_text env ''LOG_FORMAT'' ''text''),
     st_log_file = fst (env_text env ''LOG_FILE'' []),
     st_database_url = fst (env_text env ''DATABASE_URL'' ''sqlite:///./data/quotapulse.db''),
     st_strict_db = fst (env_boolean env ''STRICT_DATABASE_ERRORS'' False),
     st_auto_encrypt = fst (env_boolean env ''AUTO_ENCRYPT_ON_READ'' True),
     st_encryption_key = fst (env_text env ''CONFIG_ENCRYPTION_KEY'' []),
     st_web_port = fst (env_integer env ''WEB_PORT'' 8080),
     st_metrics_port = fst (env_integer env ''METRICS_PORT'' 9100),
     st_version = fst (env_text env ''APP_VERSION'' version),
     st_cors = fst (env_boolean env ''WEB_ENABLE_CORS'' False),
     st_cors_origins = fst (env_text env ''CORS_ORIGINS'' []),
     st_web_key = trim_space (fst (env_text env ''WEB_API_KEY'' [])),
     st_shutdown_delay = fst (env_integer env ''SHUTDOWN_DELAY_SECONDS'' 0),
     st_alert_times = [], st_scan_times = [], st_weekly_times = [], st_weekly_days = []\<rparr>"

text \<open>The problems, in the order the variables are read.\<close>

definition env_problems :: "env \<Rightarrow> goerror list" where
  "env_problems env =
     concat (map (\<lambda>k. snd (env_boolean env k False))
       [''ENABLE_DATABASE'', ''ENABLE_DYNAMIC_CONFIG'', ''ENABLE_HISTORY_API'', ''ENABLE_SUBSCRIPTIONS'',
        ''ENABLE_EMAIL_SCAN'', ''ENABLE_PROMETHEUS'', ''ENABLE_WEB_ALARM'', ''ENABLE_MCP'', ''MCP_REQUIRE_SCOPED_KEY''])
     @ snd (env_integer env ''MCP_RATE_LIMIT_PER_MINUTE'' 120)
     @ concat (map (\<lambda>k. snd (env_optional_int env k))
       [''BALANCE_REFRESH_INTERVAL_SECONDS'', ''MAX_CONCURRENT_CHECKS'', ''ALERT_COOLDOWN_SECONDS'',
        ''SUBSCRIPTION_ALERT_COOLDOWN_SECONDS''])
     @ snd (env_integer env ''EMAIL_SCAN_DAYS'' 1)
     @ snd (env_integer env ''BURN_RATE_WINDOW_DAYS'' 7)
     @ concat (map (\<lambda>k. snd (env_number env k (Fin 0)))
       [''RUNWAY_ALERT_DAYS'', ''SPEND_SPIKE_RATIO'', ''SPEND_SPIKE_MIN_AMOUNT''])
     @ concat (map (\<lambda>k. snd (env_integer env k 0)) [''REQUEST_TIMEOUT'', ''MAX_EMAILS_TO_SCAN'', ''RESPONSE_CACHE_TTL''])
     @ concat (map (\<lambda>k. snd (env_boolean env k False)) [''STRICT_DATABASE_ERRORS'', ''AUTO_ENCRYPT_ON_READ''])
     @ concat (map (\<lambda>k. snd (env_integer env k 0)) [''WEB_PORT'', ''METRICS_PORT''])
     @ snd (env_boolean env ''WEB_ENABLE_CORS'' False)
     @ concat (map (\<lambda>k. snd (env_optional_int env k)) [''JOB_FAILURE_ALERT_THRESHOLD'', ''JOB_TIMEOUT_SECONDS'',
         ''HISTORY_RETENTION_DAYS'', ''DB_BACKUP_KEEP''])
     @ snd (env_integer env ''SHUTDOWN_DELAY_SECONDS'' 0)"

definition splitList :: "gostring \<Rightarrow> gostring list" where
  "splitList text = filter (\<lambda>s. s \<noteq> []) (map trim_space (split_on (CHR '','') text))"

definition APIKeys :: "settings \<Rightarrow> gostring list" where "APIKeys s = splitList (st_web_key s)"

definition map_error :: "gostring \<Rightarrow> goerror + 'a \<Rightarrow> goerror + 'a" where
  "map_error prefix r = (case r of Inl e \<Rightarrow> Inl (prefix @ e) | Inr x \<Rightarrow> Inr x)"

definition parseSchedules :: "settings \<Rightarrow> goerror + settings" where
  "parseSchedules s =
     (case map_error ''ALERT_SCHEDULE: '' (parse_daily_times (st_alert_schedule s)) of Inl e \<Rightarrow> Inl e
      | Inr alert \<Rightarrow>
     (case map_error ''EMAIL_SCAN_SCHEDULE: '' (parse_daily_times (st_scan_schedule s)) of Inl e \<Rightarrow> Inl e
      | Inr scan \<Rightarrow>
     (case (if st_backup_schedule s \<noteq> [] then parse_daily_times (st_backup_schedule s) else Inr []) of Inl e \<Rightarrow> Inl e
      | Inr backup \<Rightarrow>
     (case map_error ''WEEKLY_REPORT_SCHEDULE: '' (parse_weekly_schedule (st_weekly_schedule s)) of Inl e \<Rightarrow> Inl e
      | Inr (days, clocks) \<Rightarrow> Inr (s\<lparr>st_alert_times := alert, st_scan_times := scan, st_backup_times := backup,
          st_weekly_days := days, st_weekly_times := clocks\<rparr>)))))"

definition out_of_range :: "settings \<Rightarrow> goerror option" where
  "out_of_range s =
     (if st_mcp_rate s < 0 then Some (''MCP_RATE_LIMIT_PER_MINUTE cannot be negative; got '' @ itoa (st_mcp_rate s))
      else if st_scan_days s < 1 \<or> 30 < st_scan_days s
        then Some (''EMAIL_SCAN_DAYS must be between 1 and 30; got '' @ itoa (st_scan_days s))
      else if st_burn_window s < 1 \<or> 90 < st_burn_window s
        then Some (''BURN_RATE_WINDOW_DAYS must be between 1 and 90; got '' @ itoa (st_burn_window s))
      else None)"

definition Load :: "gostring \<Rightarrow> env \<Rightarrow> goerror + settings" where
  "Load version env = (let s = read_settings version env in
     case problems_err (env_problems env) of Some e \<Rightarrow> Inl e
     | None \<Rightarrow> (case parseSchedules s of Inl e \<Rightarrow> Inl e
     | Inr s1 \<Rightarrow> (case ParseMCPKeys (fst (env_text env ''MCP_API_KEYS'' [])) of Inl e \<Rightarrow> Inl e
     | Inr keys \<Rightarrow> (let s2 = s1\<lparr>st_mcp_keys := keys\<rparr> in
         case find (\<lambda>k. mk_key k \<in> set (APIKeys s2)) keys of
           Some k \<Rightarrow> Inl (''MCP_API_KEYS: '' @ quote (mk_name k) @ '' reuses WEB_API_KEY; give agents their own key'')
         | None \<Rightarrow> (case out_of_range s2 of Some e \<Rightarrow> Inl e | None \<Rightarrow> Inr s2)))))"

section \<open>Accessors\<close>

definition RefreshInterval :: "settings \<Rightarrow> int" where
  "RefreshInterval s = (case st_refresh_interval s of None \<Rightarrow> DefaultRefreshInterval
     | Some n \<Rightarrow> if n \<le> 0 then DefaultRefreshInterval else n)"

definition Concurrency :: "settings \<Rightarrow> int" where
  "Concurrency s = max 1 (min (case st_max_concurrent s of None \<Rightarrow> DefaultMaxConcurrent | Some n \<Rightarrow> n) MaxConcurrentUpper)"

definition CooldownSeconds :: "gostring \<Rightarrow> settings \<Rightarrow> int" where
  "CooldownSeconds kind s =
     (let v = (if kind = ''subscription'' then st_sub_cooldown s else None);
          v' = (if v = None then st_cooldown s else v)
      in case v' of None \<Rightarrow> DefaultCooldownSeconds | Some n \<Rightarrow> max 0 n)"

definition AlertKeywordOverride :: "settings \<Rightarrow> gostring list" where "AlertKeywordOverride s = splitList (st_keywords s)"
definition AlertKeywordExtras :: "settings \<Rightarrow> gostring list" where "AlertKeywordExtras s = splitList (st_extra_keywords s)"
definition CORSOriginList :: "settings \<Rightarrow> gostring list" where "CORSOriginList s = splitList (st_cors_origins s)"

definition BaseCurrencyValue :: "settings \<Rightarrow> gostring" where
  "BaseCurrencyValue s = (let v = to_upper (trim_space (st_base_currency s)) in if v = [] then DefaultBaseCurrency else v)"

fun fx_loop :: "gostring list \<Rightarrow> (gostring \<Rightarrow> f64 option) \<Rightarrow> gostring \<Rightarrow> f64 option" where
  "fx_loop [] table = table"
| "fx_loop (item # items) table = (case cut item ''='' of None \<Rightarrow> fx_loop items table
     | Some (code, rest) \<Rightarrow> (case parse_float (trim_space rest) of None \<Rightarrow> fx_loop items table
         | Some rate \<Rightarrow> if fle rate (Fin 0) then fx_loop items table
             else fx_loop items (table(to_upper (trim_space code) \<mapsto> rate))))"

definition FXTable :: "settings \<Rightarrow> gostring \<Rightarrow> f64 option" where
  "FXTable s = fx_loop (splitList (st_fx_rates s)) [BaseCurrencyValue s \<mapsto> Fin 1]"

definition non_negative :: "int \<Rightarrow> int option \<Rightarrow> int" where
  "non_negative fallback v = (case v of None \<Rightarrow> fallback | Some n \<Rightarrow> max 0 n)"

definition JobFailureAlertThresholdValue :: "settings \<Rightarrow> int" where
  "JobFailureAlertThresholdValue s = non_negative DefaultJobFailureAlertThreshold (st_job_failures s)"

definition HistoryRetentionDaysValue :: "settings \<Rightarrow> int" where
  "HistoryRetentionDaysValue s = non_negative DefaultHistoryRetentionDays (st_retention s)"

definition JobTimeoutSecondsValue :: "settings \<Rightarrow> int" where
  "JobTimeoutSecondsValue s = non_negative DefaultJobTimeoutSeconds (st_job_timeout s)"

definition BackupKeepValue :: "settings \<Rightarrow> int" where
  "BackupKeepValue s = (case st_backup_keep s of None \<Rightarrow> DefaultBackupKeep | Some n \<Rightarrow> max 1 n)"

section \<open>Properties\<close>

lemma Load_cases:
  assumes "Load version env = Inr s"
  obtains s1 keys where "problems_err (env_problems env) = None" "parseSchedules (read_settings version env) = Inr s1"
    "ParseMCPKeys (fst (env_text env ''MCP_API_KEYS'' [])) = Inr keys" "s = s1\<lparr>st_mcp_keys := keys\<rparr>"
    "find (\<lambda>k. mk_key k \<in> set (APIKeys s)) keys = None" "out_of_range s = None"
  using assms by (auto simp: Load_def Let_def split: option.split_asm sum.split_asm)

lemma parseSchedules_wf:
  assumes "parseSchedules s = Inr s1"
  shows "list_all valid_clock (st_alert_times s1) \<and> list_all valid_clock (st_scan_times s1) \<and>
    list_all valid_clock (st_weekly_times s1) \<and> (\<forall>d \<in> set (st_weekly_days s1). 1 \<le> d \<and> d \<le> 7)"
proof -
  obtain alert scan days clocks where p: "parse_daily_times (st_alert_schedule s) = Inr alert"
    "parse_daily_times (st_scan_schedule s) = Inr scan" "parse_weekly_schedule (st_weekly_schedule s) = Inr (days, clocks)"
    "st_alert_times s1 = alert" "st_scan_times s1 = scan" "st_weekly_times s1 = clocks" "st_weekly_days s1 = days"
    using assms by (auto simp: parseSchedules_def map_error_def split: sum.split_asm prod.split_asm)
  show ?thesis
    using parse_daily_times_wf [OF p(1)] parse_daily_times_wf [OF p(2)] parse_weekly_schedule_wf [OF p(3)]
    unfolding p(4-7) by simp
qed

lemma find_None: "find p xs = None \<longleftrightarrow> (\<forall>x \<in> set xs. \<not> p x)"
  by (induction xs) auto


text \<open>The environment with at most the agents' keys.\<close>

definition keys_env :: "gostring option \<Rightarrow> env" where
  "keys_env v key = (if key = ''MCP_API_KEYS'' then v else None)"

abbreviation no_env :: env where "no_env \<equiv> keys_env None"

lemma keys_env_readers [simp]:
  assumes "k \<noteq> ''MCP_API_KEYS''"
  shows "env_boolean (keys_env v) k b = (b, [])" "env_integer (keys_env v) k n = (n, [])"
    "env_optional_int (keys_env v) k = (None, [])" "env_number (keys_env v) k x = (x, [])" "env_text (keys_env v) k t = (t, [])"
  using assms
  by (simp_all add: env_boolean_def env_integer_def env_optional_int_def env_number_def env_text_def raw_def keys_env_def)

lemma default_schedules:
  "parse_daily_times ''09:00,15:00'' = Inr [\<lparr>ct_hour = 9, ct_minute = 0\<rparr>, \<lparr>ct_hour = 15, ct_minute = 0\<rparr>]"
  "parse_daily_times ''10:00'' = Inr [\<lparr>ct_hour = 10, ct_minute = 0\<rparr>]"
  "parse_weekly_schedule ''Mon 09:00'' = Inr ([1], [\<lparr>ct_hour = 9, ct_minute = 0\<rparr>])"
  by code_simp+

lemma Load_keys:
  assumes "ParseMCPKeys (fst (env_text (keys_env v) ''MCP_API_KEYS'' [])) = Inr keys"
  shows "\<exists>s. Load version (keys_env v) = Inr s \<and> st_scan_days s = 1 \<and> st_mcp_keys s = keys \<and> st_web_key s = []"
proof -
  have p: "problems_err (env_problems (keys_env v)) = None" by (simp add: env_problems_def problems_err_def)
  define s0 where "s0 = read_settings version (keys_env v)"
  have s0: "st_alert_schedule s0 = ''09:00,15:00''" "st_scan_schedule s0 = ''10:00''" "st_weekly_schedule s0 = ''Mon 09:00''"
    "st_backup_schedule s0 = []" "st_mcp_rate s0 = 120" "st_scan_days s0 = 1" "st_burn_window s0 = 7" "st_web_key s0 = []"
    by (simp_all add: s0_def read_settings_def)
  obtain s1 where s1: "parseSchedules s0 = Inr s1" "st_mcp_rate s1 = 120" "st_scan_days s1 = 1" "st_burn_window s1 = 7"
    "st_web_key s1 = []"
    using s0 by (simp add: parseSchedules_def map_error_def default_schedules)
  have "splitList [] = []" by (simp add: splitList_def)
  then have "find (\<lambda>k. mk_key k \<in> set (APIKeys (s1\<lparr>st_mcp_keys := keys\<rparr>))) keys = None"
    using s1 by (simp add: APIKeys_def find_None)
  then have "Load version (keys_env v) = Inr (s1\<lparr>st_mcp_keys := keys\<rparr>)"
    using s1 by (simp add: Load_def p assms s0_def [symmetric] out_of_range_def)
  then show ?thesis using s1 by simp
qed

lemma Load_defaults: "\<exists>s. Load version no_env = Inr s \<and> st_scan_days s = 1 \<and> st_mcp_keys s = [] \<and> st_web_key s = []"
  by (rule Load_keys) (simp add: env_text_def raw_def keys_env_def ParseMCPKeys_def)



definition bad_env :: env where
  "bad_env key = (if key = ''ENABLE_MCP'' then Some ''maybe'' else if key = ''WEB_PORT'' then Some ''http'' else None)"

lemma port_problems: "set (snd (env_integer env ''WEB_PORT'' 0)) \<subseteq> set (env_problems env)"
  by (auto simp: env_problems_def)


text \<open>Whatever was configured, the accessors stay in their ranges: 1 to 50 checks at once, a positive
  refresh interval, and no negative cooldown, threshold, timeout or retention.\<close>

theorem accessors_bounded:
  "1 \<le> Concurrency s \<and> Concurrency s \<le> 50 \<and> 0 < RefreshInterval s \<and> 0 \<le> CooldownSeconds kind s \<and>
   0 \<le> JobFailureAlertThresholdValue s \<and> 0 \<le> JobTimeoutSecondsValue s \<and> 0 \<le> HistoryRetentionDaysValue s \<and>
   1 \<le> BackupKeepValue s \<and> BaseCurrencyValue s \<noteq> []"
  by (auto simp: Concurrency_def RefreshInterval_def CooldownSeconds_def JobFailureAlertThresholdValue_def
      JobTimeoutSecondsValue_def HistoryRetentionDaysValue_def BackupKeepValue_def BaseCurrencyValue_def
      non_negative_def MaxConcurrentUpper_def DefaultRefreshInterval_def DefaultCooldownSeconds_def DefaultBackupKeep_def
      DefaultJobFailureAlertThreshold_def DefaultJobTimeoutSeconds_def DefaultHistoryRetentionDays_def
      DefaultBaseCurrency_def Let_def split: option.split)

text \<open>The exchange table takes a rate that is not a number, and an entry for the base currency
  replaces its rate of one.\<close>

theorem FXTable_bad_rates:
  "FXTable (s\<lparr>st_base_currency := ''CNY'', st_fx_rates := ''USD=nan''\<rparr>) ''USD'' = Some NaN \<and>
   FXTable (s\<lparr>st_base_currency := ''CNY'', st_fx_rates := ''CNY=2''\<rparr>) ''CNY'' = Some (Fin 2)"
proof -
  have s: "splitList ''USD=nan'' = [''USD=nan'']" "splitList ''CNY=2'' = [''CNY=2'']" by code_simp+
  have c: "cut ''USD=nan'' ''='' = Some (''USD'', ''nan'')" "cut ''CNY=2'' ''='' = Some (''CNY'', ''2'')" by code_simp+
  have t: "trim_space ''nan'' = ''nan''" "trim_space ''2'' = ''2''" by code_simp+
  have u: "to_upper (trim_space ''USD'') = ''USD''" "to_upper (trim_space ''CNY'') = ''CNY''" by code_simp+
  have m: "parse_mantissa False ''2'' = Some 2"
    by (simp add: parse_mantissa_def Let_def is_mantissa_def is_digit_def byte_def no_underscores_def mantissa_val_def
        digits_val_def digit_val_def rat_pow_def)
  have p: "parse_float ''nan'' = Some NaN" "parse_float ''2'' = Some (Fin 2)"
    using m by (code_simp, simp add: parse_float_def split_sign_def to_lower_def lower_char_def byte_def with_sign_def)
  have n: "\<not> fle NaN (Fin 0)" "\<not> fle (Fin 2) (Fin 0)" by code_simp+
  have b: "BaseCurrencyValue (s\<lparr>st_base_currency := ''CNY'', st_fx_rates := x\<rparr>) = ''CNY''" for x
    using u by (simp add: BaseCurrencyValue_def)
  show ?thesis unfolding FXTable_def b by (simp add: s c t p u n)
qed

end
