(* ===== verification/HttpAuth.thy ===== *)
theory HttpAuth
  imports Settings GoCrypto State
begin

text \<open>
  Who may call what (\<open>internal/httpapi\<close>): session cookies (\<open>session.go\<close>), the rate limit of agents
  (\<open>ratelimit.go\<close>) and the middleware in front of every handler (\<open>server.go\<close>).  A request is
  what the middleware looks at; a handler's own answer is outside this theory, so the
  middleware either refuses or hands over.
\<close>

section \<open>Session tokens\<close>

definition sessionCookieName :: gostring where "sessionCookieName = ''quotapulse_session''"
definition sessionVersion :: gostring where "sessionVersion = ''v1''"
definition sessionTTL :: duration where "sessionTTL = 30 * 24 * hour"
definition sessionRenewWithin :: duration where "sessionRenewWithin = 7 * 24 * hour"

definition session_mac :: "gostring \<Rightarrow> gostring \<Rightarrow> gostring" where
  "session_mac key stamp = hmac_sha256 key (sessionVersion @ ''|'' @ stamp)"

definition sessionToken :: "gostring \<Rightarrow> gotime \<Rightarrow> gostring" where
  "sessionToken key expires = (let stamp = itoa (t_sec expires)
     in sessionVersion @ '':'' @ stamp @ '':'' @ hex_encode (session_mac key stamp))"

definition sessionSigner :: "gostring \<Rightarrow> gostring list \<Rightarrow> gotime \<Rightarrow> (gostring \<times> gotime) option" where
  "sessionSigner token keys now = (case split_on (CHR '':'') token of
       [v, stamp, sig] \<Rightarrow>
         if v \<noteq> sessionVersion then None
         else (case atoi stamp of None \<Rightarrow> None
           | Some expires \<Rightarrow> if expires \<le> t_sec now then None
               else (case hex_decode sig of None \<Rightarrow> None
                 | Some signature \<Rightarrow>
                     map_option (\<lambda>key. (key, unix_time expires (t_zone now)))
                       (find (\<lambda>key. signature = session_mac key stamp) keys)))
     | _ \<Rightarrow> None)"

section \<open>The cookie\<close>

datatype same_site = SameSiteStrict

record cookie =
  ck_name :: gostring
  ck_value :: gostring
  ck_path :: gostring
  ck_expires :: "gotime option"
  ck_max_age :: int
  ck_http_only :: bool
  ck_secure :: bool
  ck_same_site :: same_site

text \<open>What is looked at of a request; headers by their canonical name, the empty string when absent.\<close>

record request =
  rq_method :: gostring
  rq_path :: gostring
  rq_header :: "gostring \<Rightarrow> gostring"
  rq_session :: "gostring option"
  rq_tls :: bool

definition requestIsHTTPS :: "request \<Rightarrow> bool" where
  "requestIsHTTPS r \<longleftrightarrow> rq_tls r \<or> to_lower (rq_header r ''X-Forwarded-Proto'') = ''https''"

definition setSessionCookie :: "gotime \<Rightarrow> request \<Rightarrow> gostring \<Rightarrow> cookie \<times> gotime" where
  "setSessionCookie now r key = (let expires = t_add now sessionTTL in
     (\<lparr>ck_name = sessionCookieName, ck_value = sessionToken key expires, ck_path = ''/api'', ck_expires = Some expires,
       ck_max_age = f64_to_int64 (dur_seconds sessionTTL), ck_http_only = True, ck_secure = requestIsHTTPS r,
       ck_same_site = SameSiteStrict\<rparr>, expires))"

definition clearSessionCookie :: "request \<Rightarrow> cookie" where
  "clearSessionCookie r = \<lparr>ck_name = sessionCookieName, ck_value = [], ck_path = ''/api'', ck_expires = None,
     ck_max_age = - 1, ck_http_only = True, ck_secure = requestIsHTTPS r, ck_same_site = SameSiteStrict\<rparr>"

definition safeMethod :: "gostring \<Rightarrow> bool" where
  "safeMethod m \<longleftrightarrow> m = ''GET'' \<or> m = ''HEAD'' \<or> m = ''OPTIONS''"

definition sameSiteRequest :: "request \<Rightarrow> bool" where
  "sameSiteRequest r = (let s = rq_header r ''Sec-Fetch-Site'' in s = [] \<or> s = ''same-origin'' \<or> s = ''none'')"

definition extractAPIKey :: "request \<Rightarrow> gostring" where
  "extractAPIKey r = (let token = trim_space (rq_header r ''X-API-Key'') in
     if token \<noteq> [] then token
     else let auth = trim_space (rq_header r ''Authorization'') in
       if 7 < length auth \<and> to_lower (take 7 auth) = ''bearer '' then trim_space (drop 7 auth) else [])"

text \<open>Trading a key for the cookie: the cookie and the expiry it prints, or 401.\<close>

definition handleSessionCreate :: "gostring list \<Rightarrow> gotime \<Rightarrow> request \<Rightarrow> (cookie \<times> gostring) option" where
  "handleSessionCreate keys now r = (case find (\<lambda>key. extractAPIKey r = key) keys of None \<Rightarrow> None
     | Some key \<Rightarrow> (let (c, expires) = setSessionCookie now r key in Some (c, fmt_rfc3339 (t_utc expires))))"

section \<open>The rate limit\<close>

record token_bucket =
  bk_tokens :: f64
  bk_at :: gotime

type_synonym buckets = "gostring \<Rightarrow> token_bucket option"

text \<open>\<open>take\<close>: the wait, zero when the request is granted, and the buckets afterwards.\<close>

definition take_token :: "int \<Rightarrow> gostring \<Rightarrow> gotime \<Rightarrow> buckets \<Rightarrow> duration \<times> buckets" where
  "take_token per_minute name now bs =
     (if per_minute \<le> 0 then (0, bs)
      else let capacity = f64_of_int per_minute; per_second = fdiv capacity (Fin 60);
               b = (case bs name of None \<Rightarrow> \<lparr>bk_tokens = capacity, bk_at = now\<rparr> | Some b \<Rightarrow> b);
               tokens = builtin_min capacity (fadd (bk_tokens b) (fmul (dur_seconds (t_sub now (bk_at b))) per_second))
           in if fge tokens (Fin 1) then (0, bs(name \<mapsto> \<lparr>bk_tokens = fsub tokens (Fin 1), bk_at = now\<rparr>))
              else (f64_to_int64 (fmul (fdiv (fsub (Fin 1) tokens) per_second) (f64_of_int second)),
                    bs(name \<mapsto> \<lparr>bk_tokens = tokens, bk_at = now\<rparr>)))"

section \<open>The middleware\<close>

text \<open>Refused with a status and a message (and how long to wait), or handed to the handler, for
  \<open>/mcp\<close> with the caller; \<open>vd_cookie\<close> is a session renewed on the way.\<close>

datatype decision = Refuse int gostring | Serve "mcp_caller option"

record verdict =
  vd_decision :: decision
  vd_cookie :: "cookie option"
  vd_retry_after :: "gostring option"
  vd_buckets :: buckets

definition refuse :: "int \<Rightarrow> gostring \<Rightarrow> buckets \<Rightarrow> verdict" where
  "refuse status msg bs = \<lparr>vd_decision = Refuse status msg, vd_cookie = None, vd_retry_after = None, vd_buckets = bs\<rparr>"

definition serve :: "mcp_caller option \<Rightarrow> cookie option \<Rightarrow> buckets \<Rightarrow> verdict" where
  "serve caller c bs = \<lparr>vd_decision = Serve caller, vd_cookie = c, vd_retry_after = None, vd_buckets = bs\<rparr>"

definition key_missing :: gostring where "key_missing = ''API key is invalid or missing''"

datatype caller_match = NoCaller | ExpiredKey | Caller mcp_caller

definition mcpCaller :: "settings \<Rightarrow> gostring \<Rightarrow> gotime \<Rightarrow> caller_match" where
  "mcpCaller s token now =
     (if token = [] then NoCaller
      else case find (\<lambda>k. token = mk_key k) (st_mcp_keys s) of
        Some k \<Rightarrow> if Expired k (t_ns now) then ExpiredKey else Caller \<lparr>mc_name = mk_name k, mc_scopes = mk_scopes k\<rparr>
      | None \<Rightarrow> if \<not> st_scoped_only s \<and> token \<in> set (APIKeys s) then Caller (FullMCPCaller ''web'') else NoCaller)"

definition serveMCP :: "settings \<Rightarrow> gostring \<Rightarrow> gotime \<Rightarrow> buckets \<Rightarrow> verdict" where
  "serveMCP s token now bs =
     (if st_mcp_keys s = [] \<and> APIKeys s = []
        then refuse 503 ''API key is not configured; set WEB_API_KEY or MCP_API_KEYS'' bs
      else case mcpCaller s token now of
        ExpiredKey \<Rightarrow> refuse 401 ''This MCP key has expired'' bs
      | NoCaller \<Rightarrow> refuse 401 key_missing bs
      | Caller c \<Rightarrow> (let (wait, bs') = take_token (st_mcp_rate s) (mc_name c) now bs in
          if 0 < wait then let secs = itoa (f64_to_int64 (math_ceil (dur_seconds wait))) in
            (refuse 429 (''MCP rate limit reached; retry in '' @ secs @ '' seconds'') bs')\<lparr>vd_retry_after := Some secs\<rparr>
          else serve (Some c) None bs'))"

text \<open>The cookie is looked at only when no key was sent.\<close>

definition cookie_signer :: "gostring list \<Rightarrow> gostring \<Rightarrow> gotime \<Rightarrow> request \<Rightarrow> (gostring \<times> gotime) option" where
  "cookie_signer keys token now r = (if token \<noteq> [] then None
     else case rq_session r of None \<Rightarrow> None | Some v \<Rightarrow> sessionSigner v keys now)"

definition withAPIKey :: "settings \<Rightarrow> gotime \<Rightarrow> buckets \<Rightarrow> request \<Rightarrow> verdict" where
  "withAPIKey s now bs r =
     (let guarded = (has_prefix (rq_path r) ''/api/'' \<or> rq_path r = ''/mcp'') in
      if \<not> guarded \<or> rq_method r = ''OPTIONS'' then serve None None bs
      else let token = extractAPIKey r; keys = APIKeys s in
        if rq_path r = ''/mcp'' then serveMCP s token now bs
        else if keys = [] then refuse 503 ''API key is not configured; set WEB_API_KEY'' bs
        else if token \<in> set keys then serve None None bs
        else case cookie_signer keys token now r of
            None \<Rightarrow> refuse 401 key_missing bs
          | Some (signer, expires) \<Rightarrow>
              let renewed = (if t_sub expires now < sessionRenewWithin then Some (fst (setSessionCookie now r signer)) else None)
              in if \<not> safeMethod (rq_method r) \<and> \<not> sameSiteRequest r
                 then (refuse 403 ''cross-site request refused'' bs)\<lparr>vd_cookie := renewed\<rparr>
                 else serve None renewed bs)"

text \<open>Cross-origin headers: the origin that is echoed, and whether the request ends here.\<close>

definition withCORS :: "settings \<Rightarrow> request \<Rightarrow> gostring option \<times> bool" where
  "withCORS s r = (if \<not> st_cors s then (None, False)
     else (let origin = rq_header r ''Origin'' in
       (if \<exists>c \<in> set (CORSOriginList s). c = origin \<or> c = ''*'' then Some origin else None, rq_method r = ''OPTIONS'')))"

definition contentSecurityPolicy :: gostring where
  "contentSecurityPolicy = (let q = [CHR 0x27] in
     ''default-src '' @ q @ ''self'' @ q @ ''; script-src '' @ q @ ''self'' @ q @ ''; style-src '' @ q @ ''self'' @ q
     @ '' '' @ q @ ''unsafe-inline'' @ q @ ''; '' @ ''img-src '' @ q @ ''self'' @ q @ '' data:; font-src '' @ q @ ''self'' @ q
     @ ''; connect-src '' @ q @ ''self'' @ q @ ''; object-src '' @ q @ ''none'' @ q @ ''; '' @ ''base-uri '' @ q @ ''none'' @ q
     @ ''; frame-ancestors '' @ q @ ''none'' @ q @ ''; form-action '' @ q @ ''self'' @ q)"

definition security_headers :: "(gostring \<times> gostring) list" where
  "security_headers = [(''Content-Security-Policy'', contentSecurityPolicy), (''X-Content-Type-Options'', ''nosniff''),
     (''X-Frame-Options'', ''DENY''), (''Referrer-Policy'', ''no-referrer'')]"

text \<open>A refresh that failed because of the named project is the caller's mistake.\<close>

datatype refresh_error = ProjectNotFound | ProjectDisabled | OtherError

definition refreshStatus :: "refresh_error \<Rightarrow> int" where
  "refreshStatus e = (case e of ProjectNotFound \<Rightarrow> 404 | ProjectDisabled \<Rightarrow> 409 | OtherError \<Rightarrow> 500)"

section \<open>Sessions\<close>

lemma find_Some: "find p xs = Some x \<Longrightarrow> x \<in> set xs \<and> p x"
  by (induction xs) (auto split: if_splits)

lemma find_exists: "x \<in> set xs \<Longrightarrow> p x \<Longrightarrow> \<exists>y. find p xs = Some y \<and> y \<in> set xs \<and> p y"
  by (induction xs) auto

lemma find_None_iff: "find p xs = None \<longleftrightarrow> (\<forall>x \<in> set xs. \<not> p x)"
  by (induction xs) auto

text \<open>A cookie that is accepted: its stamp lies ahead and one of the keys signed it.\<close>

definition signed_by :: "gostring \<Rightarrow> gostring \<Rightarrow> gotime \<Rightarrow> bool" where
  "signed_by key token now \<longleftrightarrow> (\<exists>stamp sig expires. token = sessionVersion @ '':'' @ stamp @ '':'' @ sig \<and>
     atoi stamp = Some expires \<and> t_sec now < expires \<and> hex_decode sig = Some (session_mac key stamp))"

lemma sessionSigner_signed:
  assumes "sessionSigner token keys now = Some (key, expires)"
  shows "key \<in> set keys \<and> signed_by key token now"
proof -
  obtain v stamp sig where p: "split_on (CHR '':'') token = [v, stamp, sig]"
    using assms by (auto simp: sessionSigner_def split: list.splits)
  have "join '':'' [v, stamp, sig] = token" unfolding p [symmetric] by (rule join_split_on)
  then have t: "token = v @ '':'' @ stamp @ '':'' @ sig" by simp
  have "v = sessionVersion" "key \<in> set keys" "\<exists>n. atoi stamp = Some n \<and> t_sec now < n"
    "hex_decode sig = Some (session_mac key stamp)"
    using assms by (auto simp: sessionSigner_def p split: if_split_asm option.split_asm dest!: find_Some)
  then show ?thesis unfolding signed_by_def using t by blast
qed

lemma sessionVersion_no_colon: "CHR '':'' \<notin> set sessionVersion"
  by (simp add: sessionVersion_def)

lemma itoa_no_colon: "CHR '':'' \<notin> set (itoa n)"
  using itoa_chars [of "CHR '':''" n] by (auto simp: is_digit_def byte_def)

lemma session_roundtrip:
  assumes "key \<in> set keys" "t_sec now < t_sec expires" "- (2 ^ 63) \<le> t_sec expires" "t_sec expires < 2 ^ 63"
  shows "\<exists>signer. sessionSigner (sessionToken key expires) keys now = Some (signer, unix_time (t_sec expires) (t_zone now)) \<and>
    signer \<in> set keys \<and> session_mac signer (itoa (t_sec expires)) = session_mac key (itoa (t_sec expires))"
proof -
  let ?stamp = "itoa (t_sec expires)"
  have p: "split_on (CHR '':'') (sessionToken key expires) = [sessionVersion, ?stamp, hex_encode (session_mac key ?stamp)]"
    using split_on_append [OF sessionVersion_no_colon] split_on_append [OF itoa_no_colon]
      split_on_none [OF hex_encode_no_colon]
    by (simp add: sessionToken_def Let_def)
  have a: "atoi ?stamp = Some (t_sec expires)" using assms(3,4) by (rule atoi_itoa)
  obtain signer where s: "find (\<lambda>k. session_mac key ?stamp = session_mac k ?stamp) keys = Some signer"
    "signer \<in> set keys" "session_mac key ?stamp = session_mac signer ?stamp"
    using find_exists [of key keys "\<lambda>k. session_mac key ?stamp = session_mac k ?stamp"] assms(1) by auto
  show ?thesis using assms(2) s by (simp add: sessionSigner_def p a)
qed

section \<open>Properties\<close>

lemma api_not_mcp: "has_prefix p ''/api/'' \<Longrightarrow> p \<noteq> ''/mcp''"
  by auto

lemma decision_sel [simp]:
  "vd_decision (refuse st msg bs) = Refuse st msg" "vd_decision (serve c k bs) = Serve c"
  "vd_buckets (refuse st msg bs) = bs" "vd_buckets (serve c k bs) = bs"
  by (simp_all add: refuse_def serve_def)

lemma withAPIKey_api:
  assumes "has_prefix (rq_path r) ''/api/''" "rq_method r \<noteq> ''OPTIONS''"
  shows "vd_decision (withAPIKey s now bs r) =
    (if APIKeys s = [] then Refuse 503 ''API key is not configured; set WEB_API_KEY''
     else if extractAPIKey r \<in> set (APIKeys s) then Serve None
     else if cookie_signer (APIKeys s) (extractAPIKey r) now r = None then Refuse 401 key_missing
     else if \<not> safeMethod (rq_method r) \<and> \<not> sameSiteRequest r then Refuse 403 ''cross-site request refused''
     else Serve None)"
  using assms api_not_mcp by (auto simp: withAPIKey_def Let_def split: option.split)


text \<open>C17: A browser that traded a key for the cookie is served with the cookie alone until 30 days later,
  on any API path, as long as the key stays configured; requests that change something must come
  from the same site.\<close>

theorem login_opens_api:
  assumes "handleSessionCreate (APIKeys s) now r = Some (c, text)" "0 \<le> t_sec now" "t_sec now < 2 ^ 62"
    and "rq_session r' = Some (ck_value c)" "extractAPIKey r' = []" "has_prefix (rq_path r') ''/api/''"
      "safeMethod (rq_method r') \<or> sameSiteRequest r'" "t_sec later < t_sec now + 30 * 86400"
  shows "vd_decision (withAPIKey s later bs r') = Serve None"
proof -
  obtain key where k: "key \<in> set (APIKeys s)" "c = fst (setSessionCookie now r key)"
    using assms(1) by (auto simp: handleSessionCreate_def split: option.split_asm prod.split_asm dest!: find_Some)
  let ?e = "t_add now sessionTTL"
  have ttl: "sessionTTL = 2592000 * second" by (simp add: sessionTTL_def)
  have e: "t_sec ?e = t_sec now + 2592000" by (simp add: t_sec_def t_add_def ttl)
  have v: "ck_value c = sessionToken key ?e" by (simp add: k(2) setSessionCookie_def Let_def)
  have "t_sec later < t_sec ?e" "- (2 ^ 63) \<le> t_sec ?e" "t_sec ?e < 2 ^ 63" using assms(2,3,8) by (simp_all add: e)
  from session_roundtrip [OF k(1) this] have n: "cookie_signer (APIKeys s) (extractAPIKey r') later r' \<noteq> None"
    using assms(4,5) v by (auto simp: cookie_signer_def)
  have ne: "APIKeys s \<noteq> []" using k(1) by auto
  show ?thesis
  proof (cases "rq_method r' = ''OPTIONS''")
    case True
    then show ?thesis by (simp add: withAPIKey_def)
  next
    case False
    from withAPIKey_api [OF assms(6) this] show ?thesis using n ne assms(7) by auto
  qed
qed

text \<open>C18: An agent's key never opens the API: under settings that load, a request that sends one is
  refused on every path below \<open>/api/\<close>.\<close>

theorem mcp_key_not_for_api:
  assumes "Load version env = Inr s" "k \<in> set (st_mcp_keys s)" "extractAPIKey r = mk_key k"
    "has_prefix (rq_path r) ''/api/''" "rq_method r \<noteq> ''OPTIONS''"
  shows "\<exists>status msg. vd_decision (withAPIKey s now bs r) = Refuse status msg \<and> (status = 401 \<or> status = 503)"
proof -
  obtain keys where "st_mcp_keys s = keys" "find (\<lambda>k. mk_key k \<in> set (APIKeys s)) keys = None"
    "ParseMCPKeys (fst (env_text env ''MCP_API_KEYS'' [])) = Inr keys"
    by (rule Load_cases [OF assms(1)]) simp
  then have n: "mk_key k \<notin> set (APIKeys s)" and w: "wf_key k"
    using assms(2) keys_loop_ok [of _ "{}" "{}" "[]" keys] unfolding ParseMCPKeys_def by (auto simp: find_None_iff)
  have "mk_key k \<noteq> []" using w by (auto simp: wf_key_def minMCPKeyLength_def)
  then have "cookie_signer (APIKeys s) (extractAPIKey r) now r = None" using assms(3) by (simp add: cookie_signer_def)
  then show ?thesis using n assms(3) unfolding withAPIKey_api [OF assms(4,5)] by auto
qed


text \<open>A request that changes nothing by its method is served with the cookie even when the browser marks it as
  coming from another site; \<open>GET /api/refresh\<close>, which runs the balance checks, is such a request.\<close>

theorem cross_site_refresh_served:
  assumes "cookie_signer (APIKeys s) [] now r \<noteq> None" "APIKeys s \<noteq> []" "extractAPIKey r = []"
    "rq_method r = ''GET''" "rq_path r = ''/api/refresh''" "rq_header r ''Sec-Fetch-Site'' = ''cross-site''"
  shows "\<not> sameSiteRequest r \<and> vd_decision (withAPIKey s now bs r) = Serve None"
proof -
  have "has_prefix (rq_path r) ''/api/''" "rq_method r \<noteq> ''OPTIONS''" using assms(4,5) by simp_all
  from withAPIKey_api [OF this] show ?thesis using assms by (auto simp: sameSiteRequest_def safeMethod_def)
qed

section \<open>A burst\<close>

text \<open>The waits of successive requests of one caller at one instant.\<close>

fun take_many :: "nat \<Rightarrow> int \<Rightarrow> gostring \<Rightarrow> gotime \<Rightarrow> buckets \<Rightarrow> duration list" where
  "take_many 0 per_minute name now bs = []"
| "take_many (Suc k) per_minute name now bs = (let (w, bs') = take_token per_minute name now bs
     in w # take_many k per_minute name now bs')"

lemma rnd_between:
  assumes "representable a" "representable b" "a \<le> x" "x \<le> b"
  obtains y where "rnd x = Fin y" "a \<le> y" "y \<le> b"
  using rnd_mono [OF assms(3)] rnd_mono [OF assms(4)] rnd_representable [OF assms(1)] rnd_representable [OF assms(2)]
  by (cases "rnd x") auto

lemma dur_seconds_0: "dur_seconds 0 = Fin 0"
  by (simp add: dur_seconds_def go_div_def go_mod_def second_def f64_of_int_def)

lemma t_sub_self: "t_sub t t = 0"
  by (simp add: t_sub_def clamp64_def)

lemma per_second_range:
  assumes "0 < n" "n \<le> 1000000"
  obtains x where "fdiv (f64_of_int n) (Fin 60) = Fin x" "1 / 64 \<le> x" "x \<le> 16667"
proof -
  have e: "fdiv (f64_of_int n) (Fin 60) = rnd (of_int n / 60)" using assms by (simp add: f64_of_int_small)
  have r: "representable (1 / 64)" using representable_dyadic [of 1 6] by simp
  have r': "representable 16667" using representable_of_int [of 16667] by simp
  have "(1 :: rat) \<le> of_int n" "(of_int n :: rat) \<le> 1000000"
    using assms of_int_le_iff [of 1 n, where 'a = rat] of_int_le_iff [of n 1000000, where 'a = rat] by simp_all
  then have "1 / 64 \<le> of_int n / (60 :: rat)" "of_int n / (60 :: rat) \<le> 16667" by simp_all
  from rnd_between [OF r r' this] show thesis using that unfolding e by blast
qed

text \<open>With a whole number of tokens left, a request at the same instant takes one.\<close>

lemma take_token_whole:
  assumes n: "0 < n" "n \<le> 1000000" and m: "0 \<le> m" "m \<le> n"
    and b: "bs name = Some \<lparr>bk_tokens = Fin (of_int m), bk_at = now\<rparr> \<or> bs name = None \<and> m = n"
  shows "1 \<le> m \<Longrightarrow> take_token n name now bs = (0, bs(name \<mapsto> \<lparr>bk_tokens = Fin (of_int (m - 1)), bk_at = now\<rparr>))"
    and "m = 0 \<Longrightarrow> 0 < fst (take_token n name now bs)"
proof -
  obtain x where x: "fdiv (f64_of_int n) (Fin 60) = Fin x" "1 / 64 \<le> x" "x \<le> 16667" by (rule per_second_range [OF n])
  have rep: "rnd (of_int k) = Fin (of_int k)" if "0 \<le> k" "k \<le> n" for k
    using that n(2) by (intro rnd_representable representable_of_int) simp
  have cap: "f64_of_int n = Fin (of_int n)" using n by (intro f64_of_int_small) simp
  define b0 where "b0 = (case bs name of None \<Rightarrow> \<lparr>bk_tokens = f64_of_int n, bk_at = now\<rparr> | Some b \<Rightarrow> b)"
  have b0: "b0 = \<lparr>bk_tokens = Fin (of_int m), bk_at = now\<rparr>" using b cap by (auto simp: b0_def)
  have tok: "builtin_min (f64_of_int n) (fadd (bk_tokens b0) (fmul (dur_seconds (t_sub now (bk_at b0))) (Fin x))) = Fin (of_int m)"
    using rep [OF m] m by (auto simp: b0 t_sub_self dur_seconds_0 cap builtin_min_def)
  have e: "take_token n name now bs = (if 1 \<le> m then (0, bs(name \<mapsto> \<lparr>bk_tokens = fsub (Fin (of_int m)) (Fin 1), bk_at = now\<rparr>))
      else (f64_to_int64 (fmul (fdiv (fsub (Fin 1) (Fin (of_int m))) (Fin x)) (f64_of_int second)),
            bs(name \<mapsto> \<lparr>bk_tokens = Fin (of_int m), bk_at = now\<rparr>)))"
    unfolding take_token_def Let_def x(1) b0_def [symmetric] tok using n(1) by simp
  show "take_token n name now bs = (0, bs(name \<mapsto> \<lparr>bk_tokens = Fin (of_int (m - 1)), bk_at = now\<rparr>))" if "1 \<le> m"
  proof -
    have "rnd (of_int m - 1) = Fin (of_int (m - 1))" using rep [of "m - 1"] that m by simp
    then show ?thesis using that e by simp
  qed
  show "0 < fst (take_token n name now bs)" if m0: "m = 0"
  proof -
    have sec: "f64_of_int second = Fin 1000000000" by (simp add: f64_of_int_def second_def)
    have r: "representable (1 / 32768)" using representable_dyadic [of 1 15] by simp
    have r': "representable 64" using representable_of_int [of 64] by simp
    have "0 < x" using x(2) by simp
    then have "1 / 32768 \<le> 1 / x" "1 / x \<le> 64" using x by (simp_all add: divide_simps)
    then obtain y where y: "rnd (1 / x) = Fin y" "1 / 32768 \<le> y" "y \<le> 64" by (rule rnd_between [OF r r'])
    have r2: "representable 1" "representable 64000000000"
      using representable_of_int [of 1] representable_of_int [of 64000000000] by simp_all
    have "1 \<le> y * 1000000000" "y * 1000000000 \<le> 64000000000" using y(2,3) by simp_all
    then obtain z where z: "rnd (y * 1000000000) = Fin z" "1 \<le> z" "z \<le> 64000000000" by (rule rnd_between [OF r2])
    have fl: "1 \<le> \<lfloor>z\<rfloor>" "\<lfloor>z\<rfloor> \<le> 64000000000" using z(2,3) by (simp_all add: le_floor_iff floor_le_iff)
    have "fdiv (Fin 1) (Fin x) = rnd (1 / x)" using \<open>0 < x\<close> by simp
    then have "fst (take_token n name now bs) = f64_to_int64 (Fin z)" using e m0 y z sec by simp
    also have "\<dots> = \<lfloor>z\<rfloor>" using fl z(2) by (simp add: f64_to_int64_def trunc_rat_def Let_def)
    finally show ?thesis using fl by simp
  qed
qed

lemma take_many_whole:
  assumes "0 < n" "n \<le> 1000000" "int k \<le> n"
    "bs name = Some \<lparr>bk_tokens = Fin (of_int (int k)), bk_at = now\<rparr> \<or> bs name = None \<and> int k = n"
  shows "\<exists>w > 0. take_many (Suc k) n name now bs = replicate k 0 @ [w]"
  using assms(3,4)
proof (induction k arbitrary: bs)
  case 0
  obtain w bs' where t: "take_token n name now bs = (w, bs')" by fastforce
  have "0 < fst (take_token n name now bs)"
    using 0 assms by (intro take_token_whole(2) [where m = "int 0"]) auto
  then show ?case by (simp add: t)
next
  case (Suc k)
  have t: "take_token n name now bs = (0, bs(name \<mapsto> \<lparr>bk_tokens = Fin (of_int (int k)), bk_at = now\<rparr>))"
    using Suc.prems take_token_whole(1) [OF assms(1,2), of "int (Suc k)" bs name now] by simp
  have "\<exists>w > 0. take_many (Suc k) n name now (bs(name \<mapsto> \<lparr>bk_tokens = Fin (of_int (int k)), bk_at = now\<rparr>)) = replicate k 0 @ [w]"
    using Suc.prems by (intro Suc.IH) auto
  then show ?case by (simp only: take_many.simps(2) [of "Suc k"] t Let_def prod.case replicate_Suc append_Cons) auto
qed

text \<open>A caller not seen before gets exactly the configured number of requests at once; the next one has
  to wait.\<close>

theorem burst_is_the_limit:
  assumes "0 < n" "n \<le> 1000000" "bs name = None"
  shows "\<exists>w > 0. take_many (nat n + 1) n name now bs = replicate (nat n) 0 @ [w]"
  using take_many_whole [OF assms(1,2), of "nat n" bs name now] assms by simp

theorem burst_is_the_limit_witness:
  "\<exists>w > 0. take_many 4 3 ''bot'' (utc_at 0) Map.empty = [0, 0, 0, w]"
  using burst_is_the_limit [of 3 Map.empty "''bot''" "utc_at 0"] by (simp add: eval_nat_numeral)

section \<open>Concrete requests\<close>

definition demo_settings :: "gostring \<Rightarrow> mcp_key list \<Rightarrow> settings" where
  "demo_settings web keys = (read_settings ''dev'' no_env)\<lparr>st_web_key := web, st_mcp_keys := keys\<rparr>"

definition demo_request :: "gostring \<Rightarrow> gostring \<Rightarrow> gostring \<Rightarrow> gostring option \<Rightarrow> request" where
  "demo_request method path key c = \<lparr>rq_method = method, rq_path = path,
     rq_header = (\<lambda>h. if h = ''X-API-Key'' then key else []), rq_session = c, rq_tls = True\<rparr>"

lemma demo_request_sel [simp]:
  "rq_method (demo_request m p key c) = m" "rq_path (demo_request m p key c) = p" "rq_session (demo_request m p key c) = c"
  by (simp_all add: demo_request_def)

lemma demo_keys: "APIKeys (demo_settings ''secret'' ks) = [''secret'']" "st_mcp_keys (demo_settings w ks) = ks"
proof -
  have "splitList ''secret'' = [''secret'']" by code_simp
  then show "APIKeys (demo_settings ''secret'' ks) = [''secret'']" by (simp add: APIKeys_def demo_settings_def)
qed (simp add: demo_settings_def)

lemma demo_token: "extractAPIKey (demo_request m p ''secret'' c) = ''secret''" "extractAPIKey (demo_request m p [] c) = []"
proof -
  have t: "trim_space ''secret'' = ''secret''" by code_simp
  show "extractAPIKey (demo_request m p ''secret'' c) = ''secret''" by (simp add: extractAPIKey_def demo_request_def t)
  show "extractAPIKey (demo_request m p [] c) = []" by (simp add: extractAPIKey_def demo_request_def)
qed

definition demo_login :: "cookie \<times> gotime" where
  "demo_login = setSessionCookie (utc_at 0) (demo_request ''POST'' ''/api/session'' ''secret'' None) ''secret''"

lemma demo_login_ok:
  "handleSessionCreate (APIKeys (demo_settings ''secret'' [])) (utc_at 0) (demo_request ''POST'' ''/api/session'' ''secret'' None)
   = Some (fst demo_login, fmt_rfc3339 (t_utc (snd demo_login)))"
  by (simp add: handleSessionCreate_def demo_keys demo_token demo_login_def split: prod.split)

lemma demo_served: "vd_decision (withAPIKey (demo_settings ''secret'' []) (utc_at 5) Map.empty
    (demo_request ''GET'' ''/api/credits'' [] (Some (ck_value (fst demo_login))))) = Serve None"
proof -
  have k: "''secret'' \<in> set (APIKeys (demo_settings ''secret'' []))" by (simp add: demo_keys)
  have e: "t_sec (t_add (utc_at 0) sessionTTL) = 2592000" by (simp add: t_sec_def t_add_def utc_at_def sessionTTL_def)
  have "t_sec (utc_at 5) = 0" by (simp add: t_sec_def utc_at_def second_def)
  then obtain signer x where "sessionSigner (sessionToken ''secret'' (t_add (utc_at 0) sessionTTL)) [''secret''] (utc_at 5)
      = Some (signer, x)"
    using session_roundtrip [OF k, of "utc_at 5" "t_add (utc_at 0) sessionTTL"] by (auto simp: e demo_keys)
  then show ?thesis
    by (subst withAPIKey_api) (simp_all add: demo_keys demo_token cookie_signer_def demo_login_def setSessionCookie_def
        Let_def safeMethod_def)
qed

theorem login_opens_api_witness: "vd_decision (withAPIKey (demo_settings ''secret'' []) (utc_at 5) Map.empty
    (demo_request ''GET'' ''/api/credits'' [] (Some (ck_value (fst demo_login))))) = Serve None"
proof -
  have t: "t_sec (utc_at 0) = 0" "t_sec (utc_at 5) = 0" by (simp_all add: t_sec_def utc_at_def second_def)
  show ?thesis
    by (rule login_opens_api [OF demo_login_ok])
       (simp_all add: t demo_token safeMethod_def)
qed



lemma agent_loads: "\<exists>s. Load ''dev'' (keys_env (Some (print_key demo_key [ScopeBalance, ScopeEmail]))) = Inr s \<and> st_mcp_keys s = [demo_key]"
proof -
  let ?t = "print_key demo_key [ScopeBalance, ScopeEmail]"
  have "?t \<noteq> []" by (simp add: print_key_def)
  moreover from this have "trim_space ?t = ?t"
    using print_key_chars [OF demo_key_printable] by (intro trim_all_graphic) auto
  ultimately have "fst (env_text (keys_env (Some ?t)) ''MCP_API_KEYS'' []) = ?t"
    by (simp add: env_text_def raw_def keys_env_def)
  then show ?thesis using Load_keys [of "Some ?t" "[demo_key]" "''dev''"] demo_key_parses by auto
qed

theorem mcp_key_not_for_api_witness:
  "\<exists>s status msg. vd_decision (withAPIKey s (utc_at 0) Map.empty (demo_request ''GET'' ''/api/credits'' ''0123456789abcdef'' None))
     = Refuse status msg \<and> st_mcp_keys s = [demo_key] \<and> (status = 401 \<or> status = 503)"
proof -
  obtain s where s: "Load ''dev'' (keys_env (Some (print_key demo_key [ScopeBalance, ScopeEmail]))) = Inr s" "st_mcp_keys s = [demo_key]"
    using agent_loads by blast
  let ?r = "demo_request ''GET'' ''/api/credits'' ''0123456789abcdef'' None"
  have t: "trim_space ''0123456789abcdef'' = ''0123456789abcdef''" by code_simp
  have k: "demo_key \<in> set (st_mcp_keys s)" by (simp add: s(2))
  have e: "extractAPIKey ?r = mk_key demo_key" by (simp add: extractAPIKey_def demo_request_def t demo_key_def)
  have "has_prefix (rq_path ?r) ''/api/''" "rq_method ?r \<noteq> ''OPTIONS''" by simp_all
  from mcp_key_not_for_api [OF s(1) k e this] s(2) show ?thesis by blast
qed

definition demo_cross_site :: request where
  "demo_cross_site = (demo_request ''GET'' ''/api/refresh'' [] (Some (ck_value (fst demo_login))))
     \<lparr>rq_header := (\<lambda>h. if h = ''Sec-Fetch-Site'' then ''cross-site'' else [])\<rparr>"

theorem cross_site_refresh_served_witness:
  "vd_decision (withAPIKey (demo_settings ''secret'' []) (utc_at 5) Map.empty demo_cross_site) = Serve None"
proof -
  have k: "''secret'' \<in> set (APIKeys (demo_settings ''secret'' []))" by (simp add: demo_keys)
  have e: "t_sec (t_add (utc_at 0) sessionTTL) = 2592000" by (simp add: t_sec_def t_add_def utc_at_def sessionTTL_def)
  have "t_sec (utc_at 5) = 0" by (simp add: t_sec_def utc_at_def second_def)
  then have "cookie_signer (APIKeys (demo_settings ''secret'' [])) [] (utc_at 5) demo_cross_site \<noteq> None"
    using session_roundtrip [OF k, of "utc_at 5" "t_add (utc_at 0) sessionTTL"]
    by (auto simp: e demo_keys cookie_signer_def demo_cross_site_def demo_login_def setSessionCookie_def Let_def)
  moreover have "extractAPIKey demo_cross_site = []" by (simp add: extractAPIKey_def demo_cross_site_def)
  ultimately show ?thesis
    using cross_site_refresh_served [of "demo_settings ''secret'' []" "utc_at 5" demo_cross_site]
    by (simp add: demo_keys demo_cross_site_def)
qed

end
