(* ===== verification/GoRegexp.thy ===== *)
theory GoRegexp
  imports Prelude
begin

text \<open>
  Code points and regular expressions of Go's standard library, as far as the program uses
  them: UTF-8 decoding with the replacement of ill-formed bytes, and leftmost-first matching
  of greedy and reluctant patterns with groups.  \<open>runs\<close> lists the ways to match in the order
  of preference; a match is the first of them at the leftmost position that has one.
\<close>

section \<open>Code points\<close>

definition between :: "nat \<Rightarrow> nat \<Rightarrow> char \<Rightarrow> bool" where
  "between a b c \<longleftrightarrow> a \<le> byte c \<and> byte c \<le> b"

definition second_ok :: "char \<Rightarrow> char \<Rightarrow> bool" where
  "second_ok c d = (if byte c = 0xE0 then between 0xA0 0xBF d else if byte c = 0xED then between 0x80 0x9F d
     else if byte c = 0xF0 then between 0x90 0xBF d else if byte c = 0xF4 then between 0x80 0x8F d
     else between 0x80 0xBF d)"

text \<open>The length of the UTF-8 sequence at the head; 0 when the head is ill-formed.\<close>

fun utf8_len :: "gostring \<Rightarrow> nat" where
  "utf8_len [] = 0"
| "utf8_len (c # s) =
     (if byte c < 0x80 then 1
      else if between 0xC2 0xDF c then (case s of d # _ \<Rightarrow> if second_ok c d then 2 else 0 | _ \<Rightarrow> 0)
      else if between 0xE0 0xEF c then (case s of d # e # _ \<Rightarrow>
        if second_ok c d \<and> between 0x80 0xBF e then 3 else 0 | _ \<Rightarrow> 0)
      else if between 0xF0 0xF4 c then (case s of d # e # f # _ \<Rightarrow>
        if second_ok c d \<and> between 0x80 0xBF e \<and> between 0x80 0xBF f then 4 else 0 | _ \<Rightarrow> 0)
      else 0)"

definition replacement_rune :: gostring where
  "replacement_rune = [CHR 0xEF, CHR 0xBF, CHR 0xBD]"

text \<open>The code point at the head, as its encoding, and how many bytes it takes.\<close>

definition rune_width :: "gostring \<Rightarrow> nat" where
  "rune_width s = (if utf8_len s = 0 then 1 else utf8_len s)"

definition rune_at :: "gostring \<Rightarrow> gostring" where
  "rune_at s = (if utf8_len s = 0 then replacement_rune else take (utf8_len s) s)"

lemma rune_width_pos [simp]: "0 < rune_width s"
  by (simp add: rune_width_def)

lemma rune_width_ne [simp]: "rune_width s \<noteq> 0" "(0 = rune_width s) = False"
  using rune_width_pos [of s] by simp_all

lemma utf8_len_le: "utf8_len s \<le> length s"
  by (cases s) (auto split: list.splits)

function runes :: "gostring \<Rightarrow> gostring list" where
  "runes s = (if s = [] then [] else rune_at s # runes (drop (rune_width s) s))"
  by pat_completeness auto
termination
  by (relation "measure length") auto

declare runes.simps [simp del]

lemma runes_Nil [simp]: "runes [] = []"
  by (simp add: runes.simps)

lemma runes_step: "s \<noteq> [] \<Longrightarrow> runes s = rune_at s # runes (drop (rune_width s) s)"
  by (subst runes.simps) simp

text \<open>\<open>string([]rune(s)[:n])\<close> of a longer text.\<close>

definition cut_runes :: "nat \<Rightarrow> gostring \<Rightarrow> gostring" where
  "cut_runes n s = concat (take n (runes s))"

lemma runes_ascii: "byte c < 128 \<Longrightarrow> runes (c # s) = [c] # runes s"
  by (simp add: runes_step rune_at_def rune_width_def)

section \<open>Patterns\<close>

datatype rx = Eps | Rune "gostring \<Rightarrow> bool" | Seq rx rx | Alt rx rx
  | Star bool rx | Cap nat rx | WordB | BeginText | EndText

text \<open>A position: the byte before it, the text from it on and the groups matched so far.\<close>

type_synonym place = "char option \<times> gostring \<times> (nat \<times> gostring) list"

definition word_char :: "char \<Rightarrow> bool" where
  "word_char c \<longleftrightarrow> is_digit c \<or> (97 \<le> byte c \<and> byte c \<le> 122) \<or> (65 \<le> byte c \<and> byte c \<le> 90) \<or> byte c = 95"

definition head_char :: "gostring \<Rightarrow> char option" where
  "head_char s = (case s of [] \<Rightarrow> None | c # _ \<Rightarrow> Some c)"

definition wordy :: "char option \<Rightarrow> bool" where
  "wordy o_c = (case o_c of None \<Rightarrow> False | Some c \<Rightarrow> word_char c)"

abbreviation place_text :: "place \<Rightarrow> gostring" where "place_text p \<equiv> fst (snd p)"

function runs :: "rx \<Rightarrow> place \<Rightarrow> place list" where
  "runs Eps p = [p]"
| "runs (Rune ok) (b, s, g) = (if s \<noteq> [] \<and> ok (rune_at s)
     then [(Some (s ! (rune_width s - 1)), drop (rune_width s) s, g)] else [])"
| "runs (Seq r q) p = concat (map (\<lambda>x. runs q x) (runs r p))"
| "runs (Alt r q) p = runs r p @ runs q p"
| "runs (Star greedy r) p =
     (let more = concat (map (\<lambda>x. if length (place_text x) < length (place_text p) then runs (Star greedy r) x else [])
        (runs r p))
      in if greedy then more @ [p] else p # more)"
| "runs (Cap n r) (b, s, g) =
     map (\<lambda>(b', s', g'). (b', s', (n, take (length s - length s') s) # g')) (runs r (b, s, g))"
| "runs WordB (b, s, g) = (if wordy b \<noteq> wordy (head_char s) then [(b, s, g)] else [])"
| "runs BeginText (b, s, g) = (if b = None then [(b, s, g)] else [])"
| "runs EndText (b, s, g) = (if s = [] then [(b, s, g)] else [])"
  by pat_completeness auto
termination
  by (relation "inv_image (less_than <*lex*> less_than) (\<lambda>(r, p). (size r, length (place_text p)))") auto

declare runs.simps(5) [simp del]

text \<open>A match: the text before it, the text matched, the position after it.\<close>

fun find_from :: "rx \<Rightarrow> nat \<Rightarrow> char option \<Rightarrow> gostring \<Rightarrow> gostring \<Rightarrow> (gostring \<times> gostring \<times> place) option" where
  "find_from r 0 b u s = None"
| "find_from r (Suc k) b u s =
     (case runs r (b, s, []) of
        x # _ \<Rightarrow> Some (u, take (length s - length (place_text x)) s, x)
      | [] \<Rightarrow> if s = [] then None
          else find_from r k (Some (s ! (rune_width s - 1))) (u @ take (rune_width s) s) (drop (rune_width s) s))"

definition find_match :: "rx \<Rightarrow> char option \<Rightarrow> gostring \<Rightarrow> (gostring \<times> gostring \<times> place) option" where
  "find_match r b s = find_from r (length s + 1) b [] s"

definition group_text :: "nat \<Rightarrow> place \<Rightarrow> gostring" where
  "group_text n p = (case map_of (snd (snd p)) n of None \<Rightarrow> [] | Some t \<Rightarrow> t)"

definition find_submatch :: "rx \<Rightarrow> gostring \<Rightarrow> nat \<Rightarrow> gostring option" where
  "find_submatch r s n = (case find_match r None s of None \<Rightarrow> None | Some (u, m, x) \<Rightarrow> Some (group_text n x))"

text \<open>\<open>ReplaceAll\<close> and \<open>FindAll\<close>; the patterns of the program never match the empty text, and an
  empty match would end the walk.  The replacement sees the text matched and its groups.\<close>

function replace_from :: "rx \<Rightarrow> (gostring \<Rightarrow> place \<Rightarrow> gostring) \<Rightarrow> char option \<Rightarrow> gostring \<Rightarrow> gostring" where
  "replace_from r f b s = (case find_match r b s of
       None \<Rightarrow> s
     | Some (u, m, x) \<Rightarrow> if length (place_text x) < length s
         then u @ f m x @ replace_from r f (fst x) (place_text x) else s)"
  by pat_completeness auto
termination
  by (relation "measure (\<lambda>(r, f, b, s). length s)") auto

declare replace_from.simps [simp del]

definition replace_matches :: "rx \<Rightarrow> (gostring \<Rightarrow> place \<Rightarrow> gostring) \<Rightarrow> gostring \<Rightarrow> gostring" where
  "replace_matches r f s = replace_from r f None s"

function find_all_from :: "rx \<Rightarrow> char option \<Rightarrow> gostring \<Rightarrow> gostring list" where
  "find_all_from r b s = (case find_match r b s of
       None \<Rightarrow> []
     | Some (u, m, x) \<Rightarrow> if length (place_text x) < length s
         then m # find_all_from r (fst x) (place_text x) else [])"
  by pat_completeness auto
termination
  by (relation "measure (\<lambda>(r, b, s). length s)") auto

declare find_all_from.simps [simp del]

definition find_all :: "rx \<Rightarrow> gostring \<Rightarrow> gostring list" where
  "find_all r s = find_all_from r None s"

definition matches :: "rx \<Rightarrow> gostring \<Rightarrow> bool" where
  "matches r s \<longleftrightarrow> find_match r None s \<noteq> None"

section \<open>Common patterns\<close>

definition one_of :: "gostring \<Rightarrow> rx" where
  "one_of cs = Rune (\<lambda>t. \<exists>c \<in> set cs. t = [c])"

definition none_of :: "gostring \<Rightarrow> rx" where
  "none_of cs = Rune (\<lambda>t. \<not> (\<exists>c \<in> set cs. t = [c]))"

definition ascii_class :: "(char \<Rightarrow> bool) \<Rightarrow> rx" where
  "ascii_class ok = Rune (\<lambda>t. case t of [c] \<Rightarrow> ok c | _ \<Rightarrow> False)"

definition regexp_space :: gostring where
  "regexp_space = [CHR 0x09, CHR 0x0A, CHR 0x0C, CHR 0x0D, CHR 0x20]"

definition any_rune :: rx where "any_rune = Rune (\<lambda>t. t \<noteq> [CHR 0x0A])"

text \<open>Under \<open>(?i)\<close> a letter stands for its case variants, which beyond ASCII are the Kelvin
  sign for k and the long s.\<close>

definition letter_any_case :: "char \<Rightarrow> rx" where
  "letter_any_case c = Rune (\<lambda>t. t = [c] \<or> t = [lower_char c] \<or> t = [upper_char c]
     \<or> (lower_char c = CHR ''k'' \<and> t = [CHR 0xE2, CHR 0x84, CHR 0xAA])
     \<or> (lower_char c = CHR ''s'' \<and> t = [CHR 0xC5, CHR 0xBF]))"

fun seq_all :: "rx list \<Rightarrow> rx" where
  "seq_all [] = Eps"
| "seq_all (r # rs) = Seq r (seq_all rs)"

fun alt_all :: "rx \<Rightarrow> rx list \<Rightarrow> rx" where
  "alt_all r [] = r"
| "alt_all r (q # qs) = Alt r (alt_all q qs)"

definition lit_any_case :: "gostring \<Rightarrow> rx" where
  "lit_any_case s = seq_all (map letter_any_case s)"

definition lit :: "gostring \<Rightarrow> rx" where
  "lit s = seq_all (map (\<lambda>t. Rune (\<lambda>u. u = t)) (runes s))"

definition optional :: "rx \<Rightarrow> rx" where "optional r = Alt r Eps"

definition many :: "rx \<Rightarrow> rx" where "many r = Star True r"

definition some1 :: "rx \<Rightarrow> rx" where "some1 r = Seq r (Star True r)"

definition some_reluctant :: "rx \<Rightarrow> rx" where "some_reluctant r = Seq r (Star False r)"

definition at_least :: "nat \<Rightarrow> rx \<Rightarrow> rx" where
  "at_least n r = Seq (seq_all (replicate n r)) (Star True r)"

fun up_to :: "nat \<Rightarrow> rx \<Rightarrow> rx" where
  "up_to 0 r = Eps"
| "up_to (Suc n) r = Alt (Seq r (up_to n r)) Eps"

definition from_to :: "nat \<Rightarrow> nat \<Rightarrow> rx \<Rightarrow> rx" where
  "from_to m n r = Seq (seq_all (replicate m r)) (up_to (n - m) r)"

section \<open>What a run does\<close>

lemma runs_Star: "runs (Star greedy r) p = (let more = concat (map (\<lambda>x. if length (place_text x) < length (place_text p)
      then runs (Star greedy r) x else []) (runs r p)) in if greedy then more @ [p] else p # more)"
  by (rule runs.simps)

text \<open>A run consumes a prefix of the text.\<close>

definition ends_with :: "gostring \<Rightarrow> gostring \<Rightarrow> bool" where
  "ends_with s t \<longleftrightarrow> (\<exists>m. s = m @ t)"

lemma ends_with_refl [simp]: "ends_with s s"
  by (simp add: ends_with_def)

lemma ends_with_trans: "ends_with s t \<Longrightarrow> ends_with t u \<Longrightarrow> ends_with s u"
  by (auto simp: ends_with_def)

lemma ends_with_drop [simp]: "ends_with s (drop n s)"
  unfolding ends_with_def by (metis append_take_drop_id)

lemma runs_suffix: "x \<in> set (runs r p) \<Longrightarrow> ends_with (place_text p) (place_text x)"
proof (induction r p arbitrary: x rule: runs.induct)
  case (2 ok b s g)
  then show ?case by (auto split: if_splits)
next
  case (3 r q p)
  from 3(3) obtain y where "y \<in> set (runs r p)" "x \<in> set (runs q y)" by auto
  then show ?case using 3(1,2) ends_with_trans by blast
next
  case (4 r q p)
  then show ?case by (metis Un_iff runs.simps(4) set_append)
next
  case (5 greedy r p)
  from 5(3) consider "x = p" | y where "y \<in> set (runs r p)" "length (place_text y) < length (place_text p)"
    "x \<in> set (runs (Star greedy r) y)"
    by (auto simp: runs_Star [of greedy r p] Let_def split: if_splits)
  then show ?case
  proof cases
    case 2
    then show ?thesis using 5(1) 5(2) ends_with_trans by blast
  qed simp
next
  case (6 n r b s g)
  then show ?case by fastforce
qed (auto split: if_splits)

lemma find_from_split:
  "find_from r k b u s = Some (v, m, x) \<Longrightarrow>
   \<exists>w. v = u @ w \<and> s = w @ m @ place_text x \<and> (\<exists>b'. x \<in> set (runs r (b', m @ place_text x, [])) \<and>
     b' = (if w = [] then b else Some (last w)))"
proof (induction r k b u s rule: find_from.induct)
  case (2 r k b u s)
  show ?case
  proof (cases "runs r (b, s, [])")
    case (Cons y ys)
    with 2(2) have "v = u" "x = y" and m: "m = take (length s - length (place_text x)) s" by auto
    obtain m' where "s = m' @ place_text x" using runs_suffix [of x r "(b, s, [])"] Cons \<open>x = y\<close>
      by (auto simp: ends_with_def)
    with m have "s = m @ place_text x" by simp
    then show ?thesis using Cons \<open>v = u\<close> \<open>x = y\<close> by (auto intro!: exI [of _ "[]"])
  next
    case Nil
    let ?n = "rune_width s"
    from Nil 2(2) have s: "s \<noteq> []" by (auto split: if_splits)
    with Nil 2 obtain w where w: "v = (u @ take ?n s) @ w" "drop ?n s = w @ m @ place_text x"
      "x \<in> set (runs r (if w = [] then Some (s ! (?n - 1)) else Some (last w), m @ place_text x, []))" by auto
    have le: "?n \<le> length s" using s utf8_len_le [of s] by (auto simp: rune_width_def Suc_le_eq)
    have ne: "take ?n s \<noteq> []" using s by simp
    have l: "last (take ?n s) = s ! (?n - 1)" using le ne by (simp add: last_conv_nth min_def)
    have "s = (take ?n s @ w) @ m @ place_text x" using w(2) by (metis append_assoc append_take_drop_id)
    moreover have "x \<in> set (runs r (Some (last (take ?n s @ w)), m @ place_text x, []))"
      using w(3) l by (cases "w = []") auto
    ultimately show ?thesis using w(1) ne by (intro exI [of _ "take ?n s @ w"]) auto
  qed
qed simp

lemma find_match_split:
  assumes "find_match r b s = Some (u, m, x)"
  shows "s = u @ m @ place_text x"
    "x \<in> set (runs r (if u = [] then b else Some (last u), m @ place_text x, []))"
  using find_from_split [of r "length s + 1" b "[]" s u m x] assms by (auto simp: find_match_def)

text \<open>Patterns without a group leave the groups alone.\<close>

fun no_groups :: "rx \<Rightarrow> bool" where
  "no_groups (Seq r q) = (no_groups r \<and> no_groups q)"
| "no_groups (Alt r q) = (no_groups r \<and> no_groups q)"
| "no_groups (Star g r) = no_groups r"
| "no_groups (Cap n r) = False"
| "no_groups _ = True"

lemma runs_no_groups: "x \<in> set (runs r p) \<Longrightarrow> no_groups r \<Longrightarrow> snd (snd x) = snd (snd p)"
proof (induction r p arbitrary: x rule: runs.induct)
  case (3 r q p)
  from 3(3) obtain y where "y \<in> set (runs r p)" "x \<in> set (runs q y)" by auto
  then show ?case using 3(1,2,4) by auto
next
  case (4 r q p)
  then show ?case by (metis Un_iff no_groups.simps(2) runs.simps(4) set_append)
next
  case (5 greedy r p)
  from 5(3) consider "x = p" | y where "y \<in> set (runs r p)" "length (place_text y) < length (place_text p)"
    "x \<in> set (runs (Star greedy r) y)"
    by (auto simp: runs_Star [of greedy r p] Let_def split: if_splits)
  then show ?case
  proof cases
    case 2
    then show ?thesis using 5(1) [of x] 5(2) [OF 2(1,2,3)] 5(1) [OF 2(1)] 5(4) by simp
  qed simp
qed (auto split: if_splits)

lemma runs_SeqE:
  assumes "x \<in> set (runs (Seq r q) p)"
  obtains y where "y \<in> set (runs r p)" "x \<in> set (runs q y)"
  using assms by auto

text \<open>What a group takes is a prefix of the text at its position.\<close>

lemma runs_CapE:
  assumes "x \<in> set (runs (Cap n r) p)"
  shows "place_text p = group_text n x @ place_text x"
proof -
  obtain b s g where p: "p = (b, s, g)" by (cases p)
  from assms obtain b' s' g' where y: "(b', s', g') \<in> set (runs r (b, s, g))"
    "x = (b', s', (n, take (length s - length s') s) # g')" by (auto simp: p)
  then obtain m where "s = m @ s'" using runs_suffix [OF y(1)] by (auto simp: ends_with_def)
  then show ?thesis by (simp add: p y(2) group_text_def)
qed

definition byte_seq :: "gostring \<Rightarrow> rx" where
  "byte_seq s = seq_all (map (\<lambda>c. Rune (\<lambda>u. u = [c])) s)"

lemma runs_byte_seq:
  assumes "\<forall>c \<in> set cs. byte c < 128" and "x \<in> set (runs (byte_seq cs) p)"
  shows "place_text p = cs @ place_text x \<and> snd (snd x) = snd (snd p)"
  using assms
proof (induction cs arbitrary: p)
  case (Cons c cs)
  obtain b s g where p: "p = (b, s, g)" by (cases p)
  from Cons(3) obtain y where y: "y \<in> set (runs (Rune (\<lambda>u. u = [c])) (b, s, g))" "x \<in> set (runs (byte_seq cs) y)"
    by (auto simp: byte_seq_def p)
  then have s: "s \<noteq> []" "rune_at s = [c]" "place_text y = drop (rune_width s) s" "snd (snd y) = g"
    by (auto split: if_splits)
  have "utf8_len s \<noteq> 0" using s(2) by (auto simp: rune_at_def replacement_rune_def split: if_splits)
  then have "take (rune_width s) s = [c]" using s(2) by (simp add: rune_at_def rune_width_def)
  then have "s = c # place_text y" using s(3) by (metis append_Cons append_Nil append_take_drop_id)
  then show ?case using Cons(1) [of y] Cons(2) y(2) s(4) by (simp add: p)
qed (simp add: byte_seq_def)

lemma lit_ascii: "\<forall>c \<in> set cs. byte c < 128 \<Longrightarrow> lit cs = byte_seq cs"
proof -
  have "\<forall>c \<in> set cs. byte c < 128 \<Longrightarrow> runes cs = map (\<lambda>c. [c]) cs"
    by (induction cs) (simp_all add: runes_ascii)
  then show "\<forall>c \<in> set cs. byte c < 128 \<Longrightarrow> lit cs = byte_seq cs"
    by (simp add: lit_def byte_seq_def comp_def)
qed

end
