(* ===== verification/GoUrl.thy ===== *)
theory GoUrl
  imports GoCrypto
begin

text \<open>
  \<open>net/url\<close> as far as the program uses it: \<open>Parse\<close> (scheme, host, path and query),
  \<open>QueryEscape\<close>, \<open>Values.Encode\<close>, \<open>ParseQuery\<close> and \<open>PathUnescape\<close>.  The inside of a bracketed
  IPv6 host is not checked; an error is \<open>None\<close>.
\<close>

section \<open>Escapes\<close>

definition letter :: "char \<Rightarrow> bool" where
  "letter c \<longleftrightarrow> (97 \<le> byte c \<and> byte c \<le> 122) \<or> (65 \<le> byte c \<and> byte c \<le> 90)"

definition unreserved :: "char \<Rightarrow> bool" where
  "unreserved c \<longleftrightarrow> letter c \<or> is_digit c \<or> c \<in> set ''-_.~''"

definition upper_hex :: "nat \<Rightarrow> char" where
  "upper_hex n = (if n < 10 then char_of (48 + n) else char_of (55 + n))"

definition percent_byte :: "char \<Rightarrow> gostring" where
  "percent_byte c = [CHR ''%'', upper_hex (byte c div 16), upper_hex (byte c mod 16)]"

definition QueryEscape :: "gostring \<Rightarrow> gostring" where
  "QueryEscape s = concat (map (\<lambda>c. if unreserved c then [c] else if c = CHR '' '' then ''+'' else percent_byte c) s)"

text \<open>Percent-decoding; \<open>host_ok\<close> says which bytes may stand alone and \<open>wide_only\<close> whether an
  escape below 0x80 is refused, as in a host.\<close>

fun unescape :: "bool \<Rightarrow> (char \<Rightarrow> bool) \<Rightarrow> bool \<Rightarrow> gostring \<Rightarrow> gostring option" where
  "unescape sp host_ok wide_only [] = Some []"
| "unescape sp host_ok wide_only (c # s) =
     (if c = CHR ''%'' then
        (case s of a # b # r \<Rightarrow>
           (case (hex_val a, hex_val b) of
              (Some x, Some y) \<Rightarrow>
                if wide_only \<and> x < 8 \<and> \<not> (a = CHR ''2'' \<and> b = CHR ''5'') then None
                else map_option (\<lambda>t. char_of (16 * x + y) # t) (unescape sp host_ok wide_only r)
            | _ \<Rightarrow> None)
         | _ \<Rightarrow> None)
      else if \<not> host_ok c then None
      else map_option (\<lambda>t. (if sp \<and> c = CHR ''+'' then CHR '' '' else c) # t) (unescape sp host_ok wide_only s))"

definition PathUnescape :: "gostring \<Rightarrow> gostring option" where
  "PathUnescape s = unescape False (\<lambda>_. True) False s"

definition QueryUnescape :: "gostring \<Rightarrow> gostring option" where
  "QueryUnescape s = unescape True (\<lambda>_. True) False s"

definition host_byte :: "char \<Rightarrow> bool" where
  "host_byte c \<longleftrightarrow> 128 \<le> byte c \<or> unreserved c \<or> c \<in> set ''!$&()*+,;=:[]<>'' \<or> c = CHR 0x27 \<or> c = CHR 0x22"

section \<open>Parsing\<close>

record url =
  u_scheme :: gostring
  u_host :: gostring
  u_path :: gostring
  u_query :: gostring

text \<open>\<open>getScheme\<close>: \<open>None\<close> for a missing scheme before a colon.\<close>

fun scheme_loop :: "gostring \<Rightarrow> gostring \<Rightarrow> gostring \<Rightarrow> (gostring \<times> gostring) option" where
  "scheme_loop raw acc [] = Some ([], raw)"
| "scheme_loop raw acc (c # s) =
     (if letter c then scheme_loop raw (acc @ [c]) s
      else if is_digit c \<or> c \<in> set ''+-.'' then (if acc = [] then Some ([], raw) else scheme_loop raw (acc @ [c]) s)
      else if c = CHR '':'' then (if acc = [] then None else Some (acc, s))
      else Some ([], raw))"

definition valid_port :: "gostring \<Rightarrow> bool" where
  "valid_port s = (case s of [] \<Rightarrow> True | c # r \<Rightarrow> c = CHR '':'' \<and> list_all is_digit r)"

text \<open>Around the last occurrence of a byte.\<close>

definition cut_last :: "char \<Rightarrow> gostring \<Rightarrow> (gostring \<times> gostring) option" where
  "cut_last d s = (case cut (rev s) [d] of None \<Rightarrow> None | Some (a, b) \<Rightarrow> Some (rev b, rev a))"

definition parse_host :: "gostring \<Rightarrow> gostring option" where
  "parse_host host =
     (if has_prefix host ''['' then
        (case cut_last (CHR '']'') host of
           None \<Rightarrow> None
         | Some (_, port) \<Rightarrow> if valid_port port then unescape False host_byte True host else None)
      else case cut host '':'' of
          Some (_, port) \<Rightarrow> if list_all is_digit port then unescape False host_byte True host else None
        | None \<Rightarrow> unescape False host_byte True host)"

definition userinfo_byte :: "char \<Rightarrow> bool" where
  "userinfo_byte c \<longleftrightarrow> letter c \<or> is_digit c \<or> c \<in> set ''-._:~!$&()*+,;=%@'' \<or> c = CHR 0x27"

definition parse_authority :: "gostring \<Rightarrow> gostring option" where
  "parse_authority a = (case cut_last (CHR ''@'') a of
       None \<Rightarrow> parse_host a
     | Some (user, host) \<Rightarrow> (case parse_host host of
         None \<Rightarrow> None
       | Some h \<Rightarrow> if list_all userinfo_byte user \<and> PathUnescape user \<noteq> None then Some h else None))"

definition parse_url :: "gostring \<Rightarrow> url option" where
  "parse_url raw =
     (let (u, frag) = (case cut raw ''#'' of None \<Rightarrow> (raw, []) | Some p \<Rightarrow> p) in
      if \<not> list_all (\<lambda>c. 32 \<le> byte c \<and> byte c \<noteq> 127) u \<or> PathUnescape frag = None then None
      else if u = ''*'' then Some \<lparr>u_scheme = [], u_host = [], u_path = ''*'', u_query = []\<rparr>
      else case scheme_loop u [] u of
        None \<Rightarrow> None
      | Some (scheme0, rest0) \<Rightarrow>
        (let scheme = to_lower scheme0;
             (rest, query) = (case cut rest0 ''?'' of None \<Rightarrow> (rest0, []) | Some p \<Rightarrow> p)
         in if \<not> has_prefix rest ''/'' \<and> scheme \<noteq> [] then
              Some \<lparr>u_scheme = scheme, u_host = [], u_path = [], u_query = query\<rparr>
            else if \<not> has_prefix rest ''/'' \<and> CHR '':'' \<in> set (hd (split_on (CHR ''/'') rest)) then None
            else if (scheme \<noteq> [] \<or> \<not> has_prefix rest ''///'') \<and> has_prefix rest ''//'' then
              (let auth_rest = drop 2 rest;
                   auth = takeWhile (\<lambda>c. c \<noteq> CHR ''/'') auth_rest;
                   path = dropWhile (\<lambda>c. c \<noteq> CHR ''/'') auth_rest
               in case (parse_authority auth, PathUnescape path) of
                    (Some h, Some p) \<Rightarrow> Some \<lparr>u_scheme = scheme, u_host = h, u_path = p, u_query = query\<rparr>
                  | _ \<Rightarrow> None)
            else case PathUnescape rest of
                Some p \<Rightarrow> Some \<lparr>u_scheme = scheme, u_host = [], u_path = p, u_query = query\<rparr>
              | None \<Rightarrow> None))"

section \<open>Query strings\<close>

text \<open>\<open>Values.Encode\<close> of a map with one value for each key.\<close>

definition query_encode :: "(gostring \<times> gostring) list \<Rightarrow> gostring" where
  "query_encode m = join ''&'' (map (\<lambda>(k, v). QueryEscape k @ ''='' @ QueryEscape v)
     (sort_by (\<lambda>a b. string_less (fst a) (fst b)) m))"

text \<open>\<open>ParseQuery\<close>: the pairs in order; a semicolon or a bad escape is an error.\<close>

fun query_pairs :: "gostring list \<Rightarrow> (gostring \<times> gostring) list option" where
  "query_pairs [] = Some []"
| "query_pairs (p # ps) =
     (if p = [] then query_pairs ps
      else if CHR '';'' \<in> set p then None
      else (let (k, v) = (case cut p ''='' of None \<Rightarrow> (p, []) | Some q \<Rightarrow> q) in
        case (QueryUnescape k, QueryUnescape v, query_pairs ps) of
          (Some a, Some b, Some r) \<Rightarrow> Some ((a, b) # r)
        | _ \<Rightarrow> None))"

definition ParseQuery :: "gostring \<Rightarrow> (gostring \<times> gostring) list option" where
  "ParseQuery q = query_pairs (split_on (CHR ''&'') q)"

definition query_get :: "(gostring \<times> gostring) list \<Rightarrow> gostring \<Rightarrow> gostring" where
  "query_get ps k = (case map_of ps k of None \<Rightarrow> [] | Some v \<Rightarrow> v)"

section \<open>Round trips\<close>

lemma hex_val_upper: "n < 16 \<Longrightarrow> hex_val (upper_hex n) = Some n"
  by (auto simp: hex_val_def upper_hex_def Let_def)

lemma unescape_percent:
  "unescape sp ok False (percent_byte c @ s) = map_option (\<lambda>t. c # t) (unescape sp ok False s)"
proof -
  have b: "byte c div 16 < 16" "byte c mod 16 < 16" using byte_less_256 [of c] by auto
  have "char_of (16 * (byte c div 16) + byte c mod 16) = c" by (simp add: byte_def)
  then show ?thesis using hex_val_upper [OF b(1)] hex_val_upper [OF b(2)] by (simp add: percent_byte_def)
qed

lemma unreserved_plain: "unreserved c \<Longrightarrow> c \<noteq> CHR ''%'' \<and> c \<noteq> CHR ''+'' \<and> c \<noteq> CHR '' ''"
  by (auto simp: unreserved_def letter_def is_digit_def byte_def)

lemma QueryUnescape_Escape: "QueryUnescape (QueryEscape s) = Some s"
  unfolding QueryUnescape_def QueryEscape_def
  by (induction s) (auto simp: unescape_percent unreserved_plain)

end
