(* ===== verification/Json.thy ===== *)
theory Json
  imports GoRegexp GoUrl GoNum GoFmt
begin

text \<open>
  Values decoded from JSON and the access helpers of the provider package
  (\<open>provider/common.go\<close>, \<open>provider/provider.go\<close>, \<open>provider/dynamic.go\<close>): truth, numbers, texts
  and paths.  \<open>null\<close> and a missing value are the same nil interface, \<open>JNull\<close> here; the keys of
  an object are distinct, as in a Go map.
\<close>

section \<open>Values\<close>

datatype json = JNull | JBool bool | JNum f64 | JStr gostring | JArr "json list"
  | JObj "(gostring \<times> json) list"

definition field :: "json \<Rightarrow> gostring \<Rightarrow> json" where
  "field v k = (case v of JObj kvs \<Rightarrow> (case map_of kvs k of None \<Rightarrow> JNull | Some w \<Rightarrow> w) | _ \<Rightarrow> JNull)"

definition truthy_json :: "json \<Rightarrow> bool" where
  "truthy_json v = (case v of JNull \<Rightarrow> False | JBool b \<Rightarrow> b | JNum x \<Rightarrow> \<not> feq x (Fin 0)
     | JStr s \<Rightarrow> s \<noteq> [] | JArr vs \<Rightarrow> vs \<noteq> [] | JObj kvs \<Rightarrow> kvs \<noteq> [])"

definition jsonNum :: "json \<Rightarrow> f64 option" where
  "jsonNum v = (case v of JNum x \<Rightarrow> Some x | _ \<Rightarrow> None)"

definition orElse :: "json \<Rightarrow> json \<Rightarrow> json" where
  "orElse a b = (if truthy_json a then a else b)"

section \<open>Texts\<close>

text \<open>A number the way \<open>encoding/json\<close> prints it: exponents from \<open>1e21\<close> on and below
  \<open>1e-6\<close>, without a leading zero in the exponent.\<close>

definition short_exponent :: "gostring \<Rightarrow> gostring" where
  "short_exponent b = (let n = length b in
     if 4 \<le> n \<and> b ! (n - 4) = CHR ''e'' \<and> (b ! (n - 3) = CHR ''-'' \<or> b ! (n - 3) = CHR ''+'') \<and> b ! (n - 2) = CHR ''0''
     then take (n - 2) b @ [b ! (n - 1)] else b)"

definition json_number :: "f64 \<Rightarrow> gostring" where
  "json_number v = (case v of
       Fin x \<Rightarrow> if x \<noteq> 0 \<and> (\<bar>x\<bar> < 1 / 10 ^ 6 \<or> 10 ^ 21 \<le> \<bar>x\<bar>) then short_exponent (fmt_e x) else fmt_f x
     | _ \<Rightarrow> non_finite v)"

text \<open>Strings without HTML escapes.\<close>

definition json_rune :: "gostring \<Rightarrow> gostring" where
  "json_rune r = (case r of
       [c] \<Rightarrow> if c = CHR 0x22 then [CHR 0x5C, CHR 0x22] else if c = CHR 0x5C then [CHR 0x5C, CHR 0x5C]
         else if c = CHR 0x08 then [CHR 0x5C, CHR ''b''] else if c = CHR 0x0C then [CHR 0x5C, CHR ''f'']
         else if c = CHR 0x0A then [CHR 0x5C, CHR ''n''] else if c = CHR 0x0D then [CHR 0x5C, CHR ''r'']
         else if c = CHR 0x09 then [CHR 0x5C, CHR ''t'']
         else if byte c < 32 then [CHR 0x5C] @ ''u00'' @ [hex_digit (byte c div 16), hex_digit (byte c mod 16)]
         else [c]
     | _ \<Rightarrow> if r = [CHR 0xE2, CHR 0x80, CHR 0xA8] then [CHR 0x5C] @ ''u2028''
         else if r = [CHR 0xE2, CHR 0x80, CHR 0xA9] then [CHR 0x5C] @ ''u2029'' else r)"

text \<open>Ill-formed bytes come out as the escaped replacement character.\<close>

fun json_runes :: "nat \<Rightarrow> gostring \<Rightarrow> gostring" where
  "json_runes 0 s = []"
| "json_runes (Suc k) s = (if s = [] then []
     else (if utf8_len s = 0 then [CHR 0x5C] @ ''ufffd'' else json_rune (rune_at s)) @ json_runes k (drop (rune_width s) s))"

definition json_string :: "gostring \<Rightarrow> gostring" where
  "json_string s = [CHR 0x22] @ json_runes (length s) s @ [CHR 0x22]"

fun json_text :: "json \<Rightarrow> gostring" where
  "json_text JNull = ''null''"
| "json_text (JBool b) = (if b then ''true'' else ''false'')"
| "json_text (JNum x) = json_number x"
| "json_text (JStr s) = json_string s"
| "json_text (JArr vs) = ''['' @ join '','' (map json_text vs) @ '']''"
| "json_text (JObj kvs) = ''{'' @ join '','' (map (\<lambda>(k, t). json_string k @ '':'' @ t)
     (sort_by (\<lambda>a b. string_less (fst a) (fst b)) (map (\<lambda>(k, v). (k, json_text v)) kvs))) @ ''}''"

definition formatValue :: "json \<Rightarrow> gostring" where
  "formatValue v = (case v of JStr s \<Rightarrow> s | JNum x \<Rightarrow> format_f x | _ \<Rightarrow> json_text v)"

definition messageOr :: "json \<Rightarrow> gostring \<Rightarrow> gostring \<Rightarrow> gostring" where
  "messageOr data key fallback = (case data of
       JObj kvs \<Rightarrow> (case map_of kvs key of None \<Rightarrow> fallback | Some v \<Rightarrow> formatValue v)
     | _ \<Rightarrow> fallback)"

section \<open>Numbers\<close>

definition Num :: "json \<Rightarrow> f64 option" where
  "Num v = (case v of JNum x \<Rightarrow> Some x
     | JStr s \<Rightarrow> parse_float (replace_all '','' [] (trim_space s)) | _ \<Rightarrow> None)"

definition Str :: "json \<Rightarrow> gostring" where
  "Str v = (case v of JStr s \<Rightarrow> s | _ \<Rightarrow> [])"

definition provider_round2 :: "f64 \<Rightarrow> f64" where
  "provider_round2 v = (case parse_float (format_fixed 2 v) of None \<Rightarrow> v | Some r \<Rightarrow> r)"

definition digit_class :: rx where "digit_class = ascii_class is_digit"

definition firstNumber :: rx where
  "firstNumber = seq_all [optional (one_of ''-''), digit_class,
     many (ascii_class (\<lambda>c. is_digit c \<or> c = CHR '','')), optional (Seq (one_of ''.'') (some1 digit_class))]"

definition numLoose :: "json \<Rightarrow> f64 option" where
  "numLoose v = (case Num v of Some x \<Rightarrow> Some x
     | None \<Rightarrow> (case v of
         JStr s \<Rightarrow> (case find_match firstNumber None s of
             None \<Rightarrow> None
           | Some (u, m, x) \<Rightarrow> if m = [] then None else Num (JStr m))
       | _ \<Rightarrow> None))"

section \<open>Paths\<close>

fun Dig :: "json \<Rightarrow> gostring list \<Rightarrow> json" where
  "Dig v [] = v"
| "Dig v (k # ks) = (case v of JObj kvs \<Rightarrow> Dig (field v k) ks | _ \<Rightarrow> JNull)"

definition Object :: "json \<Rightarrow> json" where
  "Object v = (case v of JObj kvs \<Rightarrow> v | _ \<Rightarrow> JNull)"

text \<open>Dots separate tokens except inside braces.\<close>

fun split_tokens :: "gostring list \<Rightarrow> bool \<Rightarrow> gostring \<Rightarrow> gostring list" where
  "split_tokens [] in_filter cur = [cur]"
| "split_tokens (r # rs) in_filter cur =
     (if r = ''{'' then split_tokens rs True (cur @ r)
      else if r = ''}'' then split_tokens rs False (cur @ r)
      else if r = ''.'' \<and> \<not> in_filter then cur # split_tokens rs in_filter []
      else split_tokens rs in_filter (cur @ r))"

definition splitPath :: "gostring \<Rightarrow> gostring list" where
  "splitPath path = split_tokens (runes (trim_space path)) False []"

text \<open>Whether an element's field has the value asked for.\<close>

definition picks_element :: "gostring \<Rightarrow> gostring \<Rightarrow> json \<Rightarrow> bool" where
  "picks_element fld value item = (case item of
       JObj kvs \<Rightarrow> (case field item fld of
           JStr s \<Rightarrow> s = value
         | c \<Rightarrow> (case (Num c, parse_float (trim_space value)) of
             (Some got, Some want) \<Rightarrow> feq got want | _ \<Rightarrow> False))
     | _ \<Rightarrow> False)"

definition pickElement :: "json \<Rightarrow> gostring \<Rightarrow> json" where
  "pickElement current spec = (case cut spec '':'' of
       None \<Rightarrow> JNull
     | Some (fld, value) \<Rightarrow> (case current of
         JArr vs \<Rightarrow> if vs = [] then JNull
           else (case find (picks_element fld value) vs of Some item \<Rightarrow> item | None \<Rightarrow> hd vs)
       | _ \<Rightarrow> JNull))"

definition trim_suffix_opt :: "gostring \<Rightarrow> gostring \<Rightarrow> gostring option" where
  "trim_suffix_opt s p = (if has_suffix s p then Some (take (length s - length p) s) else None)"

fun dig_tokens :: "json \<Rightarrow> gostring list \<Rightarrow> json" where
  "dig_tokens current [] = current"
| "dig_tokens current (tok # toks) =
     (let token = trim_space tok in
      if token = [] then JNull
      else if has_prefix token ''{'' then
        (case trim_suffix_opt (drop 1 token) ''}'' of
           None \<Rightarrow> JNull
         | Some spec \<Rightarrow> dig_tokens (pickElement current spec) toks)
      else case atoi token of
          Some index \<Rightarrow> (case current of
              JArr vs \<Rightarrow> if index < 0 \<or> int (length vs) \<le> index then JNull else dig_tokens (vs ! nat index) toks
            | _ \<Rightarrow> JNull)
        | None \<Rightarrow> (case current of
              JObj kvs \<Rightarrow> dig_tokens (field current token) toks
            | _ \<Rightarrow> JNull))"

definition DigPath :: "json \<Rightarrow> gostring \<Rightarrow> json" where
  "DigPath data path = dig_tokens data (splitPath path)"

fun dig_first :: "json \<Rightarrow> gostring list \<Rightarrow> json" where
  "dig_first data [] = JNull"
| "dig_first data (path # paths) =
     (let found = DigPath data path in if found \<noteq> JNull then found else dig_first data paths)"

definition DigFirst :: "json \<Rightarrow> gostring \<Rightarrow> json" where
  "DigFirst data paths = dig_first data (split_on (CHR ''|'') paths)"

section \<open>Decoding\<close>

text \<open>\<open>json.Unmarshal\<close> into a map: an object, or \<open>null\<close> for the nil map.  Of two members with
  one name the later wins.  The fuel is the length of the text, which every step shortens.\<close>

definition utf8_encode :: "nat \<Rightarrow> gostring" where
  "utf8_encode n = map char_of
     (if n < 0x80 then [n]
      else if n < 0x800 then [0xC0 + n div 64, 0x80 + n mod 64]
      else if n < 0x10000 then [0xE0 + n div 4096, 0x80 + n div 64 mod 64, 0x80 + n mod 64]
      else [0xF0 + n div 262144, 0x80 + n div 4096 mod 64, 0x80 + n div 64 mod 64, 0x80 + n mod 64])"

definition hex4 :: "gostring \<Rightarrow> (nat \<times> gostring) option" where
  "hex4 s = (case s of a # b # c # d # r \<Rightarrow>
       (case (hex_digit_val a, hex_digit_val b, hex_digit_val c, hex_digit_val d) of
          (Some w, Some x, Some y, Some z) \<Rightarrow> Some (4096 * w + 256 * x + 16 * y + z, r)
        | _ \<Rightarrow> None)
     | _ \<Rightarrow> None)"

text \<open>After \<open>\u\<close>: a code point, where a high surrogate needs a low one behind it.\<close>

definition escaped_rune :: "gostring \<Rightarrow> (gostring \<times> gostring) option" where
  "escaped_rune s = (case hex4 s of
       None \<Rightarrow> None
     | Some (n, r) \<Rightarrow>
         if 0xD800 \<le> n \<and> n < 0xDC00 then
           (case (if has_prefix r ([CHR 0x5C] @ ''u'') then hex4 (drop 2 r) else None) of
              Some (m, r') \<Rightarrow> if 0xDC00 \<le> m \<and> m < 0xE000
                then Some (utf8_encode (0x10000 + (n - 0xD800) * 1024 + (m - 0xDC00)), r')
                else Some (replacement_rune, r)
            | None \<Rightarrow> Some (replacement_rune, r))
         else if 0xDC00 \<le> n \<and> n < 0xE000 then Some (replacement_rune, r)
         else Some (utf8_encode n, r))"

definition simple_escape :: "char \<Rightarrow> char option" where
  "simple_escape c = (if c \<in> {CHR 0x22, CHR 0x5C, CHR ''/''} then Some c
     else map_of [(CHR ''b'', CHR 0x08), (CHR ''f'', CHR 0x0C), (CHR ''n'', CHR 0x0A),
       (CHR ''r'', CHR 0x0D), (CHR ''t'', CHR 0x09)] c)"

fun string_body :: "nat \<Rightarrow> gostring \<Rightarrow> (gostring \<times> gostring) option" where
  "string_body 0 s = None"
| "string_body (Suc k) [] = None"
| "string_body (Suc k) (c # s) =
     (if c = CHR 0x22 then Some ([], s)
      else if c = CHR 0x5C then
        (case s of [] \<Rightarrow> None
         | e # r \<Rightarrow>
            (case (if e = CHR ''u'' then escaped_rune r else map_option (\<lambda>d. ([d], r)) (simple_escape e)) of
               None \<Rightarrow> None
             | Some (t, r') \<Rightarrow> map_option (\<lambda>(u, q). (t @ u, q)) (string_body k r')))
      else if byte c < 32 then None
      else map_option (\<lambda>(u, q). (rune_at (c # s) @ u, q)) (string_body k (drop (rune_width (c # s)) (c # s))))"

definition json_space :: "char \<Rightarrow> bool" where
  "json_space c \<longleftrightarrow> c \<in> {CHR 0x20, CHR 0x09, CHR 0x0A, CHR 0x0D}"

definition skip_space :: "gostring \<Rightarrow> gostring" where "skip_space s = dropWhile json_space s"

text \<open>The longest number at the head.\<close>

definition number_pattern :: rx where
  "number_pattern = seq_all [BeginText, optional (one_of ''-''),
     Alt (one_of ''0'') (Seq (one_of ''123456789'') (many digit_class)),
     optional (Seq (one_of ''.'') (some1 digit_class)),
     optional (seq_all [one_of ''eE'', optional (one_of ''+-''), some1 digit_class])]"

definition number_value :: "gostring \<Rightarrow> (json \<times> gostring) option" where
  "number_value s = (case find_match number_pattern None s of
       None \<Rightarrow> None
     | Some (u, m, x) \<Rightarrow> (case parse_float m of None \<Rightarrow> None | Some v \<Rightarrow> Some (JNum v, drop (length m) s)))"

definition set_member :: "gostring \<Rightarrow> json \<Rightarrow> (gostring \<times> json) list \<Rightarrow> (gostring \<times> json) list" where
  "set_member k v kvs = (if k \<in> fst ` set kvs then kvs else (k, v) # kvs)"

fun parse_value :: "nat \<Rightarrow> gostring \<Rightarrow> (json \<times> gostring) option"
  and parse_elements :: "nat \<Rightarrow> gostring \<Rightarrow> (json list \<times> gostring) option"
  and parse_members :: "nat \<Rightarrow> gostring \<Rightarrow> ((gostring \<times> json) list \<times> gostring) option" where
  "parse_value 0 s = None"
| "parse_value (Suc k) s =
     (case skip_space s of [] \<Rightarrow> None
      | c # r \<Rightarrow>
          if c = CHR 0x22 then map_option (\<lambda>(t, q). (JStr t, q)) (string_body (length r) r)
          else if c = CHR ''{'' then
            (case skip_space r of
               d # q \<Rightarrow> if d = CHR ''}'' then Some (JObj [], q)
                 else map_option (\<lambda>(kvs, q). (JObj kvs, q)) (parse_members k (d # q))
             | [] \<Rightarrow> None)
          else if c = CHR ''['' then
            (case skip_space r of
               d # q \<Rightarrow> if d = CHR '']'' then Some (JArr [], q)
                 else map_option (\<lambda>(vs, q). (JArr vs, q)) (parse_elements k (d # q))
             | [] \<Rightarrow> None)
          else if has_prefix (c # r) ''null'' then Some (JNull, drop 4 (c # r))
          else if has_prefix (c # r) ''true'' then Some (JBool True, drop 4 (c # r))
          else if has_prefix (c # r) ''false'' then Some (JBool False, drop 5 (c # r))
          else number_value (c # r))"
| "parse_elements 0 s = None"
| "parse_elements (Suc k) s =
     (case parse_value k s of
        None \<Rightarrow> None
      | Some (v, r) \<Rightarrow> (case skip_space r of
          c # q \<Rightarrow> if c = CHR '']'' then Some ([v], q)
            else if c = CHR '','' then map_option (\<lambda>(vs, q'). (v # vs, q')) (parse_elements k q) else None
        | [] \<Rightarrow> None))"
| "parse_members 0 s = None"
| "parse_members (Suc k) s =
     (case skip_space s of
        c # r \<Rightarrow> if c \<noteq> CHR 0x22 then None else
          (case string_body (length r) r of
             None \<Rightarrow> None
           | Some (name, r1) \<Rightarrow> (case skip_space r1 of
               d # r2 \<Rightarrow> if d \<noteq> CHR '':'' then None else
                 (case parse_value k r2 of
                    None \<Rightarrow> None
                  | Some (v, r3) \<Rightarrow> (case skip_space r3 of
                      e # r4 \<Rightarrow> if e = CHR ''}'' then Some ([(name, v)], r4)
                        else if e = CHR '','' then map_option (\<lambda>(kvs, q). (set_member name v kvs, q)) (parse_members k r4)
                        else None
                    | [] \<Rightarrow> None))
             | [] \<Rightarrow> None))
      | [] \<Rightarrow> None)"

definition json_decode :: "gostring \<Rightarrow> json option" where
  "json_decode s = (case parse_value (2 * length s + 2) s of
       None \<Rightarrow> None
     | Some (v, r) \<Rightarrow> if skip_space r \<noteq> [] then None
         else (case v of JNull \<Rightarrow> Some JNull | JObj kvs \<Rightarrow> Some v | _ \<Rightarrow> None))"

definition parseJSONObject :: "gostring \<Rightarrow> goerror + json" where
  "parseJSONObject body = (if trim_space body = [] then Inr JNull
     else (case json_decode body of
         None \<Rightarrow> Inl (''Response is not valid JSON:'' @ body)
       | Some v \<Rightarrow> Inr v))"

section \<open>Plain paths\<close>

text \<open>A token that is a field name and nothing else.\<close>

definition plain_token :: "gostring \<Rightarrow> bool" where
  "plain_token t \<longleftrightarrow> t \<noteq> [] \<and> (\<forall>c \<in> set t. graphic c \<and> c \<notin> set ''.{}|'') \<and> atoi t = None"

lemma plain_token_facts:
  assumes "plain_token t"
  shows "t \<noteq> []" "trim_space t = t" "\<not> has_prefix t ''{''" "CHR ''.'' \<notin> set t" "atoi t = None"
    "\<forall>c \<in> set t. graphic c \<and> c \<noteq> CHR ''{'' \<and> c \<noteq> CHR ''}''"
proof -
  have g: "\<forall>c \<in> set t. graphic c \<and> c \<notin> set ''.{}|''" and t: "t \<noteq> []" "atoi t = None"
    using assms unfolding plain_token_def by blast+
  show "t \<noteq> []" "atoi t = None" by (rule t)+
  show "trim_space t = t" using g t by (intro trim_space_graphic) auto
  show "\<not> has_prefix t ''{''" using g t by (cases t) auto
  show "CHR ''.'' \<notin> set t" using g by auto
  show "\<forall>c \<in> set t. graphic c \<and> c \<noteq> CHR ''{'' \<and> c \<noteq> CHR ''}''" using g by auto
qed

lemma split_tokens_plain:
  "\<forall>c \<in> set s. c \<noteq> CHR ''{'' \<and> c \<noteq> CHR ''}'' \<Longrightarrow>
   split_tokens (map (\<lambda>c. [c]) s) False cur = (case split_on (CHR ''.'') s of p # ps \<Rightarrow> (cur @ p) # ps)"
  by (induction s arbitrary: cur) (auto split: list.splits)

lemma runes_graphic: "\<forall>c \<in> set s. graphic c \<Longrightarrow> runes s = map (\<lambda>c. [c]) s"
  by (induction s) (auto simp: runes_ascii graphic_def)

lemma splitPath_join:
  assumes "ts \<noteq> []" and "\<forall>t \<in> set ts. plain_token t"
  shows "splitPath (join ''.'' ts) = ts"
proof -
  have dot: "graphic (CHR ''.'')" by (simp add: graphic_def byte_def)
  have c: "graphic c \<and> c \<noteq> CHR ''{'' \<and> c \<noteq> CHR ''}''" if "c \<in> set (join ''.'' ts)" for c
    using join_chars [OF that] dot assms(2) plain_token_facts(6) by auto
  have ne: "\<forall>s \<in> set ts. s \<noteq> []" using assms(2) plain_token_facts(1) by blast
  have j: "join ''.'' ts \<noteq> []" using join_ends [OF assms(1) ne] by blast
  have "trim_space (join ''.'' ts) = join ''.'' ts" using j c by (intro trim_space_graphic) auto
  moreover have "runes (join ''.'' ts) = map (\<lambda>c. [c]) (join ''.'' ts)" using c by (intro runes_graphic) blast
  moreover have "split_on (CHR ''.'') (join ''.'' ts) = ts"
    using assms plain_token_facts(4) by (intro split_on_join) auto
  ultimately show ?thesis using split_tokens_plain [of "join ''.'' ts" "[]"] c assms(1)
    by (cases ts) (auto simp: splitPath_def)
qed

lemma dig_tokens_plain: "\<forall>t \<in> set ts. plain_token t \<Longrightarrow> dig_tokens v ts = Dig v ts"
  by (induction ts arbitrary: v) (auto simp: plain_token_facts Let_def split: json.splits)

lemma DigPath_join:
  "ts \<noteq> [] \<Longrightarrow> \<forall>t \<in> set ts. plain_token t \<Longrightarrow> DigPath v (join ''.'' ts) = Dig v ts"
  by (simp add: DigPath_def splitPath_join dig_tokens_plain)

section \<open>Two decimals\<close>

lemma digits_val_pad_zeros: "digits_val (replicate k (CHR ''0'') @ s) = digits_val s"
proof -
  have z: "foldl (\<lambda>v c. 10 * v + digit_val c) 0 (replicate k (CHR ''0'')) = 0"
    by (induction k) (simp_all add: digit_val_def byte_def)
  show ?thesis by (simp add: digits_val_def z)
qed

lemma digits_val_pad [simp]: "digits_val (pad_digits w n) = n"
  by (simp add: pad_digits_def digits_val_pad_zeros)

lemma lower_digit: "is_digit c \<or> c = CHR ''.'' \<Longrightarrow> lower_char c = c"
  by (auto simp: lower_char_def is_digit_def byte_def)

lemma digit_not: "is_digit c \<Longrightarrow> c \<noteq> CHR ''.'' \<and> c \<noteq> CHR ''_'' \<and> c \<noteq> CHR ''x'' \<and> c \<noteq> CHR ''i'' \<and> c \<noteq> CHR ''n''
    \<and> c \<noteq> CHR ''b'' \<and> c \<noteq> CHR ''o'' \<and> c \<noteq> CHR ''-'' \<and> c \<noteq> CHR ''+''"
  by (auto simp: is_digit_def byte_def)

lemma no_underscores_digits: "list_all is_digit s \<Longrightarrow> no_underscores s = s"
  using digit_not by (induction s) (auto simp: no_underscores_def)

lemma parse_mantissa_decimal:
  assumes "list_all is_digit a" "list_all is_digit b" "a \<noteq> []"
  shows "parse_mantissa False (a @ ''.'' @ b) = Some (of_nat (digits_val (a @ b)) / 10 ^ length b)"
proof -
  have m: "\<forall>c \<in> set a. is_mantissa False c" "\<forall>c \<in> set b. is_mantissa False c" "\<not> is_mantissa False (CHR ''.'')"
    using assms by (auto simp: is_mantissa_def list_all_iff is_digit_def byte_def)
  have t: "takeWhile (is_mantissa False) (a @ CHR ''.'' # b) = a" "dropWhile (is_mantissa False) (a @ CHR ''.'' # b) = CHR ''.'' # b"
    "takeWhile (is_mantissa False) b = b" "dropWhile (is_mantissa False) b = []"
    using m by (simp_all add: takeWhile_append2 dropWhile_append2)
  have n: "no_underscores (a @ b) = a @ b" "no_underscores b = b"
    using assms by (intro no_underscores_digits; simp)+
  show ?thesis
    using assms(3) by (simp add: parse_mantissa_def t n Let_def mantissa_val_def rat_pow_def)
qed

lemma parse_float_decimal:
  assumes "list_all is_digit a" "list_all is_digit b" "a \<noteq> []"
  shows "parse_float (a @ ''.'' @ b) = (case rnd (of_nat (digits_val (a @ b)) / 10 ^ length b) of Fin v \<Rightarrow> Some (Fin v) | _ \<Rightarrow> None)"
proof -
  let ?s = "a @ ''.'' @ b"
  obtain c a' where a: "a = c # a'" using assms(3) by (cases a) auto
  have c: "is_digit c" using assms(1) a by simp
  have ch: "\<forall>d \<in> set ?s. is_digit d \<or> d = CHR ''.''" using assms by (auto simp: list_all_iff)
  then have l: "to_lower ?s = ?s" using lower_digit unfolding to_lower_def by (intro map_idI) blast
  have sg: "split_sign ?s = (False, ?s)" using digit_not [OF c] by (simp add: split_sign_def a)
  have u: "CHR ''_'' \<notin> set ?s" using ch digit_not by fastforce
  have "?s ! 1 \<noteq> CHR ''x''" "length ?s > 1"
  proof -
    show "length ?s > 1" by (simp add: a)
    then have "?s ! 1 \<in> set ?s" by (rule nth_mem)
    then show "?s ! 1 \<noteq> CHR ''x''" using ch digit_not by fastforce
  qed
  then have h: "\<not> has_prefix ?s ''0x''" by (auto simp: has_prefix_iff)
  have w: "?s \<noteq> ''inf''" "?s \<noteq> ''infinity''" "?s \<noteq> ''nan''" using digit_not [OF c] by (auto simp: a)
  show ?thesis
    unfolding parse_float_def sg l Let_def prod.case
    using u h w parse_mantissa_decimal [OF assms] by (simp add: l [simplified] with_sign_def split: f64.splits)
qed

lemma parse_fixed:
  assumes "0 \<le> x"
  shows "parse_float (format_fixed (Suc p) (Fin x))
    = (case rnd (of_int (rhe (x * 10 ^ Suc p)) / 10 ^ Suc p) of Fin v \<Rightarrow> Some (Fin v) | _ \<Rightarrow> None)"
proof -
  obtain wh fr where f: "fixed_digits (Suc p) x = (wh, fr)" by (cases "fixed_digits (Suc p) x")
  note fp = fixed_digits_parts [OF f]
  let ?ds = "pad_digits (Suc p + 1) (nat (rhe (\<bar>x\<bar> * 10 ^ Suc p)))"
  have "wh @ fr = ?ds" using f by (auto simp: fixed_digits_def Let_def)
  then have v: "digits_val (wh @ fr) = nat (rhe (x * 10 ^ Suc p))" using assms by simp
  have "0 \<le> rhe (x * 10 ^ Suc p)" using rhe_ge_of_int [of 0 "x * 10 ^ Suc p"] assms by simp
  then have "of_nat (digits_val (wh @ fr)) = (of_int (rhe (x * 10 ^ Suc p)) :: rat)" by (simp add: v)
  then show ?thesis
    using parse_float_decimal [OF fp(2,3,1)] assms fp(4) by (simp add: format_fixed_def f)
qed

text \<open>The nearest double to the amount rounded half to even at the second decimal.\<close>

lemma round2_eq:
  assumes "0 \<le> x" "x \<le> 2 ^ 40"
  shows "provider_round2 (Fin x) = rnd (of_int (rhe (x * 100)) / 100)"
proof -
  have "0 \<le> rhe (x * 100)" "rhe (x * 100) \<le> 2 ^ 40 * 100"
    using rhe_ge_of_int [of 0 "x * 100"] rhe_le_of_int [of "x * 100" "2 ^ 40 * 100"] assms by simp_all
  then have n: "0 \<le> (of_int (rhe (x * 100)) / 100 :: rat)" "(of_int (rhe (x * 100)) / 100 :: rat) \<le> of_int (2 ^ 40)"
    by (simp_all add: field_simps)
  have "fle (rnd (of_int (rhe (x * 100)) / 100)) (Fin (2 ^ 40))"
    using rnd_mono [OF n(2)] rnd_representable [OF representable_of_int [of "2 ^ 40"]] by simp
  moreover have "fle (Fin 0) (rnd (of_int (rhe (x * 100)) / 100))" using rnd_nonneg [OF n(1)] .
  ultimately obtain v where "rnd (of_int (rhe (x * 100)) / 100) = Fin v"
    by (cases "rnd (of_int (rhe (x * 100)) / 100)") auto
  then show ?thesis using parse_fixed [OF assms(1), of 1] by (simp add: provider_round2_def numeral_2_eq_2)
qed

lemma round2_range:
  assumes "0 \<le> x" "x \<le> of_int n" "n \<le> 2 ^ 40"
  shows "fle (Fin 0) (provider_round2 (Fin x)) \<and> fle (provider_round2 (Fin x)) (Fin (of_int n))"
proof -
  have nn: "0 \<le> n" using assms(1,2) by (metis of_int_0_le_iff order_trans)
  have "(of_int n :: rat) \<le> of_int (2 ^ 40)" using assms(3) by (simp only: of_int_le_iff)
  then have x: "x \<le> 2 ^ 40" using assms(2) by simp
  have "0 \<le> rhe (x * 100)" "rhe (x * 100) \<le> n * 100"
    using rhe_ge_of_int [of 0 "x * 100"] rhe_le_of_int [of "x * 100" "n * 100"] assms by simp_all
  then have r: "0 \<le> (of_int (rhe (x * 100)) / 100 :: rat)" "(of_int (rhe (x * 100)) / 100 :: rat) \<le> of_int n"
    by (simp_all add: field_simps flip: of_int_mult of_int_le_iff)
  have "rnd (of_int n) = Fin (of_int n)" using nn assms(3) by (intro rnd_representable representable_of_int) simp
  then show ?thesis using rnd_mono [OF r(2)] rnd_nonneg [OF r(1)] round2_eq [OF assms(1) x] by simp
qed

end
