(* ===== verification/Redact.thy ===== *)
theory Redact
  imports GoRegexp GoFloat "HOL-Library.Sublist"
begin

text \<open>
  What the balance monitor keeps out of the text of a failed check (\<open>redactSecrets\<close>,
  \<open>monitor/redact.go\<close>): the key of the project, whatever looks like a credential, and all
  but the first 300 code points.
\<close>

section \<open>Patterns\<close>

definition maxErrorLength :: nat where "maxErrorLength = 300"

definition stars :: gostring where "stars = ''***''"

text \<open>Under \<open>(?i)\<close> the class also takes the long s and the Kelvin sign.\<close>

definition bearer_class :: rx where
  "bearer_class = Rune (\<lambda>t. (case t of [c] \<Rightarrow> word_char c \<or> c \<in> set ''.~+/=-'' | _ \<Rightarrow> False)
     \<or> t = [CHR 0xE2, CHR 0x84, CHR 0xAA] \<or> t = [CHR 0xC5, CHR 0xBF])"

definition key_class :: rx where
  "key_class = ascii_class (\<lambda>c. word_char c \<or> c = CHR ''-'')"

definition quote_marks :: gostring where "quote_marks = [CHR 0x22, CHR 0x27]"

definition value_class :: rx where
  "value_class = none_of (regexp_space @ quote_marks @ '',;&}'')"

definition dash :: rx where "dash = optional (one_of ''_-'')"

definition bearerPattern :: rx where
  "bearerPattern = seq_all [WordB, lit_any_case ''bearer'', some1 (one_of regexp_space), at_least 8 bearer_class]"

definition skPattern :: rx where
  "skPattern = seq_all [WordB, lit ''sk-'', at_least 8 key_class]"

definition credential_name :: rx where
  "credential_name = alt_all (seq_all [lit_any_case ''api'', dash, lit_any_case ''key''])
     [seq_all [lit_any_case ''access'', dash, lit_any_case ''key'',
        optional (seq_all [dash, alt_all (lit_any_case ''id'') [lit_any_case ''secret'']])],
      seq_all [lit_any_case ''secret'', optional (seq_all [dash, lit_any_case ''key''])],
      lit_any_case ''token'', lit_any_case ''password'']"

definition credentialPattern :: rx where
  "credentialPattern = seq_all [Cap 1 (seq_all [credential_name, optional (one_of quote_marks),
      many (one_of regexp_space), one_of '':='', many (one_of regexp_space), optional (one_of quote_marks)]),
     at_least 6 value_class]"

section \<open>Redaction\<close>

definition secretPatterns :: "(rx \<times> (gostring \<Rightarrow> place \<Rightarrow> gostring)) list" where
  "secretPatterns = [(bearerPattern, \<lambda>m x. ''Bearer '' @ stars), (skPattern, \<lambda>m x. ''sk-'' @ stars),
     (credentialPattern, \<lambda>m x. group_text 1 x @ stars)]"

definition secret_parts :: "gostring \<Rightarrow> gostring list" where
  "secret_parts secret = secret # fields_func (\<lambda>c. c = CHR '':'' \<or> c = CHR ''|'') [] secret"

definition redact_part :: "gostring \<Rightarrow> gostring \<Rightarrow> gostring" where
  "redact_part p message = (let part = trim_space p
     in if 6 \<le> length part then replace_all part stars message else message)"

definition shorten_error :: "gostring \<Rightarrow> gostring" where
  "shorten_error message = (if maxErrorLength < length (runes message)
     then cut_runes maxErrorLength message @ [CHR 0xE2, CHR 0x80, CHR 0xA6] else message)"

definition redactSecrets :: "gostring \<Rightarrow> gostring list \<Rightarrow> gostring" where
  "redactSecrets message secrets =
     (let m1 = fold redact_part (concat (map secret_parts secrets)) message;
          m2 = fold (\<lambda>(re, f). replace_matches re f) secretPatterns m1
      in shorten_error m2)"

section \<open>Replacing\<close>

lemma sublist_sep: "c \<notin> set k \<Longrightarrow> sublist k (a @ c # b) \<longleftrightarrow> sublist k a \<or> sublist k b"
  by (auto simp: sublist_append sublist_Cons_right prefix_Cons)

lemma prefix_replace_all: "prefix k (replace_all q stars s) \<Longrightarrow> CHR ''*'' \<notin> set k \<Longrightarrow> prefix k s"
  by (induction q stars s arbitrary: k rule: replace_all.induct)
    (auto simp: stars_def prefix_Cons split: if_splits)

lemma sublist_stars: "CHR ''*'' \<notin> set k \<Longrightarrow> sublist k (a @ stars @ b) \<longleftrightarrow> sublist k a \<or> sublist k b"
  by (auto simp: stars_def sublist_sep sublist_Cons_right prefix_Cons)

lemma sublist_replace_all:
  "sublist k (replace_all q stars s) \<Longrightarrow> CHR ''*'' \<notin> set k \<Longrightarrow> k \<noteq> [] \<Longrightarrow> sublist k s"
proof (induction q stars s rule: replace_all.induct)
  case (2 q c s)
  show ?case
  proof (cases "q \<noteq> [] \<and> has_prefix (c # s) q")
    case True
    with 2(3-5) have "sublist k (replace_all q stars (drop (length q) (c # s)))"
      using sublist_stars [of k "[]"] by simp
    with 2(1) [OF True] 2(4,5) have "sublist k (drop (length q) (c # s))" by blast
    then show ?thesis using sublist_order.order_trans suffix_drop suffix_imp_sublist by blast
  next
    case False
    with 2(3) have "sublist k (c # replace_all q stars s)" by auto
    then show ?thesis using 2(2) [OF False] 2(4,5) prefix_replace_all [of _ q s]
      by (auto simp: sublist_Cons_right prefix_Cons)
  qed
qed simp

lemma replace_all_gone:
  "sublist k (replace_all k stars s) \<Longrightarrow> CHR ''*'' \<notin> set k \<Longrightarrow> k \<noteq> [] \<Longrightarrow> False"
proof (induction k stars s rule: replace_all.induct)
  case (2 k c s)
  show ?case
  proof (cases "k \<noteq> [] \<and> has_prefix (c # s) k")
    case True
    with 2(3-5) show ?thesis using 2(1) [OF True] sublist_stars [of k "[]"] by simp
  next
    case False
    with 2(3) have "sublist k (c # replace_all k stars s)" by auto
    then have "prefix k (c # replace_all k stars s)"
      using 2(2) [OF False] 2(4,5) by (auto simp: sublist_Cons_right)
    then obtain k' where "k = c # k'" "prefix k' (replace_all k stars s)"
      using 2(5) by (auto simp: prefix_Cons)
    with prefix_replace_all [of k' k s] 2(4) have "prefix k (c # s)" by simp
    with False 2(5) show ?thesis by (auto simp: has_prefix_iff prefix_def)
  qed
qed simp

text \<open>Text without stars is not made by a replacement that keeps part of the match and ends in
  stars.\<close>

lemma replace_clean:
  assumes "\<And>b u m x. x \<in> set (runs r (b, m @ place_text x, [])) \<Longrightarrow>
      \<exists>r0. f m x = r0 @ stars \<and> (sublist k (u @ r0) \<longrightarrow> sublist k (u @ m))"
    and "CHR ''*'' \<notin> set k"
  shows "sublist k (replace_from r f b s) \<Longrightarrow> sublist k s"
proof (induction "length s" arbitrary: b s rule: less_induct)
  case less
  show ?case
  proof (cases "find_match r b s")
    case (Some uf)
    obtain u m x where uf: "find_match r b s = Some (u, m, x)" using Some by (cases uf) auto
    note sp = find_match_split [OF uf]
    show ?thesis
    proof (cases "length (place_text x) < length s")
      case True
      obtain r0 where r0: "f m x = r0 @ stars" "sublist k (u @ r0) \<longrightarrow> sublist k (u @ m)"
        using assms(1) [OF sp(2)] by blast
      have "sublist k ((u @ r0) @ stars @ replace_from r f (fst x) (place_text x))"
        using less(2) True uf r0(1) by (subst (asm) replace_from.simps) simp
      then consider "sublist k (u @ r0)" | "sublist k (replace_from r f (fst x) (place_text x))"
        unfolding sublist_stars [OF assms(2)] by blast
      then show ?thesis
      proof cases
        case 1
        then show ?thesis using r0(2) sp(1) by (metis append_assoc sublist_appendI sublist_append_rightI sublist_order.order_trans)
      next
        case 2
        then have "sublist k (place_text x)" using less(1) [OF True] by blast
        then show ?thesis using sp(1) by (metis append_assoc sublist_append_leftI sublist_order.order_trans)
      qed
    next
      case False
      then show ?thesis using less(2) uf by (subst (asm) replace_from.simps) simp
    qed
  next
    case None
    then show ?thesis using less(2) by (subst (asm) replace_from.simps) simp
  qed
qed

section \<open>Shortening\<close>

lemma second_ok_wide: "second_ok c d \<Longrightarrow> 128 \<le> byte d"
  by (simp add: second_ok_def between_def split: if_splits)

lemma between_wide: "between 0x80 0xBF d \<Longrightarrow> 128 \<le> byte d"
  by (simp add: between_def)

lemma utf8_wide: "\<not> byte c < 128 \<Longrightarrow> \<forall>d \<in> set (take (utf8_len (c # s)) (c # s)). 128 \<le> byte d"
  by (auto simp: second_ok_wide between_wide split: if_splits list.splits)

lemma utf8_len_le4: "utf8_len s \<le> 4"
  by (cases s) (auto split: list.splits)

lemma rune_cases:
  assumes "s \<noteq> []"
  obtains (ascii) c s' where "s = c # s'" "byte c < 128" "runes s = [c] # runes s'"
  | (wide) "\<forall>c \<in> set (rune_at s). 128 \<le> byte c" "rune_at s \<noteq> []" "length (rune_at s) \<le> 4"
proof (cases s)
  case (Cons c s')
  show ?thesis
  proof (cases "byte c < 128")
    case True
    then show ?thesis using ascii Cons by (simp add: runes_ascii)
  next
    case False
    have "(\<forall>d \<in> set (rune_at s). 128 \<le> byte d) \<and> rune_at s \<noteq> [] \<and> length (rune_at s) \<le> 4"
    proof (cases "utf8_len s = 0")
      case True
      then show ?thesis by (simp add: rune_at_def replacement_rune_def byte_def)
    next
      case wide: False
      then show ?thesis using False Cons
        using utf8_wide [OF False, of s'] utf8_len_le4 [of s]
        by (simp add: rune_at_def del: utf8_len.simps)
    qed
    then show ?thesis using wide by blast
  qed
qed (use assms in simp)

lemma cut_runes_step: "s \<noteq> [] \<Longrightarrow> cut_runes (Suc n) s = rune_at s @ cut_runes n (drop (rune_width s) s)"
  by (simp add: cut_runes_def runes_step)

lemma cut_runes_Nil [simp]: "cut_runes n [] = []" "cut_runes 0 s = []"
  by (simp_all add: cut_runes_def)

lemma cut_runes_ascii: "byte c < 128 \<Longrightarrow> cut_runes (Suc n) (c # s) = c # cut_runes n s"
  by (simp add: cut_runes_def runes_ascii)

definition ascii_only :: "gostring \<Rightarrow> bool" where
  "ascii_only k \<longleftrightarrow> (\<forall>c \<in> set k. byte c < 128)"

lemma prefix_cut_runes: "prefix k (cut_runes n s) \<Longrightarrow> ascii_only k \<Longrightarrow> prefix k s"
proof (induction k arbitrary: n s)
  case (Cons c k)
  then obtain m where n: "n = Suc m" and s: "s \<noteq> []" by (cases n; cases s) auto
  from s show ?case
  proof (cases rule: rune_cases)
    case (ascii d s')
    then show ?thesis using Cons n by (auto simp: cut_runes_ascii ascii_only_def)
  next
    case wide
    then show ?thesis using Cons(2,3) n s
      by (cases "rune_at s") (auto simp: cut_runes_step ascii_only_def)
  qed
qed simp

lemma sublist_skip: "\<forall>c \<in> set r. c \<notin> set k \<Longrightarrow> k \<noteq> [] \<Longrightarrow> sublist k (r @ s) \<Longrightarrow> sublist k s"
  by (induction r) (auto simp: sublist_Cons_right prefix_Cons)

lemma sublist_cut_runes: "sublist k (cut_runes n s) \<Longrightarrow> ascii_only k \<Longrightarrow> k \<noteq> [] \<Longrightarrow> sublist k s"
proof (induction n arbitrary: s)
  case (Suc n)
  then have s: "s \<noteq> []" by auto
  from s show ?case
  proof (cases rule: rune_cases)
    case (ascii c s')
    with Suc(2) have "prefix k (cut_runes (Suc n) s) \<or> sublist k (cut_runes n s')"
      by (auto simp: cut_runes_ascii sublist_Cons_right)
    then show ?thesis
    proof
      assume "prefix k (cut_runes (Suc n) s)"
      then show ?thesis using prefix_cut_runes Suc(3) by blast
    next
      assume "sublist k (cut_runes n s')"
      then show ?thesis using Suc(1,3,4) ascii by (auto simp: sublist_Cons_right)
    qed
  next
    case wide
    then have "\<forall>c \<in> set (rune_at s). c \<notin> set k" using Suc(3) unfolding ascii_only_def by (metis not_less)
    then have "sublist k (cut_runes n (drop (rune_width s) s))"
      using Suc(2,4) s sublist_skip by (auto simp: cut_runes_step)
    then have "sublist k (drop (rune_width s) s)" using Suc(1,3,4) by blast
    then show ?thesis using sublist_order.order_trans suffix_drop suffix_imp_sublist by blast
  qed
qed simp

lemma sublist_shorten: "sublist k (shorten_error s) \<Longrightarrow> ascii_only k \<Longrightarrow> k \<noteq> [] \<Longrightarrow> sublist k s"
proof -
  assume a: "sublist k (shorten_error s)" "ascii_only k" "k \<noteq> []"
  have "CHR 0xE2 \<notin> set k" using a(2) by (auto simp: ascii_only_def byte_def)
  moreover have "\<not> sublist k [CHR 0x80, CHR 0xA6]"
    using a(2,3) by (auto simp: sublist_Cons_right prefix_Cons ascii_only_def byte_def)
  ultimately show ?thesis using a sublist_cut_runes
    by (auto simp: shorten_error_def sublist_sep split: if_splits)
qed

lemma length_runes: "length s \<le> 4 * length (runes s)"
proof (induction s rule: runes.induct)
  case (1 s)
  show ?case
  proof (cases "s = []")
    case False
    have "rune_width s \<le> 4" using utf8_len_le4 [of s] by (simp add: rune_width_def)
    then show ?thesis using 1 [OF False] by (simp add: runes_step [OF False])
  qed simp
qed

lemma length_cut_runes: "length (cut_runes n s) \<le> 4 * n"
proof (induction n arbitrary: s)
  case (Suc n)
  show ?case
  proof (cases "s = []")
    case False
    then have "length (rune_at s) \<le> 4"
      by (cases rule: rune_cases) (use False in \<open>simp_all add: runes_step\<close>)
    then show ?thesis using Suc [of "drop (rune_width s) s"] by (simp add: cut_runes_step [OF False])
  qed simp
qed simp

lemma shorten_bounded: "length (shorten_error s) \<le> 4 * maxErrorLength + 3"
  using length_runes [of s] length_cut_runes [of maxErrorLength s] by (simp add: shorten_error_def)

section \<open>The key is gone\<close>

text \<open>A key the redaction can keep out: printable, long enough, without the star that the
  replacement brings in, and not ending in the beginning of the word \<open>Bearer\<close>.\<close>

definition bearer_tail :: "gostring \<Rightarrow> bool" where
  "bearer_tail k \<longleftrightarrow> list_ex (has_suffix k) [''B'', ''Be'', ''Bea'', ''Bear'', ''Beare'', ''Bearer'']"

definition plain_key :: "gostring \<Rightarrow> bool" where
  "plain_key k \<longleftrightarrow> 6 \<le> length k \<and> (\<forall>c \<in> set k. graphic c \<and> c \<noteq> CHR ''*'') \<and> \<not> bearer_tail k"

lemma plain_key_facts:
  assumes "plain_key k"
  shows "k \<noteq> []" "CHR ''*'' \<notin> set k" "CHR '' '' \<notin> set k" "ascii_only k" "trim_space k = k" "6 \<le> length k"
proof -
  have k6: "6 \<le> length k" and g: "\<forall>c \<in> set k. graphic c \<and> c \<noteq> CHR ''*''"
    using assms unfolding plain_key_def by blast+
  show "6 \<le> length k" by (rule k6)
  show k: "k \<noteq> []" using k6 by (cases k) simp_all
  show "CHR ''*'' \<notin> set k" using g by blast
  have "\<not> graphic (CHR '' '')" by (simp add: graphic_def byte_def)
  then show "CHR '' '' \<notin> set k" using g by blast
  show "ascii_only k" unfolding ascii_only_def
  proof
    fix c assume "c \<in> set k"
    with g have "graphic c" by blast
    then show "byte c < 128" unfolding graphic_def by linarith
  qed
  show "trim_space k = k" using g k by (intro trim_space_graphic) simp_all
qed

lemma bearer_kept: "plain_key k \<Longrightarrow> sublist k (u @ ''Bearer '') \<Longrightarrow> sublist k u"
proof -
  assume k: "plain_key k" and s: "sublist k (u @ ''Bearer '')"
  note kf = plain_key_facts [OF k]
  have "sublist k (u @ ''Bearer'') \<or> sublist k []"
    using s sublist_sep [OF kf(3), of "u @ ''Bearer''" "[]"] by simp
  then have s: "sublist k (u @ ''Bearer'')" using kf(1) by simp
  have no: "\<not> suffix (take n ''Bearer'') k" if "1 \<le> n" "n \<le> 6" for n
  proof -
    have "n \<in> {1, 2, 3, 4, 5, 6}" using that by auto
    then have "take n ''Bearer'' \<in> set [''B'', ''Be'', ''Bea'', ''Bear'', ''Beare'', ''Bearer'']" by auto
    then have "\<not> has_suffix k (take n ''Bearer'')" using k unfolding plain_key_def bearer_tail_def list_ex_iff by blast
    then show ?thesis by (auto simp: has_suffix_def has_prefix_iff suffix_to_prefix prefix_def)
  qed
  show ?thesis
  proof (rule ccontr)
    assume n: "\<not> sublist k u"
    from s consider "sublist k ''Bearer''" | k1 k2 where "k = k1 @ k2" "suffix k1 u" "prefix k2 ''Bearer''"
      using n by (auto simp: sublist_append)
    then show False
    proof cases
      case 1
      then obtain a b where ab: "''Bearer'' = a @ k @ b" by (auto simp: sublist_def)
      then have "6 = length a + length k + length b"
      proof -
        have "length ''Bearer'' = 6" by simp
        then show ?thesis using ab by (metis length_append add.assoc)
      qed
      then have "length a = 0" "length b = 0" using kf(6) by linarith+
      then have "k = ''Bearer''" using ab by (metis append_Nil append_Nil2 length_0_conv)
      then show False using no [of 6] by simp
    next
      case 2
      show False
      proof (cases "k2 = []")
        case True
        then show False using 2 n by (simp add: suffix_imp_sublist)
      next
        case False
        have l: "length k2 \<le> 6" using prefix_length_le [OF 2(3)] by simp
        have "k2 = take (length k2) ''Bearer''" using 2(3) by (metis append_eq_conv_conj prefix_def)
        then have "suffix (take (length k2) ''Bearer'') k" using 2(1) by (metis suffix_def)
        then show False using no [of "length k2"] l False by (cases k2) auto
      qed
    qed
  qed
qed

lemma runs_WordB: "x \<in> set (runs WordB p) \<Longrightarrow> x = p"
  by (cases p) (auto split: if_splits)

lemma ends_append: "s = m @ t \<Longrightarrow> ends_with y t \<Longrightarrow> s = w @ y \<Longrightarrow> \<exists>n. m = w @ n"
  by (auto simp: ends_with_def)

lemma sk_match: "x \<in> set (runs skPattern (b, m @ place_text x, g)) \<Longrightarrow> \<exists>t. m = ''sk-'' @ t"
proof -
  assume a: "x \<in> set (runs skPattern (b, m @ place_text x, g))"
  then obtain y where y: "y \<in> set (runs (lit ''sk-'') (b, m @ place_text x, g))"
    "x \<in> set (runs (Seq (at_least 8 key_class) Eps) y)"
    unfolding skPattern_def seq_all.simps by (metis runs_SeqE runs_WordB)
  have "m @ place_text x = ''sk-'' @ place_text y"
    using runs_byte_seq [of "''sk-''" y "(b, m @ place_text x, g)"] y(1) lit_ascii [of "''sk-''"] by (simp add: byte_def)
  moreover have "ends_with (place_text y) (place_text x)" using runs_suffix [OF y(2)] .
  ultimately show ?thesis by (metis ends_append)
qed

lemma credential_match:
  "x \<in> set (runs credentialPattern (b, m @ place_text x, g)) \<Longrightarrow> \<exists>t. m = group_text 1 x @ t"
proof -
  assume a: "x \<in> set (runs credentialPattern (b, m @ place_text x, g))"
  obtain r where r: "credentialPattern = Seq (Cap 1 r) (Seq (at_least 6 value_class) Eps)"
    unfolding credentialPattern_def seq_all.simps by blast
  obtain y where y: "y \<in> set (runs (Cap 1 r) (b, m @ place_text x, g))"
    "x \<in> set (runs (Seq (at_least 6 value_class) Eps) y)"
    using a unfolding r by (rule runs_SeqE)
  have "no_groups (seq_all (replicate n value_class))" for n
    by (induction n) (simp_all add: value_class_def none_of_def)
  then have "no_groups (Seq (at_least 6 value_class) Eps)"
    by (simp add: at_least_def value_class_def none_of_def del: replicate.simps)
  from runs_no_groups [OF y(2) this] have "group_text 1 x = group_text 1 y" by (simp add: group_text_def)
  moreover have "m @ place_text x = group_text 1 y @ place_text y" using runs_CapE [OF y(1)] by simp
  moreover have "ends_with (place_text y) (place_text x)" using runs_suffix [OF y(2)] .
  ultimately show ?thesis by (metis ends_append)
qed

lemma pattern_keeps:
  assumes "plain_key k" and "(r, f) \<in> set secretPatterns"
    and x: "x \<in> set (runs r (b, m @ place_text x, []))"
  shows "\<exists>r0. f m x = r0 @ stars \<and> (sublist k (u @ r0) \<longrightarrow> sublist k (u @ m))"
proof -
  have app: "sublist k (u @ w) \<Longrightarrow> sublist k (u @ w @ t)" for w t
    by (metis append_assoc sublist_append_rightI sublist_order.order_trans)
  consider "r = bearerPattern" "f = (\<lambda>m x. ''Bearer '' @ stars)" | "r = skPattern" "f = (\<lambda>m x. ''sk-'' @ stars)"
    | "r = credentialPattern" "f = (\<lambda>m x. group_text 1 x @ stars)"
    using assms(2) unfolding secretPatterns_def by auto
  then show ?thesis
  proof cases
    case 1
    then show ?thesis using bearer_kept [OF assms(1), of u]
      by (intro exI [of _ "''Bearer ''"]) (metis sublist_append_rightI sublist_order.order_trans)
  next
    case 2
    then obtain t where "m = ''sk-'' @ t" using sk_match x by blast
    then show ?thesis using 2 app by (intro exI [of _ "''sk-''"]) blast
  next
    case 3
    then obtain t where "m = group_text 1 x @ t" using credential_match x by blast
    then show ?thesis using 3 app by (intro exI [of _ "group_text 1 x"]) blast
  qed
qed

lemma patterns_clean:
  assumes "plain_key k" and "(r, f) \<in> set secretPatterns" and "sublist k (replace_matches r f s)"
  shows "sublist k s"
proof -
  have "\<exists>r0. f m x = r0 @ stars \<and> (sublist k (u @ r0) \<longrightarrow> sublist k (u @ m))"
    if "x \<in> set (runs r (b, m @ place_text x, []))" for b u m x
    using that by (rule pattern_keeps [OF assms(1,2)])
  then show ?thesis
    by (rule replace_clean [where r = r and f = f and k = k, OF _ plain_key_facts(2) [OF assms(1)]
        assms(3) [unfolded replace_matches_def]])
qed

lemma redact_part_keeps: "plain_key k \<Longrightarrow> sublist k (redact_part p s) \<Longrightarrow> sublist k s"
  using sublist_replace_all plain_key_facts(1,2) by (auto simp: redact_part_def Let_def split: if_splits)

lemma redact_parts_keep: "plain_key k \<Longrightarrow> sublist k (fold redact_part ps s) \<Longrightarrow> sublist k s"
  by (induction ps arbitrary: s) (auto dest: redact_part_keeps)

lemma redact_parts_gone: "plain_key k \<Longrightarrow> k \<in> set ps \<Longrightarrow> \<not> sublist k (fold redact_part ps s)"
proof (induction ps arbitrary: s)
  case (Cons p ps)
  show ?case
  proof (cases "p = k")
    case True
    have "\<not> sublist k (redact_part k s)"
      using replace_all_gone [of k s] plain_key_facts [OF Cons(2)] by (auto simp: redact_part_def Let_def)
    then show ?thesis using True redact_parts_keep [OF Cons(2)] by auto
  qed (use Cons in auto)
qed simp

lemma redacted_gone:
  assumes "plain_key k" and "secret \<in> set secrets" and "k \<in> set (secret_parts secret)"
  shows "\<not> sublist k (redactSecrets message secrets)"
proof
  assume a: "sublist k (redactSecrets message secrets)"
  let ?m = "fold redact_part (concat (map secret_parts secrets)) message"
  have f: "sublist k (fold (\<lambda>(re, f). replace_matches re f) ps m) \<Longrightarrow> set ps \<subseteq> set secretPatterns \<Longrightarrow> sublist k m" for ps m
  proof (induction ps arbitrary: m)
    case (Cons q ps)
    obtain r g where q: "q = (r, g)" by (cases q)
    with Cons have "sublist k (replace_matches r g m)" by simp
    moreover have "(r, g) \<in> set secretPatterns" using Cons(3) q by simp
    ultimately show ?case using patterns_clean [OF assms(1)] by blast
  qed simp
  have "sublist k ?m"
    by (rule f [OF sublist_shorten [OF _ plain_key_facts(4,1) [OF assms(1)]] order.refl])
      (use a in \<open>simp add: redactSecrets_def Let_def\<close>)
  moreover have "\<not> sublist k ?m" using assms by (intro redact_parts_gone) auto
  ultimately show False by contradiction
qed

text \<open>C38: No redacted error text contains the project's key or, of a two-part key, either part,
  provided the key is printable, at least six bytes long, free of stars and does not end in the
  beginning of the word Bearer.\<close>

theorem redacted_key_gone:
  assumes "secret \<in> set secrets" "k \<in> set (secret_parts secret)" "plain_key k"
  shows "\<not> sublist k (redactSecrets message secrets)"
  using redacted_gone [OF assms(3,1,2)] .

theorem redacted_key_gone_witness:
  "\<not> sublist ''H7pQ2mNv8xY0'' (redactSecrets ''key LTAI5tKq9 with secret H7pQ2mNv8xY0 denied'' [''LTAI5tKq9:H7pQ2mNv8xY0''])"
proof (rule redacted_key_gone)
  show "''H7pQ2mNv8xY0'' \<in> set (secret_parts ''LTAI5tKq9:H7pQ2mNv8xY0'')" by code_simp
  show "plain_key ''H7pQ2mNv8xY0''"
    unfolding plain_key_def bearer_tail_def has_suffix_def by (simp add: graphic_def byte_def)
qed simp

text \<open>A redacted error text has at most 300 code points of at most four bytes and the ellipsis.\<close>

theorem redacted_bounded: "length (redactSecrets message secrets) \<le> 4 * maxErrorLength + 3"
  by (simp add: redactSecrets_def Let_def shorten_bounded)

end
