(* ===== verification/Sign.thy ===== *)
theory Sign
  imports GoUrl GoParse "HOL-Library.AList"
begin

text \<open>
  Request signing of the balance adapters (\<open>provider/sign.go\<close>): the Aliyun RPC query and the
  Volcengine V4 headers, with the RFC 3986 encoding they share.  SHA-1 and the padded base64 of
  the standard library come first.  A Go map of strings is an association list with distinct
  keys.
\<close>

section \<open>SHA-1 and base64\<close>

definition sha1_init :: "u32 list" where
  "sha1_init = [0x67452301, 0xEFCDAB89, 0x98BADCFE, 0x10325476, 0xC3D2E1F0]"

definition sha1_extend :: "nat \<Rightarrow> u32 list \<Rightarrow> u32 list" where
  "sha1_extend i w = w @ [rotl 1 ((w ! (i - 3)) XOR (w ! (i - 8)) XOR (w ! (i - 14)) XOR (w ! (i - 16)))]"

definition sha1_f :: "nat \<Rightarrow> u32 \<Rightarrow> u32 \<Rightarrow> u32 \<Rightarrow> u32 \<times> u32" where
  "sha1_f i b c d =
     (if i < 20 then ((b AND c) OR (NOT b AND d), 0x5A827999)
      else if i < 40 then (b XOR c XOR d, 0x6ED9EBA1)
      else if i < 60 then ((b AND c) OR (b AND d) OR (c AND d), 0x8F1BBCDC)
      else (b XOR c XOR d, 0xCA62C1D6))"

fun sha1_round :: "nat \<times> u32 \<Rightarrow> u32 list \<Rightarrow> u32 list" where
  "sha1_round (i, w) [a, b, c, d, e] = (case sha1_f i b c d of
     (f, k) \<Rightarrow> [rotl 5 a + f + e + k + w, a, rotl 30 b, c, d])"
| "sha1_round _ st = st"

definition sha1_block :: "gostring \<Rightarrow> u32 list \<Rightarrow> u32 list" where
  "sha1_block blk st =
     map2 (+) st (fold sha1_round (zip [0..<80] (fold sha1_extend [16..<80] (be_words blk))) st)"

definition sha1 :: "gostring \<Rightarrow> gostring" where
  "sha1 s = concat (map be_bytes
     (fold sha1_block (blocks (pad_message s (rev (length_bytes (length s))))) sha1_init))"

definition hmac_sha1 :: "gostring \<Rightarrow> gostring \<Rightarrow> gostring" where
  "hmac_sha1 key msg =
     (let k0 = (if 64 < length key then sha1 key else key);
          k = k0 @ replicate (64 - length k0) (CHR 0x00)
      in sha1 (map (xor_byte 92) k @ sha1 (map (xor_byte 54) k @ msg)))"

definition std64_char :: "nat \<Rightarrow> char" where
  "std64_char n = (if n = 62 then CHR ''+'' else if n = 63 then CHR ''/'' else b64_char n)"

definition std64_encode :: "gostring \<Rightarrow> gostring" where
  "std64_encode s = map std64_char (b64_groups (map byte s)) @ replicate ((3 - length s mod 3) mod 3) (CHR ''='')"

section \<open>Canonical queries\<close>

definition percentEncode :: "gostring \<Rightarrow> gostring" where
  "percentEncode s = concat (map (\<lambda>c. if unreserved c then [c] else percent_byte c) s)"

definition canonical_pairs :: "(gostring \<times> gostring) list \<Rightarrow> gostring" where
  "canonical_pairs ps = join ''&'' (map (\<lambda>(k, v). percentEncode k @ ''='' @ percentEncode v) ps)"

definition by_key :: "(gostring \<times> gostring) list \<Rightarrow> (gostring \<times> gostring) list" where
  "by_key ps = sort_by (\<lambda>a b. string_less (fst a) (fst b)) ps"

definition volcNormQuery :: "(gostring \<times> gostring) list \<Rightarrow> gostring" where
  "volcNormQuery params = canonical_pairs (by_key params)"

definition aliyun_string :: "(gostring \<times> gostring) list \<Rightarrow> gostring" where
  "aliyun_string params = ''GET&'' @ percentEncode ''/'' @ ''&'' @ percentEncode (canonical_pairs (by_key params))"

definition aliyunRPCSign :: "gostring \<Rightarrow> (gostring \<times> gostring) list \<Rightarrow> gostring" where
  "aliyunRPCSign secret params = std64_encode (hmac_sha1 (secret @ ''&'') (aliyun_string params))"

definition update_all :: "(gostring \<times> gostring) list \<Rightarrow> (gostring \<times> gostring) list \<Rightarrow> (gostring \<times> gostring) list" where
  "update_all extra ps = fold (\<lambda>(k, v). AList.update k v) extra ps"

definition aliyun_time :: "int \<Rightarrow> gostring" where
  "aliyun_time now = fmt_date (utc_at now) @ ''T'' @ fmt_clock (utc_at now) @ ''Z''"

definition AliyunRPCParams :: "gostring \<Rightarrow> gostring \<Rightarrow> gostring \<Rightarrow> gostring \<Rightarrow> (gostring \<times> gostring) list
    \<Rightarrow> int \<Rightarrow> gostring \<Rightarrow> (gostring \<times> gostring) list" where
  "AliyunRPCParams i secret action version extra now nonce =
     (let params = update_all extra
        [(''Action'', action), (''Version'', version), (''AccessKeyId'', i), (''SignatureMethod'', ''HMAC-SHA1''),
         (''Timestamp'', aliyun_time now), (''SignatureVersion'', ''1.0''), (''SignatureNonce'', nonce),
         (''Format'', ''JSON'')]
      in AList.update ''Signature'' (aliyunRPCSign secret params) params)"

text \<open>The nonce is a version 4 UUID made of sixteen random bytes.\<close>

definition aliyunNonce :: "gostring \<Rightarrow> gostring" where
  "aliyunNonce b0 =
     (let b = b0[6 := char_of ((byte (b0 ! 6) mod 16) + 64), 8 := char_of ((byte (b0 ! 8) mod 64) + 128)];
          h = (\<lambda>i j. hex_encode (take (j - i) (drop i b)))
      in h 0 4 @ ''-'' @ h 4 6 @ ''-'' @ h 6 8 @ ''-'' @ h 8 10 @ ''-'' @ h 10 16)"

section \<open>Volcengine V4\<close>

record volc_request =
  vr_host :: gostring
  vr_path :: gostring
  vr_region :: gostring
  vr_service :: gostring
  vr_ak :: gostring
  vr_sk :: gostring
  vr_params :: "(gostring \<times> gostring) list"
  vr_body :: gostring

definition volcSHA256 :: "gostring \<Rightarrow> gostring" where "volcSHA256 s = hex_encode (sha256 s)"

definition volc_time :: "int \<Rightarrow> gostring" where
  "volc_time now = filter (\<lambda>c. c \<noteq> CHR ''-'') (fmt_date (utc_at now)) @ ''T''
     @ filter (\<lambda>c. c \<noteq> CHR '':'') (fmt_clock (utc_at now)) @ ''Z''"

definition signed_header_names :: gostring where
  "signed_header_names = ''content-type;host;x-content-sha256;x-date''"

definition volc_scope :: "volc_request \<Rightarrow> int \<Rightarrow> gostring" where
  "volc_scope r now = join ''/'' [take 8 (volc_time now), vr_region r, vr_service r, ''request'']"

definition canonical_request :: "volc_request \<Rightarrow> int \<Rightarrow> gostring" where
  "canonical_request r now = join [CHR 0x0A]
     [''GET'', vr_path r, volcNormQuery (vr_params r), ''content-type:application/json'', ''host:'' @ vr_host r,
      ''x-content-sha256:'' @ volcSHA256 (vr_body r), ''x-date:'' @ volc_time now, [], signed_header_names,
      volcSHA256 (vr_body r)]"

definition volc_string :: "volc_request \<Rightarrow> int \<Rightarrow> gostring" where
  "volc_string r now = join [CHR 0x0A] [''HMAC-SHA256'', volc_time now, volc_scope r now, volcSHA256 (canonical_request r now)]"

definition signing_key :: "volc_request \<Rightarrow> int \<Rightarrow> gostring" where
  "signing_key r now = fold (\<lambda>part key. hmac_sha256 key part)
     [take 8 (volc_time now), vr_region r, vr_service r, ''request''] (vr_sk r)"

definition VolcV4Headers :: "volc_request \<Rightarrow> int \<Rightarrow> (gostring \<times> gostring) list" where
  "VolcV4Headers r now =
     [(''Host'', vr_host r), (''X-Content-Sha256'', volcSHA256 (vr_body r)), (''X-Date'', volc_time now),
      (''Content-Type'', ''application/json''),
      (''Authorization'', ''HMAC-SHA256 Credential='' @ vr_ak r @ ''/'' @ volc_scope r now @ '', SignedHeaders=''
        @ signed_header_names @ '', Signature='' @ hex_encode (hmac_sha256 (signing_key r now) (volc_string r now)))]"

definition hostAndPathOf :: "gostring \<Rightarrow> goerror + gostring \<times> gostring" where
  "hostAndPathOf raw = (case parse_url raw of
       None \<Rightarrow> Inl (''cannot derive host from '' @ quote raw)
     | Some u \<Rightarrow> if u_host u = [] then Inl (''cannot derive host from '' @ quote raw)
         else Inr (u_host u, if u_path u = [] then ''/'' else u_path u))"

section \<open>The canonical query determines the parameters\<close>

lemma unescape_percentEncode: "PathUnescape (percentEncode s) = Some s"
  unfolding PathUnescape_def percentEncode_def
  by (induction s) (auto simp: unescape_percent unreserved_plain)

lemma percentEncode_inj: "percentEncode s = percentEncode t \<longleftrightarrow> s = t"
  using unescape_percentEncode by (metis option.inject)

lemma upper_hex_unreserved: "n < 16 \<Longrightarrow> unreserved (upper_hex n)"
proof -
  assume "n < 16"
  then have "is_digit (upper_hex n) \<or> letter (upper_hex n)"
    by (auto simp: upper_hex_def letter_def is_digit_def)
  then show ?thesis unfolding unreserved_def by blast
qed

lemma percent_byte_chars: "c \<in> set (percent_byte d) \<Longrightarrow> unreserved c \<or> c = CHR ''%''"
proof -
  have b: "byte d div 16 < 16" "byte d mod 16 < 16" using byte_less_256 [of d] by auto
  assume "c \<in> set (percent_byte d)"
  then have "c = CHR ''%'' \<or> c = upper_hex (byte d div 16) \<or> c = upper_hex (byte d mod 16)"
    unfolding percent_byte_def by (simp only: list.set insert_iff empty_iff simp_thms)
  then show ?thesis using upper_hex_unreserved b by metis
qed

lemma percentEncode_chars: "c \<in> set (percentEncode s) \<Longrightarrow> unreserved c \<or> c = CHR ''%''"
proof -
  assume "c \<in> set (percentEncode s)"
  then obtain d where "c \<in> set (if unreserved d then [d] else percent_byte d)"
    unfolding percentEncode_def set_concat set_map by blast
  then show ?thesis using percent_byte_chars by (cases "unreserved d") auto
qed

lemma percentEncode_separators: "CHR ''&'' \<notin> set (percentEncode s)" "CHR ''='' \<notin> set (percentEncode s)"
proof -
  have n: "\<not> (unreserved (CHR ''&'') \<or> CHR ''&'' = CHR ''%'')" "\<not> (unreserved (CHR ''='') \<or> CHR ''='' = CHR ''%'')"
    by (simp_all add: unreserved_def letter_def is_digit_def byte_def)
  show "CHR ''&'' \<notin> set (percentEncode s)" using percentEncode_chars n(1) by metis
  show "CHR ''='' \<notin> set (percentEncode s)" using percentEncode_chars n(2) by metis
qed

lemma pair_inj:
  "percentEncode k @ ''='' @ percentEncode v = percentEncode k' @ ''='' @ percentEncode v' \<longleftrightarrow> k = k' \<and> v = v'"
proof
  assume e: "percentEncode k @ ''='' @ percentEncode v = percentEncode k' @ ''='' @ percentEncode v'"
  have "cut (percentEncode k @ CHR ''='' # percentEncode v) ''='' = Some (percentEncode k, percentEncode v)"
    "cut (percentEncode k' @ CHR ''='' # percentEncode v') ''='' = Some (percentEncode k', percentEncode v')"
    by (intro cut_char percentEncode_separators)+
  moreover have "percentEncode k @ CHR ''='' # percentEncode v = percentEncode k' @ CHR ''='' # percentEncode v'"
    using e by (simp only: append_Cons append_Nil)
  ultimately have "(percentEncode k, percentEncode v) = (percentEncode k', percentEncode v')" by (metis option.inject)
  then show "k = k' \<and> v = v'" by (simp only: prod.inject percentEncode_inj)
qed simp

lemma canonical_split:
  "canonical_pairs ps = [] \<longleftrightarrow> ps = []"
  "ps \<noteq> [] \<Longrightarrow> split_on (CHR ''&'') (canonical_pairs ps) = map (\<lambda>(k, v). percentEncode k @ ''='' @ percentEncode v) ps"
proof -
  show "canonical_pairs ps = [] \<longleftrightarrow> ps = []"
  proof
    assume e: "canonical_pairs ps = []"
    show "ps = []"
    proof (rule ccontr)
      assume "ps \<noteq> []"
      then have "join ''&'' (map (\<lambda>(k, v). percentEncode k @ ''='' @ percentEncode v) ps) \<noteq> []"
        by (intro join_ends [THEN conjunct1]) auto
      then show False using e by (simp add: canonical_pairs_def)
    qed
  qed (simp add: canonical_pairs_def)
  show "ps \<noteq> [] \<Longrightarrow> split_on (CHR ''&'') (canonical_pairs ps) = map (\<lambda>(k, v). percentEncode k @ ''='' @ percentEncode v) ps"
    unfolding canonical_pairs_def by (intro split_on_join) (auto simp: percentEncode_separators)
qed

lemma canonical_pairs_inj: "canonical_pairs ps = canonical_pairs qs \<longleftrightarrow> ps = qs"
proof
  assume e: "canonical_pairs ps = canonical_pairs qs"
  show "ps = qs"
  proof (cases "ps = []")
    case True
    then show ?thesis using e canonical_split(1) by metis
  next
    case False
    then have ne: "qs \<noteq> []" using e canonical_split(1) by metis
    let ?f = "\<lambda>(k, v). percentEncode k @ ''='' @ percentEncode v"
    have m: "map ?f ps = map ?f qs" using canonical_split(2) [OF False] canonical_split(2) [OF ne] e by simp
    have "inj ?f" by (auto intro!: injI simp: pair_inj [simplified])
    then show ?thesis using m by (simp add: inj_map_eq_map)
  qed
qed simp

lemma by_key_set: "set (by_key ps) = set ps"
  by (simp add: by_key_def)

lemma canonical_query_map:
  assumes "distinct (map fst ps)" "distinct (map fst qs)" "canonical_pairs (by_key ps) = canonical_pairs (by_key qs)"
  shows "map_of ps = map_of qs"
proof -
  have "set ps = set qs" using assms(3) by_key_set canonical_pairs_inj by metis
  then show ?thesis using assms(1,2) map_of_eqI [of ps qs]
    by (metis map_of_eq_Some_iff not_None_eq option.exhaust ext)
qed

lemma key_weak: "strict_weak (\<lambda>a b. string_less (fst a) (fst b))"
  using strict_weak_string_less unfolding strict_weak_def by blast

lemma keyed_unique:
  assumes "sorted_wrt (\<lambda>a b. \<not> string_less (fst b) (fst a)) xs" "sorted_wrt (\<lambda>a b. \<not> string_less (fst b) (fst a)) ys"
    and "distinct (map fst xs)" "distinct (map fst ys)" "set xs = set ys"
  shows "xs = ys"
  using assms
proof (induction xs arbitrary: ys)
  case (Cons x xs)
  then obtain y ys' where ys: "ys = y # ys'" by (cases ys) auto
  have "x = y"
  proof (rule ccontr)
    assume ne: "x \<noteq> y"
    then have "y \<in> set xs" "x \<in> set ys'" using Cons.prems(5) ys by auto
    then have "\<not> string_less (fst y) (fst x)" "\<not> string_less (fst x) (fst y)"
      using Cons.prems(1,2) ys by auto
    then have "fst x = fst y" using string_less_linear by blast
    then show False using \<open>y \<in> set xs\<close> Cons.prems(3) by auto
  qed
  moreover have "set xs = set ys'"
    using Cons.prems(3-5) ys \<open>x = y\<close> by (metis distinct.simps(2) distinct_map insert_ident list.simps(15))
  ultimately show ?case using Cons ys by auto
qed simp

lemma map_of_set: "distinct (map fst ps) \<Longrightarrow> distinct (map fst qs) \<Longrightarrow> map_of ps = map_of qs \<Longrightarrow> set ps = set qs"
  by (intro set_eqI) (metis map_of_eq_Some_iff prod.collapse)

lemma by_key_map:
  assumes "distinct (map fst ps)" "distinct (map fst qs)" "map_of ps = map_of qs"
  shows "by_key ps = by_key qs"
proof (rule keyed_unique)
  show "sorted_wrt (\<lambda>a b. \<not> string_less (fst b) (fst a)) (by_key ps)" "sorted_wrt (\<lambda>a b. \<not> string_less (fst b) (fst a)) (by_key qs)"
    unfolding by_key_def by (intro sorted_sort_by [OF key_weak])+
  have m: "mset (map fst (by_key ps)) = mset (map fst ps)" for ps by (simp add: by_key_def)
  show "distinct (map fst (by_key ps))" "distinct (map fst (by_key qs))"
    using assms(1,2) m mset_eq_imp_distinct_iff by metis+
  show "set (by_key ps) = set (by_key qs)" using map_of_set [OF assms] by_key_set by metis
qed

lemma canonical_query_iff:
  "distinct (map fst ps) \<Longrightarrow> distinct (map fst qs) \<Longrightarrow>
   canonical_pairs (by_key ps) = canonical_pairs (by_key qs) \<longleftrightarrow> map_of ps = map_of qs"
  using canonical_query_map by_key_map by metis

text \<open>What is signed is a function of the parameters as a map, whatever order they come in,
  and two parameter maps are never signed alike: the canonical query of the Volcengine
  signature and the text the Aliyun signature is made of both determine the parameters.\<close>

theorem signed_text_determines_params:
  assumes "distinct (map fst ps)" "distinct (map fst qs)"
  shows "(volcNormQuery ps = volcNormQuery qs \<longleftrightarrow> map_of ps = map_of qs)
    \<and> (aliyun_string ps = aliyun_string qs \<longleftrightarrow> map_of ps = map_of qs)"
proof
  show "volcNormQuery ps = volcNormQuery qs \<longleftrightarrow> map_of ps = map_of qs"
    using canonical_query_iff [OF assms] by (simp add: volcNormQuery_def)
  have "aliyun_string ps = aliyun_string qs \<longleftrightarrow> canonical_pairs (by_key ps) = canonical_pairs (by_key qs)"
    by (simp add: aliyun_string_def percentEncode_inj)
  then show "aliyun_string ps = aliyun_string qs \<longleftrightarrow> map_of ps = map_of qs"
    using canonical_query_iff [OF assms] by simp
qed

theorem signed_text_determines_params_witness:
  "volcNormQuery [(''b'', ''1&''), (''a'', ''='')] = volcNormQuery [(''a'', ''=''), (''b'', ''1&'')]
   \<and> aliyun_string [(''a'', ''1'')] \<noteq> aliyun_string [(''a'', ''2'')]"
proof
  have "map_of [(''b'', ''1&''), (''a'', ''='')] = map_of [(''a'', ''=''), (''b'', ''1&'')]"
    by (simp add: fun_upd_twist)
  then show "volcNormQuery [(''b'', ''1&''), (''a'', ''='')] = volcNormQuery [(''a'', ''=''), (''b'', ''1&'')]"
    by (subst signed_text_determines_params [THEN conjunct1]) simp_all
  have "map_of [(''a'', ''1'')] ''a'' \<noteq> map_of [(''a'', ''2'')] ''a''" by simp
  then have "map_of [(''a'', ''1'')] \<noteq> map_of [(''a'', ''2'')]" by metis
  then show "aliyun_string [(''a'', ''1'')] \<noteq> aliyun_string [(''a'', ''2'')]"
    by (subst signed_text_determines_params [THEN conjunct2]) simp_all
qed

end
