(* ===== verification/Provider.thy ===== *)
theory Provider
  imports Json Model GoTime Sign
begin

text \<open>
  Balance adapters (\<open>provider/dynamic.go\<close>, \<open>provider/window.go\<close>, \<open>provider/provider.go\<close>,
  \<open>provider/defaults.go\<close>): checking a page-defined platform, the runtime spec built from it, the
  registry of specs, the request of one query and what its answer yields.  A Go map of strings is
  an association list with distinct keys, changed by \<open>AList.update\<close>.
\<close>

type_synonym params = "(gostring \<times> gostring) list"

section \<open>Specs\<close>

datatype auth_mode = AuthBearer | AuthQuery | AuthHeader | AuthNone

text \<open>A signer gets the endpoint, the key, the reading of the clock and the nonce it draws; it
  yields headers and query parameters.  Extraction reads the clock too.\<close>

record spec =
  sp_key :: gostring
  sp_name :: gostring
  sp_default_type :: gostring
  sp_currency :: gostring
  sp_url :: gostring
  sp_auth :: auth_mode
  sp_auth_param :: gostring
  sp_headers :: params
  sp_params :: params
  sp_check :: "json \<Rightarrow> goerror option"
  sp_extract :: "int \<Rightarrow> json \<Rightarrow> goerror + f64"
  sp_sign :: "(gostring \<Rightarrow> gostring \<Rightarrow> int \<Rightarrow> gostring \<Rightarrow> goerror + params \<times> params) option"

record info =
  in_key :: gostring
  in_name :: gostring
  in_default_type :: gostring
  in_currency :: gostring

definition CustomAuthBearer :: gostring where "CustomAuthBearer = ''bearer''"
definition CustomAuthQuery :: gostring where "CustomAuthQuery = ''query''"
definition CustomAuthHeader :: gostring where "CustomAuthHeader = ''header''"
definition CustomAuthNone :: gostring where "CustomAuthNone = ''none''"
definition CustomAuthAliyunRPC :: gostring where "CustomAuthAliyunRPC = ''aliyun_rpc''"
definition CustomAuthVolcV4 :: gostring where "CustomAuthVolcV4 = ''volc_v4''"

lemmas auth_defs = CustomAuthBearer_def CustomAuthQuery_def CustomAuthHeader_def CustomAuthNone_def
  CustomAuthAliyunRPC_def CustomAuthVolcV4_def

section \<open>Small parsers\<close>

definition splitTrim :: "gostring \<Rightarrow> gostring list" where
  "splitTrim raw = filter (\<lambda>s. s \<noteq> []) (map trim_space (split_on (CHR '','') raw))"

fun key_values :: "gostring list \<Rightarrow> params \<Rightarrow> params" where
  "key_values [] out = out"
| "key_values (pair # pairs) out = (case cut pair ''='' of
       None \<Rightarrow> key_values pairs out
     | Some (k, v) \<Rightarrow> key_values pairs (AList.update (trim_space k) (trim_space v) out))"

definition parseKeyValue :: "gostring \<Rightarrow> params" where
  "parseKeyValue raw = key_values (splitTrim raw) []"

definition SplitKeyPair :: "gostring \<Rightarrow> gostring \<Rightarrow> gostring \<Rightarrow> goerror + gostring \<times> gostring" where
  "SplitKeyPair apiKey label fmt =
     (let err = label @ '': invalid API key format; expected '' @ [CHR 0x27] @ fmt @ [CHR 0x27]
      in case cut apiKey '':'' of
           None \<Rightarrow> Inl err
         | Some (i, secret) \<Rightarrow> if i = [] \<or> secret = [] then Inl err else Inr (i, secret))"

section \<open>Validation\<close>

definition dynamicPattern :: rx where
  "dynamicPattern = seq_all [BeginText, ascii_class (\<lambda>c. is_digit c \<or> (97 \<le> byte c \<and> byte c \<le> 122)),
     from_to 1 30 (ascii_class (\<lambda>c. is_digit c \<or> (97 \<le> byte c \<and> byte c \<le> 122) \<or> c = CHR ''-'')), EndText]"

definition ValidateCustomProvider :: "custom_provider \<Rightarrow> goerror list" where
  "ValidateCustomProvider p =
     (let name = to_lower (trim_space (cp_name p)); md = cp_auth_mode p; ty = cp_default_type p in
      (if \<not> matches dynamicPattern name
       then [''name: lowercase letters, digits and dashes only, 2-31 characters''] else []) @
      (case parse_url (trim_space (cp_url p)) of
         None \<Rightarrow> [''url: must be a valid http(s) URL'']
       | Some u \<Rightarrow> if u_host u = [] \<or> (u_scheme u \<noteq> ''http'' \<and> u_scheme u \<noteq> ''https'')
           then [''url: must be a valid http(s) URL''] else []) @
      (if md = CustomAuthBearer \<or> md = CustomAuthNone then []
       else if md = CustomAuthQuery \<or> md = CustomAuthHeader then
         (if trim_space (cp_auth_param p) = [] then [''auth_param: required for query and header auth modes''] else [])
       else if md = CustomAuthAliyunRPC \<or> md = CustomAuthVolcV4 then []
       else [''auth_mode: one of bearer, query, header, none, aliyun_rpc, volc_v4'']) @
      (if md = CustomAuthVolcV4 \<and> (trim_space (cp_sign_region p) = [] \<or> trim_space (cp_sign_service p) = [])
       then [''sign_region and sign_service: required for volc_v4 signing''] else []) @
      (if ty = TypeBalance \<or> ty = TypeCredits \<or> ty = TypeQuota then []
       else [''default_type: one of balance, credits, quota'']) @
      (if ty \<noteq> TypeQuota \<and> to_upper (trim_space (cp_currency p)) \<noteq> [] \<and> length (to_upper (trim_space (cp_currency p))) \<noteq> 3
       then [''currency: a 3-letter ISO code (e.g. USD, CNY) or empty''] else []) @
      (if trim_space (cp_balance_path p) = [] then [''balance_path: required, e.g. data.balance''] else []) @
      (if flt (cp_balance_scale p) (Fin 0) then [''balance_scale: cannot be negative''] else []) @
      (if cp_extract_mode p = [] \<or> cp_extract_mode p = ''path'' \<or> cp_extract_mode p = ''min_window'' then []
       else [''extract_mode: path or min_window'']) @
      (if flt (cp_window_reset_hours p) (Fin 0) \<or> flt (Fin 168) (cp_window_reset_hours p)
       then [''window_reset_hours: 0-168 (0 means the 6-hour default)''] else []) @
      (if list_ex (\<lambda>pair. cut pair ''='' = None) (splitTrim (cp_extra_params p))
       then [''extra_params: entries look like key=value''] else []))"

section \<open>Extraction\<close>

definition pathExtract :: "custom_provider \<Rightarrow> f64 \<Rightarrow> json \<Rightarrow> goerror + f64" where
  "pathExtract p scale data =
     (let balancePath = trim_space (cp_balance_path p); subtractPath = trim_space (cp_subtract_path p);
          raw = DigFirst data balancePath
      in if raw = JNull then Inl (''balance not found at '' @ balancePath)
         else case numLoose raw of
           None \<Rightarrow> Inl (''no number at '' @ balancePath)
         | Some value \<Rightarrow>
             if subtractPath \<noteq> [] then
               (case numLoose (DigFirst data subtractPath) of
                  None \<Rightarrow> Inl (''no number at '' @ subtractPath)
                | Some used \<Rightarrow> Inr (provider_round2 (fmul (fsub value used) scale)))
             else Inr (provider_round2 (fmul value scale)))"

definition clampPercent :: "f64 \<Rightarrow> f64" where
  "clampPercent v = math_max (Fin 0) (math_min (Fin 100) v)"

definition glmRemainingPercent :: "json \<Rightarrow> f64 option" where
  "glmRemainingPercent limit =
     (case (jsonNum (field limit ''usage''), jsonNum (field limit ''remaining'')) of
        (Some usage, Some remaining) \<Rightarrow>
          if flt (Fin 0) usage then Some (clampPercent (fmul (fdiv remaining usage) (Fin 100)))
          else map_option (\<lambda>q. clampPercent (fsub (Fin 100) q)) (jsonNum (field limit ''percentage''))
      | _ \<Rightarrow> map_option (\<lambda>q. clampPercent (fsub (Fin 100) q)) (jsonNum (field limit ''percentage'')))"

definition glmResetsWithin :: "json \<Rightarrow> int \<Rightarrow> duration \<Rightarrow> bool" where
  "glmResetsWithin limit now d = (case jsonNum (field limit ''nextResetTime'') of
       None \<Rightarrow> False
     | Some value \<Rightarrow>
         if fle value (Fin 0) then False
         else (let seconds = (if flt value (Fin (10 ^ 12)) then value else fdiv value (Fin 1000));
                   reset = unix_time (f64_to_int64 seconds) utc_zone
               in t_after reset (utc_at now) \<and> t_sub reset (utc_at now) \<le> d))"

fun min_loop :: "f64 list \<Rightarrow> f64 \<Rightarrow> f64" where
  "min_loop [] m = m"
| "min_loop (v # vs) m = min_loop vs (if flt v m then v else m)"

definition minFloat :: "f64 list \<Rightarrow> f64" where "minFloat values = min_loop values PInf"

definition windowOfType :: "json \<Rightarrow> gostring list \<Rightarrow> bool" where
  "windowOfType limit types = (let got = Str (field limit ''type'') in got = [] \<or> got \<in> set types)"

fun windows_loop :: "gostring list \<Rightarrow> duration \<Rightarrow> int \<Rightarrow> json list \<Rightarrow> f64 list \<Rightarrow> f64 list \<Rightarrow> f64 list \<times> f64 list" where
  "windows_loop types d now [] rolling other = (rolling, other)"
| "windows_loop types d now (item # items) rolling other =
     (let limit = Object item in
      if limit = JNull \<or> \<not> windowOfType limit types then windows_loop types d now items rolling other
      else case glmRemainingPercent limit of
          None \<Rightarrow> windows_loop types d now items rolling other
        | Some percent \<Rightarrow>
            if glmResetsWithin limit now d then windows_loop types d now items (rolling @ [percent]) other
            else windows_loop types d now items rolling (other @ [percent]))"

definition window_types :: "custom_provider \<Rightarrow> gostring list" where
  "window_types p = (if splitTrim (cp_window_types p) = [] then [''TOKENS_LIMIT'', ''CREDIT_LIMIT'']
     else splitTrim (cp_window_types p))"

definition reset_window :: "custom_provider \<Rightarrow> duration" where
  "reset_window p = (let h = (if feq (cp_window_reset_hours p) (Fin 0) then Fin 6 else cp_window_reset_hours p)
     in f64_to_int64 (fmul h (f64_of_int hour)))"

definition minWindowExtract :: "custom_provider \<Rightarrow> int \<Rightarrow> json \<Rightarrow> goerror + f64" where
  "minWindowExtract p now data = (case Dig data [''data'', ''limits''] of
       JArr limits \<Rightarrow>
         (let (rolling, other) = windows_loop (window_types p) (reset_window p) now limits [] []
          in if rolling \<noteq> [] then Inr (provider_round2 (minFloat rolling))
             else if other \<noteq> [] then Inr (provider_round2 (minFloat other))
             else Inl ''data.limits contains no quota window'')
     | _ \<Rightarrow> Inl ''Could not parse data.limits field'')"

section \<open>Business-level success\<close>

definition customErrorText :: "json \<Rightarrow> gostring \<Rightarrow> gostring \<Rightarrow> gostring" where
  "customErrorText data errorPath fallback =
     (if errorPath = [] then fallback
      else (let message = DigPath data errorPath in
        if message = JNull \<or> formatValue message = [] then fallback else formatValue message))"

definition customCheck :: "custom_provider \<Rightarrow> json \<Rightarrow> goerror option" where
  "customCheck p data =
     (let successPath = trim_space (cp_success_path p); successValues = splitTrim (cp_success_values p);
          errorPath = trim_space (cp_error_path p); got = DigPath data successPath;
          failed = Some (''API returned an error: '' @ customErrorText data errorPath (formatValue got))
      in if successPath = [] then None
         else if got = JNull then Some (''success field not found at '' @ successPath)
         else if successValues \<noteq> [] then (if formatValue got \<in> set successValues then None else failed)
         else if \<not> truthy_json got then failed else None)"

section \<open>Signing presets\<close>

definition param :: "params \<Rightarrow> gostring \<Rightarrow> gostring" where
  "param ps k = (case map_of ps k of None \<Rightarrow> [] | Some v \<Rightarrow> v)"

definition aliyunRPCSigner :: "custom_provider \<Rightarrow> gostring \<Rightarrow> gostring \<Rightarrow> int \<Rightarrow> gostring \<Rightarrow> goerror + params \<times> params" where
  "aliyunRPCSigner p raw apiKey now nonce =
     (let params = parseKeyValue (cp_extra_params p);
          action = (if param params ''Action'' = [] then ''QueryAccountBalance'' else param params ''Action'');
          version = (if param params ''Version'' = [] then ''2017-12-14'' else param params ''Version'')
      in case SplitKeyPair apiKey ''custom Aliyun RPC'' ''AccessKeyId:AccessKeySecret'' of
           Inl e \<Rightarrow> Inl e
         | Inr (i, secret) \<Rightarrow> Inr ([], AliyunRPCParams i secret action version params now nonce))"

definition volcV4Signer :: "custom_provider \<Rightarrow> gostring \<Rightarrow> gostring \<Rightarrow> int \<Rightarrow> gostring \<Rightarrow> goerror + params \<times> params" where
  "volcV4Signer p raw apiKey now nonce =
     (let region = trim_space (cp_sign_region p); service = trim_space (cp_sign_service p);
          params = parseKeyValue (cp_extra_params p)
      in case SplitKeyPair apiKey ''custom Volcengine V4'' ''AK:SK'' of
           Inl e \<Rightarrow> Inl e
         | Inr (ak, sk) \<Rightarrow> (case hostAndPathOf raw of
             Inl e \<Rightarrow> Inl e
           | Inr (host, path) \<Rightarrow>
               Inr (VolcV4Headers \<lparr>vr_host = host, vr_path = path, vr_region = region, vr_service = service,
                  vr_ak = ak, vr_sk = sk, vr_params = params, vr_body = []\<rparr> now, params)))"

section \<open>Building a spec\<close>

definition spec_auth :: "custom_provider \<Rightarrow> auth_mode" where
  "spec_auth p = (let md = cp_auth_mode p in
     if md = CustomAuthQuery then AuthQuery else if md = CustomAuthHeader then AuthHeader
     else if md = CustomAuthNone \<or> md = CustomAuthAliyunRPC \<or> md = CustomAuthVolcV4 then AuthNone
     else AuthBearer)"

definition SpecFromCustomProvider :: "custom_provider \<Rightarrow> goerror + spec" where
  "SpecFromCustomProvider p =
     (let problems = ValidateCustomProvider p; name = to_lower (trim_space (cp_name p));
          display = trim_space (cp_display_name p);
          scale = (if feq (cp_balance_scale p) (Fin 0) then Fin 1 else cp_balance_scale p)
      in if problems \<noteq> [] then Inl (''invalid custom provider: '' @ join ''; '' problems)
         else Inr \<lparr>sp_key = custom_provider_key name, sp_name = (if display = [] then name else display),
           sp_default_type = cp_default_type p, sp_currency = to_upper (trim_space (cp_currency p)),
           sp_url = trim_space (cp_url p), sp_auth = spec_auth p,
           sp_auth_param = (if spec_auth p = AuthQuery \<or> spec_auth p = AuthHeader then trim_space (cp_auth_param p) else []),
           sp_headers = [], sp_params = parseKeyValue (cp_extra_params p), sp_check = customCheck p,
           sp_extract = (if trim_space (cp_extract_mode p) = ''min_window'' then minWindowExtract p
             else (\<lambda>now. pathExtract p scale)),
           sp_sign = (if cp_auth_mode p = CustomAuthAliyunRPC then Some (aliyunRPCSigner p)
             else if cp_auth_mode p = CustomAuthVolcV4 then Some (volcV4Signer p) else None)\<rparr>)"

section \<open>The registry\<close>

text \<open>The platforms registered in code (their metadata; the program registers none) and the
  page-defined specs by key.\<close>

record registry =
  rg_builtin :: "gostring \<Rightarrow> info option"
  rg_builtin_keys :: "gostring list"
  rg_dynamic :: "(gostring \<times> spec) list"

definition lookupSpec :: "registry \<Rightarrow> gostring \<Rightarrow> spec option" where
  "lookupSpec g key = map_of (rg_dynamic g) key"

definition IsDynamic :: "registry \<Rightarrow> gostring \<Rightarrow> bool" where
  "IsDynamic g key \<longleftrightarrow> lookupSpec g key \<noteq> None"

fun replace_dynamic :: "registry \<Rightarrow> spec list \<Rightarrow> (gostring \<times> spec) list \<Rightarrow> goerror + (gostring \<times> spec) list" where
  "replace_dynamic g [] m = Inr m"
| "replace_dynamic g (s # ss) m =
     (if rg_builtin g (sp_key s) \<noteq> None
      then Inl (''provider key '' @ quote (sp_key s) @ '' collides with a built-in platform'')
      else replace_dynamic g ss (AList.update (sp_key s) s m))"

definition ReplaceDynamic :: "registry \<Rightarrow> spec list \<Rightarrow> goerror option \<times> registry" where
  "ReplaceDynamic g specs = (case replace_dynamic g specs [] of
       Inl e \<Rightarrow> (Some e, g)
     | Inr m \<Rightarrow> (None, g\<lparr>rg_dynamic := m\<rparr>))"

definition trimCustomPrefix :: "gostring \<Rightarrow> gostring" where
  "trimCustomPrefix key = trim_prefix key ''custom:''"

definition canonicalKey :: "registry \<Rightarrow> gostring \<Rightarrow> gostring" where
  "canonicalKey g key = (if rg_builtin g key \<noteq> None then key
     else if IsDynamic g (''custom:'' @ key) then ''custom:'' @ key else key)"

definition provider_keys :: "registry \<Rightarrow> gostring list" where
  "provider_keys g = sort_strings (rg_builtin_keys g @ map fst (rg_dynamic g))"

definition spec_info :: "spec \<Rightarrow> info" where
  "spec_info s = \<lparr>in_key = sp_key s, in_name = sp_name s, in_default_type = sp_default_type s, in_currency = sp_currency s\<rparr>"

definition Lookup_provider :: "registry \<Rightarrow> gostring \<Rightarrow> info option" where
  "Lookup_provider g key = (case lookupSpec g (canonicalKey g key) of
       Some s \<Rightarrow> Some (spec_info s)
     | None \<Rightarrow> rg_builtin g key)"

definition All_providers :: "registry \<Rightarrow> info option list" where
  "All_providers g = map (\<lambda>k. case lookupSpec g k of Some s \<Rightarrow> Some (spec_info s) | None \<Rightarrow> rg_builtin g k) (provider_keys g)"

definition DisplayName :: "registry \<Rightarrow> gostring \<Rightarrow> gostring" where
  "DisplayName g key = (case Lookup_provider g key of Some i \<Rightarrow> in_name i | None \<Rightarrow> key)"

text \<open>An adapter: a spec, or a platform registered in code.\<close>

datatype adapter = SpecAdapter spec | CodeAdapter gostring

definition New_provider :: "registry \<Rightarrow> gostring \<Rightarrow> goerror + adapter" where
  "New_provider g key = (case lookupSpec g (canonicalKey g key) of
       Some s \<Rightarrow> Inr (SpecAdapter s)
     | None \<Rightarrow> if rg_builtin g key = None
         then Inl (''Unknown provider: '' @ key @ ''. Supported providers: '' @ join '', '' (provider_keys g))
         else Inr (CodeAdapter key))"

section \<open>Defaults\<close>

definition default_custom :: "gostring \<Rightarrow> gostring \<Rightarrow> gostring \<Rightarrow> gostring \<Rightarrow> gostring \<Rightarrow> gostring \<Rightarrow> gostring \<Rightarrow> custom_provider" where
  "default_custom name display url auth ty currency path =
     \<lparr>cp_name = name, cp_display_name = display, cp_url = url, cp_auth_mode = auth, cp_auth_param = [],
      cp_default_type = ty, cp_currency = currency, cp_balance_path = path, cp_balance_scale = Fin 0,
      cp_success_path = [], cp_success_values = [], cp_error_path = [], cp_subtract_path = [], cp_extract_mode = [],
      cp_window_types = [], cp_window_reset_hours = Fin 0, cp_extra_params = [], cp_sign_region = [],
      cp_sign_service = [], cp_from_db = False\<rparr>"

definition DefaultCustomProviders :: "custom_provider list" where
  "DefaultCustomProviders =
     [default_custom ''deepseek'' ''DeepSeek'' ''https://api.deepseek.com/user/balance'' CustomAuthBearer TypeBalance ''CNY''
        ''balance_infos.{currency:CNY}.total_balance'',
      (default_custom ''glm'' ''GLM'' ''https://open.bigmodel.cn/api/monitor/usage/quota/limit'' CustomAuthBearer TypeQuota []
        ''data.limits'')\<lparr>cp_extract_mode := ''min_window'', cp_success_path := ''success'', cp_error_path := ''msg''\<rparr>,
      (default_custom ''openrouter'' ''OpenRouter'' ''https://openrouter.ai/api/v1/credits'' CustomAuthBearer TypeCredits ''USD''
        ''data.total_credits | total_credits'')\<lparr>cp_subtract_path := ''data.total_usage | total_usage''\<rparr>,
      default_custom ''tikhub'' ''TikHub'' ''https://api.tikhub.dev/api/v1/tikhub/user/get_user_info'' CustomAuthBearer TypeBalance ''USD''
        ''user_data.balance | data.balance | balance'',
      (default_custom ''uniapi'' ''UniAPI'' ''https://api.uniapi.io/v1/billing/usage'' CustomAuthBearer TypeCredits ''USD''
        ''data.balance'')\<lparr>cp_success_path := ''success'', cp_extra_params := ''unit=usd''\<rparr>,
      (default_custom ''wxrank'' ''WxRank'' ''https://data.wxrank.com/weixin/score'' CustomAuthQuery TypeCredits []
        ''msg | data.score | data.credits | score | credits'')\<lparr>cp_auth_param := ''key'', cp_success_path := ''code'',
        cp_success_values := ''0'', cp_error_path := ''msg''\<rparr>,
      (default_custom ''volc'' ''Volcengine'' ''https://open.volcengineapi.com/'' CustomAuthVolcV4 TypeBalance ''CNY''
        ''Result.AvailableBalance'')\<lparr>cp_error_path := ''ResponseMetadata.Error'', cp_sign_region := ''cn-shanghai'',
        cp_sign_service := ''billing'', cp_extra_params := ''Action=QueryBalanceAcct,Version=2022-01-01''\<rparr>,
      (default_custom ''aliyun'' ''Alibaba Cloud'' ''https://business.aliyuncs.com/'' CustomAuthAliyunRPC TypeBalance ''CNY''
        ''Data.AvailableAmount | AvailableAmount'')\<lparr>cp_extra_params := ''Action=QueryAccountBalance,Version=2017-12-14''\<rparr>]"

fun ok_specs :: "custom_provider list \<Rightarrow> spec list" where
  "ok_specs [] = []"
| "ok_specs (c # cs) = (case SpecFromCustomProvider c of Inl e \<Rightarrow> ok_specs cs | Inr s \<Rightarrow> s # ok_specs cs)"

definition defaultSpecs :: "spec list" where "defaultSpecs = ok_specs DefaultCustomProviders"

section \<open>HTTP\<close>

text \<open>One exchange: a failure with its text, whether it counts as a timeout and whether the
  request's context is over, or an answer with its status and the reading of its body.\<close>

datatype exchange = NetError goerror bool bool | Reply int "goerror + gostring"

definition MaxRetries :: nat where "MaxRetries = 3"

definition retriableStatus :: "int \<Rightarrow> bool" where
  "retriableStatus st \<longleftrightarrow> st \<in> {429, 500, 502, 503, 504}"

definition classify :: "goerror \<Rightarrow> bool \<Rightarrow> goerror" where
  "classify e timed_out = (if timed_out then ''Request timed out''
     else if has_prefix e ''HTTP '' then e else ''Network connection error: '' @ e)"

text \<open>\<open>cancelled k\<close> is the context's error when the wait before attempt \<open>k\<close> is cut short.  The
  first number counts the attempts left; the result comes with the number of exchanges made.\<close>

fun do_from :: "bool \<Rightarrow> (nat \<Rightarrow> goerror option) \<Rightarrow> (nat \<Rightarrow> exchange) \<Rightarrow> nat \<Rightarrow> nat \<Rightarrow> goerror
    \<Rightarrow> (goerror + int \<times> (goerror + gostring)) \<times> nat" where
  "do_from idempotent cancelled ex 0 attempt last_err = (Inl last_err, attempt)"
| "do_from idempotent cancelled ex (Suc k) attempt last_err =
     (if 0 < attempt \<and> cancelled attempt \<noteq> None then (Inl (the (cancelled attempt)), attempt)
      else case ex attempt of
          NetError e timed_out over \<Rightarrow>
            if \<not> idempotent \<or> over then (Inl (classify e timed_out), attempt + 1)
            else do_from idempotent cancelled ex k (attempt + 1) (classify e timed_out)
        | Reply st body \<Rightarrow>
            if \<not> idempotent \<or> \<not> retriableStatus st \<or> attempt = MaxRetries then (Inr (st, body), attempt + 1)
            else do_from idempotent cancelled ex k (attempt + 1) (classify (''HTTP '' @ itoa st) False))"

definition client_do :: "gostring \<Rightarrow> (nat \<Rightarrow> goerror option) \<Rightarrow> (nat \<Rightarrow> exchange)
    \<Rightarrow> (goerror + int \<times> (goerror + gostring)) \<times> nat" where
  "client_do meth cancelled ex =
     do_from (meth = ''GET'' \<or> meth = ''HEAD'' \<or> meth = ''OPTIONS'') cancelled ex (MaxRetries + 1) 0 []"

definition status_texts :: "(int \<times> gostring) list" where
  "status_texts =
    [(100, ''Continue''), (101, ''Switching Protocols''), (102, ''Processing''), (103, ''Early Hints''),
     (200, ''OK''), (201, ''Created''), (202, ''Accepted''), (203, ''Non-Authoritative Information''),
     (204, ''No Content''), (205, ''Reset Content''), (206, ''Partial Content''), (207, ''Multi-Status''),
     (208, ''Already Reported''), (226, ''IM Used''), (300, ''Multiple Choices''), (301, ''Moved Permanently''),
     (302, ''Found''), (303, ''See Other''), (304, ''Not Modified''), (305, ''Use Proxy''),
     (307, ''Temporary Redirect''), (308, ''Permanent Redirect''), (400, ''Bad Request''), (401, ''Unauthorized''),
     (402, ''Payment Required''), (403, ''Forbidden''), (404, ''Not Found''), (405, ''Method Not Allowed''),
     (406, ''Not Acceptable''), (407, ''Proxy Authentication Required''), (408, ''Request Timeout''), (409, ''Conflict''),
     (410, ''Gone''), (411, ''Length Required''), (412, ''Precondition Failed''), (413, ''Request Entity Too Large''),
     (414, ''Request URI Too Long''), (415, ''Unsupported Media Type''), (416, ''Requested Range Not Satisfiable''), (417, ''Expectation Failed''),
     (418, ''I'' @ [CHR 0x27] @ ''m a teapot''), (421, ''Misdirected Request''), (422, ''Unprocessable Entity''), (423, ''Locked''),
     (424, ''Failed Dependency''), (425, ''Too Early''), (426, ''Upgrade Required''), (428, ''Precondition Required''),
     (429, ''Too Many Requests''), (431, ''Request Header Fields Too Large''), (451, ''Unavailable For Legal Reasons''), (500, ''Internal Server Error''),
     (501, ''Not Implemented''), (502, ''Bad Gateway''), (503, ''Service Unavailable''), (504, ''Gateway Timeout''),
     (505, ''HTTP Version Not Supported''), (506, ''Variant Also Negotiates''), (507, ''Insufficient Storage''), (508, ''Loop Detected''),
     (510, ''Not Extended''), (511, ''Network Authentication Required'')]"

definition StatusText :: "int \<Rightarrow> gostring" where
  "StatusText st = (case map_of status_texts st of None \<Rightarrow> [] | Some t \<Rightarrow> t)"

definition request_url :: "gostring \<Rightarrow> params \<Rightarrow> gostring" where
  "request_url raw ps = (if ps = [] then raw
     else raw @ (if CHR ''?'' \<in> set raw then ''&'' else ''?'') @ query_encode ps)"

record get_request =
  gr_url :: gostring
  gr_headers :: params

text \<open>What a query meets: clock and nonce for the signature, the error of a URL that does not
  parse, the exchanges of a request and the clock at the extraction.\<close>

record inputs =
  ip_now_sign :: int
  ip_nonce :: gostring
  ip_url_error :: "gostring \<Rightarrow> goerror"
  ip_cancelled :: "nat \<Rightarrow> goerror option"
  ip_exchange :: "get_request \<Rightarrow> nat \<Rightarrow> exchange"
  ip_now_extract :: int

definition GetJSON :: "inputs \<Rightarrow> gostring \<Rightarrow> params \<Rightarrow> params \<Rightarrow> goerror + json" where
  "GetJSON ip raw headers ps =
     (let url = request_url raw ps; req = \<lparr>gr_url = url, gr_headers = headers\<rparr>
      in if parse_url url = None then Inl (ip_url_error ip url)
         else case fst (client_do ''GET'' (ip_cancelled ip) (ip_exchange ip req)) of
           Inl e \<Rightarrow> Inl e
         | Inr (st, body) \<Rightarrow>
             (case body of
                Inl e \<Rightarrow> Inl (''failed to read provider response: '' @ e)
              | Inr text \<Rightarrow>
                  if st \<noteq> 200 then Inl (''HTTP '' @ itoa st @ '': '' @ StatusText st)
                  else case json_decode text of
                    None \<Rightarrow> Inl ''Response is not valid JSON''
                  | Some v \<Rightarrow> Inr v))"

section \<open>One query\<close>

definition with_auth :: "spec \<Rightarrow> gostring \<Rightarrow> params \<times> params" where
  "with_auth s apiKey = (case sp_auth s of
       AuthNone \<Rightarrow> (sp_headers s, sp_params s)
     | AuthQuery \<Rightarrow> (sp_headers s, AList.update (sp_auth_param s) apiKey (sp_params s))
     | AuthHeader \<Rightarrow> (AList.update (sp_auth_param s) apiKey (sp_headers s), sp_params s)
     | AuthBearer \<Rightarrow> (AList.update ''Authorization'' (''Bearer '' @ apiKey) (sp_headers s), sp_params s))"

definition signed_request :: "spec \<Rightarrow> gostring \<Rightarrow> int \<Rightarrow> gostring \<Rightarrow> goerror + params \<times> params" where
  "signed_request s apiKey now nonce =
     (let (headers, ps) = with_auth s apiKey in
      case sp_sign s of
        None \<Rightarrow> Inr (headers, ps)
      | Some sign \<Rightarrow> (case sign (sp_url s) apiKey now nonce of
          Inl e \<Rightarrow> Inl e
        | Inr (hs, qs) \<Rightarrow> Inr (update_all hs headers, update_all qs ps)))"

definition Fetch :: "inputs \<Rightarrow> spec \<Rightarrow> gostring \<Rightarrow> goerror + f64" where
  "Fetch ip s apiKey = (case signed_request s apiKey (ip_now_sign ip) (ip_nonce ip) of
       Inl e \<Rightarrow> Inl e
     | Inr (headers, ps) \<Rightarrow> (case GetJSON ip (sp_url s) headers ps of
         Inl e \<Rightarrow> Inl e
       | Inr data \<Rightarrow> (case sp_check s data of
           Some e \<Rightarrow> Inl e
         | None \<Rightarrow> sp_extract s (ip_now_extract ip) data)))"

section \<open>Lemmas\<close>

lemma do_from_step:
  "(\<exists>r. do_from i c ex (Suc k) attempt e = (r, attempt) \<and> 0 < attempt)
   \<or> (\<exists>r. do_from i c ex (Suc k) attempt e = (r, attempt + 1))
   \<or> (i \<and> (\<exists>y. do_from i c ex (Suc k) attempt e = do_from i c ex k (attempt + 1) y))"
  by (auto split: exchange.splits)

lemma do_from_count:
  "attempt \<le> snd (do_from i c ex k attempt e) \<and> snd (do_from i c ex k attempt e) \<le> attempt + k"
proof (induction k arbitrary: attempt e)
  case (Suc k)
  show ?case using do_from_step [of i c ex k attempt e]
  proof (elim disjE exE conjE)
    fix y
    assume "do_from i c ex (Suc k) attempt e = do_from i c ex k (attempt + 1) y"
    then show ?thesis using Suc [of "attempt + 1" y] by simp
  qed simp_all
qed simp

lemma do_from_once: "\<not> i \<Longrightarrow> snd (do_from i c ex (Suc k) 0 e) = 1"
  using do_from_step [of i c ex k 0 e] by auto

text \<open>An attempt that is followed by another one.\<close>

definition goes_on :: "exchange \<Rightarrow> bool" where
  "goes_on x = (case x of NetError e t over \<Rightarrow> \<not> over | Reply st b \<Rightarrow> retriableStatus st)"

lemma do_from_answer:
  assumes "\<forall>j \<in> {attempt..<n}. goes_on (ex j)" and "\<forall>j \<in> {attempt<..n}. cancelled j = None"
    and "0 < attempt \<longrightarrow> cancelled attempt = None"
    and "attempt \<le> n" "n \<le> MaxRetries" "ex n = Reply st b" "\<not> retriableStatus st \<or> n = MaxRetries" "k + attempt = MaxRetries + 1"
  shows "do_from True cancelled ex k attempt e = (Inr (st, b), n + 1)"
  using assms
proof (induction k arbitrary: attempt e)
  case (Suc k)
  show ?case
  proof (cases "attempt = n")
    case True
    then show ?thesis using Suc.prems by auto
  next
    case False
    then have lt: "attempt < n" using Suc.prems by simp
    then have g: "goes_on (ex attempt)" and c: "cancelled (attempt + 1) = None" and ne: "attempt \<noteq> MaxRetries"
      using Suc.prems by auto
    have ih: "do_from True cancelled ex k (attempt + 1) y = (Inr (st, b), n + 1)" for y
      using Suc.prems lt c by (intro Suc.IH) auto
    have "do_from True cancelled ex (Suc k) attempt e = do_from True cancelled ex k (attempt + 1) y \<Longrightarrow> ?thesis" for y
      using ih by simp
    moreover have "\<exists>y. do_from True cancelled ex (Suc k) attempt e = do_from True cancelled ex k (attempt + 1) y"
      using g ne Suc.prems(3) by (cases "ex attempt") (auto simp: goes_on_def)
    ultimately show ?thesis by blast
  qed
qed simp

section \<open>Quota windows\<close>

text \<open>Decoded numbers are finite.\<close>

fun finite_numbers :: "json \<Rightarrow> bool" where
  "finite_numbers (JNum x) = is_finite x"
| "finite_numbers (JArr vs) = list_all finite_numbers vs"
| "finite_numbers (JObj kvs) = list_all (\<lambda>kv. finite_numbers (snd kv)) kvs"
| "finite_numbers _ = True"

lemma finite_field: "finite_numbers v \<Longrightarrow> finite_numbers (field v k)"
  by (cases v) (auto simp: field_def list_all_iff split: option.splits dest!: map_of_SomeD)

lemma finite_jsonNum: "finite_numbers v \<Longrightarrow> jsonNum v = Some x \<Longrightarrow> \<exists>r. x = Fin r"
  by (cases v; cases x) (auto simp: jsonNum_def)

definition is_percent :: "f64 \<Rightarrow> bool" where
  "is_percent v \<longleftrightarrow> (\<exists>x. v = Fin x \<and> 0 \<le> x \<and> x \<le> 100)"

lemma clampPercent_percent: "v \<noteq> NaN \<Longrightarrow> is_percent (clampPercent v)"
  by (cases v) (auto simp: clampPercent_def math_max_def math_min_def is_percent_def)

lemma fmul_not_NaN: "v \<noteq> NaN \<Longrightarrow> fmul v (Fin 100) \<noteq> NaN"
  by (cases v) (auto simp: fmul_def inf_of_sign_def sign_of_def)

lemma remaining_percent:
  assumes "finite_numbers limit" "glmRemainingPercent limit = Some v"
  shows "is_percent v"
proof -
  note fin = finite_jsonNum [OF finite_field [OF assms(1)]]
  have pct: "is_percent (clampPercent (fsub (Fin 100) q))" if "jsonNum (field limit ''percentage'') = Some q" for q
    using fin [OF that] by (auto intro: clampPercent_percent)
  have use: "is_percent (clampPercent (fmul (fdiv r u) (Fin 100)))"
    if "jsonNum (field limit ''usage'') = Some u" "jsonNum (field limit ''remaining'') = Some r" "flt (Fin 0) u" for u r
    using fin [OF that(1)] fin [OF that(2)] that(3) by (auto intro!: clampPercent_percent fmul_not_NaN)
  show ?thesis
    using assms(2) pct use unfolding glmRemainingPercent_def by (auto split: option.splits if_splits)
qed

lemma windows_percent:
  assumes "windows_loop types d now items rolling other = (r, ot)" "list_all finite_numbers items"
    and "\<forall>v \<in> set rolling \<union> set other. is_percent v"
  shows "\<forall>v \<in> set r \<union> set ot. is_percent v"
  using assms
proof (induction types d now items rolling other rule: windows_loop.induct)
  case (2 types d now item items rolling other)
  let ?l = "Object item"
  have l: "finite_numbers ?l" using "2.prems"(2) by (cases item) (auto simp: Object_def)
  consider "?l = JNull \<or> \<not> windowOfType ?l types" | "\<not> (?l = JNull \<or> \<not> windowOfType ?l types)" "glmRemainingPercent ?l = None"
    | v where "\<not> (?l = JNull \<or> \<not> windowOfType ?l types)" "glmRemainingPercent ?l = Some v" by (cases "glmRemainingPercent ?l") auto
  then show ?case
  proof cases
    case 1
    then show ?thesis using "2.IH"(1) [OF refl 1] "2.prems" by (simp add: Let_def)
  next
    case c: 2
    then show ?thesis using "2.IH"(2) [OF refl c] "2.prems" c by (simp add: Let_def)
  next
    case c: 3
    have "is_percent v" using remaining_percent [OF l c(2)] .
    then show ?thesis using "2.IH"(3) [OF refl c] "2.IH"(4) [OF refl c] "2.prems" c by (simp add: Let_def split: if_splits)
  qed
qed simp

lemma min_loop_least:
  "\<forall>v \<in> set vs. is_percent v \<Longrightarrow> m = PInf \<or> is_percent m \<Longrightarrow> vs \<noteq> [] \<or> is_percent m \<Longrightarrow>
   is_percent (min_loop vs m) \<and> min_loop vs m \<in> insert m (set vs) \<and> (\<forall>v \<in> insert m (set vs). fle (min_loop vs m) v)"
proof (induction vs m rule: min_loop.induct)
  case (1 m)
  then show ?case by (auto simp: is_percent_def)
next
  case (2 v vs m)
  obtain x where x: "v = Fin x" "0 \<le> x" "x \<le> 100" using 2(2) by (auto simp: is_percent_def)
  let ?m = "if flt v m then v else m"
  have m: "is_percent ?m" "fle ?m v" "fle ?m m" using 2(2,3) x by (auto simp: is_percent_def)
  then have ih: "is_percent (min_loop vs ?m)" "min_loop vs ?m \<in> insert ?m (set vs)" "\<forall>v \<in> insert ?m (set vs). fle (min_loop vs ?m) v"
    using 2(1,2) by auto
  have "fle (min_loop vs ?m) v" "fle (min_loop vs ?m) m" using ih(3) m(2,3) fle_trans by blast+
  then show ?case using ih by (auto split: if_splits)
qed

lemma minFloat_least:
  "\<forall>v \<in> set vs. is_percent v \<Longrightarrow> vs \<noteq> [] \<Longrightarrow> minFloat vs \<in> set vs \<and> (\<forall>v \<in> set vs. fle (minFloat vs) v)"
  using min_loop_least [of vs PInf] by (auto simp: minFloat_def is_percent_def)

definition quota_windows :: "custom_provider \<Rightarrow> int \<Rightarrow> json \<Rightarrow> f64 list \<times> f64 list" where
  "quota_windows p now data = (case Dig data [''data'', ''limits''] of
     JArr limits \<Rightarrow> windows_loop (window_types p) (reset_window p) now limits [] [] | _ \<Rightarrow> ([], []))"

lemma finite_Dig: "finite_numbers v \<Longrightarrow> finite_numbers (Dig v ks)"
  by (induction v ks rule: Dig.induct) (auto split: json.splits dest: finite_field [of "JObj _"])

text \<open>A quota balance is a percentage between 0 and 100: the lowest remaining share of the
  windows that reset soon, or of the others when none does, rounded to two decimals.\<close>

theorem min_window_lowest:
  assumes "finite_numbers data" "minWindowExtract p now data = Inr v"
  shows "\<exists>m ws. ws = (if fst (quota_windows p now data) \<noteq> [] then fst (quota_windows p now data) else snd (quota_windows p now data))
    \<and> m \<in> set ws \<and> (\<forall>q \<in> set ws. fle m q) \<and> v = provider_round2 m \<and> fle (Fin 0) v \<and> fle v (Fin 100)"
proof -
  obtain limits where lim: "Dig data [''data'', ''limits''] = JArr limits"
    using assms(2) unfolding minWindowExtract_def by (auto split: json.splits)
  obtain r ot where w: "windows_loop (window_types p) (reset_window p) now limits [] [] = (r, ot)" by fastforce
  have fin: "list_all finite_numbers limits" using finite_Dig [OF assms(1), of "[''data'', ''limits'']"] lim by simp
  have pct: "\<forall>v \<in> set r \<union> set ot. is_percent v" by (rule windows_percent [OF w fin]) simp
  let ?ws = "if r \<noteq> [] then r else ot"
  have ws: "?ws \<noteq> []" "v = provider_round2 (minFloat ?ws)"
    using assms(2) unfolding minWindowExtract_def lim json.case w Let_def prod.case by (auto split: if_splits)
  have m: "minFloat ?ws \<in> set ?ws" "\<forall>q \<in> set ?ws. fle (minFloat ?ws) q" using minFloat_least [of ?ws] pct ws(1) by auto
  then obtain x where "minFloat ?ws = Fin x" "0 \<le> x" "x \<le> 100" using pct by (auto simp: is_percent_def split: if_splits)
  then have "fle (Fin 0) v \<and> fle v (Fin 100)" using round2_range [of x 100] ws(2) by simp
  moreover have "quota_windows p now data = (r, ot)" unfolding quota_windows_def lim json.case w ..
  ultimately show ?thesis using m ws(2) by auto
qed

definition demo_plan :: json where
  "demo_plan = JObj [(''data'', JObj [(''limits'', JArr
     [JObj [(''type'', JStr ''TOKENS_LIMIT''), (''percentage'', JNum (Fin 40))],
      JObj [(''type'', JStr ''OTHER''), (''percentage'', JNum (Fin 95))],
      JObj [(''usage'', JNum (Fin 8)), (''remaining'', JNum (Fin 2))]])])]"

definition demo_provider :: custom_provider where
  "demo_provider = default_custom ''acme'' [] ''https://api.acme.test/q'' CustomAuthBearer TypeQuota [] ''data.limits''"

lemma demo_provider_windows: "window_types demo_provider = [''TOKENS_LIMIT'', ''CREDIT_LIMIT'']"
  by code_simp

lemma demo_quarter: "rnd (2 / 8) = Fin (1 / 4)" "rnd (1 / 4 * 100) = Fin 25"
proof -
  have "representable (1 / 4)" using representable_dyadic [of 1 2] by simp
  then show "rnd (2 / 8) = Fin (1 / 4)" using rnd_representable by simp
  show "rnd (1 / 4 * 100) = Fin 25" by simp
qed

lemma demo_extract: "minWindowExtract demo_provider 0 demo_plan = Inr (provider_round2 (Fin 25))"
proof -
  have w: "fsub (Fin 100) (Fin 40) = Fin 60" by simp
  show ?thesis
    using demo_quarter
    by (simp add: minWindowExtract_def demo_plan_def field_def Object_def windowOfType_def demo_provider_windows Str_def
        glmRemainingPercent_def jsonNum_def glmResetsWithin_def clampPercent_def math_min_def math_max_def minFloat_def Let_def)
qed

theorem min_window_lowest_witness:
  "fle (Fin 0) (provider_round2 (Fin 25)) \<and> fle (provider_round2 (Fin 25)) (Fin 100)"
proof -
  have "finite_numbers demo_plan" by (simp add: demo_plan_def)
  from min_window_lowest [OF this demo_extract] show ?thesis by blast
qed

section \<open>Exchanges\<close>

text \<open>A query makes at least one exchange and at most four, a method that is not idempotent
  exactly one; the first answer whose status is not worth a retry is returned as it is, as is
  whatever the fourth attempt is answered, as long as no wait is cut short.\<close>

theorem client_do_attempts:
  "1 \<le> snd (client_do meth cancelled ex) \<and> snd (client_do meth cancelled ex) \<le> MaxRetries + 1
   \<and> (meth \<notin> {''GET'', ''HEAD'', ''OPTIONS''} \<longrightarrow> snd (client_do meth cancelled ex) = 1)
   \<and> (\<forall>n st b. meth \<in> {''GET'', ''HEAD'', ''OPTIONS''} \<and> n \<le> MaxRetries \<and> (\<forall>j < n. goes_on (ex j))
       \<and> (\<forall>j \<in> {1..n}. cancelled j = None) \<and> ex n = Reply st b \<and> (\<not> retriableStatus st \<or> n = MaxRetries)
       \<longrightarrow> client_do meth cancelled ex = (Inr (st, b), n + 1))"
proof (intro conjI allI impI)
  let ?i = "meth = ''GET'' \<or> meth = ''HEAD'' \<or> meth = ''OPTIONS''"
  show "snd (client_do meth cancelled ex) \<le> MaxRetries + 1"
    using do_from_count [of 0 ?i cancelled ex "MaxRetries + 1" "[]"] by (simp add: client_do_def)
  show "1 \<le> snd (client_do meth cancelled ex)"
    using do_from_step [of ?i cancelled ex MaxRetries 0 "[]"] do_from_count [of "0 + 1" ?i cancelled ex MaxRetries]
    by (auto simp: client_do_def simp del: do_from.simps)
  show "meth \<notin> {''GET'', ''HEAD'', ''OPTIONS''} \<Longrightarrow> snd (client_do meth cancelled ex) = 1"
    using do_from_once [of ?i cancelled ex MaxRetries "[]"] by (simp add: client_do_def del: do_from.simps)
  fix n st b
  assume a: "meth \<in> {''GET'', ''HEAD'', ''OPTIONS''} \<and> n \<le> MaxRetries \<and> (\<forall>j < n. goes_on (ex j))
       \<and> (\<forall>j \<in> {1..n}. cancelled j = None) \<and> ex n = Reply st b \<and> (\<not> retriableStatus st \<or> n = MaxRetries)"
  then have i: "?i = True" by auto
  have "do_from True cancelled ex (MaxRetries + 1) 0 [] = (Inr (st, b), n + 1)"
    using a by (intro do_from_answer) auto
  then show "client_do meth cancelled ex = (Inr (st, b), n + 1)" unfolding client_do_def i .
qed

theorem client_do_attempts_witness:
  "client_do ''GET'' (\<lambda>_. None) (\<lambda>k. if k = 0 then Reply 503 (Inr []) else Reply 200 (Inr ''{}'')) = (Inr (200, Inr ''{}''), 2)"
proof -
  let ?ex = "\<lambda>k :: nat. if k = 0 then Reply 503 (Inr []) else Reply 200 (Inr ''{}'')"
  have "(1::nat) \<le> MaxRetries \<and> (\<forall>j < 1. goes_on (?ex j)) \<and> (\<forall>j \<in> {1..1::nat}. (None :: goerror option) = None)
      \<and> ?ex 1 = Reply 200 (Inr ''{}'') \<and> (\<not> retriableStatus 200 \<or> 1 = MaxRetries)"
    by (auto simp: MaxRetries_def goes_on_def retriableStatus_def)
  then have "client_do ''GET'' (\<lambda>_. None) ?ex = (Inr (200, Inr ''{}''), 1 + 1)"
    using client_do_attempts [of "''GET''" "\<lambda>_. None" ?ex, THEN conjunct2, THEN conjunct2, THEN conjunct2, rule_format, of 1 200 "Inr ''{}''"]
    by auto
  then show ?thesis by simp
qed

section \<open>Where the key goes\<close>

text \<open>Unless a page-defined platform asks for the key in the query or is signed the Aliyun way,
  the address of a request does not depend on the key.\<close>

theorem url_hides_key:
  assumes "SpecFromCustomProvider p = Inr s" "cp_auth_mode p \<noteq> CustomAuthQuery" "cp_auth_mode p \<noteq> CustomAuthAliyunRPC"
    and "signed_request s k now nonce = Inr (hs, ps)" "signed_request s k' now' nonce' = Inr (hs', ps')"
  shows "request_url (sp_url s) ps = request_url (sp_url s) ps'"
proof -
  have s: "sp_auth s = spec_auth p" "sp_sign s = (if cp_auth_mode p = CustomAuthAliyunRPC then Some (aliyunRPCSigner p)
      else if cp_auth_mode p = CustomAuthVolcV4 then Some (volcV4Signer p) else None)"
    using assms(1) by (auto simp: SpecFromCustomProvider_def Let_def split: if_splits)
  have q: "sp_auth s \<noteq> AuthQuery" using s(1) assms(2) by (simp add: spec_auth_def Let_def)
  have wa: "snd (with_auth s key) = sp_params s" for key
    using q by (cases "sp_auth s") (auto simp: with_auth_def)
  have volc: "volcV4Signer p url key t x = Inr (a, b) \<Longrightarrow> b = parseKeyValue (cp_extra_params p)" for url key t x a b
    by (auto simp: volcV4Signer_def Let_def split: sum.splits)
  have "ps = (if cp_auth_mode p = CustomAuthVolcV4 then update_all (parseKeyValue (cp_extra_params p)) (sp_params s) else sp_params s)"
    if "signed_request s key t x = Inr (h, ps)" for key t x h ps
    using that wa [of key] assms(3) s(2) volc
    by (cases "with_auth s key") (auto simp: signed_request_def split: option.splits sum.splits if_splits)
  from this [OF assms(4)] this [OF assms(5)] show ?thesis by simp
qed

definition demo_acme :: "gostring \<Rightarrow> custom_provider" where
  "demo_acme md = (default_custom ''acme'' [] ''https://api.acme.test/q'' md TypeBalance [] ''balance'')
     \<lparr>cp_auth_param := ''X-Key''\<rparr>"

lemma demo_acme_valid: "ValidateCustomProvider (demo_acme ''header'') = []"
  by code_simp

theorem url_hides_key_witness:
  "\<exists>s hs hs'. SpecFromCustomProvider (demo_acme ''header'') = Inr s
     \<and> signed_request s ''secret-1'' 0 [] = Inr (hs, []) \<and> signed_request s ''secret-2'' 0 [] = Inr (hs', []) \<and> hs \<noteq> hs'
     \<and> request_url (sp_url s) ([] :: params) = request_url (sp_url s) []"
proof -
  obtain s where s: "SpecFromCustomProvider (demo_acme ''header'') = Inr s"
    using demo_acme_valid by (simp add: SpecFromCustomProvider_def Let_def)
  have m: "cp_auth_mode (demo_acme ''header'') = ''header''" "cp_extra_params (demo_acme ''header'') = []"
    "trim_space (cp_auth_param (demo_acme ''header'')) = ''X-Key''"
    unfolding demo_acme_def default_custom_def by code_simp+
  have kv: "parseKeyValue [] = []" by code_simp
  have f: "sp_auth s = AuthHeader" "sp_sign s = None" "sp_headers s = []" "sp_params s = []" "sp_auth_param s = ''X-Key''"
    using s m kv by (auto simp: SpecFromCustomProvider_def Let_def spec_auth_def auth_defs split: if_splits)
  have r: "signed_request s k 0 [] = Inr ([(''X-Key'', k)], [])" for k
    by (simp add: signed_request_def with_auth_def f)
  have "request_url (sp_url s) ([] :: params) = request_url (sp_url s) []"
    by (rule url_hides_key [OF s _ _ r r]) (simp_all add: m auth_defs)
  then show ?thesis using s r by auto
qed

section \<open>The registry\<close>

lemma find_append: "find P (xs @ ys) = (case find P xs of None \<Rightarrow> find P ys | Some x \<Rightarrow> Some x)"
  by (induction xs) auto

lemma replace_dynamic_lookup:
  "replace_dynamic g specs m = Inr m' \<Longrightarrow>
   map_of m' k = (case find (\<lambda>s. sp_key s = k) (rev specs) of Some s \<Rightarrow> Some s | None \<Rightarrow> map_of m k)"
  by (induction g specs m rule: replace_dynamic.induct)
    (auto simp: update_conv' find_append split: if_splits option.splits)

lemma replace_dynamic_error:
  "(\<exists>e. replace_dynamic g specs m = Inl e) \<longleftrightarrow> (\<exists>s \<in> set specs. rg_builtin g (sp_key s) \<noteq> None)"
  by (induction g specs m rule: replace_dynamic.induct) auto

text \<open>Replacing the page-defined platforms is all or nothing: a key of a platform registered
  in code leaves the registry as it was, and otherwise each key names the last spec given for it
  and no other platform is left.\<close>

theorem ReplaceDynamic_swaps:
  "(fst (ReplaceDynamic g specs) \<noteq> None \<longleftrightarrow> (\<exists>s \<in> set specs. rg_builtin g (sp_key s) \<noteq> None))
   \<and> (fst (ReplaceDynamic g specs) \<noteq> None \<longrightarrow> snd (ReplaceDynamic g specs) = g)
   \<and> (fst (ReplaceDynamic g specs) = None \<longrightarrow>
        (\<forall>k. lookupSpec (snd (ReplaceDynamic g specs)) k = find (\<lambda>s. sp_key s = k) (rev specs)))"
proof (cases "replace_dynamic g specs []")
  case (Inl e)
  then show ?thesis using replace_dynamic_error [of g specs "[]"] by (auto simp: ReplaceDynamic_def)
next
  case (Inr m)
  then have "\<not> (\<exists>s \<in> set specs. rg_builtin g (sp_key s) \<noteq> None)" using replace_dynamic_error [of g specs "[]"] by auto
  then show ?thesis using replace_dynamic_lookup [OF Inr]
    by (auto simp: ReplaceDynamic_def Inr lookupSpec_def split: option.splits)
qed

text \<open>A platform has an adapter exactly when it is listed with its metadata, and a bare name
  works like its name under \<open>custom:\<close> where only that one is defined.\<close>

theorem New_iff_Lookup:
  "((\<exists>a. New_provider g key = Inr a) \<longleftrightarrow> Lookup_provider g key \<noteq> None)
   \<and> (rg_builtin g key = None \<and> rg_builtin g (''custom:'' @ key) = None \<and> IsDynamic g (''custom:'' @ key)
      \<and> \<not> IsDynamic g (''custom:custom:'' @ key)
      \<longrightarrow> New_provider g key = New_provider g (''custom:'' @ key) \<and> DisplayName g key = DisplayName g (''custom:'' @ key))"
  by (auto simp: New_provider_def Lookup_provider_def DisplayName_def canonicalKey_def IsDynamic_def split: option.splits)

section \<open>The default platforms\<close>

lemma defaults_valid: "list_all (\<lambda>p. ValidateCustomProvider p = []) DefaultCustomProviders"
  by code_simp

lemma ok_specs_all: "list_all (\<lambda>p. ValidateCustomProvider p = []) cs \<Longrightarrow>
   map Inr (ok_specs cs) = map SpecFromCustomProvider cs"
  by (induction cs) (auto simp: SpecFromCustomProvider_def Let_def)

lemma spec_key: "SpecFromCustomProvider p = Inr s \<Longrightarrow> sp_key s = ''custom:'' @ to_lower (trim_space (cp_name p))"
  by (auto simp: SpecFromCustomProvider_def Let_def custom_provider_key_def split: if_splits)

lemma default_names:
  "map (\<lambda>p. to_lower (trim_space (cp_name p))) DefaultCustomProviders = map cp_name DefaultCustomProviders"
  "distinct (map cp_name DefaultCustomProviders)"
  by code_simp+

lemma default_specs: "map Inr defaultSpecs = map SpecFromCustomProvider DefaultCustomProviders"
  unfolding defaultSpecs_def by (rule ok_specs_all [OF defaults_valid])

lemma default_keys: "map sp_key defaultSpecs = map (\<lambda>p. ''custom:'' @ cp_name p) DefaultCustomProviders"
proof (rule nth_equalityI)
  have l: "length defaultSpecs = length DefaultCustomProviders" using default_specs by (metis length_map)
  then show "length (map sp_key defaultSpecs) = length (map (\<lambda>p. ''custom:'' @ cp_name p) DefaultCustomProviders)" by simp
  fix i assume "i < length (map sp_key defaultSpecs)"
  then have i: "i < length DefaultCustomProviders" "i < length defaultSpecs" using l by simp_all
  have "SpecFromCustomProvider (DefaultCustomProviders ! i) = Inr (defaultSpecs ! i)"
    using arg_cong [OF default_specs, of "\<lambda>xs. xs ! i"] i by simp
  then have "sp_key (defaultSpecs ! i) = ''custom:'' @ to_lower (trim_space (cp_name (DefaultCustomProviders ! i)))"
    by (rule spec_key)
  also have "to_lower (trim_space (cp_name (DefaultCustomProviders ! i))) = cp_name (DefaultCustomProviders ! i)"
    using arg_cong [OF default_names(1), of "\<lambda>xs. xs ! i"] i by simp
  finally show "map sp_key defaultSpecs ! i = map (\<lambda>p. ''custom:'' @ cp_name p) DefaultCustomProviders ! i"
    using i by simp
qed

lemma find_distinct: "distinct (map f xs) \<Longrightarrow> x \<in> set xs \<Longrightarrow> find (\<lambda>y. f y = f x) xs = Some x"
  by (induction xs) auto

text \<open>In a process without platforms registered in code, the eight default definitions all
  pass validation and each is what its bare name stands for.\<close>

theorem default_catalog:
  assumes "\<forall>k. rg_builtin g k = None" "p \<in> set DefaultCustomProviders"
  shows "fst (ReplaceDynamic g defaultSpecs) = None
    \<and> (\<exists>s. SpecFromCustomProvider p = Inr s \<and> New_provider (snd (ReplaceDynamic g defaultSpecs)) (cp_name p) = Inr (SpecAdapter s))"
proof -
  let ?g = "snd (ReplaceDynamic g defaultSpecs)"
  have none: "\<not> (\<exists>s \<in> set defaultSpecs. rg_builtin g (sp_key s) \<noteq> None)" using assms(1) by simp
  then obtain m where m: "replace_dynamic g defaultSpecs [] = Inr m"
    using replace_dynamic_error [of g defaultSpecs "[]"] by (cases "replace_dynamic g defaultSpecs []") auto
  then have r: "ReplaceDynamic g defaultSpecs = (None, g\<lparr>rg_dynamic := m\<rparr>)" by (simp add: ReplaceDynamic_def)
  obtain i where i: "i < length DefaultCustomProviders" "p = DefaultCustomProviders ! i"
    using assms(2) by (auto simp: in_set_conv_nth)
  have l: "length defaultSpecs = length DefaultCustomProviders" using default_specs by (metis length_map)
  let ?s = "defaultSpecs ! i"
  have sp: "SpecFromCustomProvider p = Inr ?s"
    using arg_cong [OF default_specs, of "\<lambda>xs. xs ! i"] i l by simp
  have k: "sp_key ?s = ''custom:'' @ cp_name p"
    using arg_cong [OF default_keys, of "\<lambda>xs. xs ! i"] i l by simp
  have "distinct (map (\<lambda>p. ''custom:'' @ cp_name p) DefaultCustomProviders)"
    using default_names(2) by (simp add: distinct_map inj_on_def)
  then have "distinct (map sp_key (rev defaultSpecs))" unfolding rev_map [symmetric] default_keys by simp
  then have "find (\<lambda>y. sp_key y = sp_key ?s) (rev defaultSpecs) = Some ?s" using i l by (intro find_distinct) auto
  then have "map_of m (''custom:'' @ cp_name p) = Some ?s" using replace_dynamic_lookup [OF m, of "''custom:'' @ cp_name p"] k by simp
  then have "New_provider ?g (cp_name p) = Inr (SpecAdapter ?s)"
    using assms(1) by (simp add: New_provider_def canonicalKey_def IsDynamic_def lookupSpec_def r)
  then show ?thesis using sp r by simp
qed

theorem default_catalog_witness:
  "\<exists>s. New_provider (snd (ReplaceDynamic \<lparr>rg_builtin = (\<lambda>_. None), rg_builtin_keys = [], rg_dynamic = []\<rparr> defaultSpecs)) ''deepseek''
     = Inr (SpecAdapter s)"
proof -
  have p: "hd DefaultCustomProviders \<in> set DefaultCustomProviders" "cp_name (hd DefaultCustomProviders) = ''deepseek''"
    by (simp_all add: DefaultCustomProviders_def default_custom_def)
  show ?thesis
    using default_catalog [OF _ p(1), of "\<lparr>rg_builtin = (\<lambda>_. None), rg_builtin_keys = [], rg_dynamic = []\<rparr>"] p(2) by auto
qed

section \<open>Paths\<close>

text \<open>A dotted path of plain field names reads the nested fields one by one.\<close>

theorem plain_path_is_Dig:
  "ts \<noteq> [] \<Longrightarrow> \<forall>t \<in> set ts. plain_token t \<Longrightarrow> DigPath v (join ''.'' ts) = Dig v ts"
  by (rule DigPath_join)

theorem plain_path_is_Dig_witness:
  "DigPath (JObj [(''data'', JObj [(''balance'', JNum (Fin 7))])]) ''data.balance'' = JNum (Fin 7)"
proof -
  have "plain_token ''data''" "plain_token ''balance''" by code_simp+
  then have "DigPath (JObj [(''data'', JObj [(''balance'', JNum (Fin 7))])]) (join ''.'' [''data'', ''balance''])
      = Dig (JObj [(''data'', JObj [(''balance'', JNum (Fin 7))])]) [''data'', ''balance'']"
    by (intro plain_path_is_Dig) auto
  then show ?thesis by (simp add: field_def)
qed

lemma nan_text: "parse_float (replace_all '','' [] (trim_space ''NaN'')) = Some NaN"
  by code_simp

lemma round2_nan: "provider_round2 NaN = NaN"
  by code_simp

text \<open>A platform that answers with the text \<open>NaN\<close> for its balance is a successful query with
  that number, which is below no threshold.\<close>

theorem nan_balance_accepted:
  assumes "DigFirst data (trim_space (cp_balance_path p)) = JStr ''NaN''" "trim_space (cp_subtract_path p) = []"
  shows "pathExtract p scale data = Inr NaN \<and> \<not> flt NaN threshold"
proof -
  have "fmul NaN scale = NaN" by (cases scale) (simp_all add: fmul_def)
  moreover have "numLoose (JStr ''NaN'') = Some NaN" by (simp add: numLoose_def Num_def nan_text)
  ultimately show ?thesis using assms by (simp add: pathExtract_def Let_def round2_nan flt_def fle_def)
qed

theorem nan_balance_accepted_witness:
  "pathExtract (demo_acme ''header'') (Fin 1) (JObj [(''balance'', JStr ''NaN'')]) = Inr NaN"
proof -
  have "DigFirst (JObj [(''balance'', JStr ''NaN'')]) (trim_space (cp_balance_path (demo_acme ''header''))) = JStr ''NaN''"
    "trim_space (cp_subtract_path (demo_acme ''header'')) = []"
    by code_simp+
  from nan_balance_accepted [OF this] show ?thesis by blast
qed

end
