(* ===== verification/Monitor.thy ===== *)
theory Monitor
  imports SubscriptionCheck Runway Cost Settings Redact Provider
begin

text \<open>
  The balance monitor (\<open>internal/monitor/monitor.go\<close>): which projects a round covers, the check
  of one project with its response cache, the alert about a low balance or a failed check and its
  cooldown, and the analysis after the round.  The upstream platforms are the adapters of theory
  \<open>Provider\<close>, met with one set of inputs per query.  A round checks its projects concurrently; each
  check is one step here and the order of the steps is an argument.  Log lines are left out.
\<close>

section \<open>State and inputs\<close>

text \<open>Platforms: the registry, what the \<open>n\<close>-th query meets, and the platforms registered in code
  (none in this program) as a function.\<close>

record platforms =
  pf_registry :: registry
  pf_inputs :: "nat \<Rightarrow> inputs"
  pf_code :: "nat \<Rightarrow> gostring \<Rightarrow> gostring \<Rightarrow> goerror + f64"

record 's balance_ops =
  bo_SaveBalance :: "int \<Rightarrow> balance_record \<Rightarrow> 's \<Rightarrow> goerror option \<times> 's"

record cache_entry =
  ce_at :: int
  ce_credits :: f64

type_synonym cache = "gostring \<Rightarrow> cache_entry option"

record 's mworld =
  mw_world :: "'s world"
  mw_cache :: cache
  mw_queries :: nat

record monitor =
  mn_settings :: settings
  mn_notifier :: bool
  mn_push :: bool
  mn_on_notify :: bool
  mn_alerter :: "alerter option"
  mn_budget :: "budget_alerter option"
  mn_store_enabled :: bool

definition save_balance :: "'s balance_ops \<Rightarrow> Effects.env \<Rightarrow> balance_record \<Rightarrow> 's world \<Rightarrow> goerror option \<times> 's world" where
  "save_balance bo e rec w = (let (t, w1) = read_clock e w; (err, s) = bo_SaveBalance bo t rec (wd_store w1)
     in (err, w1\<lparr>wd_store := s\<rparr>))"

section \<open>Choosing projects\<close>

datatype run_error = ErrProjectNotFound gostring | ErrProjectDisabled gostring

definition selectProjects :: "config \<Rightarrow> gostring \<Rightarrow> run_error + project list" where
  "selectProjects cfg name =
     (if name = [] then Inr (enabled_projects cfg)
      else case find (\<lambda>p. pj_name p = name) (cf_projects cfg) of
          None \<Rightarrow> Inl (ErrProjectNotFound name)
        | Some p \<Rightarrow> if \<not> pj_enabled p then Inl (ErrProjectDisabled name) else Inr [p])"

section \<open>Alerts\<close>

record project_alert =
  pa_type :: gostring
  pa_push_title :: gostring
  pa_push_body :: gostring
  pa_history :: gostring
  pa_message :: message
  pa_value :: "f64 option"

definition low_balance :: gostring where "low_balance = ''low_balance''"
definition check_failed :: gostring where "check_failed = ''check_failed''"

definition mon_cooldown :: "monitor \<Rightarrow> duration" where
  "mon_cooldown m = wrap64 (CooldownSeconds ''balance'' (mn_settings m) * second)"

definition recordAlert :: "'s store_ops \<Rightarrow> Effects.env \<Rightarrow> gostring \<Rightarrow> project \<Rightarrow> project_alert \<Rightarrow> gostring \<Rightarrow> gostring
    \<Rightarrow> 's world \<Rightarrow> 's world" where
  "recordAlert so e pid p alert status err_text w =
     (let msg = (if status = ''failed'' \<and> err_text \<noteq> [] then pa_history alert @ send_failed_mark @ err_text
          else pa_history alert)
      in snd (save_alert so e \<lparr>ar_id = pid, ar_name = pj_name p, ar_type = pa_type alert, ar_message = msg,
           ar_value = pa_value alert, ar_threshold = Some (pj_threshold p), ar_status = status\<rparr> w))"

definition send_alert :: "'s store_ops \<Rightarrow> Effects.env \<Rightarrow> monitor \<Rightarrow> project \<Rightarrow> gostring \<Rightarrow> project_alert \<Rightarrow> 's world \<Rightarrow> bool \<times> 's world" where
  "send_alert so e m p pid alert w =
     (let w1 = (if mn_push m then push (pa_push_title alert) (pa_push_body alert) w else w) in
      if \<not> mn_notifier m then (False, w1)
      else (let (err, w2) = Effects.deliver e None (pa_message alert) w1;
                w3 = (if mn_on_notify m then on_notify (mg_kind (pa_message alert)) (err = None) w2 else w2)
            in case err of
                 Some x \<Rightarrow> (False, recordAlert so e pid p alert ''failed'' x w3)
               | None \<Rightarrow> (True, recordAlert so e pid p alert ''sent'' [] w3)))"

definition mon_deliver :: "'s store_ops \<Rightarrow> Effects.env \<Rightarrow> monitor \<Rightarrow> project \<Rightarrow> gostring \<Rightarrow> project_alert \<Rightarrow> 's world \<Rightarrow> bool \<times> 's world" where
  "mon_deliver so e m p pid alert w =
     (let ((last, _), w1) = last_sent_alert so e pid (pa_type alert) (mon_cooldown m) w
      in case last of
           None \<Rightarrow> send_alert so e m p pid alert w1
         | Some t \<Rightarrow> (let (now, w2) = read_clock e w1 in
             if now < t + mon_cooldown m then (False, w2) else send_alert so e m p pid alert w2))"

definition balance_alert :: "registry \<Rightarrow> project \<Rightarrow> f64 \<Rightarrow> project_alert" where
  "balance_alert g p credits =
     \<lparr>pa_type = low_balance, pa_push_title = ''Low balance: '' @ pj_name p,
      pa_push_body = ''Balance '' @ format_g credits @ '' dropped below threshold '' @ format_g (pj_threshold p),
      pa_history = ''Low balance: '' @ format_g credits @ '' < '' @ format_g (pj_threshold p),
      pa_message = BalanceAlert (pj_name p) (pj_owner p) (DisplayName g (pj_provider p)) credits (pj_threshold p),
      pa_value = Some credits\<rparr>"

definition sendBalanceAlert :: "'s store_ops \<Rightarrow> Effects.env \<Rightarrow> registry \<Rightarrow> monitor \<Rightarrow> project \<Rightarrow> gostring \<Rightarrow> f64 \<Rightarrow> 's world \<Rightarrow> bool \<times> 's world" where
  "sendBalanceAlert so e g m p pid credits w = mon_deliver so e m p pid (balance_alert g p credits) w"

definition failed_alert :: "registry \<Rightarrow> project \<Rightarrow> gostring \<Rightarrow> project_alert" where
  "failed_alert g p msg =
     \<lparr>pa_type = check_failed, pa_push_title = ''Balance check failed: '' @ pj_name p, pa_push_body = msg,
      pa_history = ''Balance check failed: '' @ msg,
      pa_message = CheckFailedAlert (pj_name p) (pj_owner p) (DisplayName g (pj_provider p)) msg, pa_value = None\<rparr>"

section \<open>One project\<close>

definition empty_result :: "project \<Rightarrow> gostring \<Rightarrow> check_result" where
  "empty_result p checked_at =
     \<lparr>cr_project = pj_name p, cr_owner = pj_owner p, cr_provider = pj_provider p, cr_type = pj_type p,
      cr_success = False, cr_credits = None, cr_threshold = None, cr_need_alarm = False, cr_alarm_sent = False,
      cr_error = None, cr_cached = False, cr_runway = None, cr_checked_at = Some checked_at, cr_latency_ms = None\<rparr>"

definition failure :: "'s store_ops \<Rightarrow> Effects.env \<Rightarrow> registry \<Rightarrow> monitor \<Rightarrow> project \<Rightarrow> goerror \<Rightarrow> bool \<Rightarrow> gostring
    \<Rightarrow> int option \<Rightarrow> 's world \<Rightarrow> check_result \<times> 's world" where
  "failure so e g m p err dry_run checked_at latency w =
     (let msg = redactSecrets err [pj_api_key p];
          res = (empty_result p checked_at)\<lparr>cr_error := Some msg, cr_latency_ms := latency\<rparr>
      in if dry_run then (res, w)
         else let (sent, w1) = mon_deliver so e m p (project_ID p) (failed_alert g p msg) w
           in (res\<lparr>cr_alarm_sent := sent\<rparr>, w1))"

definition cacheKeyFor :: "gostring \<Rightarrow> gostring \<Rightarrow> gostring" where
  "cacheKeyFor provider key = provider @ '':'' @ hex_encode (sha256 key)"

text \<open>The clock is read only when there is an entry to judge.\<close>

definition cache_get :: "Effects.env \<Rightarrow> gostring \<Rightarrow> duration \<Rightarrow> 's mworld \<Rightarrow> f64 option \<times> 's mworld" where
  "cache_get e key ttl mw =
     (if ttl \<le> 0 then (None, mw)
      else case mw_cache mw key of
          None \<Rightarrow> (None, mw)
        | Some entry \<Rightarrow>
            (let (now, w1) = read_clock e (mw_world mw); mw1 = mw\<lparr>mw_world := w1\<rparr>
             in if ttl \<le> ns_sub now (ce_at entry) then (None, mw1\<lparr>mw_cache := (mw_cache mw)(key := None)\<rparr>)
                else (Some (ce_credits entry), mw1)))"

definition cache_set :: "Effects.env \<Rightarrow> gostring \<Rightarrow> f64 \<Rightarrow> 's mworld \<Rightarrow> 's mworld" where
  "cache_set e key credits mw =
     (let (now, w1) = read_clock e (mw_world mw)
      in mw\<lparr>mw_world := w1, mw_cache := (mw_cache mw)(key \<mapsto> \<lparr>ce_at = now, ce_credits = credits\<rparr>)\<rparr>)"

definition milliseconds :: "duration \<Rightarrow> int" where
  "milliseconds d = (if d < 0 then - ((- d) div 1000000) else d div 1000000)"

definition query :: "platforms \<Rightarrow> adapter \<Rightarrow> gostring \<Rightarrow> 's mworld \<Rightarrow> (goerror + f64) \<times> 's mworld" where
  "query pf a key mw =
     (let n = mw_queries mw
      in (case a of SpecAdapter s \<Rightarrow> Fetch (pf_inputs pf n) s key | CodeAdapter k \<Rightarrow> pf_code pf n k key,
          mw\<lparr>mw_queries := n + 1\<rparr>))"

text \<open>The balance from the cache or from the platform: the outcome, whether it was cached and the
  milliseconds a query took.\<close>

definition fetch_balance :: "Effects.env \<Rightarrow> platforms \<Rightarrow> adapter \<Rightarrow> gostring \<Rightarrow> gostring \<Rightarrow> duration \<Rightarrow> 's mworld
    \<Rightarrow> ((goerror + f64) \<times> bool \<times> int option) \<times> 's mworld" where
  "fetch_balance e pf a cache_key key ttl mw =
     (let (hit, mw1) = cache_get e cache_key ttl mw in
      case hit of
        Some credits \<Rightarrow> ((Inr credits, True, None), mw1)
      | None \<Rightarrow>
          (let (t0, w2) = read_clock e (mw_world mw1);
               (r, mw3) = query pf a key (mw1\<lparr>mw_world := w2\<rparr>);
               (t1, w4) = read_clock e (mw_world mw3);
               mw4 = mw3\<lparr>mw_world := w4\<rparr>;
               latency = Some (milliseconds (ns_sub t1 t0))
           in case r of
                Inl err \<Rightarrow> ((Inl err, False, latency), mw4)
              | Inr credits \<Rightarrow> ((Inr credits, False, latency), if 0 < ttl then cache_set e cache_key credits mw4 else mw4)))"

definition balance_record_of :: "project \<Rightarrow> f64 \<Rightarrow> balance_record" where
  "balance_record_of p credits =
     \<lparr>bc_project_id = project_ID p, bc_project_name = pj_name p, bc_provider = pj_provider p, bc_balance = credits,
      bc_threshold = Some (pj_threshold p), bc_balance_type = pj_type p, bc_need_alarm = flt credits (pj_threshold p)\<rparr>"

definition cache_ttl :: "monitor \<Rightarrow> duration" where
  "cache_ttl m = wrap64 (st_cache_ttl (mn_settings m) * second)"

definition CheckProject :: "'s store_ops \<Rightarrow> 's balance_ops \<Rightarrow> Effects.env \<Rightarrow> platforms \<Rightarrow> monitor \<Rightarrow> project \<Rightarrow> bool \<Rightarrow> 's mworld
    \<Rightarrow> check_result \<times> 's mworld" where
  "CheckProject so bo e pf m p dry_run mw =
     (let (t, w1) = read_clock e (mw_world mw); mw1 = mw\<lparr>mw_world := w1\<rparr>;
          checked_at = fmt_utc_rfc3339 t; g = pf_registry pf
      in case New_provider g (pj_provider p) of
           Inl err \<Rightarrow> (let (r, w2) = failure so e g m p err dry_run checked_at None (mw_world mw1) in (r, mw1\<lparr>mw_world := w2\<rparr>))
         | Inr a \<Rightarrow>
             (let ((outcome, cached, latency), mw2) =
                    fetch_balance e pf a (cacheKeyFor (pj_provider p) (pj_api_key p)) (pj_api_key p) (cache_ttl m) mw1
              in case outcome of
                   Inl err \<Rightarrow> (let (r, w3) = failure so e g m p err dry_run checked_at latency (mw_world mw2) in (r, mw2\<lparr>mw_world := w3\<rparr>))
                 | Inr credits \<Rightarrow>
                     (let need = flt credits (pj_threshold p);
                          res = (empty_result p checked_at)\<lparr>cr_success := True, cr_credits := Some credits,
                            cr_threshold := Some (pj_threshold p), cr_need_alarm := need, cr_cached := cached,
                            cr_latency_ms := latency\<rparr>;
                          (_, w3) = save_balance bo e (balance_record_of p credits) (mw_world mw2);
                          mw3 = mw2\<lparr>mw_world := w3\<rparr>
                      in if \<not> need \<or> dry_run then (res, mw3)
                         else (let (sent, w4) = sendBalanceAlert so e g m p (project_ID p) credits w3
                           in (res\<lparr>cr_alarm_sent := sent\<rparr>, mw3\<lparr>mw_world := w4\<rparr>)))))"

section \<open>A round\<close>

definition blank_result :: check_result where
  "blank_result = \<lparr>cr_project = [], cr_owner = None, cr_provider = [], cr_type = [], cr_success = False,
     cr_credits = None, cr_threshold = None, cr_need_alarm = False, cr_alarm_sent = False, cr_error = None,
     cr_cached = False, cr_runway = None, cr_checked_at = None, cr_latency_ms = None\<rparr>"

text \<open>The workers take the indexes in some order and write each result to its place.\<close>

fun check_in_order :: "'s store_ops \<Rightarrow> 's balance_ops \<Rightarrow> Effects.env \<Rightarrow> platforms \<Rightarrow> monitor \<Rightarrow> project list \<Rightarrow> bool \<Rightarrow> nat list
    \<Rightarrow> check_result list \<Rightarrow> 's mworld \<Rightarrow> check_result list \<times> 's mworld" where
  "check_in_order so bo e pf m projects dry_run [] results mw = (results, mw)"
| "check_in_order so bo e pf m projects dry_run (i # order) results mw =
     (let (r, mw1) = CheckProject so bo e pf m (projects ! i) dry_run mw
      in check_in_order so bo e pf m projects dry_run order (results[i := r]) mw1)"

definition checkAll :: "'s store_ops \<Rightarrow> 's balance_ops \<Rightarrow> Effects.env \<Rightarrow> platforms \<Rightarrow> monitor \<Rightarrow> project list \<Rightarrow> bool \<Rightarrow> nat list
    \<Rightarrow> 's mworld \<Rightarrow> check_result list \<times> 's mworld" where
  "checkAll so bo e pf m projects dry_run order mw =
     check_in_order so bo e pf m projects dry_run order (replicate (length projects) blank_result) mw"

definition currencyOfProject :: "registry \<Rightarrow> project \<Rightarrow> gostring" where
  "currencyOfProject g p =
     (if pj_type p = TypeQuota then []
      else if pj_currency p \<noteq> [] then pj_currency p
      else case Lookup_provider g (pj_provider p) of Some i \<Rightarrow> in_currency i | None \<Rightarrow> [])"

definition checkBudgets :: "'s store_ops \<Rightarrow> 's history_ops \<Rightarrow> Effects.env \<Rightarrow> registry \<Rightarrow> monitor \<Rightarrow> project list \<Rightarrow> bool \<Rightarrow> 's world \<Rightarrow> 's world" where
  "checkBudgets so ho e g m projects dry_run w =
     (case mn_budget m of
        None \<Rightarrow> w
      | Some a \<Rightarrow> if \<not> mn_store_enabled m then w
          else snd (CheckUsage so ho e a projects (currencyOfProject g) dry_run
                 (snd (budget_check so ho e a projects (currencyOfProject g) dry_run w))))"

record outcome =
  oc_results :: "check_result list"
  oc_runways :: "gostring \<Rightarrow> runway option"
  oc_sent :: sent_counts

definition no_counts :: sent_counts where "no_counts = \<lparr>sn_runway = 0, sn_spike = 0\<rparr>"

text \<open>\<open>None\<close> when filling in the days of a profile would not end.\<close>

definition analyze :: "'s store_ops \<Rightarrow> 's history_ops \<Rightarrow> Effects.env \<Rightarrow> registry \<Rightarrow> monitor \<Rightarrow> project list \<Rightarrow> check_result list \<Rightarrow> bool
    \<Rightarrow> 's world \<Rightarrow> (outcome \<times> 's world) option" where
  "analyze so ho e g m projects results dry_run w =
     (let w1 = checkBudgets so ho e g m projects dry_run w;
          days = st_burn_window (mn_settings m);
          ((series, err), w2) = balance_series ho e days w1;
          quiet = \<lparr>oc_results = results, oc_runways = (\<lambda>_. None), oc_sent = no_counts\<rparr>
      in if err \<noteq> None then Some (quiet, w2)
         else let (t, w3) = read_clock e w2; now = \<lparr>t_ns = t, t_zone = en_local e\<rparr> in
           case ComputeAll (en_local e) now series days now of
             None \<Rightarrow> None
           | Some runways \<Rightarrow>
               if \<forall>p \<in> set series. runways (bp_project_id p) = None then Some (quiet, w3)
               else let results' = Attach results runways in
                 case mn_alerter m of
                   None \<Rightarrow> Some (\<lparr>oc_results = results', oc_runways = runways, oc_sent = no_counts\<rparr>, w3)
                 | Some a \<Rightarrow> (let (sent, w4) = trend_check so e a results' dry_run w3
                     in Some (\<lparr>oc_results = results', oc_runways = runways, oc_sent = sent\<rparr>, w4)))"

definition Run :: "'s store_ops \<Rightarrow> 's balance_ops \<Rightarrow> 's history_ops \<Rightarrow> Effects.env \<Rightarrow> platforms \<Rightarrow> monitor \<Rightarrow> config \<Rightarrow> gostring \<Rightarrow> bool
    \<Rightarrow> nat list \<Rightarrow> 's mworld \<Rightarrow> ((run_error + outcome) \<times> 's mworld) option" where
  "Run so bo ho e pf m cfg name dry_run order mw =
     (case selectProjects cfg name of
        Inl err \<Rightarrow> Some (Inl err, mw)
      | Inr projects \<Rightarrow>
          if projects = [] then Some (Inr \<lparr>oc_results = [], oc_runways = (\<lambda>_. None), oc_sent = no_counts\<rparr>, mw)
          else let (results, mw1) = checkAll so bo e pf m projects dry_run order mw in
            map_option (\<lambda>(o_c, w). (Inr o_c, mw1\<lparr>mw_world := w\<rparr>))
              (analyze so ho e (pf_registry pf) m projects results dry_run (mw_world mw1)))"

section \<open>What a check does to the store\<close>

text \<open>Between two worlds the store takes alerts with the property \<open>P\<close> and balances, each at a
  reading of the clock in between.\<close>

inductive store_run :: "'s store_ops \<Rightarrow> 's balance_ops \<Rightarrow> Effects.env \<Rightarrow> (alert_record \<Rightarrow> bool) \<Rightarrow> 's world \<Rightarrow> 's world \<Rightarrow> bool"
  for so bo e P where
  still: "wd_store w' = wd_store w \<Longrightarrow> wd_reads w \<le> wd_reads w' \<Longrightarrow> store_run so bo e P w w'"
| alert: "store_run so bo e P w w1 \<Longrightarrow> wd_reads w1 \<le> k \<Longrightarrow> k < wd_reads w' \<Longrightarrow> P rec \<Longrightarrow>
    wd_store w' = snd (so_SaveAlert so (en_clock e k) rec (wd_store w1)) \<Longrightarrow> store_run so bo e P w w'"
| balance: "store_run so bo e P w w1 \<Longrightarrow> wd_reads w1 \<le> k \<Longrightarrow> k < wd_reads w' \<Longrightarrow>
    wd_store w' = snd (bo_SaveBalance bo (en_clock e k) b (wd_store w1)) \<Longrightarrow> store_run so bo e P w w'"

lemma store_run_refl [simp]: "store_run so bo e P w w"
  by (rule store_run.still) simp_all

lemma store_run_reads: "store_run so bo e P w w' \<Longrightarrow> wd_reads w \<le> wd_reads w'"
  by (induction rule: store_run.induct) auto

lemma store_run_shift:
  "store_run so bo e P w w' \<Longrightarrow> wd_store w'' = wd_store w' \<Longrightarrow> wd_reads w' \<le> wd_reads w'' \<Longrightarrow> store_run so bo e P w w''"
proof (induction arbitrary: w'' rule: store_run.induct)
  case (still w' w)
  then show ?case by (intro store_run.still) auto
next
  case (alert w w1 k w' rec)
  then show ?case by (intro store_run.alert [of so bo e P w w1 k w'' rec]) auto
next
  case (balance w w1 k w' b)
  then show ?case by (intro store_run.balance [of so bo e P w w1 k w'' b]) auto
qed

lemma store_run_trans: "store_run so bo e P w' w'' \<Longrightarrow> store_run so bo e P w w' \<Longrightarrow> store_run so bo e P w w''"
proof (induction rule: store_run.induct)
  case (still w'' w')
  then show ?case using store_run_shift by blast
next
  case (alert w' w1 k w'' rec)
  then show ?case by (intro store_run.alert [of so bo e P w w1 k w'' rec]) auto
next
  case (balance w' w1 k w'' b)
  then show ?case by (intro store_run.balance [of so bo e P w w1 k w'' b]) auto
qed

lemma store_run_mono: "store_run so bo e P w w' \<Longrightarrow> (\<And>rec. P rec \<Longrightarrow> Q rec) \<Longrightarrow> store_run so bo e Q w w'"
proof (induction rule: store_run.induct)
  case (still w' w)
  then show ?case by (intro store_run.still)
next
  case (alert w w1 k w' rec)
  then show ?case by (intro store_run.alert [of so bo e Q w w1 k w' rec]) auto
next
  case (balance w w1 k w' b)
  then show ?case by (intro store_run.balance [of so bo e Q w w1 k w' b]) auto
qed

text \<open>An attempt to alert: nothing is saved, or one record for the alert, marked sent exactly when
  it was.\<close>

definition alert_step :: "'s store_ops \<Rightarrow> Effects.env \<Rightarrow> gostring \<Rightarrow> gostring \<Rightarrow> bool \<Rightarrow> 's world \<Rightarrow> 's world \<Rightarrow> bool" where
  "alert_step so e i ty sent w w' \<longleftrightarrow> wd_reads w \<le> wd_reads w' \<and>
     ((wd_store w' = wd_store w \<and> \<not> sent) \<or>
      (\<exists>k rec. wd_reads w \<le> k \<and> k < wd_reads w' \<and> wd_store w' = snd (so_SaveAlert so (en_clock e k) rec (wd_store w))
         \<and> ar_id rec = i \<and> ar_type rec = ty \<and> (sent \<longleftrightarrow> counts_as_sent (ar_status rec))))"

lemma alert_step_run:
  "alert_step so e i ty sent w w' \<Longrightarrow> (\<And>rec. ar_id rec = i \<Longrightarrow> ar_type rec = ty \<Longrightarrow> P rec) \<Longrightarrow> store_run so bo e P w w'"
proof -
  assume a: "alert_step so e i ty sent w w'" and P: "\<And>rec. ar_id rec = i \<Longrightarrow> ar_type rec = ty \<Longrightarrow> P rec"
  from a consider "wd_store w' = wd_store w" "wd_reads w \<le> wd_reads w'"
    | k rec where "wd_reads w \<le> k" "k < wd_reads w'" "wd_store w' = snd (so_SaveAlert so (en_clock e k) rec (wd_store w))"
      "ar_id rec = i" "ar_type rec = ty"
    unfolding alert_step_def by blast
  then show ?thesis
  proof cases
    case 1
    then show ?thesis by (rule store_run.still)
  next
    case 2
    then show ?thesis using P by (intro store_run.alert [of so bo e P w w k w' rec]) auto
  qed
qed

lemma recordAlert_sel:
  "wd_store (recordAlert so e i p al st er w) = snd (so_SaveAlert so (en_clock e (wd_reads w))
     \<lparr>ar_id = i, ar_name = pj_name p, ar_type = pa_type al,
      ar_message = (if st = ''failed'' \<and> er \<noteq> [] then pa_history al @ send_failed_mark @ er else pa_history al),
      ar_value = pa_value al, ar_threshold = Some (pj_threshold p), ar_status = st\<rparr> (wd_store w))"
  "wd_reads (recordAlert so e i p al st er w) = wd_reads w + 1"
  "wd_sent (recordAlert so e i p al st er w) = wd_sent w"
  by (simp_all add: recordAlert_def Let_def)

lemma recordAlert_step:
  assumes "wd_store v = wd_store w" "wd_reads v = wd_reads w"
  shows "alert_step so e i (pa_type al) (counts_as_sent st) w (recordAlert so e i p al st er v)"
  unfolding alert_step_def recordAlert_sel using assms
  by (intro conjI disjI2 exI [of _ "wd_reads w"] exI) (auto simp: recordAlert_sel)

lemma send_alert_step:
  assumes "send_alert so e m p i al w = (sent, w')"
  shows "alert_step so e i (pa_type al) sent w w' \<and> wd_reads w' \<le> wd_reads w + 1
    \<and> (sent \<longleftrightarrow> wd_sent w' = wd_sent w @ [(None, pa_message al, None)])"
proof (cases "mn_notifier m")
  case False
  define w1 where "w1 = (if mn_push m then push (pa_push_title al) (pa_push_body al) w else w)"
  have "\<not> sent" "w' = w1" using assms False by (auto simp: send_alert_def Let_def w1_def)
  then show ?thesis by (simp add: alert_step_def w1_def)
next
  case True
  define w1 where "w1 = (if mn_push m then push (pa_push_title al) (pa_push_body al) w else w)"
  define r where "r = en_send e (length (wd_sent w1))"
  define w2 where "w2 = snd (Effects.deliver e None (pa_message al) w1)"
  have dl: "Effects.deliver e None (pa_message al) w1 = (r, w2)" by (simp add: w2_def r_def deliver_def Let_def)
  define w3 where "w3 = (if mn_on_notify m then on_notify (mg_kind (pa_message al)) (r = None) w2 else w2)"
  have w3: "wd_store w3 = wd_store w" "wd_reads w3 = wd_reads w" "wd_sent w3 = wd_sent w @ [(None, pa_message al, r)]"
    by (simp_all add: w3_def w2_def w1_def r_def)
  have e: "send_alert so e m p i al w = (case r of Some x \<Rightarrow> (False, recordAlert so e i p al ''failed'' x w3)
      | None \<Rightarrow> (True, recordAlert so e i p al ''sent'' [] w3))"
  proof -
    have "send_alert so e m p i al w = (if \<not> mn_notifier m then (False, w1)
        else (let (err, v2) = Effects.deliver e None (pa_message al) w1;
                v3 = (if mn_on_notify m then on_notify (mg_kind (pa_message al)) (err = None) v2 else v2)
            in case err of
                 Some x \<Rightarrow> (False, recordAlert so e i p al ''failed'' x v3)
               | None \<Rightarrow> (True, recordAlert so e i p al ''sent'' [] v3)))"
      unfolding send_alert_def w1_def Let_def ..
    then show ?thesis unfolding dl Let_def case_prod_conv w3_def using True by simp
  qed
  show ?thesis
  proof (cases r)
    case None
    then have "sent" "w' = recordAlert so e i p al ''sent'' [] w3" using assms e by auto
    then show ?thesis using recordAlert_step [OF w3(1,2), of so e i al "''sent''" p "[]"] w3 None
      by (simp add: recordAlert_sel)
  next
    case (Some x)
    then have "\<not> sent" "w' = recordAlert so e i p al ''failed'' x w3" using assms e by auto
    then show ?thesis using recordAlert_step [OF w3(1,2), of so e i al "''failed''" p x] w3 Some
      by (simp add: recordAlert_sel)
  qed
qed

lemma alert_step_start:
  "alert_step so e i ty b v w' \<Longrightarrow> wd_store v = wd_store w \<Longrightarrow> wd_reads w \<le> wd_reads v \<Longrightarrow> alert_step so e i ty b w w'"
  unfolding alert_step_def by (auto intro: order_trans)

text \<open>A delivery reads the clock for the cooldown query; when the alert goes out, the query found
  nothing or something older than the cooldown.\<close>

lemma mon_deliver_step:
  assumes "mon_deliver so e m p i al w = (sent, w')"
  shows "alert_step so e i (pa_type al) sent w w' \<and> wd_reads w < wd_reads w'"
    and "sent \<Longrightarrow> case fst (so_LastSentAlert so (en_clock e (wd_reads w)) i (pa_type al) (mon_cooldown m) (wd_store w)) of
      None \<Rightarrow> True | Some t \<Rightarrow> t + mon_cooldown m \<le> en_clock e (wd_reads w + 1)"
proof -
  define q where "q = so_LastSentAlert so (en_clock e (wd_reads w)) i (pa_type al) (mon_cooldown m) (wd_store w)"
  define w1 where "w1 = snd (last_sent_alert so e i (pa_type al) (mon_cooldown m) w)"
  have ls: "last_sent_alert so e i (pa_type al) (mon_cooldown m) w = (q, w1)"
    by (simp add: q_def w1_def last_sent_alert_def read_clock_def)
  have w1: "wd_store w1 = wd_store w" "wd_reads w1 = wd_reads w + 1" by (simp_all add: w1_def)
  have e: "mon_deliver so e m p i al w = (case fst q of None \<Rightarrow> send_alert so e m p i al w1
      | Some t \<Rightarrow> if en_clock e (wd_reads w + 1) < t + mon_cooldown m then (False, snd (read_clock e w1))
          else send_alert so e m p i al (snd (read_clock e w1)))"
    by (cases q) (simp add: mon_deliver_def ls Let_def read_clock_def w1(2) split: option.splits)
  have send: "alert_step so e i (pa_type al) sent w w' \<and> wd_reads w < wd_reads w'"
    if "send_alert so e m p i al v = (sent, w')" "wd_store v = wd_store w" "wd_reads w < wd_reads v" for v
  proof -
    have st: "alert_step so e i (pa_type al) sent v w'" using send_alert_step [OF that(1)] by blast
    then have "wd_reads v \<le> wd_reads w'" by (simp add: alert_step_def)
    then show ?thesis using alert_step_start [OF st that(2)] that(3) by simp
  qed
  show "alert_step so e i (pa_type al) sent w w' \<and> wd_reads w < wd_reads w'"
  proof (cases "fst q")
    case None
    then show ?thesis using assms e send [of w1] w1 by simp
  next
    case (Some t)
    show ?thesis
    proof (cases "en_clock e (wd_reads w + 1) < t + mon_cooldown m")
      case True
      then have "\<not> sent" "w' = snd (read_clock e w1)" using assms e Some by auto
      then show ?thesis using w1 by (simp add: alert_step_def)
    next
      case False
      then show ?thesis using assms e Some send [of "snd (read_clock e w1)"] w1 by simp
    qed
  qed
  show "sent \<Longrightarrow> case fst (so_LastSentAlert so (en_clock e (wd_reads w)) i (pa_type al) (mon_cooldown m) (wd_store w)) of
      None \<Rightarrow> True | Some t \<Rightarrow> t + mon_cooldown m \<le> en_clock e (wd_reads w + 1)"
    using assms e by (auto simp: q_def split: option.splits if_splits)
qed

text \<open>When a delivery counts as sent.\<close>

definition may_send :: "'s store_ops \<Rightarrow> Effects.env \<Rightarrow> monitor \<Rightarrow> gostring \<Rightarrow> project_alert \<Rightarrow> 's world \<Rightarrow> bool" where
  "may_send so e m i al w \<longleftrightarrow> mn_notifier m \<and> en_send e (length (wd_sent w)) = None
    \<and> (case fst (so_LastSentAlert so (en_clock e (wd_reads w)) i (pa_type al) (mon_cooldown m) (wd_store w)) of
        None \<Rightarrow> True | Some t \<Rightarrow> t + mon_cooldown m \<le> en_clock e (wd_reads w + 1))"

lemma mon_deliver_sent: "fst (mon_deliver so e m p i al w) \<longleftrightarrow> may_send so e m i al w"
  by (auto simp: may_send_def mon_deliver_def send_alert_def last_sent_alert_def deliver_def read_clock_def push_def on_notify_def recordAlert_def Let_def
    split: option.splits prod.splits if_splits)

lemma mon_deliver_message:
  "fst (mon_deliver so e m p i al w) \<longleftrightarrow> wd_sent (snd (mon_deliver so e m p i al w)) = wd_sent w @ [(None, pa_message al, None)]"
proof -
  have s: "fst (send_alert so e m p i al v) \<longleftrightarrow> wd_sent (snd (send_alert so e m p i al v)) = wd_sent v @ [(None, pa_message al, None)]" for v
    using send_alert_step [of so e m p i al v] by (cases "send_alert so e m p i al v") auto
  show ?thesis
    by (auto simp: s mon_deliver_def last_sent_alert_def read_clock_def Let_def split: option.splits prod.splits)
qed

text \<open>What the check of a project reports decides which kind of alert it may have sent.\<close>

definition alert_kind :: "check_result \<Rightarrow> gostring" where
  "alert_kind r = (if cr_success r then low_balance else check_failed)"

definition world_step :: "'s mworld \<Rightarrow> 's mworld \<Rightarrow> bool" where
  "world_step mw mw' \<longleftrightarrow> wd_reads (mw_world mw) \<le> wd_reads (mw_world mw') \<and>
     wd_store (mw_world mw') = wd_store (mw_world mw) \<and> wd_sent (mw_world mw') = wd_sent (mw_world mw)
     \<and> wd_pushed (mw_world mw') = wd_pushed (mw_world mw)"

lemma read_clock_world:
  "read_clock e w = (t, w') \<Longrightarrow> wd_reads w' = wd_reads w + 1 \<and> wd_store w' = wd_store w \<and> wd_sent w' = wd_sent w \<and> wd_pushed w' = wd_pushed w"
  by (auto simp: read_clock_def)

lemma cache_get_step: "cache_get e k ttl mw = (c, mw') \<Longrightarrow> world_step mw mw'"
  by (auto simp: cache_get_def world_step_def Let_def split: if_splits option.splits prod.splits dest!: read_clock_world)

lemma query_step: "query pf a k mw = (r, mw') \<Longrightarrow> mw_world mw' = mw_world mw"
  by (auto simp: query_def Let_def)

lemma fetch_balance_step: "fetch_balance e pf a ck k ttl mw = (r, mw') \<Longrightarrow> world_step mw mw'"
proof -
  assume a: "fetch_balance e pf a ck k ttl mw = (r, mw')"
  obtain hit mw1 where g: "cache_get e ck ttl mw = (hit, mw1)" by (metis surj_pair)
  have s1: "world_step mw mw1" using g by (rule cache_get_step)
  show ?thesis
  proof (cases hit)
    case None
    have "world_step mw1 mw'"
      using a g None unfolding fetch_balance_def Let_def
      by (auto simp: world_step_def cache_set_def Let_def split: prod.splits sum.splits if_splits
        dest!: read_clock_world query_step)
    then show ?thesis using s1 by (simp add: world_step_def)
  qed (use a g s1 in \<open>auto simp: fetch_balance_def\<close>)
qed

lemma failure_step:
  assumes "failure so e g m p err False ca lat w = (r, w')"
  shows "\<not> cr_success r \<and> alert_step so e (project_ID p) check_failed (cr_alarm_sent r) w w' \<and> wd_reads w < wd_reads w'"
    and "cr_alarm_sent r \<Longrightarrow> case fst (so_LastSentAlert so (en_clock e (wd_reads w)) (project_ID p) check_failed (mon_cooldown m) (wd_store w)) of
      None \<Rightarrow> True | Some t \<Rightarrow> t + mon_cooldown m \<le> en_clock e (wd_reads w + 1)"
proof -
  obtain sent where d: "mon_deliver so e m p (project_ID p) (failed_alert g p (redactSecrets err [pj_api_key p])) w = (sent, w')"
    and r: "cr_alarm_sent r = sent" "\<not> cr_success r"
    using assms by (auto simp: failure_def Let_def empty_result_def split: prod.splits)
  have ty: "pa_type (failed_alert g p (redactSecrets err [pj_api_key p])) = check_failed" by (simp add: failed_alert_def)
  show "\<not> cr_success r \<and> alert_step so e (project_ID p) check_failed (cr_alarm_sent r) w w' \<and> wd_reads w < wd_reads w'"
    using mon_deliver_step(1) [OF d] r unfolding ty by simp
  show "cr_alarm_sent r \<Longrightarrow> case fst (so_LastSentAlert so (en_clock e (wd_reads w)) (project_ID p) check_failed (mon_cooldown m) (wd_store w)) of
      None \<Rightarrow> True | Some t \<Rightarrow> t + mon_cooldown m \<le> en_clock e (wd_reads w + 1)"
    using mon_deliver_step(2) [OF d] r unfolding ty by simp
qed

lemma save_balance_step:
  assumes "save_balance bo e b w = (err, w')"
  shows "store_run so bo e P w w'" "wd_sent w' = wd_sent w" "wd_pushed w' = wd_pushed w" "wd_reads w' = wd_reads w + 1"
proof -
  have w': "wd_store w' = snd (bo_SaveBalance bo (en_clock e (wd_reads w)) b (wd_store w))" "wd_reads w' = wd_reads w + 1"
    "wd_sent w' = wd_sent w" "wd_pushed w' = wd_pushed w"
    using assms by (auto simp: save_balance_def Let_def read_clock_def split: prod.splits)
  then show "wd_sent w' = wd_sent w" "wd_pushed w' = wd_pushed w" "wd_reads w' = wd_reads w + 1" by simp_all
  show "store_run so bo e P w w'"
    by (rule store_run.balance [of so bo e P w w "wd_reads w" w' b]) (simp_all add: w')
qed

text \<open>A check is a stretch that only saves balances, then perhaps one attempt to alert.\<close>

definition may_alert :: "'s store_ops \<Rightarrow> Effects.env \<Rightarrow> monitor \<Rightarrow> project \<Rightarrow> check_result \<Rightarrow> 's world \<Rightarrow> 's world \<Rightarrow> bool" where
  "may_alert so e m p r v w' \<longleftrightarrow> alert_step so e (project_ID p) (alert_kind r) (cr_alarm_sent r) v w' \<and>
     (cr_alarm_sent r \<longrightarrow> wd_reads v < wd_reads w' \<and>
       (case fst (so_LastSentAlert so (en_clock e (wd_reads v)) (project_ID p) (alert_kind r) (mon_cooldown m) (wd_store v)) of
          None \<Rightarrow> True | Some t \<Rightarrow> t + mon_cooldown m \<le> en_clock e (wd_reads v + 1)))"

lemma may_alert_failure:
  "failure so e g m p err False ca lat w = (r, w') \<Longrightarrow> may_alert so e m p r w w'"
  using failure_step [of so e g m p err ca lat w r w'] by (simp add: may_alert_def alert_kind_def)

lemma world_step_run: "world_step mw mw' \<Longrightarrow> store_run so bo e P (mw_world mw) (mw_world mw')"
  by (rule store_run.still) (simp_all add: world_step_def)

lemma CheckProject_step:
  assumes "CheckProject so bo e pf m p False mw = (r, mw')"
  obtains v where "store_run so bo e (\<lambda>_. False) (mw_world mw) v" "may_alert so e m p r v (mw_world mw')"
proof -
  obtain t w1 where rd: "read_clock e (mw_world mw) = (t, w1)" by (metis surj_pair)
  define mw1 where "mw1 = mw\<lparr>mw_world := w1\<rparr>"
  have s1: "world_step mw mw1" using read_clock_world [OF rd] by (simp add: mw1_def world_step_def)
  show thesis
  proof (cases "New_provider (pf_registry pf) (pj_provider p)")
    case (Inl err)
    then obtain w2 where "failure so e (pf_registry pf) m p err False (fmt_utc_rfc3339 t) None w1 = (r, w2)" "mw_world mw' = w2"
      using assms rd by (auto simp: CheckProject_def Let_def split: prod.splits)
    moreover have "store_run so bo e (\<lambda>_. False) (mw_world mw) w1"
      using world_step_run [OF s1, of so bo e "\<lambda>_. False"] by (simp add: mw1_def)
    ultimately show thesis using that [of w1] by (auto dest: may_alert_failure)
  next
    case (Inr a)
    let ?f = "fetch_balance e pf a (cacheKeyFor (pj_provider p) (pj_api_key p)) (pj_api_key p) (cache_ttl m) mw1"
    obtain oc cached latency mw2 where f: "?f = ((oc, cached, latency), mw2)" by (metis surj_pair)
    have run2: "store_run so bo e (\<lambda>_. False) (mw_world mw) (mw_world mw2)"
      by (rule store_run_trans [OF world_step_run world_step_run]) (rule fetch_balance_step [OF f], rule s1)
    show thesis
    proof (cases oc)
      case (Inl err)
      then obtain w3 where "failure so e (pf_registry pf) m p err False (fmt_utc_rfc3339 t) latency (mw_world mw2) = (r, w3)" "mw_world mw' = w3"
        using assms rd f Inr unfolding mw1_def by (auto simp: CheckProject_def Let_def split: prod.splits)
      then show thesis using that [of "mw_world mw2"] run2 by (auto dest: may_alert_failure)
    next
      case (Inr credits)
      obtain se w3 where sb: "save_balance bo e (balance_record_of p credits) (mw_world mw2) = (se, w3)" by (metis surj_pair)
      have run3: "store_run so bo e (\<lambda>_. False) (mw_world mw) w3"
        by (rule store_run_trans [OF save_balance_step(1) [OF sb] run2])
      obtain sent w4 where sd: "sendBalanceAlert so e (pf_registry pf) m p (project_ID p) credits w3 = (sent, w4)" by (metis surj_pair)
      have split: "(flt credits (pj_threshold p) \<and> cr_alarm_sent r = sent \<and> mw_world mw' = w4
          \<or> \<not> flt credits (pj_threshold p) \<and> \<not> cr_alarm_sent r \<and> mw_world mw' = w3) \<and> cr_success r"
        using assms rd f Inr sb sd \<open>New_provider (pf_registry pf) (pj_provider p) = Inr a\<close>
        unfolding mw1_def by (auto simp: CheckProject_def Let_def empty_result_def split: prod.splits if_splits)
      have ty: "pa_type (balance_alert (pf_registry pf) p credits) = low_balance" by (simp add: balance_alert_def)
      have "may_alert so e m p r w3 (mw_world mw')"
      proof (cases "flt credits (pj_threshold p)")
        case True
        with split have "cr_alarm_sent r = sent" "mw_world mw' = w4" "alert_kind r = low_balance" by (auto simp: alert_kind_def)
        then show ?thesis using mon_deliver_step [OF sd [unfolded sendBalanceAlert_def]] unfolding ty by (simp add: may_alert_def)
      qed (use split in \<open>simp add: may_alert_def alert_step_def\<close>)
      then show thesis by (rule that [OF run3])
    qed
  qed
qed

section \<open>Stores that keep alerts and balances\<close>

locale monitor_store = alert_log so known keep
  for so :: "'s store_ops" and known :: "int \<Rightarrow> 's \<Rightarrow> bool" and keep :: int +
  fixes bo :: "'s balance_ops"
  assumes known_balance: "known t s \<Longrightarrow> known t (snd (bo_SaveBalance bo t b s))"
    and last_balance: "fst (so_LastSentAlert so now i ty cool (snd (bo_SaveBalance bo t b s))) = fst (so_LastSentAlert so now i ty cool s)"
begin

lemma run_known:
  assumes "store_run so bo e P w w'" "mono (en_clock e)" "known (en_clock e (wd_reads w)) (wd_store w)"
  shows "known (en_clock e (wd_reads w')) (wd_store w')"
  using assms(1,3)
proof (induction rule: store_run.induct)
  case (still w' w)
  then show ?case using known_mono monoD [OF assms(2)] by metis
next
  case (alert w w1 k w' rec)
  have "known (en_clock e k) (wd_store w1)" "en_clock e k \<le> en_clock e (wd_reads w')"
    using known_mono alert monoD [OF assms(2)] by (meson less_imp_le)+
  then show ?case using known_mono known_save alert by metis
next
  case (balance w w1 k w' b)
  have "known (en_clock e k) (wd_store w1)" "en_clock e k \<le> en_clock e (wd_reads w')"
    using known_mono balance monoD [OF assms(2)] by (meson less_imp_le)+
  then show ?case using known_mono known_balance balance by metis
qed

lemma run_keeps_last:
  assumes "store_run so bo e P w w'" "mono (en_clock e)" "\<And>rec. P rec \<Longrightarrow> ar_id rec \<noteq> i \<or> ar_type rec \<noteq> ty"
    "i \<noteq> []" "ty \<noteq> []" "cool \<le> keep" "en_clock e (wd_reads w') \<le> now"
  shows "fst (so_LastSentAlert so now i ty cool (wd_store w')) = fst (so_LastSentAlert so now i ty cool (wd_store w))"
  using assms(1,7)
proof (induction rule: store_run.induct)
  case (still w' w)
  then show ?case by simp
next
  case (alert w w1 k w' rec)
  have "en_clock e (wd_reads w1) \<le> en_clock e k" "en_clock e k \<le> en_clock e (wd_reads w')"
    using alert monoD [OF assms(2)] by (meson less_imp_le)+
  then show ?case using alert last_other [OF assms(3) assms(4,5,6)] by simp
next
  case (balance w w1 k w' b)
  have "en_clock e (wd_reads w1) \<le> en_clock e k" "en_clock e k \<le> en_clock e (wd_reads w')"
    using balance monoD [OF assms(2)] by (meson less_imp_le)+
  then show ?case using balance last_balance by simp
qed

lemma sent_starts_cooldown:
  assumes "alert_step so e i ty True w w'" "mono (en_clock e)" "known (en_clock e (wd_reads w)) (wd_store w)"
    "0 < cool" "cool \<le> keep" "i \<noteq> []" "ty \<noteq> []"
    "en_clock e (wd_reads w') \<le> now" "now - en_clock e (wd_reads w) \<le> cool"
  obtains t where "en_clock e (wd_reads w) \<le> t" "fst (so_LastSentAlert so now i ty cool (wd_store w')) = Some t"
proof -
  obtain k rec where kr: "wd_reads w \<le> k" "k < wd_reads w'" "wd_store w' = snd (so_SaveAlert so (en_clock e k) rec (wd_store w))"
    "ar_id rec = i" "ar_type rec = ty" "counts_as_sent (ar_status rec)"
    using assms(1) by (auto simp: alert_step_def)
  have le: "en_clock e (wd_reads w) \<le> en_clock e k" "en_clock e k \<le> en_clock e (wd_reads w')"
    using kr monoD [OF assms(2)] by (meson less_imp_le)+
  have "known (en_clock e k) (wd_store w)" using known_mono assms(3) le(1) by blast
  then have "fst (so_LastSentAlert so now i ty cool (wd_store w')) = Some (en_clock e k)"
    unfolding kr(3) using kr le assms(4-9) by (intro last_sent) auto
  then show thesis using that le(1) by blast
qed

lemma check_alerts_once:
  assumes "mono (en_clock e)" "0 < mon_cooldown m" "mon_cooldown m \<le> keep" "project_ID p \<noteq> []"
    and "known (en_clock e (wd_reads (mw_world mw))) (wd_store (mw_world mw))"
    and "CheckProject so bo e pf m p False mw = (r1, mw1)"
    and "store_run so bo e (\<lambda>rec. ar_id rec \<noteq> project_ID p \<or> ar_type rec \<noteq> alert_kind r1) (mw_world mw1) (mw_world mw2)"
    and "CheckProject so bo e pf m p False mw2 = (r2, mw3)"
    and "en_clock e (wd_reads (mw_world mw3)) < en_clock e (wd_reads (mw_world mw)) + mon_cooldown m"
    and "alert_kind r1 = alert_kind r2"
  shows "\<not> (cr_alarm_sent r1 \<and> cr_alarm_sent r2)"
proof
  assume sent: "cr_alarm_sent r1 \<and> cr_alarm_sent r2"
  let ?i = "project_ID p" and ?ty = "alert_kind r1" and ?c = "mon_cooldown m"
  have mono: "a \<le> b \<Longrightarrow> en_clock e a \<le> en_clock e b" for a b using assms(1) by (rule monoD)
  have ty: "?ty \<noteq> []" by (simp add: alert_kind_def low_balance_def check_failed_def)
  obtain v1 where v1: "store_run so bo e (\<lambda>_. False) (mw_world mw) v1" "may_alert so e m p r1 v1 (mw_world mw1)"
    by (rule CheckProject_step [OF assms(6)])
  obtain v2 where v2: "store_run so bo e (\<lambda>_. False) (mw_world mw2) v2" "may_alert so e m p r2 v2 (mw_world mw3)"
    by (rule CheckProject_step [OF assms(8)])
  have ord: "wd_reads (mw_world mw) \<le> wd_reads v1" "wd_reads (mw_world mw1) \<le> wd_reads (mw_world mw2)"
    "wd_reads (mw_world mw2) \<le> wd_reads v2" "wd_reads v2 + 1 \<le> wd_reads (mw_world mw3)"
    using store_run_reads [OF v1(1)] store_run_reads [OF assms(7)] store_run_reads [OF v2(1)] v2(2) sent
    by (simp_all add: may_alert_def)
  let ?now = "en_clock e (wd_reads v2)"
  have now: "en_clock e (wd_reads (mw_world mw1)) \<le> ?now" "?now \<le> en_clock e (wd_reads (mw_world mw3))"
    "en_clock e (wd_reads v2 + 1) \<le> en_clock e (wd_reads (mw_world mw3))"
    "en_clock e (wd_reads (mw_world mw)) \<le> en_clock e (wd_reads v1)"
    using ord by (auto intro!: mono)
  have "alert_step so e ?i ?ty True v1 (mw_world mw1)" using v1(2) sent by (simp add: may_alert_def)
  then obtain t where t: "en_clock e (wd_reads v1) \<le> t" "fst (so_LastSentAlert so ?now ?i ?ty ?c (wd_store (mw_world mw1))) = Some t"
  proof (rule sent_starts_cooldown [OF _ assms(1) run_known [OF v1(1) assms(1,5)] assms(2,3,4) ty now(1)])
    show "?now - en_clock e (wd_reads v1) \<le> ?c" using now assms(9) by linarith
  qed
  have run: "store_run so bo e (\<lambda>rec. ar_id rec \<noteq> ?i \<or> ar_type rec \<noteq> ?ty) (mw_world mw1) v2"
    by (rule store_run_trans [OF store_run_mono [OF v2(1)] assms(7)]) simp
  have "fst (so_LastSentAlert so ?now ?i ?ty ?c (wd_store v2)) = Some t"
    using run_keeps_last [OF run assms(1) _ assms(4) ty assms(3)] t(2) by auto
  then have "t + ?c \<le> en_clock e (wd_reads v2 + 1)" using v2(2) sent assms(10) by (simp add: may_alert_def)
  then show False using t(1) now assms(9) by linarith
qed

end

text \<open>Without a database balances are dropped (\<open>nullStore.SaveBalance\<close>).\<close>

definition volatile_balance_ops :: "volatileStore balance_ops" where
  "volatile_balance_ops = \<lparr>bo_SaveBalance = (\<lambda>_ _ v. (None, v))\<rparr>"

definition sql_balance_ops :: "sqlStore balance_ops" where
  "sql_balance_ops = \<lparr>bo_SaveBalance = (\<lambda>t b db. (None, sql_SaveBalance t b db))\<rparr>"

lemma sql_SaveBalance_alerts [simp]: "db_alerts (sql_SaveBalance t b db) = db_alerts db"
  by (simp add: sql_SaveBalance_def Let_def)

interpretation volatile_balances: monitor_store volatile_ops vs_known volatileRetention volatile_balance_ops
  by unfold_locales (simp_all add: volatile_balance_ops_def)

interpretation sql_balances: monitor_store sql_ops db_known "100000 * day_dur" sql_balance_ops
proof (unfold_locales, goal_cases)
  case (2 now i ty cool t b s)
  then show ?case
    by (simp add: sql_balance_ops_def sql_LastSentAlert_def sql_RecentAlerts_def listAlertHistory_def)
qed (simp add: sql_balance_ops_def db_known_def)

lemma project_ID_nonempty: "project_ID p \<noteq> []"
  by (simp only: project_ID_def project_id_def md5_hex_nonempty not_False_eq_True)

section \<open>What a check reports\<close>

text \<open>The report about a project: whose it is, that it failed exactly when it carries an error,
  that it counts as low exactly below the threshold, and that it was alerted about only outside
  a dry run and only for a low balance or an error.\<close>

definition reports :: "project \<Rightarrow> bool \<Rightarrow> check_result \<Rightarrow> bool" where
  "reports p dry_run r \<longleftrightarrow> cr_project r = pj_name p \<and> cr_owner r = pj_owner p \<and> cr_provider r = pj_provider p
     \<and> cr_type r = pj_type p \<and> cr_checked_at r \<noteq> None
     \<and> (cr_success r \<longleftrightarrow> cr_error r = None) \<and> (cr_success r \<longleftrightarrow> cr_credits r \<noteq> None)
     \<and> (cr_need_alarm r \<longleftrightarrow> (\<exists>c. cr_credits r = Some c \<and> flt c (pj_threshold p)))
     \<and> (cr_cached r \<longrightarrow> cr_success r \<and> cr_latency_ms r = None)
     \<and> (cr_alarm_sent r \<longrightarrow> \<not> dry_run \<and> (cr_need_alarm r \<or> \<not> cr_success r))
     \<and> (\<forall>x. cr_error r = Some x \<longrightarrow> (\<exists>err. x = redactSecrets err [pj_api_key p]))"

lemma failure_reports: "failure so e g m p err dry_run ca lat w = (r, w') \<Longrightarrow> reports p dry_run r"
  by (auto simp: failure_def reports_def Let_def empty_result_def split: prod.splits if_splits)

lemma fetch_balance_result:
  "fetch_balance e pf a ck k ttl mw = ((oc, cached, latency), mw') \<Longrightarrow> cached \<Longrightarrow> (\<exists>c. oc = Inr c) \<and> latency = None"
  by (auto simp: fetch_balance_def Let_def split: prod.splits option.splits sum.splits)

lemma CheckProject_reports:
  assumes "CheckProject so bo e pf m p dry_run mw = (r, mw')"
  shows "reports p dry_run r"
proof -
  obtain t w1 where rd: "read_clock e (mw_world mw) = (t, w1)" by (metis surj_pair)
  show ?thesis
  proof (cases "New_provider (pf_registry pf) (pj_provider p)")
    case (Inl err)
    then show ?thesis using assms rd
      by (auto simp: CheckProject_def Let_def split: prod.splits intro: failure_reports)
  next
    case (Inr a)
    let ?f = "fetch_balance e pf a (cacheKeyFor (pj_provider p) (pj_api_key p)) (pj_api_key p) (cache_ttl m) (mw\<lparr>mw_world := w1\<rparr>)"
    obtain oc cached latency mw2 where f: "?f = ((oc, cached, latency), mw2)" by (metis surj_pair)
    show ?thesis
    proof (cases oc)
      case (Inl err)
      then show ?thesis using assms rd f Inr
        by (auto simp: CheckProject_def Let_def split: prod.splits intro: failure_reports)
    next
      case (Inr credits)
      then show ?thesis using assms rd f fetch_balance_result [OF f] \<open>New_provider _ _ = _\<close>
        by (auto simp: CheckProject_def Let_def reports_def empty_result_def split: prod.splits if_splits)
    qed
  qed
qed

lemma check_in_order_results:
  assumes "check_in_order so bo e pf m ps dry_run order rs mw = (rs', mw')" "set order \<subseteq> {..<length rs}"
  shows "length rs' = length rs \<and> (\<forall>i < length rs. if i \<in> set order then reports (ps ! i) dry_run (rs' ! i) else rs' ! i = rs ! i)"
  using assms
proof (induction order arbitrary: rs mw)
  case (Cons i order)
  obtain r mw1 where c: "CheckProject so bo e pf m (ps ! i) dry_run mw = (r, mw1)" by (metis surj_pair)
  have "check_in_order so bo e pf m ps dry_run order (rs[i := r]) mw1 = (rs', mw')" using Cons(2) c by simp
  from Cons(1) [OF this] Cons(3) CheckProject_reports [OF c] show ?case
    by (auto split: if_splits)
qed simp

section \<open>Properties\<close>

text \<open>C25: Whatever order the workers take the projects in, a round gives one result per project,
  in the order of the projects.  It failed exactly when it has an error and no balance, counts as
  low exactly when the balance is below the threshold, was alerted about only outside a dry run
  and only for a low or failed check, and its error text is redacted of the project's key.\<close>

theorem round_reports_projects:
  assumes "checkAll so bo e pf m ps dry_run order mw = (rs, mw')" "set order = {..<length ps}"
  shows "length rs = length ps \<and> (\<forall>i < length ps. reports (ps ! i) dry_run (rs ! i))"
  using check_in_order_results [OF assms(1) [unfolded checkAll_def]] assms(2) by simp

text \<open>C4: With the store in memory, two checks of a project that start and end within one cooldown
  never both alert about a low balance, nor both about a failed check, whatever balances and
  other alerts are saved in between.\<close>

theorem monitor_alerts_once:
  assumes "mono (en_clock e)" "0 < mon_cooldown m" "mon_cooldown m \<le> volatileRetention"
    and "vs_known (en_clock e (wd_reads (mw_world mw))) (wd_store (mw_world mw))"
    and "CheckProject volatile_ops volatile_balance_ops e pf m p False mw = (r1, mw1)"
    and "store_run volatile_ops volatile_balance_ops e (\<lambda>rec. ar_id rec \<noteq> project_ID p \<or> ar_type rec \<noteq> alert_kind r1)
      (mw_world mw1) (mw_world mw2)"
    and "CheckProject volatile_ops volatile_balance_ops e pf m p False mw2 = (r2, mw3)"
    and "en_clock e (wd_reads (mw_world mw3)) < en_clock e (wd_reads (mw_world mw)) + mon_cooldown m"
    and "alert_kind r1 = alert_kind r2"
  shows "\<not> (cr_alarm_sent r1 \<and> cr_alarm_sent r2)"
  using assms(1-3) project_ID_nonempty assms(4-9) by (rule volatile_balances.check_alerts_once)

text \<open>C5: The same with the SQL store.\<close>

theorem monitor_alerts_once_sql:
  assumes "mono (en_clock e)" "0 < mon_cooldown m" "mon_cooldown m \<le> 100000 * day_dur"
    and "db_known (en_clock e (wd_reads (mw_world mw))) (wd_store (mw_world mw))"
    and "CheckProject sql_ops sql_balance_ops e pf m p False mw = (r1, mw1)"
    and "store_run sql_ops sql_balance_ops e (\<lambda>rec. ar_id rec \<noteq> project_ID p \<or> ar_type rec \<noteq> alert_kind r1)
      (mw_world mw1) (mw_world mw2)"
    and "CheckProject sql_ops sql_balance_ops e pf m p False mw2 = (r2, mw3)"
    and "en_clock e (wd_reads (mw_world mw3)) < en_clock e (wd_reads (mw_world mw)) + mon_cooldown m"
    and "alert_kind r1 = alert_kind r2"
  shows "\<not> (cr_alarm_sent r1 \<and> cr_alarm_sent r2)"
  using assms(1-3) project_ID_nonempty assms(4-9) by (rule sql_balances.check_alerts_once)

text \<open>An alert about a balance or a failed check is reported as sent exactly when there is a
  notifier, its delivery succeeds and the log shows none sent within the cooldown, and exactly when
  it is the one message that went out.\<close>

theorem mon_deliver_sends:
  "(fst (mon_deliver so e m p i al w) \<longleftrightarrow> mn_notifier m \<and> en_send e (length (wd_sent w)) = None
    \<and> (case fst (so_LastSentAlert so (en_clock e (wd_reads w)) i (pa_type al) (mon_cooldown m) (wd_store w)) of
        None \<Rightarrow> True | Some t \<Rightarrow> t + mon_cooldown m \<le> en_clock e (wd_reads w + 1)))
   \<and> (fst (mon_deliver so e m p i al w) \<longleftrightarrow>
        wd_sent (snd (mon_deliver so e m p i al w)) = wd_sent w @ [(None, pa_message al, None)])"
  using mon_deliver_sent [unfolded may_send_def] mon_deliver_message by blast

text \<open>A dry run of a check sends and pushes nothing and saves no alert.\<close>

theorem dry_check_silent:
  assumes "CheckProject so bo e pf m p True mw = (r, mw')"
  shows "wd_sent (mw_world mw') = wd_sent (mw_world mw) \<and> wd_pushed (mw_world mw') = wd_pushed (mw_world mw)
    \<and> store_run so bo e (\<lambda>_. False) (mw_world mw) (mw_world mw') \<and> \<not> cr_alarm_sent r"
proof -
  obtain t w1 where rd: "read_clock e (mw_world mw) = (t, w1)" by (metis surj_pair)
  define mw1 where "mw1 = mw\<lparr>mw_world := w1\<rparr>"
  have s1: "world_step mw mw1" using read_clock_world [OF rd] by (simp add: mw1_def world_step_def)
  have no: "\<not> cr_alarm_sent r" using CheckProject_reports [OF assms] by (simp add: reports_def)
  show ?thesis
  proof (cases "New_provider (pf_registry pf) (pj_provider p)")
    case (Inl err)
    then have "mw_world mw' = mw_world mw1"
      using assms rd by (auto simp: CheckProject_def Let_def failure_def mw1_def split: prod.splits)
    then show ?thesis using s1 no world_step_run [OF s1, of so bo e "\<lambda>_. False"] by (simp add: world_step_def)
  next
    case (Inr a)
    let ?f = "fetch_balance e pf a (cacheKeyFor (pj_provider p) (pj_api_key p)) (pj_api_key p) (cache_ttl m) mw1"
    obtain oc cached latency mw2 where f: "?f = ((oc, cached, latency), mw2)" by (metis surj_pair)
    have s2: "world_step mw mw2" using fetch_balance_step [OF f] s1 by (simp add: world_step_def)
    show ?thesis
    proof (cases oc)
      case (Inl err)
      then have "mw_world mw' = mw_world mw2"
        using assms rd f Inr unfolding mw1_def by (auto simp: CheckProject_def Let_def failure_def split: prod.splits)
      then show ?thesis using s2 no world_step_run [OF s2, of so bo e "\<lambda>_. False"] by (simp add: world_step_def)
    next
      case (Inr credits)
      obtain se w3 where sb: "save_balance bo e (balance_record_of p credits) (mw_world mw2) = (se, w3)" by (metis surj_pair)
      have "mw_world mw' = w3"
        using assms rd f Inr sb \<open>New_provider (pf_registry pf) (pj_provider p) = Inr a\<close>
        unfolding mw1_def by (auto simp: CheckProject_def Let_def split: prod.splits if_splits)
      then show ?thesis
        using s2 no save_balance_step(2,3) [OF sb] store_run_trans [OF save_balance_step(1) [OF sb] world_step_run [OF s2]]
        by (simp add: world_step_def)
    qed
  qed
qed

text \<open>A cached balance is one that was stored under the platform and the digest of the key less
  than the cache's lifetime before the clock was read again, and no platform is asked for it.\<close>

theorem cached_balance_fresh:
  assumes "fetch_balance e pf a ck k ttl mw = ((oc, True, lat), mw')"
  shows "\<exists>entry. mw_cache mw ck = Some entry \<and> oc = Inr (ce_credits entry)
    \<and> ns_sub (en_clock e (wd_reads (mw_world mw))) (ce_at entry) < ttl \<and> mw_queries mw' = mw_queries mw"
  using assms by (auto simp: fetch_balance_def cache_get_def Let_def read_clock_def split: prod.splits option.splits sum.splits if_splits)

section \<open>Witnesses\<close>

definition demo_monitor :: monitor where
  "demo_monitor = \<lparr>mn_settings = read_settings ''dev'' (\<lambda>_. None), mn_notifier = True, mn_push = True, mn_on_notify = True,
     mn_alerter = None, mn_budget = None, mn_store_enabled = False\<rparr>"

definition no_platforms :: platforms where
  "no_platforms = \<lparr>pf_registry = \<lparr>rg_builtin = (\<lambda>_. None), rg_builtin_keys = [], rg_dynamic = []\<rparr>,
     pf_inputs = (\<lambda>_. \<lparr>ip_now_sign = 0, ip_nonce = [], ip_url_error = (\<lambda>_. []), ip_cancelled = (\<lambda>_. None),
       ip_exchange = (\<lambda>_ _. NetError [] False False), ip_now_extract = 0\<rparr>), pf_code = (\<lambda>_ _ _. Inl [])\<rparr>"

definition demo_project :: project where
  "demo_project = \<lparr>pj_name = ''prod'', pj_provider = ''nosuch'', pj_api_key = ''k'', pj_threshold = Fin 5, pj_type = [],
     pj_currency = [], pj_monthly_budget = Fin 0, pj_owner = None, pj_enabled = True, pj_from_env = False\<rparr>"

definition start_world :: "'s \<Rightarrow> 's mworld" where
  "start_world s = \<lparr>mw_world = demo_world s, mw_cache = (\<lambda>_. None), mw_queries = 0\<rparr>"

lemma demo_cooldown: "mon_cooldown demo_monitor = 86400 * second"
  by (simp add: mon_cooldown_def demo_monitor_def CooldownSeconds_def read_settings_def env_optional_int_def raw_def
    DefaultCooldownSeconds_def second_def wrap64_def)

lemma demo_check:
  assumes "CheckProject so bo demo_env no_platforms demo_monitor demo_project dry_run mw = (r, mw')"
  shows "\<not> cr_success r" "wd_reads (mw_world mw') \<le> wd_reads (mw_world mw) + 4"
    "\<not> dry_run \<Longrightarrow> fst (so_LastSentAlert so (int (wd_reads (mw_world mw) + 1)) (project_ID demo_project) check_failed
       (86400 * second) (wd_store (mw_world mw))) = None \<Longrightarrow> cr_alarm_sent r"
proof -
  have n: "\<exists>err. New_provider (pf_registry no_platforms) (pj_provider demo_project) = Inl err"
    by (simp add: New_provider_def no_platforms_def lookupSpec_def)
  then obtain err w2 where f: "failure so demo_env (pf_registry no_platforms) demo_monitor demo_project err dry_run
      (fmt_utc_rfc3339 (int (wd_reads (mw_world mw)))) None (snd (read_clock demo_env (mw_world mw))) = (r, w2)" "mw_world mw' = w2"
    using assms by (auto simp: CheckProject_def Let_def read_clock_def demo_env_def split: prod.splits)
  then show "\<not> cr_success r" using failure_reports by (auto simp: failure_def Let_def empty_result_def split: prod.splits if_splits)
  define al where "al = failed_alert (pf_registry no_platforms) demo_project (redactSecrets err [pj_api_key demo_project])"
  define w1 where "w1 = snd (read_clock demo_env (mw_world mw))"
  have w1: "wd_reads w1 = wd_reads (mw_world mw) + 1" "wd_store w1 = wd_store (mw_world mw)" by (simp_all add: w1_def read_clock_def)
  obtain sent w3 where d: "mon_deliver so demo_env demo_monitor demo_project (project_ID demo_project) al w1 = (sent, w3)" by (metis surj_pair)
  have two: "if dry_run then w2 = w1 else cr_alarm_sent r = sent \<and> w2 = w3"
    using f(1) d by (auto simp: failure_def Let_def al_def w1_def split: prod.splits if_splits)
  have "wd_reads w3 \<le> wd_reads w1 + 3"
    using d by (auto simp: mon_deliver_def Let_def last_sent_alert_def read_clock_def split: prod.splits option.splits if_splits
      dest!: send_alert_step)
  then show "wd_reads (mw_world mw') \<le> wd_reads (mw_world mw) + 4" using two w1 f(2) by (auto split: if_splits)
  have "pa_type al = check_failed" by (simp add: al_def failed_alert_def)
  then have "fst (so_LastSentAlert so (int (wd_reads (mw_world mw) + 1)) (project_ID demo_project) check_failed
       (86400 * second) (wd_store (mw_world mw))) = None \<Longrightarrow> sent"
    using d w1 mon_deliver_sent [of so demo_env demo_monitor demo_project "project_ID demo_project" al w1]
    by (simp add: may_send_def demo_cooldown) (simp add: demo_env_def demo_monitor_def)
  then show "\<not> dry_run \<Longrightarrow> fst (so_LastSentAlert so (int (wd_reads (mw_world mw) + 1)) (project_ID demo_project) check_failed
       (86400 * second) (wd_store (mw_world mw))) = None \<Longrightarrow> cr_alarm_sent r" using two by simp
qed

lemma demo_bounds2: "mono (en_clock demo_env)" "0 < mon_cooldown demo_monitor" "mon_cooldown demo_monitor \<le> 100000 * day_dur"
  "mon_cooldown demo_monitor \<le> volatileRetention"
  unfolding demo_cooldown by (simp_all add: demo_env_def mono_def second_def volatileRetention_def)

theorem monitor_alerts_once_witness:
  "\<exists>r1 mw1 r2 mw3. CheckProject volatile_ops volatile_balance_ops demo_env no_platforms demo_monitor demo_project False
      (start_world Volatile) = (r1, mw1) \<and> cr_alarm_sent r1
    \<and> CheckProject volatile_ops volatile_balance_ops demo_env no_platforms demo_monitor demo_project False mw1 = (r2, mw3) \<and> \<not> cr_alarm_sent r2"
proof -
  let ?check = "CheckProject volatile_ops volatile_balance_ops demo_env no_platforms demo_monitor demo_project False"
  obtain r1 mw1 where a: "?check (start_world Volatile) = (r1, mw1)" by (metis surj_pair)
  obtain r2 mw3 where b: "?check mw1 = (r2, mw3)" by (metis surj_pair)
  have sent: "cr_alarm_sent r1"
    using demo_check(3) [OF a] by (simp add: start_world_def demo_world_def vs_LastSentAlert_def Volatile_def)
  have kind: "alert_kind r1 = alert_kind r2" using demo_check(1) [OF a] demo_check(1) [OF b] by (simp add: alert_kind_def)
  have "vs_known (en_clock demo_env (wd_reads (mw_world (start_world Volatile)))) (wd_store (mw_world (start_world Volatile)))"
    by (simp add: vs_known_def start_world_def demo_world_def Volatile_def)
  moreover have "en_clock demo_env (wd_reads (mw_world mw3))
      < en_clock demo_env (wd_reads (mw_world (start_world Volatile))) + mon_cooldown demo_monitor"
    using demo_check(2) [OF a] demo_check(2) [OF b] unfolding demo_cooldown
    by (simp add: demo_env_def start_world_def demo_world_def second_def)
  ultimately have "\<not> (cr_alarm_sent r1 \<and> cr_alarm_sent r2)"
    using monitor_alerts_once [OF demo_bounds2(1,2,4) _ a store_run_refl b _ kind] by blast
  then show ?thesis using a b sent by blast
qed

theorem monitor_alerts_once_sql_witness:
  "\<exists>r1 mw1 r2 mw3. CheckProject sql_ops sql_balance_ops demo_env no_platforms demo_monitor demo_project False
      (start_world \<lparr>db_alerts = [], db_emails = [], db_balances = []\<rparr>) = (r1, mw1) \<and> cr_alarm_sent r1
    \<and> CheckProject sql_ops sql_balance_ops demo_env no_platforms demo_monitor demo_project False mw1 = (r2, mw3) \<and> \<not> cr_alarm_sent r2"
proof -
  let ?check = "CheckProject sql_ops sql_balance_ops demo_env no_platforms demo_monitor demo_project False"
  let ?w = "start_world \<lparr>db_alerts = [], db_emails = [], db_balances = []\<rparr>"
  obtain r1 mw1 where a: "?check ?w = (r1, mw1)" by (metis surj_pair)
  obtain r2 mw3 where b: "?check mw1 = (r2, mw3)" by (metis surj_pair)
  have sent: "cr_alarm_sent r1"
    using demo_check(3) [OF a] by (simp add: start_world_def demo_world_def sql_LastSentAlert_eq second_def)
  have kind: "alert_kind r1 = alert_kind r2" using demo_check(1) [OF a] demo_check(1) [OF b] by (simp add: alert_kind_def)
  have "db_known (en_clock demo_env (wd_reads (mw_world ?w))) (wd_store (mw_world ?w))"
    by (simp add: db_known_def start_world_def demo_world_def)
  moreover have "en_clock demo_env (wd_reads (mw_world mw3)) < en_clock demo_env (wd_reads (mw_world ?w)) + mon_cooldown demo_monitor"
    using demo_check(2) [OF a] demo_check(2) [OF b] unfolding demo_cooldown
    by (simp add: demo_env_def start_world_def demo_world_def second_def)
  ultimately have "\<not> (cr_alarm_sent r1 \<and> cr_alarm_sent r2)"
    using monitor_alerts_once_sql [OF demo_bounds2(1,2,3) _ a store_run_refl b _ kind] by blast
  then show ?thesis using a b sent by blast
qed

theorem dry_check_silent_witness:
  "wd_sent (mw_world (snd (CheckProject volatile_ops volatile_balance_ops demo_env no_platforms demo_monitor demo_project True
    (start_world Volatile)))) = []"
  using dry_check_silent [of volatile_ops volatile_balance_ops demo_env no_platforms demo_monitor demo_project "start_world Volatile"]
  by (cases "CheckProject volatile_ops volatile_balance_ops demo_env no_platforms demo_monitor demo_project True (start_world Volatile)")
    (simp add: start_world_def demo_world_def)

theorem round_reports_projects_witness:
  "map cr_project (fst (checkAll volatile_ops volatile_balance_ops demo_env no_platforms demo_monitor
     [demo_project, demo_project\<lparr>pj_name := ''dev''\<rparr>] True [1, 0] (start_world Volatile))) = [''prod'', ''dev'']"
proof -
  let ?ps = "[demo_project, demo_project\<lparr>pj_name := ''dev''\<rparr>]"
  obtain rs mw' where c: "checkAll volatile_ops volatile_balance_ops demo_env no_platforms demo_monitor ?ps True [1, 0]
      (start_world Volatile) = (rs, mw')" by (metis surj_pair)
  have "set [1, 0] = {..<length ?ps}" by auto
  from round_reports_projects [OF c this] have "length rs = 2" "cr_project (rs ! 0) = ''prod''" "cr_project (rs ! 1) = ''dev''"
    by (auto simp: reports_def demo_project_def)
  then have "map cr_project rs = [''prod'', ''dev'']" by (auto intro!: nth_equalityI simp: less_Suc_eq numeral_2_eq_2)
  then show ?thesis using c by simp
qed

theorem cached_balance_fresh_witness:
  "fst (fetch_balance demo_env no_platforms (CodeAdapter []) ''x'' [] 5
     ((start_world Volatile)\<lparr>mw_cache := [''x'' \<mapsto> \<lparr>ce_at = 0, ce_credits = Fin 3\<rparr>]\<rparr>)) = (Inr (Fin 3), True, None)"
proof -
  let ?mw = "(start_world Volatile)\<lparr>mw_cache := [''x'' \<mapsto> \<lparr>ce_at = 0, ce_credits = Fin 3\<rparr>]\<rparr>"
  obtain oc lat mw' where f: "fetch_balance demo_env no_platforms (CodeAdapter []) ''x'' [] 5 ?mw = ((oc, True, lat), mw')"
    by (auto simp: fetch_balance_def cache_get_def read_clock_def Let_def demo_env_def start_world_def demo_world_def
      ns_sub_def clamp64_def)
  from cached_balance_fresh [OF f] fetch_balance_result [OF f] show ?thesis by (simp add: f)
qed

end
