(* ===== verification/Scheduler.thy ===== *)
theory Scheduler
  imports Schedule GoFmt State
begin

text \<open>
  The job scheduler (\<open>internal/scheduler/scheduler.go\<close>): tasks with an interval or daily times, the
  round that runs what is due, the manual run, and how long the loop sleeps between rounds.  The
  state the tasks act on is a type parameter with an operation that reads its clock; what a task
  does is a function on it.  Tasks never overlap (the code holds a mutex over a run), so a round is
  a function too.  Log lines are left out.
\<close>

section \<open>Durations as text\<close>

text \<open>\<open>Duration.String\<close> of the standard library.\<close>

definition frac_digits :: "nat \<Rightarrow> int \<Rightarrow> gostring" where
  "frac_digits prec v = (let ds = rev (dropWhile (\<lambda>c. c = CHR ''0'') (rev (pad_digits prec (nat v))))
     in if ds = [] then [] else ''.'' @ ds)"

definition duration_string :: "duration \<Rightarrow> gostring" where
  "duration_string d =
     (let u = \<bar>d\<bar>; sign = (if d < 0 then ''-'' else []) in
      if u = 0 then ''0s''
      else if u < 1000 then sign @ itoa u @ ''ns''
      else if u < 1000000 then sign @ itoa (u div 1000) @ frac_digits 3 (u mod 1000) @ [CHR 0xC2, CHR 0xB5] @ ''s''
      else if u < second then sign @ itoa (u div 1000000) @ frac_digits 6 (u mod 1000000) @ ''ms''
      else let s = u div second; secs = itoa (s mod 60) @ frac_digits 9 (u mod second) @ ''s'';
               m = s div 60
           in sign @ (if m = 0 then [] else (if m div 60 = 0 then [] else itoa (m div 60) @ ''h'') @ itoa (m mod 60) @ ''m'') @ secs)"

section \<open>Tasks\<close>

text \<open>How a run ends: its detail and its error, with whether the error wraps an exceeded
  deadline.\<close>

record 'd run_end =
  re_detail :: "'d option"
  re_err :: "(goerror \<times> bool) option"

record ('w, 'd) task =
  tk_name :: gostring
  tk_description :: gostring
  tk_run :: "'w \<Rightarrow> 'd run_end \<times> 'w"
  tk_interval :: duration
  tk_times :: "clock_time list"
  tk_weekdays :: "int list"
  tk_run_at_start :: bool
  tk_timeout :: duration
  tk_next_run :: gotime

definition task_enabled :: "('w, 'd) task \<Rightarrow> bool" where
  "task_enabled t \<longleftrightarrow> 0 < tk_interval t \<or> tk_times t \<noteq> []"

definition ScheduleText :: "('w, 'd) task \<Rightarrow> gostring option" where
  "ScheduleText t =
     (if 0 < tk_interval t then Some (''Every '' @ itoa (f64_to_int64 (dur_seconds (tk_interval t))) @ '' seconds'')
      else describe (tk_times t) (tk_weekdays t))"

definition shift_time :: "gotime \<Rightarrow> duration \<Rightarrow> gotime" where
  "shift_time t d = t\<lparr>t_ns := t_ns t + d\<rparr>"

definition next_or_zero :: "gotime \<Rightarrow> ('w, 'd) task \<Rightarrow> gotime" where
  "next_or_zero now t = (case next_occurrence now (tk_times t) (tk_weekdays t) of None \<Rightarrow> zero_time | Some n \<Rightarrow> n)"

definition initialNextRun :: "gotime \<Rightarrow> ('w, 'd) task \<Rightarrow> gotime" where
  "initialNextRun now t =
     (if 0 < tk_interval t then if tk_run_at_start t then now else shift_time now (tk_interval t)
      else next_or_zero now t)"

definition followingRun :: "gotime \<Rightarrow> ('w, 'd) task \<Rightarrow> gotime" where
  "followingRun now t = (if 0 < tk_interval t then shift_time now (tk_interval t) else next_or_zero now t)"

record 'd run_result =
  rr_name :: gostring
  rr_success :: bool
  rr_started :: gotime
  rr_duration :: duration
  rr_err :: "goerror option"
  rr_detail :: "'d option"
  rr_next_run :: gotime

section \<open>The scheduler\<close>

text \<open>\<open>clk\<close> reads the clock, \<open>cancelled\<close> tells whether the caller's context has ended, \<open>on_result\<close>
  is the hook that gets each result.\<close>

record ('w, 'd) host =
  hs_clock :: "'w \<Rightarrow> gotime \<times> 'w"
  hs_cancelled :: "'w \<Rightarrow> bool"
  hs_on_result :: "'d run_result \<Rightarrow> 'w \<Rightarrow> 'w"

definition New_scheduler :: "gotime \<Rightarrow> ('w, 'd) task list \<Rightarrow> ('w, 'd) task list" where
  "New_scheduler now ts = map (\<lambda>t. if task_enabled t then t\<lparr>tk_next_run := initialNextRun now t\<rparr> else t) ts"

definition maxWait :: duration where "maxWait = 60 * second"

fun least_wait :: "gotime \<Rightarrow> ('w, 'd) task list \<Rightarrow> duration \<Rightarrow> duration" where
  "least_wait now [] wait = wait"
| "least_wait now (t # ts) wait =
     (if \<not> task_enabled t \<or> is_zero (tk_next_run t) then least_wait now ts wait
      else let d = t_sub (tk_next_run t) now in least_wait now ts (if d < wait then d else wait))"

definition sleepFor :: "gotime \<Rightarrow> ('w, 'd) task list \<Rightarrow> duration" where
  "sleepFor now ts = max 100000000 (min maxWait (least_wait now ts maxWait))"

definition run_error_text :: "bool \<Rightarrow> ('w, 'd) task \<Rightarrow> (goerror \<times> bool) option \<Rightarrow> goerror option" where
  "run_error_text cancelled t err = (case err of None \<Rightarrow> None
     | Some (e, deadline) \<Rightarrow>
         if \<not> cancelled \<and> 0 < tk_timeout t \<and> deadline
         then Some (''timed out after '' @ duration_string (tk_timeout t) @ '': '' @ e) else Some e)"

definition RunTask :: "('w, 'd) host \<Rightarrow> ('w, 'd) task \<Rightarrow> 'w \<Rightarrow> 'd run_result \<times> ('w, 'd) task \<times> 'w" where
  "RunTask h t w =
     (let (started, w1) = hs_clock h w;
          (end, w2) = tk_run t w1;
          err = run_error_text (hs_cancelled h w2) t (re_err end);
          (finished, w3) = hs_clock h w2;
          (t', w4) = (if task_enabled t then (let (now, w4) = hs_clock h w3 in (t\<lparr>tk_next_run := followingRun now t\<rparr>, w4))
             else (t, w3));
          result = \<lparr>rr_name = tk_name t, rr_success = (err = None), rr_started = started,
            rr_duration = t_sub finished started, rr_err = err, rr_detail = re_detail end, rr_next_run = tk_next_run t'\<rparr>
      in (result, t', hs_on_result h result w4))"

definition due :: "gotime \<Rightarrow> ('w, 'd) task \<Rightarrow> bool" where
  "due now t \<longleftrightarrow> task_enabled t \<and> \<not> is_zero (tk_next_run t) \<and> \<not> t_after (tk_next_run t) now"

fun RunPending :: "('w, 'd) host \<Rightarrow> gotime \<Rightarrow> ('w, 'd) task list \<Rightarrow> 'w \<Rightarrow> 'd run_result list \<times> ('w, 'd) task list \<times> 'w" where
  "RunPending h now [] w = ([], [], w)"
| "RunPending h now (t # ts) w =
     (if \<not> due now t then (let (rs, ts', w') = RunPending h now ts w in (rs, t # ts', w'))
      else (let (r, t', w1) = RunTask h t w; (rs, ts', w') = RunPending h now ts w1 in (r # rs, t' # ts', w')))"

definition Lookup_task :: "gostring \<Rightarrow> ('w, 'd) task list \<Rightarrow> ('w, 'd) task option" where
  "Lookup_task name ts = find (\<lambda>t. tk_name t = name) ts"

section \<open>Properties\<close>

lemma least_wait_le: "least_wait now ts wait \<le> wait"
  by (induction now ts wait rule: least_wait.induct) (auto simp: Let_def intro: order_trans)

lemma least_wait_task:
  "t \<in> set ts \<Longrightarrow> task_enabled t \<Longrightarrow> \<not> is_zero (tk_next_run t) \<Longrightarrow> least_wait now ts wait \<le> t_sub (tk_next_run t) now"
proof (induction now ts wait rule: least_wait.induct)
  case (2 now s ts wait)
  then show ?case using least_wait_le [of now ts] by (auto simp: Let_def not_less intro: order_trans)
qed simp

text \<open>C27: The loop sleeps between a tenth of a second and a minute, and never past the next run of
  an enabled task by more than that tenth.\<close>

theorem sleepFor_wakes_in_time:
  assumes "t \<in> set ts" "task_enabled t" "\<not> is_zero (tk_next_run t)"
    "\<bar>t_ns (tk_next_run t) - t_ns now\<bar> < 2 ^ 63"
  shows "100000000 \<le> sleepFor now ts \<and> sleepFor now ts \<le> 60 * second
    \<and> t_ns now + sleepFor now ts \<le> max (t_ns (tk_next_run t)) (t_ns now + 100000000)"
proof -
  have "t_sub (tk_next_run t) now = t_ns (tk_next_run t) - t_ns now"
    using assms(4) by (auto simp: t_sub_def clamp64_def abs_less_iff)
  then show ?thesis using least_wait_task [OF assms(1-3), of now maxWait]
    by (auto simp: sleepFor_def maxWait_def second_def)
qed

text \<open>A task's next run after a reading of the clock: strictly later, or never.\<close>

lemma followingRun_later:
  assumes "task_enabled t"
  shows "is_zero (followingRun now t) \<or> t_ns now < t_ns (followingRun now t)"
proof (cases "0 < tk_interval t")
  case False
  then show ?thesis
    using search_days_Some [of 8 0 now] by (auto simp: followingRun_def next_or_zero_def next_occurrence_def is_zero_def
      zero_time_def t_after_def split: option.splits if_splits)
qed (simp add: followingRun_def shift_time_def)

lemma RunTask_task: "RunTask h t w = (r, t', w') \<Longrightarrow> \<exists>n. t' = t\<lparr>tk_next_run := n\<rparr> \<and> rr_next_run r = n"
  by (auto simp: RunTask_def Let_def split: prod.splits if_splits intro: exI [of _ "tk_next_run t"])

lemma RunTask_name: "RunTask h t w = (r, t', w') \<Longrightarrow> rr_name r = tk_name t"
  by (auto simp: RunTask_def Let_def split: prod.splits if_splits)

text \<open>What a round does to a task: nothing, or a new next run when it is due.\<close>

definition rescheduled :: "gotime \<Rightarrow> ('w, 'd) task \<Rightarrow> ('w, 'd) task \<Rightarrow> bool" where
  "rescheduled now t t' \<longleftrightarrow> (if due now t then t' = t\<lparr>tk_next_run := tk_next_run t'\<rparr> else t' = t)"


lemma RunTask_later:
  assumes "RunTask h t w = (r, t', w')" "task_enabled t" "\<And>w. t_ns now \<le> t_ns (fst (hs_clock h w))"
  shows "\<not> due now t'"
proof -
  obtain w3 where t': "t' = t\<lparr>tk_next_run := followingRun (fst (hs_clock h w3)) t\<rparr>"
    using assms(1,2) by (auto simp: RunTask_def Let_def split: prod.splits if_splits) (metis fst_conv)
  then show ?thesis using followingRun_later [OF assms(2), of "fst (hs_clock h w3)"] assms(3) [of w3]
    by (auto simp: due_def t_after_def)
qed

text \<open>With a clock that does not run backwards no task that has run in a round is due again at the
  round's time, however late the round was: a missed run is made up for once, not once per missed
  time.\<close>

theorem round_runs_once:
  assumes "\<And>w. t_ns now \<le> t_ns (fst (hs_clock h w))"
  shows "fst (RunPending h now (fst (snd (RunPending h now ts w))) w') = []"
proof -
  have "filter (due now) (fst (snd (RunPending h now ts w))) = []"
  proof (induction ts arbitrary: w)
    case (Cons t ts)
    obtain r t' w1 where r: "RunTask h t w = (r, t', w1)" by (metis prod_cases3)
    have "due now t \<Longrightarrow> \<not> due now t'" using RunTask_later [OF r _ assms] by (auto simp: due_def)
    then show ?case using Cons [of w] Cons [of w1] r
      by (cases "RunPending h now ts w"; cases "RunPending h now ts w1") auto
  qed simp
  moreover have "filter (due now) ts' = [] \<Longrightarrow> fst (RunPending h now ts' w'') = []" for ts' and w''
    by (induction ts') (auto split: prod.splits if_splits)
  ultimately show ?thesis by blast
qed

section \<open>Witnesses\<close>

definition demo_task :: "(nat, nat) task" where
  "demo_task = \<lparr>tk_name = ''refresh'', tk_description = [], tk_run = (\<lambda>w. (\<lparr>re_detail = Some w, re_err = None\<rparr>, w)),
     tk_interval = 60 * second, tk_times = [], tk_weekdays = [], tk_run_at_start = True, tk_timeout = 0, tk_next_run = utc_at 0\<rparr>"

definition demo_host :: "(nat, nat) host" where
  "demo_host = \<lparr>hs_clock = (\<lambda>w. (utc_at (int w), w + 1)), hs_cancelled = (\<lambda>_. False), hs_on_result = (\<lambda>_ w. w)\<rparr>"

theorem sleepFor_wakes_in_time_witness: "sleepFor (utc_at 0) [demo_task] = 100000000"
  using sleepFor_wakes_in_time [of demo_task "[demo_task]" "utc_at 0"]
  by (simp add: demo_task_def task_enabled_def is_zero_def utc_at_def zero_ns_def second_def)

theorem round_runs_once_witness:
  "map rr_name (fst (RunPending demo_host (utc_at 0) [demo_task] 7)) = [''refresh'']
   \<and> fst (RunPending demo_host (utc_at 0) (fst (snd (RunPending demo_host (utc_at 0) [demo_task] 7))) 9) = []"
proof
  have "due (utc_at 0) demo_task"
    by (simp add: due_def demo_task_def task_enabled_def is_zero_def utc_at_def zero_ns_def t_after_def second_def)
  then show "map rr_name (fst (RunPending demo_host (utc_at 0) [demo_task] 7)) = [''refresh'']"
    by (simp add: RunTask_def Let_def demo_task_def split: prod.splits)
  show "fst (RunPending demo_host (utc_at 0) (fst (snd (RunPending demo_host (utc_at 0) [demo_task] 7))) 9) = []"
    by (rule round_runs_once) (simp add: demo_host_def utc_at_def)
qed

end
