(* ===== verification/Metrics.thy ===== *)
theory Metrics
  imports Model GoTime GoFloat State
begin

text \<open>
  The metrics (\<open>internal/metrics/metrics.go\<close>, \<open>http.go\<close>): what each check round writes to the
  gauges and counters and how series of projects, subscriptions and mailboxes that are gone are
  pruned.  The vectors of the Prometheus client are maps from label values to numbers, named by the
  metric; registration, histograms and the \<open>/metrics\<close> endpoint are the client's.
\<close>

section \<open>State\<close>

definition groupBalance :: gostring where "groupBalance = ''balance''"
definition groupCheck :: gostring where "groupCheck = ''check''"
definition groupSubscription :: gostring where "groupSubscription = ''subscription''"
definition groupMailbox :: gostring where "groupMailbox = ''mailbox''"

lemmas group_defs = groupBalance_def groupCheck_def groupSubscription_def groupMailbox_def

definition groupArity :: "gostring \<Rightarrow> nat" where
  "groupArity g = (if g = groupBalance \<or> g = groupCheck then 3 else if g = groupSubscription then 2
     else if g = groupMailbox then 1 else 0)"

type_synonym label_values = "gostring \<times> gostring \<times> gostring"

text \<open>\<open>lv[:n]\<close>.\<close>

definition first_labels :: "nat \<Rightarrow> label_values \<Rightarrow> gostring list" where
  "first_labels n lv = (case lv of (a, b, c) \<Rightarrow> take n [a, b, c])"

type_synonym vec = "gostring list \<Rightarrow> f64 option"

record collector =
  mc_gauges :: "gostring \<Rightarrow> vec"
  mc_counters :: "gostring \<Rightarrow> vec"
  mc_series :: "gostring \<Rightarrow> label_values set"

definition new_collector :: collector where
  "new_collector = \<lparr>mc_gauges = (\<lambda>_ _. None), mc_counters = (\<lambda>_ _. None), mc_series = (\<lambda>_. {})\<rparr>"

text \<open>\<open>WithLabelValues(...).Set\<close>, \<open>.Add\<close> and \<open>DeleteLabelValues\<close>.\<close>

definition gauge_set :: "gostring \<Rightarrow> gostring list \<Rightarrow> f64 \<Rightarrow> collector \<Rightarrow> collector" where
  "gauge_set name ls v c = c\<lparr>mc_gauges := (mc_gauges c)(name := (mc_gauges c name)(ls \<mapsto> v))\<rparr>"

definition counter_add :: "gostring \<Rightarrow> gostring list \<Rightarrow> f64 \<Rightarrow> collector \<Rightarrow> collector" where
  "counter_add name ls v c = c\<lparr>mc_counters := (mc_counters c)(name := (mc_counters c name)(ls \<mapsto>
     fadd (case mc_counters c name ls of None \<Rightarrow> Fin 0 | Some x \<Rightarrow> x) v))\<rparr>"

definition gauge_delete :: "gostring \<Rightarrow> gostring list set \<Rightarrow> collector \<Rightarrow> collector" where
  "gauge_delete name gone c = c\<lparr>mc_gauges := (mc_gauges c)(name := (\<lambda>ls. if ls \<in> gone then None else mc_gauges c name ls))\<rparr>"

definition set_series :: "gostring \<Rightarrow> gostring \<Rightarrow> label_values \<Rightarrow> f64 \<Rightarrow> collector \<Rightarrow> collector" where
  "set_series name g lv v c =
     (let c1 = gauge_set name (first_labels (groupArity g) lv) v c
      in c1\<lparr>mc_series := (mc_series c1)(g := insert lv (mc_series c1 g))\<rparr>)"

definition prune :: "gostring \<Rightarrow> label_values set \<Rightarrow> gostring list \<Rightarrow> collector \<Rightarrow> collector" where
  "prune g keep names c =
     (let gone = first_labels (groupArity g) ` (mc_series c g - keep);
          c1 = fold (\<lambda>name. gauge_delete name gone) names c
      in c1\<lparr>mc_series := (mc_series c1)(g := keep)\<rparr>)"

section \<open>The updates\<close>

definition orDefault :: "gostring \<Rightarrow> gostring \<Rightarrow> gostring" where
  "orDefault s fallback = (if s = [] then fallback else s)"

definition orUnknown :: "gostring \<Rightarrow> gostring" where "orUnknown s = orDefault s ''unknown''"

definition metric_value :: "f64 option \<Rightarrow> f64" where
  "metric_value v = (case v of None \<Rightarrow> Fin 0 | Some x \<Rightarrow> x)"

definition unixSeconds :: "gotime \<Rightarrow> f64" where
  "unixSeconds t = fadd (f64_of_int (t_sec t)) (fdiv (f64_of_int (t_nsec t)) (Fin 1000000000))"

definition m_balance :: gostring where "m_balance = ''quotapulse_balance''"
definition m_threshold :: gostring where "m_threshold = ''quotapulse_threshold''"
definition m_ratio :: gostring where "m_ratio = ''quotapulse_ratio''"
definition m_status :: gostring where "m_status = ''quotapulse_status''"
definition m_check_status :: gostring where "m_check_status = ''quotapulse_check_status''"
definition m_burn_rate :: gostring where "m_burn_rate = ''quotapulse_burn_rate_per_day''"
definition m_runway_days :: gostring where "m_runway_days = ''quotapulse_runway_days''"
definition m_sub_days :: gostring where "m_sub_days = ''quotapulse_subscription_days''"
definition m_sub_amount :: gostring where "m_sub_amount = ''quotapulse_subscription_amount''"
definition m_sub_status :: gostring where "m_sub_status = ''quotapulse_subscription_status''"
definition m_mailbox_status :: gostring where "m_mailbox_status = ''quotapulse_email_mailbox_status''"
definition m_scan_emails :: gostring where "m_scan_emails = ''quotapulse_email_last_scan_emails''"
definition m_scan_alerts :: gostring where "m_scan_alerts = ''quotapulse_email_last_scan_alerts''"
definition m_last_check :: gostring where "m_last_check = ''quotapulse_last_check_timestamp''"

lemmas metric_defs = m_balance_def m_threshold_def m_ratio_def m_status_def m_check_status_def m_burn_rate_def
  m_runway_days_def m_sub_days_def m_sub_amount_def m_sub_status_def m_mailbox_status_def m_scan_emails_def
  m_scan_alerts_def m_last_check_def

lemma metric_names_distinct:
  "distinct [m_balance, m_threshold, m_ratio, m_status, m_burn_rate, m_runway_days, m_check_status, m_sub_days,
     m_sub_amount, m_sub_status, m_mailbox_status, m_scan_emails, m_scan_alerts, m_last_check]"
  "distinct [m_last_check, m_scan_alerts, m_scan_emails, m_mailbox_status, m_sub_status, m_sub_amount, m_sub_days,
     m_check_status, m_runway_days, m_burn_rate, m_status, m_ratio, m_threshold, m_balance]"
  by (simp_all add: metric_defs)

lemmas metric_ne [simp] = metric_names_distinct [simplified]

lemma group_ne [simp]:
  "groupBalance \<noteq> groupCheck" "groupCheck \<noteq> groupBalance" "groupBalance \<noteq> groupSubscription" "groupSubscription \<noteq> groupBalance"
  "groupBalance \<noteq> groupMailbox" "groupMailbox \<noteq> groupBalance" "groupCheck \<noteq> groupSubscription" "groupSubscription \<noteq> groupCheck"
  "groupCheck \<noteq> groupMailbox" "groupMailbox \<noteq> groupCheck" "groupSubscription \<noteq> groupMailbox" "groupMailbox \<noteq> groupSubscription"
  by (simp_all add: group_defs)

lemma groupArity_simps [simp]:
  "groupArity groupBalance = 3" "groupArity groupCheck = 3" "groupArity groupSubscription = 2" "groupArity groupMailbox = 1"
  by (simp_all add: groupArity_def)

definition result_labels :: "check_result \<Rightarrow> label_values" where
  "result_labels r = (orUnknown (cr_project r), orUnknown (cr_provider r), orUnknown (cr_type r))"

definition recordBalance :: "label_values \<Rightarrow> check_result \<Rightarrow> collector \<Rightarrow> collector" where
  "recordBalance lv r c =
     (let credits = metric_value (cr_credits r); threshold = metric_value (cr_threshold r);
          c1 = set_series m_check_status groupCheck lv (Fin 1) c;
          c2 = set_series m_balance groupBalance lv credits c1;
          c3 = set_series m_threshold groupBalance lv threshold c2;
          ratio = (if flt (Fin 0) threshold then fdiv credits threshold else Fin 0);
          c4 = set_series m_ratio groupBalance lv ratio c3;
          c5 = set_series m_status groupBalance lv (if cr_need_alarm r then Fin 0 else Fin 1) c4
      in case cr_runway r of None \<Rightarrow> c5
         | Some rw \<Rightarrow>
             (let c6 = (case rw_burn_per_day rw of None \<Rightarrow> c5 | Some b \<Rightarrow> set_series m_burn_rate groupBalance lv b c5)
              in case rw_runway_days rw of None \<Rightarrow> c6 | Some d \<Rightarrow> set_series m_runway_days groupBalance lv d c6))"

text \<open>The loop over the results, with the balance series and the check series to keep.\<close>

fun balance_loop :: "check_result list \<Rightarrow> label_values set \<Rightarrow> label_values set \<Rightarrow> collector
    \<Rightarrow> label_values set \<times> label_values set \<times> collector" where
  "balance_loop [] keepB keepC c = (keepB, keepC, c)"
| "balance_loop (r # rs) keepB keepC c =
     (let lv = result_labels r in
      if cr_success r then balance_loop rs (insert lv keepB) (insert lv keepC) (recordBalance lv r c)
      else (let c1 = set_series m_check_status groupCheck lv (Fin 0) c;
                old = {l \<in> mc_series c1 groupBalance. fst l = fst lv \<and> fst (snd l) = fst (snd lv)}
            in balance_loop rs (keepB \<union> old) (insert lv keepC) c1))"

definition balance_metrics :: "gostring list" where
  "balance_metrics = [m_balance, m_threshold, m_ratio, m_status, m_burn_rate, m_runway_days]"

definition UpdateBalance :: "gotime \<Rightarrow> check_result list \<Rightarrow> collector \<Rightarrow> collector" where
  "UpdateBalance now results c =
     (let (keepB, keepC, c1) = balance_loop results {} {} c
      in gauge_set m_last_check [''balance''] (unixSeconds now)
           (prune groupCheck keepC [m_check_status] (prune groupBalance keepB balance_metrics c1)))"

definition sub_status :: "subscription_result \<Rightarrow> f64" where
  "sub_status r = (if sr_already_renewed r then Fin (-1) else if sr_need_alert r then Fin 0 else Fin 1)"

definition sub_labels :: "subscription_result \<Rightarrow> label_values" where
  "sub_labels r = (orUnknown (sr_name r), orDefault (sr_cycle_type r) CycleMonthly, [])"

definition record_sub :: "subscription_result \<Rightarrow> collector \<Rightarrow> collector" where
  "record_sub r c =
     set_series m_sub_status groupSubscription (sub_labels r) (sub_status r)
       (set_series m_sub_amount groupSubscription (sub_labels r) (sr_amount r)
         (set_series m_sub_days groupSubscription (sub_labels r) (f64_of_int (sr_days_until r)) c))"

definition UpdateSubscriptions :: "gotime \<Rightarrow> subscription_result list \<Rightarrow> collector \<Rightarrow> collector" where
  "UpdateSubscriptions now results c =
     gauge_set m_last_check [''subscription''] (unixSeconds now)
       (prune groupSubscription (sub_labels ` set results) [m_sub_days, m_sub_amount, m_sub_status]
         (fold record_sub results c))"

definition mailbox_labels :: "mailbox_result \<Rightarrow> label_values" where
  "mailbox_labels m = (orUnknown (mr_name m), [], [])"

definition record_mailbox :: "mailbox_result \<Rightarrow> collector \<Rightarrow> collector" where
  "record_mailbox m c =
     (let lv = mailbox_labels m; ok = (if mr_success m \<and> mr_error m = None then Fin 1 else Fin 0);
          c1 = set_series m_mailbox_status groupMailbox lv ok c;
          c2 = set_series m_scan_emails groupMailbox lv (f64_of_int (mr_total_emails m)) c1;
          c3 = set_series m_scan_alerts groupMailbox lv (f64_of_int (mr_alert_count m)) c2
      in counter_add ''quotapulse_email_alerts_total'' [fst lv] (f64_of_int (mr_alert_count m))
           (counter_add ''quotapulse_email_scan_total'' [fst lv] (f64_of_int (mr_total_emails m)) c3))"

definition UpdateEmailScan :: "gotime \<Rightarrow> scan_result \<Rightarrow> collector \<Rightarrow> collector" where
  "UpdateEmailScan now result c =
     gauge_set m_last_check [''email''] (unixSeconds now)
       (prune groupMailbox (mailbox_labels ` set (sc_mailboxes result)) [m_mailbox_status, m_scan_emails, m_scan_alerts]
         (fold record_mailbox (sc_mailboxes result) c))"

definition mx_RecordJobRun :: "gotime \<Rightarrow> gostring \<Rightarrow> bool \<Rightarrow> gotime \<Rightarrow> duration \<Rightarrow> collector \<Rightarrow> collector" where
  "mx_RecordJobRun now tsk success started dur c =
     (let ts = (if is_zero started then unixSeconds now else unixSeconds started);
          c1 = gauge_set ''quotapulse_job_last_run_timestamp'' [tsk] ts c;
          c2 = gauge_set ''quotapulse_job_last_duration_seconds'' [tsk] (dur_seconds dur) c1;
          c3 = gauge_set ''quotapulse_job_last_status'' [tsk] (if success then Fin 1 else Fin 0) c2;
          c4 = counter_add ''quotapulse_job_runs_total'' [tsk, if success then ''success'' else ''failed''] (Fin 1) c3
      in if success then gauge_set ''quotapulse_job_last_success_timestamp'' [tsk] ts c4 else c4)"

definition RecordNotification :: "gostring \<Rightarrow> bool \<Rightarrow> collector \<Rightarrow> collector" where
  "RecordNotification kind ok c =
     counter_add ''quotapulse_notifications_total'' [kind, if ok then ''success'' else ''failed''] (Fin 1) c"

text \<open>The request middleware: the count by route, method and status, where a handler that wrote no
  status (0) was answered with 200.\<close>

definition routeOf :: "gostring \<Rightarrow> gostring" where
  "routeOf pattern = (if pattern = [] then ''unmatched''
     else if CHR '' '' \<in> set pattern then tl (dropWhile (\<lambda>c. c \<noteq> CHR '' '') pattern) else pattern)"

definition count_request :: "gostring \<Rightarrow> gostring \<Rightarrow> int \<Rightarrow> collector \<Rightarrow> collector" where
  "count_request pattern meth status c =
     counter_add ''quotapulse_http_requests_total'' [routeOf pattern, meth, itoa (if status = 0 then 200 else status)] (Fin 1) c"

section \<open>What the updates leave\<close>

lemma gauge_set_gauge [simp]:
  "mc_gauges (gauge_set name ls v c) m ls' = (if m = name \<and> ls' = ls then Some v else mc_gauges c m ls')"
  "mc_series (gauge_set name ls v c) = mc_series c"
  by (simp_all add: gauge_set_def)

lemma counter_add_gauge [simp]:
  "mc_gauges (counter_add name ls v c) = mc_gauges c" "mc_series (counter_add name ls v c) = mc_series c"
  by (simp_all add: counter_add_def)

lemma set_series_gauge [simp]:
  "mc_gauges (set_series name g lv v c) m ls = (if m = name \<and> ls = first_labels (groupArity g) lv then Some v else mc_gauges c m ls)"
  "mc_series (set_series name g lv v c) g' = (if g' = g then insert lv (mc_series c g) else mc_series c g')"
  by (simp_all add: set_series_def Let_def)

lemma delete_gauges:
  "mc_gauges (fold (\<lambda>name. gauge_delete name gone) names c) m ls = (if m \<in> set names \<and> ls \<in> gone then None else mc_gauges c m ls)"
  "mc_series (fold (\<lambda>name. gauge_delete name gone) names c) = mc_series c"
  by (induction names arbitrary: c) (auto simp: gauge_delete_def)

lemma prune_gauge [simp]:
  "mc_gauges (prune g keep names c) m ls = (if m \<in> set names \<and> ls \<in> first_labels (groupArity g) ` (mc_series c g - keep) then None
     else mc_gauges c m ls)"
  "mc_series (prune g keep names c) g' = (if g' = g then keep else mc_series c g')"
  by (simp_all add: prune_def Let_def delete_gauges)

text \<open>What a successful result writes to a metric of the balance family.\<close>

definition written :: "gostring \<Rightarrow> check_result \<Rightarrow> f64 option" where
  "written m r =
     (if m = m_balance then Some (metric_value (cr_credits r))
      else if m = m_threshold then Some (metric_value (cr_threshold r))
      else if m = m_ratio then Some (if flt (Fin 0) (metric_value (cr_threshold r))
        then fdiv (metric_value (cr_credits r)) (metric_value (cr_threshold r)) else Fin 0)
      else if m = m_status then Some (if cr_need_alarm r then Fin 0 else Fin 1)
      else if m = m_burn_rate then (case cr_runway r of None \<Rightarrow> None | Some rw \<Rightarrow> rw_burn_per_day rw)
      else if m = m_runway_days then (case cr_runway r of None \<Rightarrow> None | Some rw \<Rightarrow> rw_runway_days rw)
      else None)"

lemma recordBalance_gauge:
  "mc_gauges (recordBalance lv r c) m ls = (if m = m_check_status \<and> ls = first_labels 3 lv then Some (Fin 1)
     else if ls = first_labels 3 lv \<and> written m r \<noteq> None then written m r else mc_gauges c m ls)"
  by (cases "cr_runway r") (auto simp: recordBalance_def Let_def written_def split: option.splits)

lemma recordBalance_series:
  "mc_series (recordBalance lv r c) g = (if g = groupBalance \<or> g = groupCheck then insert lv (mc_series c g) else mc_series c g)"
  by (auto simp: recordBalance_def Let_def split: option.splits)

lemma find_snoc_split: "find P (xs @ ys) = (case find P xs of None \<Rightarrow> find P ys | Some x \<Rightarrow> Some x)"
  by (induction xs) auto

lemma find_SomeD: "find P xs = Some x \<Longrightarrow> x \<in> set xs \<and> P x"
  by (induction xs) (auto split: if_splits)

definition same_account :: "label_values \<Rightarrow> label_values \<Rightarrow> bool" where
  "same_account a b \<longleftrightarrow> fst a = fst b \<and> fst (snd a) = fst (snd b)"

lemma first_labels_3 [simp]: "first_labels 3 a = first_labels 3 b \<longleftrightarrow> a = b"
  by (cases a; cases b) (simp add: first_labels_def)

lemma loop_gauge:
  "balance_loop rs kB kC c = (kB', kC', c') \<Longrightarrow> m \<noteq> m_check_status \<Longrightarrow>
   mc_gauges c' m (first_labels 3 lv) =
     (case find (\<lambda>r. cr_success r \<and> result_labels r = lv \<and> written m r \<noteq> None) (rev rs) of
        Some r \<Rightarrow> written m r | None \<Rightarrow> mc_gauges c m (first_labels 3 lv))"
proof (induction rs arbitrary: kB kC c)
  case (Cons r rs)
  show ?case
  proof (cases "cr_success r")
    case True
    with Cons(2) have "balance_loop rs (insert (result_labels r) kB) (insert (result_labels r) kC) (recordBalance (result_labels r) r c) = (kB', kC', c')"
      by (simp add: Let_def)
    from Cons(1) [OF this Cons(3)] show ?thesis using True Cons(3)
      by (auto simp: find_snoc_split recordBalance_gauge split: option.splits)
  next
    case False
    from Cons(2) obtain kB1 where "balance_loop rs kB1 (insert (result_labels r) kC) (set_series m_check_status groupCheck (result_labels r) (Fin 0) c) = (kB', kC', c')"
      using False by (auto simp: Let_def)
    from Cons(1) [OF this Cons(3)] show ?thesis using False Cons(3)
      by (auto simp: find_snoc_split split: option.splits)
  qed
qed simp

lemma loop_check_gauge:
  "balance_loop rs kB kC c = (kB', kC', c') \<Longrightarrow>
   mc_gauges c' m_check_status (first_labels 3 lv) =
     (case find (\<lambda>r. result_labels r = lv) (rev rs) of
        Some r \<Rightarrow> Some (if cr_success r then Fin 1 else Fin 0) | None \<Rightarrow> mc_gauges c m_check_status (first_labels 3 lv))"
proof (induction rs arbitrary: kB kC c)
  case (Cons r rs)
  show ?case
  proof (cases "cr_success r")
    case True
    with Cons(2) have "balance_loop rs (insert (result_labels r) kB) (insert (result_labels r) kC) (recordBalance (result_labels r) r c) = (kB', kC', c')"
      by (simp add: Let_def)
    from Cons(1) [OF this] show ?thesis using True
      by (auto simp: find_snoc_split recordBalance_gauge split: option.splits)
  next
    case False
    from Cons(2) obtain kB1 where "balance_loop rs kB1 (insert (result_labels r) kC) (set_series m_check_status groupCheck (result_labels r) (Fin 0) c) = (kB', kC', c')"
      using False by (auto simp: Let_def)
    from Cons(1) [OF this] show ?thesis using False
      by (auto simp: find_snoc_split split: option.splits)
  qed
qed simp

lemma loop_series:
  "balance_loop rs kB kC c = (kB', kC', c') \<Longrightarrow>
   kC' = kC \<union> result_labels ` set rs \<and> mc_series c' groupCheck = mc_series c groupCheck \<union> result_labels ` set rs
   \<and> mc_series c' groupBalance = mc_series c groupBalance \<union> result_labels ` {r \<in> set rs. cr_success r}
   \<and> kB' = kB \<union> result_labels ` {r \<in> set rs. cr_success r}
       \<union> {l \<in> mc_series c groupBalance. \<exists>r \<in> set rs. \<not> cr_success r \<and> same_account l (result_labels r)}
   \<and> mc_series c' groupSubscription = mc_series c groupSubscription \<and> mc_series c' groupMailbox = mc_series c groupMailbox"
proof (induction rs arbitrary: kB kC c)
  case (Cons r rs)
  show ?case
  proof (cases "cr_success r")
    case True
    with Cons(2) have "balance_loop rs (insert (result_labels r) kB) (insert (result_labels r) kC) (recordBalance (result_labels r) r c) = (kB', kC', c')"
      by (simp add: Let_def)
    from Cons(1) [OF this] True show ?thesis by (auto simp: recordBalance_series)
  next
    case False
    with Cons(2) have "balance_loop rs (kB \<union> {l \<in> mc_series c groupBalance. same_account l (result_labels r)}) (insert (result_labels r) kC)
        (set_series m_check_status groupCheck (result_labels r) (Fin 0) c) = (kB', kC', c')"
      by (simp add: Let_def same_account_def)
    from Cons(1) [OF this] False show ?thesis by auto
  qed
qed simp

section \<open>Every gauge has its series\<close>

definition covered :: "gostring \<Rightarrow> gostring list \<Rightarrow> collector \<Rightarrow> bool" where
  "covered g names c \<longleftrightarrow> (\<forall>m ls. m \<in> set names \<longrightarrow> mc_gauges c m ls \<noteq> None \<longrightarrow> ls \<in> first_labels (groupArity g) ` mc_series c g)"

definition sub_metrics :: "gostring list" where "sub_metrics = [m_sub_days, m_sub_amount, m_sub_status]"
definition mailbox_metrics :: "gostring list" where "mailbox_metrics = [m_mailbox_status, m_scan_emails, m_scan_alerts]"

definition collector_ok :: "collector \<Rightarrow> bool" where
  "collector_ok c \<longleftrightarrow> covered groupBalance balance_metrics c \<and> covered groupCheck [m_check_status] c
     \<and> covered groupSubscription sub_metrics c \<and> covered groupMailbox mailbox_metrics c
     \<and> (\<forall>lv \<in> mc_series c groupSubscription. snd (snd lv) = []) \<and> (\<forall>lv \<in> mc_series c groupMailbox. snd lv = ([], []))"

lemma covered_set_series:
  assumes "covered g names c" "name \<in> set names \<Longrightarrow> g' = g"
  shows "covered g names (set_series name g' lv v c)"
  using assms unfolding covered_def by (auto split: if_splits)

lemma covered_gauge_set: "covered g names c \<Longrightarrow> name \<notin> set names \<Longrightarrow> covered g names (gauge_set name ls v c)"
  by (auto simp: covered_def)

lemma covered_counter: "covered g names (counter_add name ls v c) \<longleftrightarrow> covered g names c"
  by (simp add: covered_def)

lemma covered_prune: "covered g names c \<Longrightarrow> covered g names (prune g keep names c)"
  by (auto simp: covered_def split: if_splits) blast

lemma covered_prune_other: "covered g names c \<Longrightarrow> g' \<noteq> g \<Longrightarrow> covered g names (prune g' keep names' c)"
  by (auto simp: covered_def)

lemma collector_ok_covered:
  "collector_ok c \<Longrightarrow> m \<in> set balance_metrics \<Longrightarrow> lv \<notin> mc_series c groupBalance \<Longrightarrow> mc_gauges c m (first_labels 3 lv) = None"
  "collector_ok c \<Longrightarrow> lv \<notin> mc_series c groupCheck \<Longrightarrow> mc_gauges c m_check_status (first_labels 3 lv) = None"
  by (fastforce simp: collector_ok_def covered_def)+

lemma covered_record:
  "covered groupBalance balance_metrics c \<Longrightarrow> covered groupBalance balance_metrics (recordBalance lv r c)"
  "covered groupCheck [m_check_status] c \<Longrightarrow> covered groupCheck [m_check_status] (recordBalance lv r c)"
  "covered groupSubscription sub_metrics c \<Longrightarrow> covered groupSubscription sub_metrics (recordBalance lv r c)"
  "covered groupMailbox mailbox_metrics c \<Longrightarrow> covered groupMailbox mailbox_metrics (recordBalance lv r c)"
  unfolding recordBalance_def Let_def
  by (auto intro!: covered_set_series simp: balance_metrics_def sub_metrics_def mailbox_metrics_def split: option.splits)

lemma covered_loop:
  "balance_loop rs kB kC c = (kB', kC', c') \<Longrightarrow> collector_ok c \<Longrightarrow> collector_ok c'"
proof (induction rs arbitrary: kB kC c)
  case (Cons r rs)
  show ?case
  proof (cases "cr_success r")
    case True
    have "collector_ok (recordBalance (result_labels r) r c)"
      using Cons(3) covered_record by (simp add: collector_ok_def recordBalance_series)
    with Cons True show ?thesis by (simp add: Let_def)
  next
    case False
    have "collector_ok (set_series m_check_status groupCheck (result_labels r) (Fin 0) c)"
      using Cons(3) by (auto simp: collector_ok_def balance_metrics_def sub_metrics_def mailbox_metrics_def intro!: covered_set_series)
    with Cons False show ?thesis by (auto simp: Let_def)
  qed
qed simp

lemma ok_prune:
  assumes "collector_ok c" "keep \<subseteq> mc_series c g"
    and "g = groupBalance \<or> g = groupCheck \<or> g = groupSubscription \<or> g = groupMailbox"
    and "g = groupBalance \<Longrightarrow> names = balance_metrics" "g = groupCheck \<Longrightarrow> names = [m_check_status]"
      "g = groupSubscription \<Longrightarrow> names = sub_metrics" "g = groupMailbox \<Longrightarrow> names = mailbox_metrics"
  shows "collector_ok (prune g keep names c)"
  using assms unfolding collector_ok_def by (auto intro: covered_prune covered_prune_other)

lemma ok_last_check: "collector_ok c \<Longrightarrow> collector_ok (gauge_set m_last_check ls v c)"
  by (auto simp: collector_ok_def balance_metrics_def sub_metrics_def mailbox_metrics_def intro!: covered_gauge_set)

lemma ok_UpdateBalance:
  assumes "collector_ok c"
  shows "collector_ok (UpdateBalance now rs c)"
proof -
  obtain kB kC c1 where l: "balance_loop rs {} {} c = (kB, kC, c1)" by (metis prod_cases3)
  have k: "kB \<subseteq> mc_series c1 groupBalance" "kC \<subseteq> mc_series c1 groupCheck" using loop_series [OF l] by auto
  have "collector_ok (prune groupBalance kB balance_metrics c1)"
    by (rule ok_prune [OF covered_loop [OF l assms] k(1)]) simp_all
  then have "collector_ok (prune groupCheck kC [m_check_status] (prune groupBalance kB balance_metrics c1))"
    by (rule ok_prune) (use k in simp_all)
  then show ?thesis by (simp add: UpdateBalance_def l ok_last_check)
qed

lemma record_sub_series:
  "mc_series (fold record_sub rs c) g = (if g = groupSubscription then mc_series c g \<union> sub_labels ` set rs else mc_series c g)"
  by (induction rs arbitrary: c) (auto simp: record_sub_def)

lemma record_mailbox_series:
  "mc_series (fold record_mailbox ms c) g = (if g = groupMailbox then mc_series c g \<union> mailbox_labels ` set ms else mc_series c g)"
  by (induction ms arbitrary: c) (auto simp: record_mailbox_def Let_def)

lemma ok_record_sub: "collector_ok c \<Longrightarrow> collector_ok (record_sub r c)"
  unfolding collector_ok_def record_sub_def
  by (auto intro!: covered_set_series simp: balance_metrics_def sub_metrics_def mailbox_metrics_def sub_labels_def)

lemma ok_record_mailbox: "collector_ok c \<Longrightarrow> collector_ok (record_mailbox r c)"
  unfolding collector_ok_def record_mailbox_def Let_def
  by (auto intro!: covered_set_series simp: covered_counter balance_metrics_def sub_metrics_def mailbox_metrics_def mailbox_labels_def)

lemma ok_fold_sub: "collector_ok c \<Longrightarrow> collector_ok (fold record_sub rs c)"
  by (induction rs arbitrary: c) (auto intro: ok_record_sub)

lemma ok_fold_mailbox: "collector_ok c \<Longrightarrow> collector_ok (fold record_mailbox rs c)"
  by (induction rs arbitrary: c) (auto intro: ok_record_mailbox)

lemma ok_UpdateSubscriptions: "collector_ok c \<Longrightarrow> collector_ok (UpdateSubscriptions now rs c)"
  unfolding UpdateSubscriptions_def
  by (intro ok_last_check ok_prune ok_fold_sub) (auto simp: record_sub_series sub_metrics_def)

lemma ok_UpdateEmailScan: "collector_ok c \<Longrightarrow> collector_ok (UpdateEmailScan now r c)"
  unfolding UpdateEmailScan_def
  by (intro ok_last_check ok_prune ok_fold_mailbox) (auto simp: record_mailbox_series mailbox_metrics_def)

lemma ok_counter: "collector_ok (counter_add n ls v c) \<longleftrightarrow> collector_ok c"
  by (simp add: collector_ok_def covered_counter)

lemma ok_gauge_set: "collector_ok c \<Longrightarrow> name \<notin> set (balance_metrics @ m_check_status # sub_metrics @ mailbox_metrics) \<Longrightarrow> collector_ok (gauge_set name ls v c)"
  by (simp add: collector_ok_def covered_gauge_set)

lemma job_metrics:
  "list_all (\<lambda>name. name \<notin> set (balance_metrics @ m_check_status # sub_metrics @ mailbox_metrics))
     [''quotapulse_job_last_run_timestamp'', ''quotapulse_job_last_duration_seconds'', ''quotapulse_job_last_status'',
      ''quotapulse_job_last_success_timestamp'']"
  by code_simp

lemma ok_job: "collector_ok c \<Longrightarrow> collector_ok (mx_RecordJobRun now tsk ok started dur c)"
proof -
  assume "collector_ok c"
  moreover note job_metrics [unfolded list.pred_inject]
  ultimately show ?thesis unfolding mx_RecordJobRun_def Let_def
    by (simp only: ok_counter ok_gauge_set simp_thms if_True if_False split: if_split)
qed

inductive mx_step :: "collector \<Rightarrow> collector \<Rightarrow> bool" where
  balance: "mx_step c (UpdateBalance now rs c)"
| subscriptions: "mx_step c (UpdateSubscriptions now subs c)"
| email: "mx_step c (UpdateEmailScan now scan c)"
| job: "mx_step c (mx_RecordJobRun now tsk ok started dur c)"
| notification: "mx_step c (RecordNotification kind ok c)"
| request: "mx_step c (count_request pattern meth status c)"

inductive mx_reachable :: "collector \<Rightarrow> bool" where
  start: "mx_reachable new_collector"
| step: "mx_reachable c \<Longrightarrow> mx_step c c' \<Longrightarrow> mx_reachable c'"

lemma mx_reachable_ok: "mx_reachable c \<Longrightarrow> collector_ok c"
proof (induction rule: mx_reachable.induct)
  case start
  show ?case by (simp add: collector_ok_def covered_def new_collector_def)
next
  case (step c c')
  from step(2,3) show ?case
    by cases (simp_all add: ok_UpdateBalance ok_UpdateSubscriptions ok_UpdateEmailScan ok_job RecordNotification_def count_request_def ok_counter)
qed

lemma UpdateBalance_values:
  assumes "mx_reachable c" "m \<in> set balance_metrics"
  shows "mc_gauges (UpdateBalance now rs c) m (first_labels 3 lv) =
    (case find (\<lambda>r. cr_success r \<and> result_labels r = lv \<and> written m r \<noteq> None) (rev rs) of
       Some r \<Rightarrow> written m r
     | None \<Rightarrow> if \<exists>r \<in> set rs. if cr_success r then result_labels r = lv else same_account lv (result_labels r)
         then mc_gauges c m (first_labels 3 lv) else None)"
proof -
  obtain kB kC c1 where l: "balance_loop rs {} {} c = (kB, kC, c1)" by (metis prod_cases3)
  have m: "m \<noteq> m_check_status" "m \<noteq> m_last_check" using assms(2) by (auto simp: balance_metrics_def)
  let ?found = "find (\<lambda>r. cr_success r \<and> result_labels r = lv \<and> written m r \<noteq> None) (rev rs)"
  note ser = loop_series [OF l]
  have u: "mc_gauges (UpdateBalance now rs c) m (first_labels 3 lv) =
      (if lv \<in> mc_series c1 groupBalance - kB then None else mc_gauges c1 m (first_labels 3 lv))"
    using m assms(2) by (auto simp: UpdateBalance_def l)
  show ?thesis
  proof (cases "?found")
    case (Some r)
    then have "r \<in> set rs" "cr_success r" "result_labels r = lv" by (auto dest!: find_SomeD)
    then have "lv \<in> kB" using ser by auto
    then show ?thesis using u loop_gauge [OF l m(1), of lv] Some by simp
  next
    case None
    have "lv \<notin> mc_series c groupBalance \<Longrightarrow> mc_gauges c m (first_labels 3 lv) = None"
      using collector_ok_covered(1) [OF mx_reachable_ok [OF assms(1)] assms(2)] .
    then show ?thesis using u loop_gauge [OF l m(1), of lv] None ser
      by (auto simp: image_iff)
  qed
qed

section \<open>Properties\<close>

text \<open>C29: Whatever was recorded before, after a balance round a gauge of the balance family shows for an
  account the value of its last successful result that has one; an account without such a result
  keeps its old value when it was checked, or when another check of the same project and provider
  failed, and else it has none.\<close>

theorem UpdateBalance_gauges:
  assumes "mx_reachable c" "m \<in> set balance_metrics"
  shows "mc_gauges (UpdateBalance now rs c) m (first_labels 3 lv) =
    (case find (\<lambda>r. cr_success r \<and> result_labels r = lv \<and> written m r \<noteq> None) (rev rs) of
       Some r \<Rightarrow> written m r
     | None \<Rightarrow> if \<exists>r \<in> set rs. if cr_success r then result_labels r = lv else same_account lv (result_labels r)
         then mc_gauges c m (first_labels 3 lv) else None)"
  using assms by (rule UpdateBalance_values)

text \<open>The check gauge shows the outcome of an account's last result and has no series for an account
  that was not in the round.\<close>

theorem UpdateBalance_check:
  assumes "mx_reachable c"
  shows "mc_gauges (UpdateBalance now rs c) m_check_status (first_labels 3 lv) =
    map_option (\<lambda>r. if cr_success r then Fin 1 else Fin 0) (find (\<lambda>r. result_labels r = lv) (rev rs))"
proof -
  obtain kB kC c1 where l: "balance_loop rs {} {} c = (kB, kC, c1)" by (metis prod_cases3)
  note ser = loop_series [OF l]
  have u: "mc_gauges (UpdateBalance now rs c) m_check_status (first_labels 3 lv) =
      (if lv \<in> mc_series c1 groupCheck - kC then None else mc_gauges c1 m_check_status (first_labels 3 lv))"
    by (auto simp: UpdateBalance_def l balance_metrics_def)
  show ?thesis
  proof (cases "find (\<lambda>r. result_labels r = lv) (rev rs)")
    case (Some r)
    then have "r \<in> set rs" "result_labels r = lv" by (auto dest!: find_SomeD)
    then show ?thesis using u loop_check_gauge [OF l, of lv] Some ser by auto
  next
    case None
    then have "lv \<notin> result_labels ` set rs" by (auto simp: find_None_iff)
    then show ?thesis
      using u loop_check_gauge [OF l, of lv] None ser collector_ok_covered(2) [OF mx_reachable_ok [OF assms], of lv] by auto
  qed
qed

lemma record_subs_gauge:
  "mc_gauges (fold record_sub rs c) m_sub_days (first_labels 2 (a, b, [])) =
     (case find (\<lambda>r. sub_labels r = (a, b, [])) (rev rs) of Some r \<Rightarrow> Some (f64_of_int (sr_days_until r))
       | None \<Rightarrow> mc_gauges c m_sub_days (first_labels 2 (a, b, [])))"
  "mc_gauges (fold record_sub rs c) m_sub_status (first_labels 2 (a, b, [])) =
     (case find (\<lambda>r. sub_labels r = (a, b, [])) (rev rs) of Some r \<Rightarrow> Some (sub_status r)
       | None \<Rightarrow> mc_gauges c m_sub_status (first_labels 2 (a, b, [])))"
  by (induction rs arbitrary: c) (auto simp: record_sub_def find_snoc_split sub_labels_def first_labels_def split: option.splits)

text \<open>After a subscription round the gauges show exactly the subscriptions of the round: the days to
  the renewal and the status of the last result with those labels, and nothing for any other.\<close>

theorem UpdateSubscriptions_gauges:
  assumes "mx_reachable c"
  shows "mc_gauges (UpdateSubscriptions now rs c) m_sub_days [name, cycle] =
      map_option (\<lambda>r. f64_of_int (sr_days_until r)) (find (\<lambda>r. sub_labels r = (name, cycle, [])) (rev rs))
    \<and> mc_gauges (UpdateSubscriptions now rs c) m_sub_status [name, cycle] =
      map_option sub_status (find (\<lambda>r. sub_labels r = (name, cycle, [])) (rev rs))"
proof -
  let ?lv = "(name, cycle, [])" and ?c1 = "fold record_sub rs c"
  have fl: "[name, cycle] = first_labels 2 ?lv" by (simp add: first_labels_def)
  have ok: "collector_ok c" by (rule mx_reachable_ok [OF assms])
  have key: "first_labels 2 ?lv = first_labels 2 l \<longleftrightarrow> l = ?lv" if "snd (snd l) = []" for l
    using that by (cases l) (auto simp: first_labels_def)
  have gone: "first_labels 2 ?lv \<in> first_labels 2 ` (mc_series ?c1 groupSubscription - sub_labels ` set rs) \<longleftrightarrow>
      ?lv \<in> mc_series c groupSubscription - sub_labels ` set rs"
    using ok key by (auto simp: record_sub_series collector_ok_def image_iff)
  have none: "?lv \<notin> mc_series c groupSubscription \<Longrightarrow> m \<in> set sub_metrics \<Longrightarrow> mc_gauges c m (first_labels 2 ?lv) = None" for m
  proof (rule ccontr)
    assume a: "?lv \<notin> mc_series c groupSubscription" "m \<in> set sub_metrics" "mc_gauges c m (first_labels 2 ?lv) \<noteq> None"
    then have "first_labels 2 ?lv \<in> first_labels 2 ` mc_series c groupSubscription" using ok by (auto simp: collector_ok_def covered_def)
    then show False using a(1) ok key by (auto simp: collector_ok_def)
  qed
  have found: "find (\<lambda>r. sub_labels r = ?lv) (rev rs) = None \<longleftrightarrow> ?lv \<notin> sub_labels ` set rs"
    by (fastforce simp: find_None_iff image_iff)
  show ?thesis unfolding fl
    using gone none [of m_sub_days] none [of m_sub_status] found record_subs_gauge [of rs c name cycle]
    by (auto simp: UpdateSubscriptions_def sub_metrics_def split: option.splits)
qed

text \<open>An account whose spending profile has gone, because nothing is being spent any more or its
  history is too short, keeps the runway of its last profile on the gauge as long as its checks
  succeed.\<close>

theorem runway_gauge_outlives_profile:
  assumes "mx_reachable c" "cr_success r" "cr_runway r = None"
  shows "mc_gauges (UpdateBalance now [r] c) m_runway_days (first_labels 3 (result_labels r))
    = mc_gauges c m_runway_days (first_labels 3 (result_labels r))"
  using UpdateBalance_values [OF assms(1), of m_runway_days now "[r]" "result_labels r"] assms(2,3)
  by (simp add: balance_metrics_def written_def)

section \<open>Witnesses\<close>

definition demo_result :: check_result where
  "demo_result = \<lparr>cr_project = ''prod'', cr_owner = None, cr_provider = ''glm'', cr_type = ''credits'', cr_success = True,
     cr_credits = Some (Fin 3), cr_threshold = Some (Fin 5), cr_need_alarm = True, cr_alarm_sent = False, cr_error = None,
     cr_cached = False, cr_runway = None, cr_checked_at = None, cr_latency_ms = None\<rparr>"

definition failed_result :: check_result where
  "failed_result = demo_result\<lparr>cr_success := False, cr_credits := None, cr_error := Some ''x''\<rparr>"

definition demo_key :: label_values where "demo_key = (''prod'', ''glm'', ''credits'')"

lemma demo_labels: "result_labels demo_result = demo_key" "result_labels failed_result = demo_key"
  by (simp_all add: result_labels_def demo_result_def failed_result_def orUnknown_def orDefault_def demo_key_def)

lemma demo_fields [simp]:
  "cr_success demo_result" "cr_runway demo_result = None" "\<not> cr_success failed_result"
  "written m_balance demo_result = Some (Fin 3)"
  by (simp_all add: demo_result_def failed_result_def written_def metric_value_def)

text \<open>A failed check keeps the last known balance.\<close>

theorem UpdateBalance_gauges_witness:
  "mc_gauges (UpdateBalance (utc_at 0) [failed_result] (UpdateBalance (utc_at 0) [demo_result] new_collector)) m_balance (first_labels 3 demo_key) = Some (Fin 3)"
proof -
  have r: "mx_reachable (UpdateBalance (utc_at 0) [demo_result] new_collector)" by (rule mx_reachable.step [OF mx_reachable.start mx_step.balance])
  have m: "m_balance \<in> set balance_metrics" by (simp add: balance_metrics_def)
  have 1: "mc_gauges (UpdateBalance (utc_at 0) [demo_result] new_collector) m_balance (first_labels 3 demo_key) = Some (Fin 3)"
    using UpdateBalance_gauges [OF mx_reachable.start m, of "utc_at 0" "[demo_result]" demo_key] by (simp add: demo_labels)
  show ?thesis
    using UpdateBalance_gauges [OF r m, of "utc_at 0" "[failed_result]" demo_key] 1 by (simp add: demo_labels same_account_def)
qed

theorem UpdateBalance_check_witness:
  "mc_gauges (UpdateBalance (utc_at 0) [failed_result] new_collector) m_check_status (first_labels 3 demo_key) = Some (Fin 0)"
  using UpdateBalance_check [OF mx_reachable.start, of "utc_at 0" "[failed_result]" demo_key] by (simp add: demo_labels)

theorem UpdateSubscriptions_gauges_witness:
  "mc_gauges (UpdateSubscriptions (utc_at 0) [] new_collector) m_sub_days [''Plan'', ''monthly''] = None"
  using UpdateSubscriptions_gauges [OF mx_reachable.start, of "utc_at 0" "[]" "''Plan''" "''monthly''"] by simp

theorem runway_gauge_outlives_profile_witness:
  "mc_gauges (UpdateBalance (utc_at 0) [demo_result] new_collector) m_runway_days (first_labels 3 demo_key) = None"
  using runway_gauge_outlives_profile [OF mx_reachable.start, of demo_result "utc_at 0"]
  by (simp add: demo_labels) (simp add: new_collector_def)

end
