(* ===== verification/McpStatus.thy ===== *)
theory McpStatus
  imports State Settings McpKeys Paging Trend Provider Cost SubscriptionCheck "HOL-Library.Sublist"
begin

text \<open>
  The live half of the MCP server (\<open>internal/mcpserver\<close>: \<open>views.go\<close>, \<open>status.go\<close>, the shared parts of
  \<open>server.go\<close>): the shapes of the results, the masking and classification helpers, and the views of
  balances, subscriptions, the mailbox scan, jobs, health and capabilities.  A request reads the
  runtime state, the settings, the configuration and one reading of the clock; the history is theory
  \<open>McpHistory\<close>.
\<close>

section \<open>Result shapes\<close>

record meta =
  me_as_of :: gostring
  me_timezone :: gostring
  me_data_updated_at :: "gostring option"
  me_data_age_seconds :: "int option"
  me_is_stale :: bool
  me_source :: gostring
  me_truncated :: bool

record error_info =
  ei_category :: gostring
  ei_message :: gostring
  ei_retryable :: bool
  ei_retry_after :: "int option"
  ei_provider :: gostring
  ei_used_cached :: bool

definition unitBalance :: gostring where "unitBalance = ''account currency, as the provider reports it (not converted)''"
definition unitCredits :: gostring where "unitCredits = ''provider credits''"
definition unitQuota :: gostring where "unitQuota = ''percent of the plan remaining, 0-100''"

definition unitOf :: "gostring \<Rightarrow> gostring" where
  "unitOf ty = (if ty = ''credits'' then unitCredits else if ty = ''quota'' then unitQuota else unitBalance)"

record balance_counts =
  bn_total :: nat
  bn_healthy :: nat
  bn_below :: nat
  bn_failed :: nat
  bn_disabled :: nat

record runway_view =
  rv_days :: "f64 option"
  rv_depletion :: "gostring option"
  rv_burn :: "f64 option"
  rv_monthly :: "f64 option"
  rv_confidence :: gostring
  rv_window_days :: int
  rv_topped_up :: f64
  rv_spike :: "f64 option"

record check_view =
  cv_status :: gostring
  cv_checked_at :: "gostring option"
  cv_latency :: "int option"
  cv_cached :: bool
  cv_error :: "error_info option"

record project_status =
  ps_id :: gostring
  ps_name :: gostring
  ps_provider :: gostring
  ps_owner :: "gostring option"
  ps_type :: gostring
  ps_unit :: gostring
  ps_status :: gostring
  ps_balance :: "f64 option"
  ps_threshold :: "f64 option"
  ps_alert_sent :: bool
  ps_runway :: "runway_view option"
  ps_runway_note :: gostring
  ps_check :: check_view

record balance_status_output =
  bo_meta :: meta
  bo_counts :: balance_counts
  bo_projects :: "project_status list"

record reminder_view =
  rm_due :: bool
  rm_state :: gostring
  rm_next_eligible :: "gostring option"
  rm_snoozed_until :: "gostring option"
  rm_last_error :: "gostring option"

record subscription_view =
  sv_id :: gostring
  sv_name :: gostring
  sv_owner :: "gostring option"
  sv_cycle :: gostring
  sv_renewal_day :: int
  sv_next_date :: gostring
  sv_days :: int
  sv_amount :: f64
  sv_renewed :: bool
  sv_last_renewed :: "gostring option"
  sv_reminder :: reminder_view

record subscription_status_output =
  so_meta :: meta
  so_total :: nat
  so_due :: nat
  so_renewed :: nat
  so_subscriptions :: "subscription_view list"

record mailbox_scan_view =
  mv_name :: gostring
  mv_host :: gostring
  mv_port :: int
  mv_username :: gostring
  mv_success :: bool
  mv_error :: "gostring option"
  mv_total_emails :: int
  mv_alert_count :: int

record email_scan_output =
  eo_meta :: meta
  eo_status :: gostring
  eo_reason :: gostring
  eo_days :: "int option"
  eo_dry_run :: "bool option"
  eo_mailboxes :: "mailbox_scan_view list"
  eo_alerts :: "email_alert list"
  eo_summary :: email_summary
  eo_last_scan :: "gostring option"

record job_view =
  jv_name :: gostring
  jv_description :: gostring
  jv_schedule :: gostring
  jv_enabled :: bool
  jv_status :: gostring
  jv_reason :: gostring
  jv_next_run :: "gostring option"
  jv_last_run :: "gostring option"
  jv_last_success :: "gostring option"
  jv_last_error :: "gostring option"
  jv_last_duration :: "f64 option"
  jv_runs :: nat
  jv_failures :: nat

record job_status_output =
  jo_meta :: meta
  jo_healthy :: bool
  jo_jobs :: "job_view list"

record health_output =
  ho_meta :: meta
  ho_status :: gostring
  ho_version :: gostring
  ho_has_data :: bool
  ho_is_stale :: bool
  ho_last_update :: "gostring option"
  ho_jobs_healthy :: bool
  ho_failed_jobs :: "gostring list"
  ho_jobs :: "job_view list"
  ho_uptime :: f64

record capabilities_output =
  co_meta :: meta
  co_version :: gostring
  co_features :: "(gostring \<times> bool) list"
  co_counts :: "(gostring \<times> nat) list"
  co_caller :: gostring
  co_scopes :: "gostring list"

section \<open>Masking and classification\<close>

definition maskEmail :: "gostring \<Rightarrow> gostring" where
  "maskEmail address = (case cut address ''@'' of
       None \<Rightarrow> if length address \<le> 2 then ''***'' else take 1 address @ ''***''
     | Some (loc, dmn) \<Rightarrow> if loc = [] then ''***@'' @ dmn else take 1 loc @ ''***@'' @ dmn)"

definition mentions :: "gostring \<Rightarrow> gostring list \<Rightarrow> bool" where
  "mentions s words = list_ex (\<lambda>w. sublist w s) words"

definition classifyCheckError :: "gostring \<Rightarrow> gostring \<times> bool" where
  "classifyCheckError message =
     (let s = to_lower message in
      if mentions s [''unknown provider'', ''invalid api key format'', ''api key format''] then (''config'', False)
      else if mentions s [''http 401'', ''http 403'', ''unauthorized'', ''forbidden'', ''invalid key'', ''invalid api key'',
        ''invalid token'', ''access key'', ''accesskey'', ''authentication'', ''invalid ak'', ''signature''] then (''auth'', False)
      else if mentions s [''http 429'', ''too many requests'', ''rate limit'', ''throttl''] then (''rate_limited'', True)
      else if mentions s [''timeout'', ''timed out'', ''deadline exceeded'', ''connection refused'', ''connection reset'',
        ''no such host'', ''tls'', ''eof'', ''network''] then (''network'', True)
      else if mentions s [''http 5'', ''service unavailable'', ''bad gateway'', ''internal server error''] then (''provider'', True)
      else if mentions s [''not valid json'', ''could not parse'', ''parse'', ''missing'', ''unexpected''] then (''invalid_response'', False)
      else (''provider'', True))"

section \<open>What a request reads\<close>

record 'd deps =
  dp_settings :: settings
  dp_runtime :: "'d manager"
  dp_history :: bool
  dp_config :: config
  dp_caller :: mcp_caller
  dp_now :: int
  dp_local :: zone
  dp_local_name :: gostring

definition allows :: "'d deps \<Rightarrow> gostring list \<Rightarrow> bool" where
  "allows d scopes = list_all (Allows (dp_caller d)) scopes"

definition timezoneName :: "'d deps \<Rightarrow> gostring" where
  "timezoneName d = (if dp_local_name d \<noteq> ''Local'' then dp_local_name d
     else let off = dp_local d (dp_now d div second); mins = \<bar>off\<bar> div 60
       in ''UTC'' @ (if off < 0 then ''-'' else ''+'') @ pad_int 2 (mins div 60) @ '':'' @ pad_int 2 (mins mod 60))"

definition isStale :: "gostring option \<Rightarrow> int \<Rightarrow> int \<Rightarrow> bool" where
  "isStale last_update refresh now = (case last_update of None \<Rightarrow> False
     | Some s \<Rightarrow> if refresh \<le> 0 then False
         else case parse_rfc3339 s of None \<Rightarrow> False | Some t \<Rightarrow> wrap64 (wrap64 (3 * refresh) * second) < ns_sub now t)"

definition seconds_between :: "int \<Rightarrow> int \<Rightarrow> int" where
  "seconds_between a b = max 0 (f64_to_int64 (dur_seconds (ns_sub a b)))"

definition make_meta :: "'d deps \<Rightarrow> gostring \<Rightarrow> gostring option \<Rightarrow> meta" where
  "make_meta d source updated_at =
     (let parsed = (case updated_at of None \<Rightarrow> None | Some s \<Rightarrow> parse_rfc3339 s)
      in \<lparr>me_as_of = fmt_utc_rfc3339 (dp_now d), me_timezone = timezoneName d,
          me_data_updated_at = (if parsed = None then None else updated_at),
          me_data_age_seconds = map_option (\<lambda>t. seconds_between (dp_now d) t) parsed,
          me_is_stale = isStale (bst_last_update (Balance (dp_runtime d))) (RefreshInterval (dp_settings d)) (dp_now d),
          me_source = source, me_truncated = False\<rparr>)"

definition next_refresh :: "'d job \<Rightarrow> int option" where
  "next_refresh j = (if job_name j \<noteq> ''dashboard_refresh'' then None
     else case job_next_run j of None \<Rightarrow> None | Some s \<Rightarrow> parse_rfc3339 s)"

definition secondsUntilNextCheck :: "'d deps \<Rightarrow> int option" where
  "secondsUntilNextCheck d =
     (case List.map_filter next_refresh (js_jobs (Jobs (dp_runtime d))) of
        [] \<Rightarrow> None | t # _ \<Rightarrow> Some (seconds_between t (dp_now d)))"

definition optional_str :: "gostring \<Rightarrow> gostring option" where
  "optional_str s = (if s = [] then None else Some s)"

definition nonZero :: "f64 \<Rightarrow> f64 option" where
  "nonZero v = (if feq v (Fin 0) then None else Some v)"

section \<open>Balances\<close>

definition checkError :: "'d deps \<Rightarrow> check_result \<Rightarrow> error_info" where
  "checkError d r =
     (let message = (case cr_error r of Some e \<Rightarrow> if e \<noteq> [] then e else ''The balance check failed''
          | None \<Rightarrow> ''The balance check failed'');
          (category, retryable) = classifyCheckError message
      in \<lparr>ei_category = category, ei_message = message, ei_retryable = retryable,
          ei_retry_after = (if retryable then secondsUntilNextCheck d else None),
          ei_provider = cr_provider r, ei_used_cached = cr_cached r\<rparr>)"

definition runwayView :: "'d deps \<Rightarrow> check_result \<Rightarrow> runway_view option \<times> gostring" where
  "runwayView d r =
     (if \<not> cr_success r then (None, ''no estimate while the balance can't be read'')
      else if cr_type r = TypeQuota then (None, ''quota plans are not estimated; they reset on the provider's schedule'')
      else case cr_runway r of
          None \<Rightarrow> if \<not> dp_history d then (None, ''estimates need balance history; set ENABLE_DATABASE=true'')
            else (None, ''not enough balance history yet; estimates appear after a few hours of checks'')
        | Some rw \<Rightarrow>
            if rw_confidence rw = ConfidenceNone
            then (None, ''not enough balance history yet; estimates appear after a few hours of checks'')
            else (Some \<lparr>rv_days = rw_runway_days rw, rv_depletion = rw_depletion_date rw, rv_burn = rw_burn_per_day rw,
              rv_monthly = rw_monthly_projection rw, rv_confidence = rw_confidence rw, rv_window_days = rw_window_days rw,
              rv_topped_up = rw_topped_up rw, rv_spike = rw_spike_ratio rw\<rparr>, []))"

definition projectStatus :: "'d deps \<Rightarrow> check_result \<Rightarrow> project_status" where
  "projectStatus d r =
     \<lparr>ps_id = project_id (cr_provider r) (cr_project r), ps_name = cr_project r, ps_provider = cr_provider r,
      ps_owner = cr_owner r, ps_type = cr_type r, ps_unit = unitOf (cr_type r),
      ps_status = (if \<not> cr_success r then ''check_failed'' else if cr_need_alarm r then ''below_threshold'' else ''healthy''),
      ps_balance = cr_credits r, ps_threshold = cr_threshold r, ps_alert_sent = cr_alarm_sent r,
      ps_runway = fst (runwayView d r), ps_runway_note = snd (runwayView d r),
      ps_check = \<lparr>cv_status = (if cr_success r then ''ok'' else ''failed''), cv_checked_at = cr_checked_at r,
        cv_latency = cr_latency_ms r, cv_cached = cr_cached r,
        cv_error = (if cr_success r then None else Some (checkError d r))\<rparr>\<rparr>"

definition disabled_status :: "project \<Rightarrow> project_status" where
  "disabled_status c =
     \<lparr>ps_id = project_ID c, ps_name = pj_name c, ps_provider = pj_provider c, ps_owner = pj_owner c, ps_type = pj_type c,
      ps_unit = unitOf (pj_type c), ps_status = ''disabled'', ps_balance = None, ps_threshold = Some (pj_threshold c),
      ps_alert_sent = False, ps_runway = None, ps_runway_note = ''disabled projects are not checked'',
      ps_check = \<lparr>cv_status = ''disabled'', cv_checked_at = None, cv_latency = None, cv_cached = False, cv_error = None\<rparr>\<rparr>"

record balance_status_input =
  bi_project :: gostring
  bi_ids :: "gostring list"
  bi_names :: "gostring list"
  bi_provider :: gostring
  bi_owner :: gostring
  bi_status :: gostring
  bi_include_disabled :: bool

definition no_filter :: balance_status_input where
  "no_filter = \<lparr>bi_project = [], bi_ids = [], bi_names = [], bi_provider = [], bi_owner = [], bi_status = [],
     bi_include_disabled = False\<rparr>"

definition keeps :: "balance_status_input \<Rightarrow> project_status \<Rightarrow> bool" where
  "keeps f p \<longleftrightarrow> (let name = to_lower (trim_space (bi_project f)) in
     (name = [] \<or> sublist name (to_lower (ps_name p)))
     \<and> (bi_ids f = [] \<or> ps_id p \<in> set (bi_ids f)) \<and> (bi_names f = [] \<or> ps_name p \<in> set (bi_names f))
     \<and> (bi_provider f = [] \<or> ps_provider p = bi_provider f)
     \<and> (bi_owner f = [] \<or> ps_owner p = Some (bi_owner f))
     \<and> (bi_status f = [] \<or> ps_status p = bi_status f))"

definition count_status :: "gostring \<Rightarrow> project_status list \<Rightarrow> nat" where
  "count_status st ps = length (filter (\<lambda>p. ps_status p = st) ps)"

definition countBalances :: "project_status list \<Rightarrow> balance_counts" where
  "countBalances ps = \<lparr>bn_total = length ps, bn_healthy = count_status ''healthy'' ps,
     bn_below = count_status ''below_threshold'' ps, bn_failed = count_status ''check_failed'' ps,
     bn_disabled = count_status ''disabled'' ps\<rparr>"

definition balanceStatus :: "'d deps \<Rightarrow> balance_status_input \<Rightarrow> balance_status_output" where
  "balanceStatus d f =
     (let snapshot = Balance (dp_runtime d);
          live = map (projectStatus d) (bst_projects snapshot);
          seen = set (map ps_id live);
          off = (if bi_include_disabled f \<or> bi_status f = ''disabled''
            then map disabled_status (filter (\<lambda>c. \<not> (pj_enabled c \<or> project_ID c \<in> seen)) (cf_projects (dp_config d)))
            else []);
          projects = filter (keeps f) (live @ off)
      in \<lparr>bo_meta = make_meta d ''live_state'' (bst_last_update snapshot), bo_counts = countBalances projects,
          bo_projects = projects\<rparr>)"

section \<open>Subscriptions and mailboxes\<close>

definition subscriptionView :: "subscription_result \<Rightarrow> subscription_view" where
  "subscriptionView s =
     (let state = (if sr_alert_state s \<noteq> [] then sr_alert_state s else if sr_need_alert s then ''pending'' else ''not_due'')
      in \<lparr>sv_id = subscription_id (sr_name s), sv_name = sr_name s, sv_owner = sr_owner s, sv_cycle = sr_cycle_type s,
          sv_renewal_day = sr_renewal_day s, sv_next_date = sr_next_date s, sv_days = sr_days_until s,
          sv_amount = sr_amount s, sv_renewed = sr_already_renewed s, sv_last_renewed = sr_last_renewed s,
          sv_reminder = \<lparr>rm_due = sr_need_alert s, rm_state = state, rm_next_eligible = sr_next_eligible s,
            rm_snoozed_until = sr_snoozed_until s, rm_last_error = optional_str (sr_last_error s)\<rparr>\<rparr>)"

definition subscriptionStatus :: "'d deps \<Rightarrow> subscription_status_output" where
  "subscriptionStatus d =
     (let snapshot = Subscriptions (dp_runtime d); views = map subscriptionView (sst_subscriptions snapshot)
      in \<lparr>so_meta = make_meta d ''live_state'' (sst_last_update snapshot), so_total = length views,
          so_due = length (filter (\<lambda>v. rm_due (sv_reminder v)) views), so_renewed = length (filter sv_renewed views),
          so_subscriptions = views\<rparr>)"

definition upcomingRenewals :: "'d deps \<Rightarrow> int \<Rightarrow> bool \<Rightarrow> int \<times> subscription_view list" where
  "upcomingRenewals d in_days include_renewed =
     (let days = bounded in_days 30 1 366
      in (days, sort_by (\<lambda>a b. if sv_days a \<noteq> sv_days b then sv_days a < sv_days b else string_less (sv_name a) (sv_name b))
           (filter (\<lambda>s. sv_days s \<le> days \<and> (include_renewed \<or> \<not> sv_renewed s)) (so_subscriptions (subscriptionStatus d)))))"

definition mailbox_view :: "mailbox_result \<Rightarrow> mailbox_scan_view" where
  "mailbox_view m = \<lparr>mv_name = mr_name m, mv_host = mr_host m, mv_port = mr_port m, mv_username = maskEmail (mr_username m),
     mv_success = mr_success m, mv_error = mr_error m, mv_total_emails = mr_total_emails m, mv_alert_count = mr_alert_count m\<rparr>"

definition emailScan :: "'d deps \<Rightarrow> email_scan_output" where
  "emailScan d =
     (let scan = EmailScan (dp_runtime d);
          (status, reason) =
            (if enabled_mailboxes (dp_config d) = [] then (''configured_but_inactive'', ''no mailbox is configured and enabled'')
             else if est_last_update scan = None \<and> st_scan_times (dp_settings d) = []
               then (''configured_but_inactive'', ''EMAIL_SCAN_SCHEDULE is empty, so scans only run on demand'')
             else if est_last_update scan = None
               then (''not_scanned_yet'', ''the first scan runs at the next EMAIL_SCAN_SCHEDULE time'')
             else (''active'', []))
      in \<lparr>eo_meta = make_meta d ''live_state'' (est_last_update scan), eo_status = status, eo_reason = reason,
          eo_days = est_days scan, eo_dry_run = est_dry_run scan, eo_mailboxes = map mailbox_view (est_mailboxes scan),
          eo_alerts = est_alerts scan, eo_summary = est_summary scan, eo_last_scan = est_last_update scan\<rparr>)"

section \<open>Jobs, health and capabilities\<close>

definition jobView :: "nat \<Rightarrow> 'd job \<Rightarrow> job_view" where
  "jobView mailboxes j =
     (let (status, reason) =
        (if \<not> job_enabled j then (''disabled'', ''no schedule is set'')
         else if job_last_error j \<noteq> None then (''failing'', ''the last run failed; see last_error'')
         else if job_name j = ''email_scan'' \<and> mailboxes = 0
           then (''configured_but_inactive'', ''scheduled, but no mailbox is configured and enabled'')
         else if job_last_run j = None then (''scheduled_not_yet_run'', ''the first run is at next_run'')
         else (''ok'', []))
      in \<lparr>jv_name = job_name j, jv_description = job_description j, jv_schedule = job_schedule j, jv_enabled = job_enabled j,
          jv_status = status, jv_reason = reason, jv_next_run = job_next_run j, jv_last_run = job_last_run j,
          jv_last_success = job_last_success j, jv_last_error = job_last_error j, jv_last_duration = job_last_duration j,
          jv_runs = job_runs j, jv_failures = job_failures j\<rparr>)"

definition jobViews :: "'d deps \<Rightarrow> job_view list" where
  "jobViews d = map (jobView (length (enabled_mailboxes (dp_config d)))) (js_jobs (Jobs (dp_runtime d)))"

definition jobStatus :: "'d deps \<Rightarrow> job_status_output" where
  "jobStatus d = \<lparr>jo_meta = make_meta d ''live_state'' None, jo_healthy = js_healthy (Jobs (dp_runtime d)), jo_jobs = jobViews d\<rparr>"

definition health :: "'d deps \<Rightarrow> health_output" where
  "health d =
     (let balance = Balance (dp_runtime d); jobs = Jobs (dp_runtime d);
          m = make_meta d ''live_state'' (bst_last_update balance);
          status = (if bst_projects balance = [] \<or> \<not> js_healthy jobs \<or> me_is_stale m then ''degraded'' else ''healthy'')
      in \<lparr>ho_meta = m, ho_status = status, ho_version = st_version (dp_settings d), ho_has_data = (bst_projects balance \<noteq> []),
          ho_is_stale = me_is_stale m, ho_last_update = bst_last_update balance, ho_jobs_healthy = js_healthy jobs,
          ho_failed_jobs = FailedJobs (dp_runtime d), ho_jobs = jobViews d,
          ho_uptime = UptimeSeconds (dp_now d) (dp_runtime d)\<rparr>)"

definition capabilities :: "'d deps \<Rightarrow> capabilities_output" where
  "capabilities d =
     (let s = dp_settings d; cfg = dp_config d
      in \<lparr>co_meta = make_meta d ''configuration'' None, co_version = st_version s,
          co_features = [(''database'', dp_history d), (''dynamic_config'', st_dynamic s), (''history'', st_history s),
            (''subscriptions'', st_subscriptions s), (''mcp'', st_mcp s), (''prometheus'', st_prometheus s),
            (''email_scan'', st_email_scan s \<or> (st_scan_times s \<noteq> [] \<and> enabled_mailboxes cfg \<noteq> []))],
          co_counts = [(''projects'', length (cf_projects cfg)), (''subscriptions'', length (cf_subscriptions cfg)),
            (''mailboxes'', length (cf_mailboxes cfg))],
          co_caller = mc_name (dp_caller d), co_scopes = filter (Allows (dp_caller d)) AllScopes\<rparr>)"

section \<open>Configuration views\<close>

record project_config_view =
  pc_id :: gostring
  pc_name :: gostring
  pc_provider :: gostring
  pc_type :: gostring
  pc_threshold :: f64
  pc_owner :: "gostring option"
  pc_enabled :: bool
  pc_key_configured :: bool
  pc_from_env :: bool

definition project_config :: "project \<Rightarrow> project_config_view" where
  "project_config p = \<lparr>pc_id = project_ID p, pc_name = pj_name p, pc_provider = pj_provider p, pc_type = pj_type p,
     pc_threshold = pj_threshold p, pc_owner = pj_owner p, pc_enabled = pj_enabled p,
     pc_key_configured = (pj_api_key p \<noteq> []), pc_from_env = pj_from_env p\<rparr>"

record mailbox_config_view =
  mx_name :: gostring
  mx_host :: gostring
  mx_port :: int
  mx_username :: gostring
  mx_ssl :: bool
  mx_enabled :: bool
  mx_password_configured :: bool
  mx_from_env :: bool

definition mailbox_config :: "mailbox \<Rightarrow> mailbox_config_view" where
  "mailbox_config m = \<lparr>mx_name = mb_name m, mx_host = mb_host m, mx_port = mb_port m, mx_username = maskEmail (mb_username m),
     mx_ssl = mb_use_ssl m, mx_enabled = mb_enabled m, mx_password_configured = (mb_password m \<noteq> []), mx_from_env = mb_from_env m\<rparr>"

record subscription_config_view =
  sg_name :: gostring
  sg_owner :: "gostring option"
  sg_cycle :: gostring
  sg_renewal_day :: int
  sg_alert_days :: int
  sg_amount :: f64
  sg_enabled :: bool
  sg_last_renewed :: "gostring option"
  sg_timezone :: gostring
  sg_snoozed_until :: "gostring option"
  sg_webhook_override :: bool

definition subscriptionConfigView :: "subscription \<Rightarrow> subscription_config_view" where
  "subscriptionConfigView s = \<lparr>sg_name = sb_name s, sg_owner = sb_owner s, sg_cycle = sb_cycle_type s,
     sg_renewal_day = sb_renewal_day s, sg_alert_days = sb_alert_days_before s, sg_amount = sb_amount s, sg_enabled = sb_enabled s,
     sg_last_renewed = sb_last_renewed s, sg_timezone = sb_timezone s, sg_snoozed_until = sb_snoozed_until s,
     sg_webhook_override = (sb_webhook_url s \<noteq> [])\<rparr>"

end
