(* ===== verification/McpHistory.thy ===== *)
theory McpHistory
  imports McpStatus Runway
begin

text \<open>
  The history half of the MCP server (\<open>internal/mcpserver/history.go\<close>, \<open>spend.go\<close>): pages of
  snapshots, alerts, email alerts and events, the trend of one project, the health of the providers
  and the spending summary.  The store is a record of its reading operations, each of which may
  fail; a page is cut by theory \<open>Paging\<close>, a trend by theory \<open>Trend\<close>.  A failure of the store is
  logged; the log is left out.
\<close>

section \<open>What the store answers\<close>

record balance_history_row =
  bh_id :: int
  bh_project_id :: gostring
  bh_project_name :: gostring
  bh_provider :: gostring
  bh_balance :: f64
  bh_threshold :: "f64 option"
  bh_type :: gostring
  bh_need_alarm :: bool
  bh_timestamp :: gostring

record alert_history_row =
  ah_id :: int
  ah_project_id :: gostring
  ah_project_name :: gostring
  ah_type :: gostring
  ah_status :: gostring
  ah_message :: gostring
  ah_value :: "f64 option"
  ah_threshold :: "f64 option"
  ah_timestamp :: gostring

record email_history_row =
  eh_id :: int
  eh_mailbox :: gostring
  eh_sender :: gostring
  eh_subject :: gostring
  eh_date :: gostring
  eh_service :: "gostring option"
  eh_amount :: "f64 option"
  eh_keywords :: "gostring list"
  eh_sent :: bool
  eh_timestamp :: gostring

record email_query =
  eq_mailbox :: gostring
  eq_days :: int
  eq_limit :: int

record alert_stats =
  as_total :: int
  as_by_type :: "(gostring \<times> int) list"
  as_top :: "(gostring \<times> int) list"

record history =
  hy_balances :: "balance_query \<Rightarrow> goerror + balance_history_row list"
  hy_trend :: "gostring \<Rightarrow> int \<Rightarrow> goerror + trend option"
  hy_alerts :: "alert_query \<Rightarrow> goerror + alert_history_row list"
  hy_emails :: "email_query \<Rightarrow> goerror + email_history_row list"
  hy_stats :: "int \<Rightarrow> goerror + alert_stats option"
  hy_series :: "int \<Rightarrow> goerror + balance_point list"

section \<open>Failures\<close>

definition plain_error :: "gostring \<Rightarrow> gostring \<Rightarrow> error_info" where
  "plain_error category message = \<lparr>ei_category = category, ei_message = message, ei_retryable = False,
     ei_retry_after = None, ei_provider = [], ei_used_cached = False\<rparr>"

definition errHistoryUnavailable :: error_info where
  "errHistoryUnavailable = plain_error ''unavailable'' ''History needs the database; set ENABLE_DATABASE=true''"

definition historyFailed :: error_info where
  "historyFailed = (plain_error ''unavailable'' ''History storage is unavailable right now'')
     \<lparr>ei_retryable := True, ei_retry_after := Some 60\<rparr>"

definition invalidArgument :: "gostring \<Rightarrow> error_info" where
  "invalidArgument message = plain_error ''invalid_argument'' message"

definition window_of :: "'d deps \<Rightarrow> time_range \<Rightarrow> error_info + window" where
  "window_of d r = (case parse r (dp_now d) (dp_local d) of Inl e \<Rightarrow> Inl (invalidArgument e) | Inr w \<Rightarrow> Inr w)"

definition providerOf :: "'d deps \<Rightarrow> gostring \<Rightarrow> gostring option" where
  "providerOf d pid = (case map_of (rev (map (\<lambda>r. (project_id (cr_provider r) (cr_project r), cr_provider r))
       (bst_projects (Balance (dp_runtime d))))) pid of None \<Rightarrow> None | Some p \<Rightarrow> optional_str p)"

definition historyMeta :: "'d deps \<Rightarrow> bool \<Rightarrow> meta" where
  "historyMeta d truncated = (make_meta d ''persisted_history'' None)\<lparr>me_truncated := truncated\<rparr>"

definition pageSummary :: "nat \<Rightarrow> gostring \<Rightarrow> gostring \<Rightarrow> 'a page \<Rightarrow> gostring" where
  "pageSummary n one plural p = quantity (int n) one plural @
     (if pg_next p \<noteq> [] then ''; more with next_cursor''
      else if pg_truncated p then ''; older rows may exist, narrow the range with since and until'' else [])"

text \<open>A page of a history tool: what it shows of each row, where to go on, and its summary.\<close>

record 'v history_page =
  po_meta :: meta
  po_rows :: "'v list"
  po_next :: "gostring option"
  po_summary :: gostring

definition page_output :: "'d deps \<Rightarrow> 'v entry list \<Rightarrow> window \<Rightarrow> int \<Rightarrow> bool \<Rightarrow> gostring \<Rightarrow> gostring \<Rightarrow> 'v history_page" where
  "page_output d entries w limit capped one plural =
     (let p = paginate entries w limit capped
      in \<lparr>po_meta = historyMeta d (pg_truncated p), po_rows = pg_items p, po_next = optional_str (pg_next p),
          po_summary = pageSummary (length (pg_items p)) one plural p\<rparr>)"

section \<open>Snapshots\<close>

record snapshot_view =
  nv_id :: int
  nv_project_id :: gostring
  nv_project_name :: gostring
  nv_provider :: gostring
  nv_type :: gostring
  nv_unit :: gostring
  nv_balance :: f64
  nv_threshold :: "f64 option"
  nv_below :: bool
  nv_timestamp :: gostring

definition snapshot_view_of :: "balance_history_row \<Rightarrow> snapshot_view" where
  "snapshot_view_of r = \<lparr>nv_id = bh_id r, nv_project_id = bh_project_id r, nv_project_name = bh_project_name r,
     nv_provider = bh_provider r, nv_type = bh_type r, nv_unit = unitOf (bh_type r), nv_balance = bh_balance r,
     nv_threshold = bh_threshold r, nv_below = bh_need_alarm r, nv_timestamp = bh_timestamp r\<rparr>"

definition balanceHistory :: "'d deps \<Rightarrow> history \<Rightarrow> time_range \<Rightarrow> int \<Rightarrow> gostring \<Rightarrow> gostring \<Rightarrow> error_info + snapshot_view history_page" where
  "balanceHistory d h trange limit pid provider =
     (if \<not> dp_history d then Inl errHistoryUnavailable
      else case window_of d trange of Inl e \<Rightarrow> Inl e
      | Inr w \<Rightarrow> (case hy_balances h \<lparr>bq_project_id = pid, bq_provider = provider, bq_days = w_days w, bq_limit = historyReadLimit\<rparr> of
          Inl _ \<Rightarrow> Inl historyFailed
        | Inr rows \<Rightarrow> Inr (page_output d
            (map (\<lambda>r. newEntry (bh_timestamp r) (rowID ''balance'' (bh_id r)) (snapshot_view_of r)) rows)
            w (bounded limit 100 1 100) (historyReadLimit \<le> int (length rows)) ''snapshot'' ''snapshots'')))"

section \<open>The trend of a project\<close>

record trend_output =
  to_meta :: meta
  to_project_id :: gostring
  to_project_name :: gostring
  to_provider :: "gostring option"
  to_unit :: "gostring option"
  to_days :: int
  to_interval :: gostring
  to_threshold :: "f64 option"
  to_summary :: trend_summary
  to_points :: "trend_point_view list"
  to_next :: "gostring option"
  to_text :: gostring

definition parsed_at :: "gostring \<Rightarrow> int" where
  "parsed_at s = (case parse_rfc3339 s of None \<Rightarrow> zero_ns | Some t \<Rightarrow> t)"

definition trend_sample :: "trend_point \<Rightarrow> sample" where
  "trend_sample p = \<lparr>sa_at = \<lparr>t_ns = parsed_at (tp_timestamp p), t_zone = utc_zone\<rparr>, sa_balance = tp_balance p,
     sa_below = tp_need_alarm p\<rparr>"

text \<open>The points after the cursor, up to the limit; the cursor of the next page when one more would
  follow.\<close>

fun trend_page :: "trend_point_view list \<Rightarrow> position option \<Rightarrow> int \<Rightarrow> trend_point_view list \<Rightarrow> trend_point_view list \<times> gostring option" where
  "trend_page [] after_pos limit out = (out, None)"
| "trend_page (p # ps) after_pos limit out =
     (if (case after_pos of None \<Rightarrow> False | Some a \<Rightarrow> parsed_at (pv_timestamp p) \<le> pos_at a)
      then trend_page ps after_pos limit out
      else if int (length out) = limit
        then (out, optional_str (encodeCursor \<lparr>pos_at = parsed_at (pv_timestamp (last out)), pos_id = []\<rparr>))
      else trend_page ps after_pos limit (out @ [p]))"

definition signed :: "f64 \<Rightarrow> gostring" where
  "signed v = (if flt (Fin 0) v then ''+'' else []) @ format_f v"

definition trend_tool :: "'d deps \<Rightarrow> history \<Rightarrow> gostring \<Rightarrow> int \<Rightarrow> gostring \<Rightarrow> int \<Rightarrow> gostring \<Rightarrow> error_info + trend_output" where
  "trend_tool d h pid in_days in_interval in_limit in_cursor =
     (if trim_space pid = [] then Inl (invalidArgument ''project_id is required; balance_status lists every project's'')
      else if \<not> dp_history d then Inl errHistoryUnavailable
      else let interval = (if in_interval = [] then ''day'' else in_interval) in
        case (if in_cursor = [] then Inr None else map_sum id Some (decodeCursor in_cursor)) of
          Inl e \<Rightarrow> Inl (invalidArgument e)
        | Inr after_pos \<Rightarrow> (let days = bounded in_days 30 1 365 in
           case hy_trend h pid days of
             Inl _ \<Rightarrow> Inl historyFailed
           | Inr None \<Rightarrow> Inl (plain_error ''not_found'' (''No balance history for project '' @ pid @ '' in the last '' @
               quantity days ''day'' ''days''))
           | Inr (Some t) \<Rightarrow>
              (let samples = map trend_sample (td_history t); s = summarize samples;
                   live = filter (\<lambda>r. project_id (cr_provider r) (cr_project r) = pid) (bst_projects (Balance (dp_runtime d)));
                   (points, nxt) = trend_page (bucket samples interval (dp_local d)) after_pos (bounded in_limit 500 1 1000) []
               in Inr \<lparr>to_meta = make_meta d ''persisted_history'' (optional_str (td_last_timestamp t)), to_project_id = pid,
                    to_project_name = td_project_name t,
                    to_provider = (if live = [] then None else optional_str (cr_provider (last live))),
                    to_unit = (if live = [] then None else optional_str (unitOf (cr_type (last live)))),
                    to_days = days, to_interval = interval, to_threshold = nonZero (td_threshold t), to_summary = s,
                    to_points = points, to_next = nxt,
                    to_text = quantity (int (length points)) ''point'' ''points'' @ '' over '' @ quantity days ''day'' ''days''
                      @ '', net change '' @ signed (ts_change s) @ (if nxt \<noteq> None then ''; more with next_cursor'' else [])\<rparr>)))"

section \<open>Alerts, email alerts and events\<close>

record alert_view =
  av_id :: int
  av_type :: gostring
  av_status :: gostring
  av_project_id :: gostring
  av_project_name :: gostring
  av_provider :: "gostring option"
  av_message :: gostring
  av_value :: "f64 option"
  av_threshold :: "f64 option"
  av_timestamp :: gostring

definition alertView :: "alert_history_row \<Rightarrow> (gostring \<Rightarrow> gostring option) \<Rightarrow> alert_view" where
  "alertView r provider_of = \<lparr>av_id = ah_id r, av_type = ah_type r, av_status = ah_status r, av_project_id = ah_project_id r,
     av_project_name = ah_project_name r, av_provider = provider_of (ah_project_id r), av_message = ah_message r,
     av_value = ah_value r, av_threshold = ah_threshold r, av_timestamp = ah_timestamp r\<rparr>"

definition recentAlerts :: "'d deps \<Rightarrow> history \<Rightarrow> time_range \<Rightarrow> int \<Rightarrow> gostring \<Rightarrow> gostring \<Rightarrow> error_info + alert_view history_page" where
  "recentAlerts d h trange limit pid ty =
     (if \<not> dp_history d then Inl errHistoryUnavailable
      else case window_of d trange of Inl e \<Rightarrow> Inl e
      | Inr w \<Rightarrow> (case hy_alerts h \<lparr>aq_project_id = pid, aq_alert_type = ty, aq_days = w_days w, aq_limit = historyReadLimit\<rparr> of
          Inl _ \<Rightarrow> Inl historyFailed
        | Inr rows \<Rightarrow> Inr (page_output d
            (map (\<lambda>r. newEntry (ah_timestamp r) (rowID ''alert'' (ah_id r)) (alertView r (providerOf d))) rows)
            w (bounded limit 50 1 100) (historyReadLimit \<le> int (length rows)) ''alert'' ''alerts'')))"

definition recentEmailAlerts :: "'d deps \<Rightarrow> history \<Rightarrow> time_range \<Rightarrow> int \<Rightarrow> gostring \<Rightarrow> error_info + email_history_row history_page" where
  "recentEmailAlerts d h trange limit mailbox =
     (if \<not> dp_history d then Inl errHistoryUnavailable
      else case window_of d trange of Inl e \<Rightarrow> Inl e
      | Inr w \<Rightarrow> (case hy_emails h \<lparr>eq_mailbox = mailbox, eq_days = w_days w, eq_limit = historyReadLimit\<rparr> of
          Inl _ \<Rightarrow> Inl historyFailed
        | Inr rows \<Rightarrow> Inr (page_output d
            (map (\<lambda>r. newEntry (eh_timestamp r) (rowID ''email'' (eh_id r)) r) rows)
            w (bounded limit 50 1 100) (historyReadLimit \<le> int (length rows)) ''email alert'' ''email alerts'')))"

record event_view =
  ev_id :: gostring
  ev_type :: gostring
  ev_status :: gostring
  ev_project_id :: "gostring option"
  ev_provider :: "gostring option"
  ev_source :: gostring
  ev_message :: gostring
  ev_timestamp :: gostring

definition alert_event_entry :: "'d deps \<Rightarrow> alert_history_row \<Rightarrow> event_view entry" where
  "alert_event_entry d r = newEntry (ah_timestamp r) (rowID ''alert'' (ah_id r))
     \<lparr>ev_id = ''alert:'' @ itoa (ah_id r), ev_type = ah_type r, ev_status = ah_status r,
      ev_project_id = optional_str (ah_project_id r), ev_provider = providerOf d (ah_project_id r),
      ev_source = (if ah_project_name r = [] then ah_project_id r else ah_project_name r),
      ev_message = ah_message r, ev_timestamp = ah_timestamp r\<rparr>"

definition email_event_entry :: "email_history_row \<Rightarrow> event_view entry" where
  "email_event_entry r = newEntry (eh_timestamp r) (rowID ''email'' (eh_id r))
     \<lparr>ev_id = ''email:'' @ itoa (eh_id r), ev_type = ''email_alert'', ev_status = (if eh_sent r then ''sent'' else ''not_sent''),
      ev_project_id = None, ev_provider = None, ev_source = eh_mailbox r, ev_message = eh_subject r,
      ev_timestamp = eh_timestamp r\<rparr>"

definition events :: "'d deps \<Rightarrow> history \<Rightarrow> time_range \<Rightarrow> int \<Rightarrow> gostring \<Rightarrow> error_info + event_view history_page" where
  "events d h trange limit ty =
     (if \<not> dp_history d then Inl errHistoryUnavailable
      else case window_of d trange of Inl e \<Rightarrow> Inl e
      | Inr w \<Rightarrow>
         (case (if ty = ''email_alert'' then Inr []
                else hy_alerts h \<lparr>aq_project_id = [], aq_alert_type = ty, aq_days = w_days w, aq_limit = historyReadLimit\<rparr>) of
            Inl _ \<Rightarrow> Inl historyFailed
          | Inr alerts \<Rightarrow>
             (case (if (ty = [] \<or> ty = ''email_alert'') \<and> Allows (dp_caller d) ScopeEmail
                    then hy_emails h \<lparr>eq_mailbox = [], eq_days = w_days w, eq_limit = historyReadLimit\<rparr> else Inr []) of
                Inl _ \<Rightarrow> Inl historyFailed
              | Inr emails \<Rightarrow> Inr (page_output d (map (alert_event_entry d) alerts @ map email_event_entry emails)
                  w (bounded limit 100 1 500)
                  (historyReadLimit \<le> int (length alerts) \<or> historyReadLimit \<le> int (length emails)) ''event'' ''events''))))"

definition alertStats :: "'d deps \<Rightarrow> history \<Rightarrow> int \<Rightarrow> error_info + (int \<times> alert_stats)" where
  "alertStats d h in_days =
     (if \<not> dp_history d then Inl errHistoryUnavailable
      else let days = bounded in_days 30 1 365 in
        case hy_stats h days of
          Inl _ \<Rightarrow> Inl historyFailed
        | Inr None \<Rightarrow> Inr (days, \<lparr>as_total = 0, as_by_type = [], as_top = []\<rparr>)
        | Inr (Some st) \<Rightarrow> Inr (days, st))"

end
