(* ===== verification/McpSpend.thy ===== *)
theory McpSpend
  imports McpHistory
begin

text \<open>
  Spending and provider health of the MCP server (\<open>internal/mcpserver/spend.go\<close> and the tools
  \<open>spend_summary\<close> and \<open>provider_status\<close> of \<open>history.go\<close>).  The view of a project lists every day
  between its first and its last snapshot; the loop over the days is a partial function, since a
  zone could in principle keep it from moving on.
\<close>

section \<open>Spending of one project\<close>

record daily_view =
  dv_date :: gostring
  dv_consumed :: f64
  dv_topped :: f64

record spend_view =
  sp_id :: gostring
  sp_name :: gostring
  sp_provider :: gostring
  sp_type :: gostring
  sp_unit :: gostring
  sp_samples :: nat
  sp_span_days :: f64
  sp_balance :: f64
  sp_consumed :: f64
  sp_topped :: f64
  sp_top_ups :: nat
  sp_per_day :: "f64 option"
  sp_today :: "f64 option"
  sp_spike :: "f64 option"
  sp_daily :: "daily_view list"

record spend_series =
  ss_id :: gostring
  ss_name :: gostring
  ss_provider :: gostring
  ss_type :: gostring
  ss_samples :: "sample list"

text \<open>What the loop over consecutive snapshots adds up: in all and by day.\<close>

record spend_sums =
  sm_consumed :: f64
  sm_topped :: f64
  sm_top_ups :: nat
  sm_days :: "gostring \<Rightarrow> (f64 \<times> f64) option"

definition day_key :: "sample \<Rightarrow> zone \<Rightarrow> gostring" where
  "day_key s loc = fmt_date (in_zone (sa_at s) loc)"

definition day_sums :: "spend_sums \<Rightarrow> gostring \<Rightarrow> f64 \<times> f64" where
  "day_sums a key = (case sm_days a key of None \<Rightarrow> (Fin 0, Fin 0) | Some v \<Rightarrow> v)"

definition spend_step :: "zone \<Rightarrow> sample \<Rightarrow> sample \<Rightarrow> spend_sums \<Rightarrow> spend_sums" where
  "spend_step loc p q a =
     (let delta = fsub (sa_balance p) (sa_balance q); key = day_key q loc; (c, t) = day_sums a key in
      if flt (Fin 0) delta
      then a\<lparr>sm_consumed := fadd (sm_consumed a) delta, sm_days := (sm_days a)(key \<mapsto> (fadd c delta, t))\<rparr>
      else if flt delta (Fin 0)
      then a\<lparr>sm_topped := fsub (sm_topped a) delta, sm_top_ups := sm_top_ups a + 1, sm_days := (sm_days a)(key \<mapsto> (c, fsub t delta))\<rparr>
      else a\<lparr>sm_days := (sm_days a)(key \<mapsto> (c, t))\<rparr>)"

fun spend_moves :: "zone \<Rightarrow> sample list \<Rightarrow> spend_sums \<Rightarrow> spend_sums" where
  "spend_moves loc (p # q # ps) a = spend_moves loc (q # ps) (spend_step loc p q a)"
| "spend_moves loc ps a = a"

partial_function (option) spend_days :: "spend_sums \<Rightarrow> zone \<Rightarrow> gotime \<Rightarrow> gotime \<Rightarrow> daily_view list \<Rightarrow> daily_view list option" where
  "spend_days a loc day fin out =
     (if t_after day fin then Some out
      else let key = fmt_date (in_zone day loc); (c, t) = day_sums a key
        in spend_days a loc (add_date day 0 0 1) fin (out @ [\<lparr>dv_date = key, dv_consumed = round6 c, dv_topped = round6 t\<rparr>]))"

definition mcp_startOfDay :: "gotime \<Rightarrow> zone \<Rightarrow> gotime" where
  "mcp_startOfDay t loc = (let u = in_zone t loc in date_time (t_year u) (t_month u) (t_day u) 0 0 0 0 loc)"

definition minBaselineDays :: nat where "minBaselineDays = 3"

definition one_hour_day :: f64 where "one_hour_day = rnd (1 / 24)"

definition series_spike :: "daily_view list \<Rightarrow> gostring \<Rightarrow> f64 option \<times> f64 option" where
  "series_spike daily today =
     (if daily = [] \<or> dv_date (last daily) \<noteq> today then (None, None)
      else let spent = dv_consumed (last daily); earlier = butlast daily in
        if length earlier < minBaselineDays then (Some spent, None)
        else let baseline = median (map dv_consumed earlier) in
          (Some spent, if flt (Fin 0) baseline
             then Some (fdiv (math_round (fmul (fdiv spent baseline) (Fin 100))) (Fin 100)) else None))"

definition spendView :: "spend_series \<Rightarrow> gotime \<Rightarrow> zone \<Rightarrow> spend_view option" where
  "spendView s now loc =
     (let samples = ss_samples s;
          blank = \<lparr>sp_id = ss_id s, sp_name = ss_name s, sp_provider = ss_provider s, sp_type = ss_type s,
            sp_unit = unitOf (ss_type s), sp_samples = length samples, sp_span_days = Fin 0, sp_balance = Fin 0,
            sp_consumed = Fin 0, sp_topped = Fin 0, sp_top_ups = 0, sp_per_day = None, sp_today = None, sp_spike = None,
            sp_daily = []\<rparr>
      in if samples = [] then Some blank
         else let first = hd samples; final = last samples; span = t_sub (sa_at final) (sa_at first);
                  hours = fdiv (dur_hours span) (Fin 24);
                  start = \<lparr>sm_consumed = Fin 0, sm_topped = Fin 0, sm_top_ups = 0, sm_days = [day_key first loc \<mapsto> (Fin 0, Fin 0)]\<rparr>;
                  a = spend_moves loc samples start;
                  consumed = round6 (sm_consumed a)
           in case spend_days a loc (mcp_startOfDay (sa_at first) loc) (sa_at final) [] of
                None \<Rightarrow> None
              | Some daily \<Rightarrow>
                  (let (today, spike) = series_spike daily (fmt_date (in_zone now loc))
                   in Some (blank\<lparr>sp_span_days := round6 hours, sp_balance := round6 (sa_balance final), sp_consumed := consumed,
                        sp_topped := round6 (sm_topped a), sp_top_ups := sm_top_ups a,
                        sp_per_day := (if 2 \<le> length samples then Some (round6 (fdiv consumed (math_max hours one_hour_day))) else None),
                        sp_today := today, sp_spike := spike, sp_daily := daily\<rparr>)))"

section \<open>The summary\<close>

record spend_total =
  st_provider :: gostring
  st_type :: gostring
  st_unit :: gostring
  st_projects :: nat
  st_consumed :: f64
  st_topped :: f64

definition add_total :: "spend_view \<Rightarrow> spend_total \<Rightarrow> spend_total" where
  "add_total p t = t\<lparr>st_projects := st_projects t + 1, st_consumed := round6 (fadd (st_consumed t) (sp_consumed p)),
     st_topped := round6 (fadd (st_topped t) (sp_topped p))\<rparr>"

fun enter_total :: "spend_view \<Rightarrow> spend_total list \<Rightarrow> spend_total list" where
  "enter_total p [] = [add_total p \<lparr>st_provider = sp_provider p, st_type = sp_type p, st_unit = sp_unit p, st_projects = 0,
     st_consumed = Fin 0, st_topped = Fin 0\<rparr>]"
| "enter_total p (t # ts) = (if st_provider t = sp_provider p \<and> st_type t = sp_type p then add_total p t # ts else t # enter_total p ts)"

definition spendTotals :: "spend_view list \<Rightarrow> spend_total list" where
  "spendTotals ps = sort_by (\<lambda>a b. flt (st_consumed b) (st_consumed a)) (fold enter_total ps [])"

definition spend_relevant :: "gostring \<Rightarrow> gostring \<Rightarrow> balance_point \<Rightarrow> bool" where
  "spend_relevant provider pid p \<longleftrightarrow>
     \<not> ((provider \<noteq> [] \<and> bp_provider p \<noteq> provider) \<or> (pid \<noteq> [] \<and> bp_project_id p \<noteq> pid) \<or> bp_timestamp p = 0)"

fun enter_series :: "zone \<Rightarrow> balance_point \<Rightarrow> spend_series list \<Rightarrow> spend_series list" where
  "enter_series loc p [] = [\<lparr>ss_id = bp_project_id p, ss_name = bp_project_name p, ss_provider = bp_provider p,
     ss_type = bp_balance_type p, ss_samples = [\<lparr>sa_at = \<lparr>t_ns = bp_timestamp p * second, t_zone = loc\<rparr>, sa_balance = bp_balance p, sa_below = False\<rparr>]\<rparr>]"
| "enter_series loc p (s # ss) =
     (if ss_id s = bp_project_id p
      then s\<lparr>ss_name := bp_project_name p, ss_provider := bp_provider p, ss_type := bp_balance_type p,
        ss_samples := ss_samples s @ [\<lparr>sa_at = \<lparr>t_ns = bp_timestamp p * second, t_zone = loc\<rparr>, sa_balance = bp_balance p, sa_below = False\<rparr>]\<rparr> # ss
      else s # enter_series loc p ss)"

record spend_output =
  sx_meta :: meta
  sx_days :: int
  sx_totals :: "spend_total list"
  sx_projects :: "spend_view list"
  sx_excluded :: "gostring list"
  sx_text :: gostring

fun all_views :: "gotime \<Rightarrow> zone \<Rightarrow> spend_series list \<Rightarrow> spend_view list option" where
  "all_views now loc [] = Some []"
| "all_views now loc (s # ss) =
     (case spendView (s\<lparr>ss_samples := sort_by (\<lambda>a b. t_ns (sa_at a) < t_ns (sa_at b)) (ss_samples s)\<rparr>) now loc of
        None \<Rightarrow> None | Some v \<Rightarrow> map_option ((#) v) (all_views now loc ss))"

text \<open>\<open>None\<close> when a loop over days would not end.\<close>

definition spendSummary :: "'d deps \<Rightarrow> history \<Rightarrow> int \<Rightarrow> gostring \<Rightarrow> gostring \<Rightarrow> (error_info + spend_output) option" where
  "spendSummary d h in_days provider pid =
     (if \<not> dp_history d then Some (Inl errHistoryUnavailable)
      else let days = bounded in_days (max 1 (st_burn_window (dp_settings d))) 1 90 in
        case hy_series h days of
          Inl _ \<Rightarrow> Some (Inl historyFailed)
        | Inr points \<Rightarrow>
            (let loc = dp_local d; mine = filter (spend_relevant provider pid) points;
                 (quota, spent) = partition (\<lambda>p. bp_balance_type p = TypeQuota) mine;
                 series = fold (enter_series loc) spent []
             in case all_views \<lparr>t_ns = dp_now d, t_zone = loc\<rparr> loc series of
                  None \<Rightarrow> None
                | Some views \<Rightarrow>
                    (let projects = sort_by (\<lambda>a b. flt (sp_consumed b) (sp_consumed a)) views
                     in Some (Inr \<lparr>sx_meta = make_meta d ''persisted_history'' None, sx_days = days, sx_totals = spendTotals projects,
                          sx_projects = projects, sx_excluded = sort_strings (remdups (map bp_project_name quota)),
                          sx_text = quantity (int (length projects)) ''project'' ''projects'' @ '' over '' @ quantity days ''day'' ''days''
                            @ (case projects of [] \<Rightarrow> [] | most # _ \<Rightarrow> ''; most spent: '' @ sp_name most @ '', '' @ format_f (sp_consumed most))\<rparr>))))"

section \<open>Provider health\<close>

record provider_error_view =
  pe_project_id :: gostring
  pe_project_name :: gostring
  pe_error :: error_info
  pe_last_success :: "gostring option"

record provider_view =
  pw_provider :: gostring
  pw_name :: gostring
  pw_status :: gostring
  pw_projects :: nat
  pw_failing :: nat
  pw_last_checked :: "gostring option"
  pw_last_success :: "gostring option"
  pw_latency_sum :: int
  pw_latency_count :: nat
  pw_avg_latency :: "int option"
  pw_max_latency :: "int option"
  pw_cached :: nat
  pw_errors :: "provider_error_view list"

definition EnvPrefixOf :: "gostring \<Rightarrow> gostring" where "EnvPrefixOf key = trim_prefix key ''custom:''"

definition provider_names :: "registry \<Rightarrow> gostring \<Rightarrow> gostring" where
  "provider_names g k = (case find (\<lambda>i. in_key i = k \<or> EnvPrefixOf (in_key i) = k) (rev (List.map_filter (\<lambda>x. x) (All_providers g))) of
     None \<Rightarrow> [] | Some i \<Rightarrow> in_name i)"

definition newestSnapshot :: "'d deps \<Rightarrow> history \<Rightarrow> gostring \<Rightarrow> gostring \<Rightarrow> gostring option" where
  "newestSnapshot d h pid provider =
     (if \<not> dp_history d then None
      else case hy_balances h \<lparr>bq_project_id = pid, bq_provider = provider, bq_days = 365, bq_limit = 1\<rparr> of
          Inl _ \<Rightarrow> None | Inr [] \<Rightarrow> None | Inr (r # _) \<Rightarrow> Some (bh_timestamp r))"

definition later_text :: "gostring option \<Rightarrow> gostring option \<Rightarrow> gostring option" where
  "later_text old new = (case new of None \<Rightarrow> old | Some n \<Rightarrow>
     (case old of None \<Rightarrow> new | Some s \<Rightarrow> if string_less s n then new else old))"

definition count_result :: "'d deps \<Rightarrow> history \<Rightarrow> check_result \<Rightarrow> provider_view \<Rightarrow> provider_view" where
  "count_result d h r v =
     (let pid = project_id (cr_provider r) (cr_project r);
          v1 = v\<lparr>pw_projects := pw_projects v + 1, pw_last_checked := later_text (pw_last_checked v) (cr_checked_at r),
            pw_cached := pw_cached v + (if cr_cached r then 1 else 0)\<rparr>;
          v2 = (case cr_latency_ms r of None \<Rightarrow> v1
             | Some l \<Rightarrow> v1\<lparr>pw_latency_sum := pw_latency_sum v1 + l, pw_latency_count := pw_latency_count v1 + 1,
                 pw_max_latency := (case pw_max_latency v1 of None \<Rightarrow> Some l | Some x \<Rightarrow> if x < l then Some l else Some x)\<rparr>)
      in if cr_success r then v2
         else v2\<lparr>pw_failing := pw_failing v2 + 1, pw_errors := pw_errors v2 @ [\<lparr>pe_project_id = pid, pe_project_name = cr_project r,
           pe_error = checkError d r, pe_last_success = newestSnapshot d h pid []\<rparr>]\<rparr>)"

definition fresh_view :: "registry \<Rightarrow> gostring \<Rightarrow> provider_view" where
  "fresh_view g k = \<lparr>pw_provider = k, pw_name = provider_names g k, pw_status = [], pw_projects = 0, pw_failing = 0,
     pw_last_checked = None, pw_last_success = None, pw_latency_sum = 0, pw_latency_count = 0, pw_avg_latency = None,
     pw_max_latency = None, pw_cached = 0, pw_errors = []\<rparr>"

fun enter_result :: "'d deps \<Rightarrow> history \<Rightarrow> registry \<Rightarrow> check_result \<Rightarrow> provider_view list \<Rightarrow> provider_view list" where
  "enter_result d h g r [] = [count_result d h r (fresh_view g (cr_provider r))]"
| "enter_result d h g r (v # vs) =
     (if pw_provider v = cr_provider r then count_result d h r v # vs else v # enter_result d h g r vs)"

text \<open>The average is an integer division, which truncates.\<close>

definition finish_view :: "'d deps \<Rightarrow> history \<Rightarrow> provider_view \<Rightarrow> provider_view" where
  "finish_view d h v = v\<lparr>pw_status := (if pw_failing v = pw_projects v then ''down'' else if 0 < pw_failing v then ''degraded'' else ''ok''),
     pw_avg_latency := (if 0 < pw_latency_count v then Some (let n = int (pw_latency_count v) in if pw_latency_sum v < 0 then - ((- pw_latency_sum v) div n) else pw_latency_sum v div n) else None),
     pw_last_success := newestSnapshot d h [] (pw_provider v)\<rparr>"

definition status_rank :: "gostring \<Rightarrow> int" where
  "status_rank s = (if s = ''down'' then 0 else if s = ''degraded'' then 1 else 2)"

definition view_before :: "provider_view \<Rightarrow> provider_view \<Rightarrow> bool" where
  "view_before a b = (if status_rank (pw_status a) \<noteq> status_rank (pw_status b)
     then status_rank (pw_status a) < status_rank (pw_status b) else string_less (pw_provider a) (pw_provider b))"

definition providerStatus :: "'d deps \<Rightarrow> history \<Rightarrow> registry \<Rightarrow> provider_view list \<times> gostring" where
  "providerStatus d h g =
     (let views = fold (enter_result d h g) (bst_projects (Balance (dp_runtime d))) [];
          out = sort_by view_before (map (finish_view d h) views)
      in (out, quantity (int (length out)) ''provider'' ''providers'' @ '', '' @
           itoa (int (length (filter (\<lambda>v. pw_status v \<noteq> ''ok'') out))) @ '' with failing checks''))"

section \<open>What the provider view counts\<close>

text \<open>The view of one provider when the results \<open>rs\<close> have been counted.\<close>

definition counts_of :: "check_result list \<Rightarrow> provider_view \<Rightarrow> bool" where
  "counts_of rs v \<longleftrightarrow> pw_projects v = length (filter (\<lambda>r. cr_provider r = pw_provider v) rs)
     \<and> pw_failing v = length (filter (\<lambda>r. cr_provider r = pw_provider v \<and> \<not> cr_success r) rs)
     \<and> map pe_project_name (pw_errors v) = map cr_project (filter (\<lambda>r. cr_provider r = pw_provider v \<and> \<not> cr_success r) rs)
     \<and> pw_cached v = length (filter (\<lambda>r. cr_provider r = pw_provider v \<and> cr_cached r) rs)"

lemma count_result_provider [simp]: "pw_provider (count_result d h r v) = pw_provider v"
  by (simp add: count_result_def Let_def split: option.splits)

lemma count_result_counts:
  assumes "counts_of rs v" "pw_provider v = cr_provider r"
  shows "counts_of (rs @ [r]) (count_result d h r v)"
  using assms by (simp add: counts_of_def count_result_def Let_def split: option.splits)

lemma counts_of_other:
  assumes "counts_of rs v" "pw_provider v \<noteq> cr_provider r"
  shows "counts_of (rs @ [r]) v"
  using assms by (simp add: counts_of_def)

lemma counts_of_fresh:
  assumes "cr_provider r \<notin> cr_provider ` set rs"
  shows "counts_of rs (fresh_view g (cr_provider r))"
  using assms by (auto simp: counts_of_def fresh_view_def filter_empty_conv image_iff)

lemma enter_result_providers: "pw_provider ` set (enter_result d h g r vs) = insert (cr_provider r) (pw_provider ` set vs)"
  by (induction vs) (auto simp: fresh_view_def)

lemma enter_result_distinct:
  assumes "distinct (map pw_provider vs)"
  shows "distinct (map pw_provider (enter_result d h g r vs))"
  using assms
proof (induction vs)
  case (Cons v vs)
  then show ?case using enter_result_providers [of d h g r vs] by (auto simp del: set_map simp: set_map image_iff)
qed simp

lemma enter_result_counts:
  assumes "distinct (map pw_provider vs)" "list_all (counts_of rs) vs"
    and "cr_provider r \<in> pw_provider ` set vs \<or> cr_provider r \<notin> cr_provider ` set rs"
  shows "list_all (counts_of (rs @ [r])) (enter_result d h g r vs)"
  using assms
proof (induction vs)
  case Nil
  then have "counts_of (rs @ [r]) (count_result d h r (fresh_view g (cr_provider r)))"
    by (intro count_result_counts counts_of_fresh) (simp_all add: fresh_view_def)
  then show ?case by simp
next
  case (Cons v vs)
  show ?case
  proof (cases "pw_provider v = cr_provider r")
    case True
    then have "list_all (counts_of (rs @ [r])) vs"
      using Cons.prems(1,2) by (auto simp: list_all_iff image_iff intro!: counts_of_other)
    then show ?thesis using True Cons.prems(2) by (simp add: count_result_counts)
  next
    case False
    then show ?thesis using Cons by (auto simp: counts_of_other)
  qed
qed

definition views_of :: "'d deps \<Rightarrow> history \<Rightarrow> registry \<Rightarrow> check_result list \<Rightarrow> provider_view list" where
  "views_of d h g rs = fold (enter_result d h g) rs []"

lemma views_of_counts:
  "distinct (map pw_provider (views_of d h g rs)) \<and> pw_provider ` set (views_of d h g rs) = cr_provider ` set rs
   \<and> list_all (counts_of rs) (views_of d h g rs)"
proof (induction rs rule: rev_induct)
  case (snoc r rs)
  have v: "views_of d h g (rs @ [r]) = enter_result d h g r (views_of d h g rs)" by (simp add: views_of_def)
  show ?case unfolding v
    using snoc by (auto simp: enter_result_distinct enter_result_providers simp del: set_map intro!: enter_result_counts)
qed (simp add: views_of_def)

lemma strict_weak_view_before: "strict_weak view_before"
  by (auto simp: strict_weak_def view_before_def split: if_splits
      dest: string_less_trans string_less_asym) (metis string_less_linear string_less_trans)+

lemma counts_of_finish: "counts_of rs (finish_view d h v) \<longleftrightarrow> counts_of rs v"
  by (simp add: counts_of_def finish_view_def)

lemma finish_view_provider [simp]: "pw_provider (finish_view d h v) = pw_provider v"
  by (simp add: finish_view_def)

lemma failing_all:
  "length (filter (\<lambda>r. P r \<and> \<not> Q r) rs) = length (filter P rs) \<longleftrightarrow> \<not> list_ex (\<lambda>r. P r \<and> Q r) rs"
proof -
  have "length (filter P rs) = length (filter (\<lambda>r. P r \<and> \<not> Q r) rs) + length (filter (\<lambda>r. P r \<and> Q r) rs)"
    by (induction rs) auto
  then show ?thesis by (auto simp: filter_empty_conv list_ex_iff)
qed

lemma finish_view_status:
  assumes "counts_of rs v"
  shows "pw_status (finish_view d h v) = (if \<not> list_ex (\<lambda>r. cr_provider r = pw_provider v \<and> cr_success r) rs then ''down''
    else if list_ex (\<lambda>r. cr_provider r = pw_provider v \<and> \<not> cr_success r) rs then ''degraded'' else ''ok'')"
  using assms failing_all [of "\<lambda>r. cr_provider r = pw_provider v" cr_success rs]
  by (auto simp: finish_view_def counts_of_def filter_empty_conv list_ex_iff)

lemma sum_counts:
  assumes "distinct ps" "cr_provider ` set rs \<subseteq> set ps"
  shows "sum_list (map (\<lambda>p. length (filter (\<lambda>r. cr_provider r = p) rs)) ps) = length rs"
  using assms(2)
proof (induction rs)
  case (Cons r rs)
  have "sum_list (map (\<lambda>p. if cr_provider r = p then Suc (f p) else f p) qs)
      = sum_list (map f qs) + (if cr_provider r \<in> set qs then 1 else 0)" if "distinct qs" for f :: "gostring \<Rightarrow> nat" and qs
    using that by (induction qs) auto
  from this [OF assms(1), of "\<lambda>p. length (filter (\<lambda>r. cr_provider r = p) rs)"] Cons show ?case
    by (simp add: if_distrib [of length] cong: if_cong)
qed simp

text \<open>The provider view has every provider of the last check once, the broken ones first; the counts
  of each are those of its own results, so that they add up to the whole check, its errors name its
  failed projects in order, and it is down exactly when no result of it succeeded, ok exactly when
  all did.\<close>

theorem providers_partition:
  "distinct (map pw_provider (fst (providerStatus d h g)))
   \<and> pw_provider ` set (fst (providerStatus d h g)) = cr_provider ` set (bst_projects (Balance (dp_runtime d)))
   \<and> list_all (counts_of (bst_projects (Balance (dp_runtime d)))) (fst (providerStatus d h g))
   \<and> sum_list (map pw_projects (fst (providerStatus d h g))) = length (bst_projects (Balance (dp_runtime d)))
   \<and> sorted_wrt (\<lambda>a b. \<not> view_before b a) (fst (providerStatus d h g))
   \<and> list_all (\<lambda>v. pw_status v = (if \<not> list_ex (\<lambda>r. cr_provider r = pw_provider v \<and> cr_success r) (bst_projects (Balance (dp_runtime d)))
        then ''down'' else if list_ex (\<lambda>r. cr_provider r = pw_provider v \<and> \<not> cr_success r) (bst_projects (Balance (dp_runtime d)))
        then ''degraded'' else ''ok'')) (fst (providerStatus d h g))"
proof -
  let ?rs = "bst_projects (Balance (dp_runtime d))" and ?out = "fst (providerStatus d h g)"
  let ?vs = "map (finish_view d h) (views_of d h g ?rs)"
  have out: "?out = sort_by view_before ?vs" by (simp add: providerStatus_def views_of_def Let_def)
  have m: "mset (map pw_provider ?out) = mset (map pw_provider (views_of d h g ?rs))"
    unfolding out mset_map mset_sort_by by (simp add: image_mset.compositionality comp_def)
  note v = views_of_counts [of d h g ?rs]
  have d: "distinct (map pw_provider ?out)" using v m by (metis mset_eq_imp_distinct_iff)
  have s: "set (map pw_provider ?out) = cr_provider ` set ?rs" using v m by (metis mset_eq_setD set_map)
  have c: "list_all (counts_of ?rs) ?out" using v by (simp add: out list_all_iff counts_of_finish)
  have pm: "map pw_projects ?out = map (\<lambda>p. length (filter (\<lambda>r. cr_provider r = p) ?rs)) (map pw_provider ?out)"
    using c by (simp add: list_all_iff counts_of_def)
  have t: "sum_list (map pw_projects ?out) = length ?rs" unfolding pm using s by (intro sum_counts [OF d]) simp
  have "list_all (\<lambda>v. pw_status v = (if \<not> list_ex (\<lambda>r. cr_provider r = pw_provider v \<and> cr_success r) ?rs
        then ''down'' else if list_ex (\<lambda>r. cr_provider r = pw_provider v \<and> \<not> cr_success r) ?rs then ''degraded'' else ''ok'')) ?out"
    using v finish_view_status [of ?rs _ d h] by (simp add: out list_all_iff)
  then show ?thesis using d s c t sorted_sort_by [OF strict_weak_view_before] by (simp add: out)
qed

section \<open>The same rules as the spending profile\<close>

text \<open>A zone in which the instants before a day's midnight are those of earlier days.\<close>

definition days_split :: "zone \<Rightarrow> bool" where
  "days_split z \<longleftrightarrow> has_midnights z \<and> (\<forall>t n. t_before t (midnight z n) \<longleftrightarrow> local_day (in_zone t z) < n)"

definition at_point :: "zone \<Rightarrow> sample \<Rightarrow> point" where
  "at_point z s = \<lparr>pt_at = in_zone (sa_at s) z, pt_balance = sa_balance s\<rparr>"

lemma div_less_int: "0 < q \<Longrightarrow> a div q < n \<longleftrightarrow> a < n * q" for a q n :: int
proof -
  assume q: "0 < q"
  have "n * q \<le> a" if "n \<le> a div q"
    using mult_right_mono [OF that, of q] q div_mult_mod_eq [of a q] pos_mod_sign [OF q, of a] by linarith
  moreover have "n \<le> a div q" if "n * q \<le> a" using zdiv_mono1 [OF that q] q by simp
  ultimately show ?thesis by linarith
qed

lemma day_of_ns: "t < (n * 86400 - off) * 1000000000 \<longleftrightarrow> (t div 1000000000 + off) div 86400 < n" for t n off :: int
proof -
  have "t < (n * 86400 - off) * 1000000000 \<longleftrightarrow> t div 1000000000 < n * 86400 - off" by (rule div_less_int [symmetric]) simp
  also have "\<dots> \<longleftrightarrow> t div 1000000000 + off < n * 86400" by auto
  also have "\<dots> \<longleftrightarrow> (t div 1000000000 + off) div 86400 < n" by (simp add: div_less_int)
  finally show ?thesis .
qed

lemma fixed_zone_splits: "days_split (fixed_zone off)"
  using day_of_ns [of _ _ off] day_of_ns [of _ _ 0]
  by (simp add: days_split_def t_before_def midnight_def local_day_def local_sec_def in_zone_def resolve_def fixed_zone_def
    t_sec_def second_def)

lemma spend_moves_flows:
  assumes "\<And>k. amount_on m k = fst (day_sums a k)"
    and "flows (map (at_point z) ps) (sm_consumed a) (sm_topped a) m = (c, t, m')"
  shows "c = sm_consumed (spend_moves z ps a) \<and> t = sm_topped (spend_moves z ps a)
    \<and> (\<forall>k. amount_on m' k = fst (day_sums (spend_moves z ps a) k))"
  using assms
proof (induction z ps a arbitrary: m rule: spend_moves.induct)
  case (1 loc p q ps a)
  let ?delta = "fsub (sa_balance p) (sa_balance q)" and ?d = "fmt_date (in_zone (sa_at q) loc)"
  let ?m = "if flt (Fin 0) ?delta then m(?d \<mapsto> fadd (amount_on m ?d) ?delta) else m"
  have days: "amount_on ?m k = fst (day_sums (spend_step loc p q a) k)" for k
    using "1.prems"(1) [of k] "1.prems"(1) [of ?d]
    by (auto simp: spend_step_def Let_def day_key_def amount_on_def day_sums_def split: prod.splits option.splits if_splits)
  have "flows (map (at_point loc) (q # ps)) (sm_consumed (spend_step loc p q a)) (sm_topped (spend_step loc p q a)) ?m = (c, t, m')"
    using "1.prems"(2) by (auto simp: at_point_def [abs_def] spend_step_def Let_def fsub_def split: prod.splits if_splits)
  from "1.IH" [OF days this] show ?case by simp
qed auto

definition day_view :: "spend_sums \<Rightarrow> zone \<Rightarrow> int \<Rightarrow> daily_view" where
  "day_view a z n = (let key = fmt_date (midnight z n) in
     \<lparr>dv_date = key, dv_consumed = round6 (fst (day_sums a key)), dv_topped = round6 (snd (day_sums a key))\<rparr>)"

lemma spend_days_list:
  assumes "days_split z"
  shows "spend_days a z (midnight z i) fin out = Some (out @ map (day_view a z) [i..local_day (in_zone fin z)])"
proof (induction "nat (local_day (in_zone fin z) + 1 - i)" arbitrary: i out)
  case 0
  then have "t_after (midnight z i) fin" using assms by (simp add: t_after_def days_split_def t_before_def)
  then show ?case using 0 by (subst spend_days.simps) simp
next
  case (Suc k)
  then have i: "i \<le> local_day (in_zone fin z)" by simp
  then have n: "\<not> t_after (midnight z i) fin" using assms by (simp add: t_after_def days_split_def t_before_def)
  have e: "spend_days a z (midnight z (i + 1)) fin d = Some (d @ map (day_view a z) [i + 1..local_day (in_zone fin z)])" for d
    using Suc.hyps(2) by (intro Suc.hyps(1)) simp
  have m: "has_midnights z" using assms by (simp add: days_split_def)
  have z: "in_zone (midnight z i) z = midnight z i" by (simp add: in_zone_def midnight_def)
  show ?case using n i m
    by (subst spend_days.simps) (simp add: add_days_midnight e day_view_def z upto_rec1 Let_def split: prod.splits)
qed

lemma mcp_startOfDay_midnight: "mcp_startOfDay t z = midnight z (local_day (in_zone t z))"
  unfolding mcp_startOfDay_def Let_def date_time_midnight day_number_t_civil(1) ..


definition demo_series :: spend_series where
  "demo_series = \<lparr>ss_id = ''x:p'', ss_name = ''p'', ss_provider = ''x'', ss_type = TypeBalance,
     ss_samples = [\<lparr>sa_at = \<lparr>t_ns = 0, t_zone = utc_zone\<rparr>, sa_balance = Fin 100, sa_below = False\<rparr>,
       \<lparr>sa_at = \<lparr>t_ns = 5 * second, t_zone = utc_zone\<rparr>, sa_balance = Fin 70, sa_below = False\<rparr>,
       \<lparr>sa_at = \<lparr>t_ns = 9 * second, t_zone = utc_zone\<rparr>, sa_balance = Fin 90, sa_below = False\<rparr>]\<rparr>"


end
