(* ===== verification/McpDashboard.thy ===== *)
theory McpDashboard
  imports McpSpend Scheduler
begin

text \<open>
  The dashboard summary (\<open>internal/mcpserver/dashboard.go\<close>), the tools and resources a caller's scopes
  open (\<open>tools.go\<close>, \<open>resources.go\<close>), and what the scopes keep apart: without the balance scope nothing
  a request answers depends on any balance.
\<close>

section \<open>Shapes\<close>

record attention_item =
  ai_severity :: gostring
  ai_kind :: gostring
  ai_subject :: gostring
  ai_project_id :: "gostring option"
  ai_message :: gostring

record runway_brief =
  rb_id :: gostring
  rb_name :: gostring
  rb_provider :: gostring
  rb_days :: f64
  rb_depletion :: "gostring option"

record balance_overview =
  ov_counts :: balance_counts
  ov_shortest :: "runway_brief option"

record renewal_brief =
  nb_id :: gostring
  nb_name :: gostring
  nb_date :: gostring
  nb_days :: int
  nb_amount :: f64

record subscription_overview =
  os_total :: nat
  os_due :: nat
  os_within7 :: nat
  os_within30 :: nat
  os_next :: "renewal_brief option"

record email_overview =
  oe_status :: gostring
  oe_last_scan :: "gostring option"
  oe_alert_emails :: nat
  oe_failed :: nat

record alert_overview =
  oa_days :: int
  oa_total :: int
  oa_by_type :: "(gostring \<times> int) list"
  oa_latest :: "alert_view list"

record service_overview =
  vo_status :: gostring
  vo_version :: gostring
  vo_is_stale :: bool
  vo_failing :: "gostring list"

record dashboard_output =
  do_meta :: meta
  do_status :: gostring
  do_attention :: "attention_item list"
  do_balances :: "balance_overview option"
  do_subscriptions :: "subscription_overview option"
  do_email :: "email_overview option"
  do_alerts :: "alert_overview option"
  do_service :: service_overview

section \<open>What needs attention\<close>

definition attention :: "bool \<Rightarrow> gostring \<Rightarrow> gostring \<Rightarrow> gostring option \<Rightarrow> gostring \<Rightarrow> attention_item" where
  "attention severe kind subject pid message =
     \<lparr>ai_severity = (if severe then ''critical'' else ''warning''), ai_kind = kind, ai_subject = subject,
      ai_project_id = pid, ai_message = message\<rparr>"

definition amount :: "f64 option \<Rightarrow> gostring" where
  "amount v = (case v of None \<Rightarrow> ''unknown'' | Some x \<Rightarrow> format_fixed 2 x)"

definition check_message :: "project_status \<Rightarrow> gostring" where
  "check_message p = (case cv_error (ps_check p) of None \<Rightarrow> [] | Some e \<Rightarrow> ei_message e)"

text \<open>The items of one project: its state, then a short runway.\<close>

definition project_items :: "f64 \<Rightarrow> project_status \<Rightarrow> attention_item list" where
  "project_items limit p =
     (let pid = optional_str (ps_id p);
          state = (if ps_status p = ''check_failed''
              then [attention True ''check_failed'' (ps_name p) pid (''the balance can't be read: '' @ check_message p)]
            else if ps_status p = ''below_threshold''
              then [attention True ''below_threshold'' (ps_name p) pid
                (''balance '' @ amount (ps_balance p) @ '' is below the threshold '' @ amount (ps_threshold p))]
            else []);
          short = (case ps_runway p of None \<Rightarrow> []
            | Some rv \<Rightarrow> (case rv_days rv of None \<Rightarrow> []
              | Some days \<Rightarrow> if flt (Fin 0) limit \<and> fle days limit
                  then [attention (fle days (Fin 1)) ''runway_short'' (ps_name p) pid
                    (''about '' @ format_fixed 1 days @ '' days of balance left'' @
                     (case rv_depletion rv of None \<Rightarrow> [] | Some dd \<Rightarrow> '', running out around '' @ dd))]
                  else []))
      in state @ short)"

fun shortest_runway :: "project_status list \<Rightarrow> runway_brief option \<Rightarrow> runway_brief option" where
  "shortest_runway [] best = best"
| "shortest_runway (p # ps) best =
     (case ps_runway p of None \<Rightarrow> shortest_runway ps best
      | Some rv \<Rightarrow> (case rv_days rv of None \<Rightarrow> shortest_runway ps best
        | Some days \<Rightarrow> shortest_runway ps
            (if (case best of None \<Rightarrow> True | Some b \<Rightarrow> flt days (rb_days b))
             then Some \<lparr>rb_id = ps_id p, rb_name = ps_name p, rb_provider = ps_provider p, rb_days = days, rb_depletion = rv_depletion rv\<rparr>
             else best)))"

definition renewal_items :: "subscription_view list \<Rightarrow> attention_item list" where
  "renewal_items subs = map (\<lambda>s. attention (sv_days s \<le> 1) ''renewal_due'' (sv_name s) None
     (''renews '' @ renews_in (sv_days s) @ '' ('' @ sv_next_date s @ ''), '' @ format_f (sv_amount s)))
     (filter (\<lambda>s. rm_due (sv_reminder s)) subs)"

fun next_renewal_brief :: "subscription_view list \<Rightarrow> renewal_brief option \<Rightarrow> renewal_brief option" where
  "next_renewal_brief [] best = best"
| "next_renewal_brief (s # ss) best = next_renewal_brief ss
     (if (case best of None \<Rightarrow> True | Some b \<Rightarrow> sv_days s < nb_days b)
      then Some \<lparr>nb_id = sv_id s, nb_name = sv_name s, nb_date = sv_next_date s, nb_days = sv_days s, nb_amount = sv_amount s\<rparr>
      else best)"

definition subscription_overview_of :: "subscription_status_output \<Rightarrow> subscription_overview" where
  "subscription_overview_of out =
     (let unpaid = filter (\<lambda>s. \<not> sv_renewed s) (so_subscriptions out)
      in \<lparr>os_total = so_total out, os_due = so_due out, os_within7 = length (filter (\<lambda>s. sv_days s \<le> 7) unpaid),
          os_within30 = length (filter (\<lambda>s. sv_days s \<le> 30) unpaid), os_next = next_renewal_brief unpaid None\<rparr>)"

definition email_items :: "email_scan_output \<Rightarrow> attention_item list" where
  "email_items scan =
     (let fresh = filter (\<lambda>a. \<not> ea_duplicate a) (eo_alerts scan)
      in (if fresh = [] then [] else [attention False ''email_alerts'' ''email'' None
            (quantity (int (length fresh)) ''new alert email'' ''new alert emails'' @ '' in the last scan, such as '' @
             quote (ea_subject (last fresh)))]) @
         map (\<lambda>m. attention False ''mailbox_failed'' (mv_name m) None
           (''the last scan could not read it'' @ (case mv_error m of None \<Rightarrow> [] | Some e \<Rightarrow> '': '' @ e)))
           (filter (\<lambda>m. \<not> mv_success m) (eo_mailboxes scan)))"

definition alert_overview_of :: "'d deps \<Rightarrow> history \<Rightarrow> alert_overview" where
  "alert_overview_of d h =
     (let (total_n, by_type) = (case hy_stats h 7 of Inr (Some st) \<Rightarrow> (as_total st, as_by_type st) | _ \<Rightarrow> (0, []));
          latest = (case hy_alerts h \<lparr>aq_project_id = [], aq_alert_type = [], aq_days = 7, aq_limit = 5\<rparr> of
            Inl _ \<Rightarrow> [] | Inr rows \<Rightarrow> map (\<lambda>r. alertView r (providerOf d)) rows)
      in \<lparr>oa_days = 7, oa_total = total_n, oa_by_type = by_type, oa_latest = latest\<rparr>)"

definition job_items :: "job_view list \<Rightarrow> attention_item list" where
  "job_items jobs = map (\<lambda>j. attention False ''job_failing'' (jv_name j) None
     (''the last run failed: '' @ (case jv_last_error j of None \<Rightarrow> [] | Some e \<Rightarrow> e)))
     (filter (\<lambda>j. jv_status j = ''failing'') jobs)"

definition service_items :: "health_output \<Rightarrow> attention_item list" where
  "service_items hl =
     job_items (ho_jobs hl)
     @ (if ho_has_data hl then [] else [attention False ''no_data'' ''balances'' None
         ''no balance has been checked yet; set a {PROVIDER}_API_KEY or add a project on the dashboard''])
     @ (if ho_is_stale hl then (case me_data_age_seconds (ho_meta hl) of None \<Rightarrow> []
         | Some age \<Rightarrow> [attention False ''stale_data'' ''balances'' None
             (''the last successful refresh was '' @ duration_string (wrap64 (age * second)) @ '' ago'')]) else [])"

text \<open>Everything in the order it is found; the critical items come first in the answer.\<close>

definition all_items :: "'d deps \<Rightarrow> attention_item list" where
  "all_items d =
     (if allows d [ScopeBalance]
      then concat (map (project_items (st_runway_days (dp_settings d))) (bo_projects (balanceStatus d no_filter))) else [])
     @ (if allows d [ScopeSubscriptions] then renewal_items (so_subscriptions (subscriptionStatus d)) else [])
     @ (if allows d [ScopeEmail] then email_items (emailScan d) else [])
     @ service_items (health d)"

definition dashboard :: "'d deps \<Rightarrow> history \<Rightarrow> dashboard_output" where
  "dashboard d h =
     (let hl = health d; items = all_items d;
          out_items = filter (\<lambda>i. ai_severity i = ''critical'') items @ filter (\<lambda>i. ai_severity i \<noteq> ''critical'') items
      in \<lparr>do_meta = ho_meta hl,
          do_status = (if ho_status hl = ''degraded'' then ''degraded'' else if out_items \<noteq> [] then ''attention'' else ''ok''),
          do_attention = out_items,
          do_balances = (if allows d [ScopeBalance] then let b = balanceStatus d no_filter in
            Some \<lparr>ov_counts = bo_counts b, ov_shortest = shortest_runway (bo_projects b) None\<rparr> else None),
          do_subscriptions = (if allows d [ScopeSubscriptions] then Some (subscription_overview_of (subscriptionStatus d)) else None),
          do_email = (if allows d [ScopeEmail] then let s = emailScan d in
            Some \<lparr>oe_status = eo_status s, oe_last_scan = eo_last_scan s,
              oe_alert_emails = length (filter (\<lambda>a. \<not> ea_duplicate a) (eo_alerts s)),
              oe_failed = es_failed_mailboxes (eo_summary s)\<rparr> else None),
          do_alerts = (if allows d [ScopeAlerts] \<and> dp_history d then Some (alert_overview_of d h) else None),
          do_service = \<lparr>vo_status = ho_status hl, vo_version = ho_version hl, vo_is_stale = ho_is_stale hl,
            vo_failing = ho_failed_jobs hl\<rparr>\<rparr>)"

definition dashboardSummary :: "dashboard_output \<Rightarrow> gostring" where
  "dashboardSummary out =
     (if do_attention out = [] then do_status out @ '': nothing needs attention''
      else let parts = map (\<lambda>i. ai_subject i @ '' '' @ map (\<lambda>c. if c = CHR ''_'' then CHR '' '' else c) (ai_kind i)) (take 3 (do_attention out));
               more = length (do_attention out) - length parts
        in do_status out @ '': '' @ join '', '' parts @ (if 0 < more then '' and '' @ itoa (int more) @ '' more'' else []))"

section \<open>The tools\<close>

record provider_info =
  pf_provider :: gostring
  pf_name :: gostring
  pf_default_type :: gostring
  pf_unit :: gostring

definition provider_infos :: "registry \<Rightarrow> provider_info list" where
  "provider_infos g = map (\<lambda>i. \<lparr>pf_provider = in_key i, pf_name = in_name i, pf_default_type = in_default_type i,
     pf_unit = unitOf (in_default_type i)\<rparr>) (List.map_filter (\<lambda>x. x) (All_providers g))"

text \<open>The requests, one constructor per tool with its arguments.\<close>

datatype tool_request =
    DashboardSummary | HealthTool | CapabilitiesTool | ProvidersTool | JobStatusTool
  | BalanceStatusTool balance_status_input | ProviderStatusTool | SpendSummaryTool int gostring gostring
  | UpcomingRenewalsTool int bool | SubscriptionStatusTool | EmailScanTool
  | ProjectConfigTool | MailboxConfigTool | SubscriptionConfigTool
  | BalanceHistoryTool time_range int gostring gostring | BalanceTrendTool gostring int gostring int gostring
  | RecentAlertsTool time_range int gostring gostring | RecentEmailAlertsTool time_range int gostring
  | EventsTool time_range int gostring | AlertStatsTool int

datatype answer =
    ADashboard dashboard_output gostring | AHealth health_output | ACapabilities capabilities_output
  | AProviders meta "provider_info list" | AJobs job_status_output | ABalances balance_status_output
  | AProviderStatus meta "provider_view list" gostring | ASpend "(error_info + spend_output) option"
  | AUpcoming meta "int \<times> subscription_view list" | ASubscriptions subscription_status_output | AEmailScan email_scan_output
  | AProjectConfig meta "project_config_view list" | AMailboxConfig meta "mailbox_config_view list"
  | ASubscriptionConfig meta "subscription_config_view list"
  | ASnapshots "error_info + snapshot_view history_page" | ATrend "error_info + trend_output"
  | AAlerts "error_info + alert_view history_page" | AEmails "error_info + email_history_row history_page"
  | AEvents "error_info + event_view history_page" | AStats "error_info + (int \<times> alert_stats)"

fun tool_scopes :: "tool_request \<Rightarrow> gostring list" where
  "tool_scopes DashboardSummary = []"
| "tool_scopes HealthTool = []"
| "tool_scopes CapabilitiesTool = []"
| "tool_scopes ProvidersTool = []"
| "tool_scopes JobStatusTool = []"
| "tool_scopes (BalanceStatusTool f) = [ScopeBalance]"
| "tool_scopes ProviderStatusTool = [ScopeBalance]"
| "tool_scopes (SpendSummaryTool n p i) = [ScopeBalance]"
| "tool_scopes (UpcomingRenewalsTool n b) = [ScopeSubscriptions]"
| "tool_scopes SubscriptionStatusTool = [ScopeSubscriptions]"
| "tool_scopes EmailScanTool = [ScopeEmail]"
| "tool_scopes ProjectConfigTool = [ScopeConfig, ScopeBalance]"
| "tool_scopes MailboxConfigTool = [ScopeConfig, ScopeEmail]"
| "tool_scopes SubscriptionConfigTool = [ScopeConfig, ScopeSubscriptions]"
| "tool_scopes (BalanceHistoryTool r n i p) = [ScopeBalance]"
| "tool_scopes (BalanceTrendTool i n v l c) = [ScopeBalance]"
| "tool_scopes (RecentAlertsTool r n i t) = [ScopeAlerts]"
| "tool_scopes (RecentEmailAlertsTool r n m) = [ScopeEmail]"
| "tool_scopes (EventsTool r n t) = [ScopeAlerts]"
| "tool_scopes (AlertStatsTool n) = [ScopeAlerts]"

fun run_tool :: "'d deps \<Rightarrow> history \<Rightarrow> registry \<Rightarrow> tool_request \<Rightarrow> answer" where
  "run_tool d h g DashboardSummary = ADashboard (dashboard d h) (dashboardSummary (dashboard d h))"
| "run_tool d h g HealthTool = AHealth (health d)"
| "run_tool d h g CapabilitiesTool = ACapabilities (capabilities d)"
| "run_tool d h g ProvidersTool = AProviders (make_meta d ''catalog'' None) (provider_infos g)"
| "run_tool d h g JobStatusTool = AJobs (jobStatus d)"
| "run_tool d h g (BalanceStatusTool f) = ABalances (balanceStatus d f)"
| "run_tool d h g ProviderStatusTool = (let (vs, s) = providerStatus d h g in
     AProviderStatus (make_meta d ''live_state'' (bst_last_update (Balance (dp_runtime d)))) vs s)"
| "run_tool d h g (SpendSummaryTool n p i) = ASpend (spendSummary d h n p i)"
| "run_tool d h g (UpcomingRenewalsTool n b) = AUpcoming (so_meta (subscriptionStatus d)) (upcomingRenewals d n b)"
| "run_tool d h g SubscriptionStatusTool = ASubscriptions (subscriptionStatus d)"
| "run_tool d h g EmailScanTool = AEmailScan (emailScan d)"
| "run_tool d h g ProjectConfigTool = AProjectConfig (make_meta d ''configuration'' None) (map project_config (cf_projects (dp_config d)))"
| "run_tool d h g MailboxConfigTool = AMailboxConfig (make_meta d ''configuration'' None) (map mailbox_config (cf_mailboxes (dp_config d)))"
| "run_tool d h g SubscriptionConfigTool =
     ASubscriptionConfig (make_meta d ''configuration'' None) (map subscriptionConfigView (cf_subscriptions (dp_config d)))"
| "run_tool d h g (BalanceHistoryTool r n i p) = ASnapshots (balanceHistory d h r n i p)"
| "run_tool d h g (BalanceTrendTool i n v l c) = ATrend (trend_tool d h i n v l c)"
| "run_tool d h g (RecentAlertsTool r n i t) = AAlerts (recentAlerts d h r n i t)"
| "run_tool d h g (RecentEmailAlertsTool r n m) = AEmails (recentEmailAlerts d h r n m)"
| "run_tool d h g (EventsTool r n t) = AEvents (events d h r n t)"
| "run_tool d h g (AlertStatsTool n) = AStats (alertStats d h n)"

text \<open>A server lists and serves only the tools whose scopes the caller has.\<close>

definition serve_tool :: "'d deps \<Rightarrow> history \<Rightarrow> registry \<Rightarrow> tool_request \<Rightarrow> answer option" where
  "serve_tool d h g r = (if allows d (tool_scopes r) then Some (run_tool d h g r) else None)"

section \<open>The resources\<close>

definition read_project :: "'d deps \<Rightarrow> gostring \<Rightarrow> (meta \<times> project_status) option" where
  "read_project d uri =
     (let prefix = ''quotapulse://projects/''; suffix = ''/status'' in
      if \<not> has_prefix uri prefix then None
      else let rest = drop (length prefix) uri in
        if \<not> has_suffix rest suffix then None
        else let pid = take (length rest - length suffix) rest in
          if pid = [] \<or> CHR ''/'' \<in> set pid then None
          else let out = balanceStatus d (no_filter\<lparr>bi_ids := [pid]\<rparr>) in
            case bo_projects out of [] \<Rightarrow> None | p # _ \<Rightarrow> Some (bo_meta out, p))"

text \<open>The state resource, by its kind.\<close>

definition read_state :: "'d deps \<Rightarrow> gostring \<Rightarrow> answer option" where
  "read_state d kind =
     (if kind = ''balance'' \<and> allows d [ScopeBalance] then Some (ABalances (balanceStatus d no_filter))
      else if kind = ''subscriptions'' \<and> allows d [ScopeSubscriptions] then Some (ASubscriptions (subscriptionStatus d))
      else if kind = ''email'' \<and> allows d [ScopeEmail] then Some (AEmailScan (emailScan d))
      else if kind = ''jobs'' then Some (AJobs (jobStatus d))
      else None)"

section \<open>What the scopes keep apart\<close>

text \<open>Two requests that differ only in balances: the results of the checks, as long as there are none in
  both or some in both and they are of the same age, and the configured projects, as long as they are
  as many.\<close>

definition same_outside_balances :: "'d deps \<Rightarrow> 'd deps \<Rightarrow> bool" where
  "same_outside_balances d d' \<longleftrightarrow>
     d' = d\<lparr>dp_runtime := (dp_runtime d)\<lparr>mg_balance := mg_balance (dp_runtime d')\<rparr>,
       dp_config := (dp_config d)\<lparr>cf_projects := cf_projects (dp_config d')\<rparr>\<rparr>
     \<and> bst_last_update (mg_balance (dp_runtime d')) = bst_last_update (mg_balance (dp_runtime d))
     \<and> (bst_projects (mg_balance (dp_runtime d')) = [] \<longleftrightarrow> bst_projects (mg_balance (dp_runtime d)) = [])
     \<and> length (cf_projects (dp_config d')) = length (cf_projects (dp_config d))"

lemma same_outside_balances_elim:
  assumes "same_outside_balances d d'"
  obtains b ps where "d' = d\<lparr>dp_runtime := (dp_runtime d)\<lparr>mg_balance := b\<rparr>, dp_config := (dp_config d)\<lparr>cf_projects := ps\<rparr>\<rparr>"
    "bst_last_update b = bst_last_update (mg_balance (dp_runtime d))"
    "bst_projects b = [] \<longleftrightarrow> bst_projects (mg_balance (dp_runtime d)) = []" "length ps = length (cf_projects (dp_config d))"
  using assms unfolding same_outside_balances_def by metis

lemma balances_hidden:
  assumes "same_outside_balances d d'"
  shows "make_meta d' src u = make_meta d src u" "jobViews d' = jobViews d" "health d' = health d"
    "subscriptionStatus d' = subscriptionStatus d" "emailScan d' = emailScan d" "allows d' sc = allows d sc"
    "dp_settings d' = dp_settings d" "dp_history d' = dp_history d" "dp_now d' = dp_now d" "dp_local d' = dp_local d"
    "dp_caller d' = dp_caller d" "Jobs (dp_runtime d') = Jobs (dp_runtime d)"
    "cf_mailboxes (dp_config d') = cf_mailboxes (dp_config d)" "cf_subscriptions (dp_config d') = cf_subscriptions (dp_config d)"
    "length (cf_projects (dp_config d')) = length (cf_projects (dp_config d))"
    "enabled_mailboxes (dp_config d') = enabled_mailboxes (dp_config d)"
proof -
  obtain b ps where d': "d' = d\<lparr>dp_runtime := (dp_runtime d)\<lparr>mg_balance := b\<rparr>, dp_config := (dp_config d)\<lparr>cf_projects := ps\<rparr>\<rparr>"
    "bst_last_update b = bst_last_update (mg_balance (dp_runtime d))"
    "bst_projects b = [] \<longleftrightarrow> bst_projects (mg_balance (dp_runtime d)) = []" "length ps = length (cf_projects (dp_config d))"
    by (rule same_outside_balances_elim [OF assms])
  show m: "make_meta d' src u = make_meta d src u" for src u
    by (simp add: make_meta_def timezoneName_def Balance_def d' Let_def)
  show j: "Jobs (dp_runtime d') = Jobs (dp_runtime d)" by (simp add: Jobs_def d')
  show e: "enabled_mailboxes (dp_config d') = enabled_mailboxes (dp_config d)" by (simp add: enabled_mailboxes_def d')
  have st: "dp_settings d' = dp_settings d" by (simp add: d')
  have em: "mg_email (dp_runtime d') = mg_email (dp_runtime d)" by (simp add: d')
  show jv: "jobViews d' = jobViews d" by (simp add: jobViews_def j e)
  show "health d' = health d"
    unfolding health_def m jv j by (simp add: Balance_def FailedJobs_def UptimeSeconds_def Let_def d')
  show "subscriptionStatus d' = subscriptionStatus d" by (simp add: subscriptionStatus_def Subscriptions_def m) (simp add: d')
  show "emailScan d' = emailScan d" unfolding emailScan_def EmailScan_def m e st em ..
  show "allows d' sc = allows d sc" by (simp add: allows_def d')
  show "dp_settings d' = dp_settings d" "dp_history d' = dp_history d" "dp_now d' = dp_now d" "dp_local d' = dp_local d"
    "dp_caller d' = dp_caller d" "cf_mailboxes (dp_config d') = cf_mailboxes (dp_config d)"
    "cf_subscriptions (dp_config d') = cf_subscriptions (dp_config d)"
    "length (cf_projects (dp_config d')) = length (cf_projects (dp_config d))" by (simp_all add: d')
qed

text \<open>C14: Without the scopes for balances and alerts nothing a caller is served depends on a balance:
  two servers that differ only in the results of their checks, in their configured projects and in
  the history of snapshots and alerts answer every request alike.\<close>

theorem balances_need_scope:
  assumes "same_outside_balances d d'" "\<not> Allows (dp_caller d) ScopeBalance" "\<not> Allows (dp_caller d) ScopeAlerts"
    and "hy_emails h' = hy_emails h"
  shows "serve_tool d' h' g r = serve_tool d h g r \<and> read_state d' kind = read_state d kind"
proof -
  note hidden = balances_hidden [OF assms(1)]
  have no: "\<not> allows d [ScopeBalance]" "\<not> allows d [ScopeConfig, ScopeBalance]" "\<not> allows d [ScopeAlerts]"
    using assms(2,3) by (simp_all add: allows_def)
  have items: "all_items d' = all_items d" by (simp add: all_items_def hidden no)
  have dash: "dashboard d' h' = dashboard d h" unfolding dashboard_def items hidden by (simp add: no)
  have caps: "capabilities d' = capabilities d" by (simp add: capabilities_def hidden Let_def)
  have jobs: "jobStatus d' = jobStatus d" unfolding jobStatus_def hidden ..
  have up: "upcomingRenewals d' n b = upcomingRenewals d n b" for n b unfolding upcomingRenewals_def hidden ..
  have mail: "recentEmailAlerts d' h' tr n m = recentEmailAlerts d h tr n m" for tr n m
    unfolding recentEmailAlerts_def hidden window_of_def assms(4) page_output_def historyMeta_def ..
  have "serve_tool d' h' g r = serve_tool d h g r"
    by (cases r) (simp_all add: serve_tool_def hidden no dash caps jobs up mail)
  moreover have "read_state d' kind = read_state d kind" by (simp add: read_state_def hidden no jobs)
  ultimately show ?thesis by simp
qed

text \<open>What a configuration shows of its secrets: whether they are set.\<close>

definition public_project :: "project \<Rightarrow> project" where
  "public_project p = p\<lparr>pj_api_key := if pj_api_key p = [] then [] else ''*''\<rparr>"

definition public_mailbox :: "mailbox \<Rightarrow> mailbox" where
  "public_mailbox m = m\<lparr>mb_password := if mb_password m = [] then [] else ''*''\<rparr>"

definition public_subscription :: "subscription \<Rightarrow> subscription" where
  "public_subscription s = s\<lparr>sb_webhook_url := if sb_webhook_url s = [] then [] else ''*''\<rparr>"

definition public_config :: "config \<Rightarrow> config" where
  "public_config c = \<lparr>cf_projects = map public_project (cf_projects c), cf_subscriptions = map public_subscription (cf_subscriptions c),
     cf_mailboxes = map public_mailbox (cf_mailboxes c)\<rparr>"

lemma filter_map_view:
  assumes "\<And>x. f (pub x) = f x" "\<And>x. P (pub x) = P x"
  shows "map f (filter P (map pub xs)) = map f (filter P xs)"
  using assms by (induction xs) simp_all

lemma public_views [simp]:
  "project_config (public_project p) = project_config p" "disabled_status (public_project p) = disabled_status p"
  "pj_enabled (public_project p) = pj_enabled p" "project_ID (public_project p) = project_ID p"
  "mailbox_config (public_mailbox m) = mailbox_config m" "mb_enabled (public_mailbox m) = mb_enabled m"
  "subscriptionConfigView (public_subscription s) = subscriptionConfigView s"
  by (simp_all add: project_config_def disabled_status_def project_ID_def mailbox_config_def subscriptionConfigView_def
    public_project_def public_mailbox_def public_subscription_def)

definition public_deps :: "'d deps \<Rightarrow> 'd deps" where
  "public_deps d = d\<lparr>dp_config := public_config (dp_config d)\<rparr>"

lemma public_deps_sel [simp]:
  "dp_settings (public_deps d) = dp_settings d" "dp_runtime (public_deps d) = dp_runtime d" "dp_history (public_deps d) = dp_history d"
  "dp_caller (public_deps d) = dp_caller d" "dp_now (public_deps d) = dp_now d" "dp_local (public_deps d) = dp_local d"
  "dp_local_name (public_deps d) = dp_local_name d"
  by (simp_all add: public_deps_def)

lemma enabled_mailboxes_public: "length (enabled_mailboxes (dp_config (public_deps d))) = length (enabled_mailboxes (dp_config d))"
  "enabled_mailboxes (dp_config (public_deps d)) = [] \<longleftrightarrow> enabled_mailboxes (dp_config d) = []"
  by (simp_all add: enabled_mailboxes_def public_deps_def public_config_def filter_map comp_def)

lemma public_counts [simp]:
  "length (cf_projects (dp_config (public_deps d))) = length (cf_projects (dp_config d))"
  "length (cf_subscriptions (dp_config (public_deps d))) = length (cf_subscriptions (dp_config d))"
  "length (cf_mailboxes (dp_config (public_deps d))) = length (cf_mailboxes (dp_config d))"
  by (simp_all add: public_deps_def public_config_def)

lemma public_meta [simp]: "make_meta (public_deps d) src u = make_meta d src u"
  by (simp add: make_meta_def timezoneName_def Let_def)

lemma public_allows [simp]: "allows (public_deps d) sc = allows d sc"
  by (simp add: allows_def)

lemma public_seconds [simp]: "secondsUntilNextCheck (public_deps d) = secondsUntilNextCheck d"
  unfolding secondsUntilNextCheck_def public_deps_sel ..

lemma public_jobViews [simp]: "jobViews (public_deps d) = jobViews d"
  by (simp add: jobViews_def enabled_mailboxes_public)

lemma public_subscriptionStatus [simp]: "subscriptionStatus (public_deps d) = subscriptionStatus d"
  by (simp add: subscriptionStatus_def)

lemma public_emailScan [simp]: "emailScan (public_deps d) = emailScan d"
  unfolding emailScan_def enabled_mailboxes_public public_deps_sel public_meta ..

lemma public_capabilities [simp]: "capabilities (public_deps d) = capabilities d"
  by (simp add: capabilities_def enabled_mailboxes_public Let_def)

lemma public_providerOf [simp]: "providerOf (public_deps d) = providerOf d"
  by (simp add: providerOf_def fun_eq_iff Let_def)

lemma public_health [simp]: "health (public_deps d) = health d"
  by (simp add: health_def)

lemma public_jobStatus [simp]: "jobStatus (public_deps d) = jobStatus d"
  by (simp add: jobStatus_def)

lemma public_checkError [simp]: "checkError (public_deps d) = checkError d"
  unfolding checkError_def public_seconds fun_eq_iff by simp

lemma public_runwayView [simp]: "runwayView (public_deps d) = runwayView d"
  by (simp add: runwayView_def fun_eq_iff)

lemma public_historyMeta [simp]: "historyMeta (public_deps d) = historyMeta d"
  by (simp add: historyMeta_def fun_eq_iff)

lemma public_window_of [simp]: "window_of (public_deps d) = window_of d"
  by (simp add: window_of_def fun_eq_iff)

lemma public_simps3 [simp]:
  "projectStatus (public_deps d) = projectStatus d" "upcomingRenewals (public_deps d) = upcomingRenewals d"
  "page_output (public_deps d) = page_output d"
  by (simp_all add: projectStatus_def upcomingRenewals_def page_output_def fun_eq_iff)

lemma balanceStatus_public [simp]: "balanceStatus (public_deps d) f = balanceStatus d f"
proof -
  have "map disabled_status (filter (\<lambda>c. \<not> (pj_enabled c \<or> project_ID c \<in> seen)) (cf_projects (dp_config (public_deps d))))
      = map disabled_status (filter (\<lambda>c. \<not> (pj_enabled c \<or> project_ID c \<in> seen)) (cf_projects (dp_config d)))" for seen
    unfolding public_deps_def public_config_def by (simp add: filter_map_view)
  then show ?thesis by (simp add: balanceStatus_def Let_def)
qed

lemma public_config_lists [simp]:
  "map project_config (cf_projects (dp_config (public_deps d))) = map project_config (cf_projects (dp_config d))"
  "map mailbox_config (cf_mailboxes (dp_config (public_deps d))) = map mailbox_config (cf_mailboxes (dp_config d))"
  "map subscriptionConfigView (cf_subscriptions (dp_config (public_deps d))) = map subscriptionConfigView (cf_subscriptions (dp_config d))"
  by (simp_all add: public_deps_def public_config_def)

lemma public_all_items [simp]: "all_items (public_deps d) = all_items d"
  by (simp add: all_items_def)

lemmas public_eqs = public_deps_sel public_meta public_allows public_seconds public_providerOf public_historyMeta
  public_window_of public_checkError fun_eq_iff

lemma public_page_output: "page_output (public_deps d) = page_output d"
  by (rule public_simps3(3))

lemma public_balanceHistory [simp]: "balanceHistory (public_deps d) = balanceHistory d"
  unfolding balanceHistory_def public_page_output public_eqs by simp

lemma public_trend_tool [simp]: "trend_tool (public_deps d) = trend_tool d"
  unfolding trend_tool_def public_eqs by simp

lemma public_recentAlerts [simp]: "recentAlerts (public_deps d) = recentAlerts d"
  unfolding recentAlerts_def public_page_output public_eqs by simp

lemma public_recentEmailAlerts [simp]: "recentEmailAlerts (public_deps d) = recentEmailAlerts d"
  unfolding recentEmailAlerts_def public_page_output public_eqs by simp

lemma public_alert_event: "alert_event_entry (public_deps d) = alert_event_entry d"
  unfolding alert_event_entry_def public_eqs by simp

lemma public_events [simp]: "events (public_deps d) = events d"
  unfolding events_def public_alert_event public_page_output public_eqs by simp

lemma public_alertStats [simp]: "alertStats (public_deps d) = alertStats d"
  unfolding alertStats_def public_eqs by simp

lemma public_alert_overview [simp]: "alert_overview_of (public_deps d) = alert_overview_of d"
  unfolding alert_overview_of_def public_eqs by simp

lemma public_dashboard [simp]: "dashboard (public_deps d) = dashboard d"
  unfolding dashboard_def public_all_items public_health balanceStatus_public public_subscriptionStatus public_emailScan
    public_alert_overview public_eqs by simp

lemma public_spend [simp]: "spendSummary (public_deps d) = spendSummary d"
  unfolding spendSummary_def public_eqs by simp

lemma public_newestSnapshot: "newestSnapshot (public_deps d) = newestSnapshot d"
  unfolding newestSnapshot_def public_eqs by simp

lemma public_count_result: "count_result (public_deps d) = count_result d"
  unfolding count_result_def public_newestSnapshot public_eqs by simp

lemma public_enter_result: "enter_result (public_deps d) h g r vs = enter_result d h g r vs"
  by (induction vs) (simp_all add: public_count_result)

lemma public_finish_view: "finish_view (public_deps d) = finish_view d"
  unfolding finish_view_def public_newestSnapshot public_eqs by simp

lemma public_providers [simp]: "providerStatus (public_deps d) = providerStatus d"
proof -
  have e: "enter_result (public_deps d) h g = enter_result d h g" for h g by (simp add: fun_eq_iff public_enter_result)
  show ?thesis unfolding fun_eq_iff providerStatus_def public_finish_view e public_deps_sel by simp
qed



text \<open>Two servers that differ in one amount, before a caller that may only see the configuration.\<close>

definition demo_served :: "f64 \<Rightarrow> unit deps" where
  "demo_served bal = \<lparr>dp_settings = read_settings ''dev'' (\<lambda>_. None),
     dp_runtime = (new_manager 0)\<lparr>mg_balance := \<lparr>bst_last_update = None,
       bst_projects = [\<lparr>cr_project = ''prod'', cr_owner = None, cr_provider = ''openrouter'', cr_type = ''credits'',
         cr_success = True, cr_credits = Some bal, cr_threshold = None, cr_need_alarm = False, cr_alarm_sent = False,
         cr_error = None, cr_cached = False, cr_runway = None, cr_checked_at = None, cr_latency_ms = None\<rparr>],
       bst_summary = summarize_balance []\<rparr>\<rparr>,
     dp_history = True, dp_config = \<lparr>cf_projects = [], cf_subscriptions = [], cf_mailboxes = []\<rparr>,
     dp_caller = \<lparr>mc_name = ''agent'', mc_scopes = {ScopeConfig}\<rparr>, dp_now = 0, dp_local = utc_zone, dp_local_name = ''UTC''\<rparr>"

definition demo_history :: "balance_history_row list \<Rightarrow> history" where
  "demo_history rows = \<lparr>hy_balances = (\<lambda>_. Inr rows), hy_trend = (\<lambda>_ _. Inr None), hy_alerts = (\<lambda>_. Inr []),
     hy_emails = (\<lambda>_. Inr []), hy_stats = (\<lambda>_. Inr None), hy_series = (\<lambda>_. Inr [])\<rparr>"

definition demo_row :: balance_history_row where
  "demo_row = \<lparr>bh_id = 1, bh_project_id = ''openrouter:prod'', bh_project_name = ''prod'', bh_provider = ''openrouter'',
     bh_balance = Fin 1, bh_threshold = None, bh_type = ''credits'', bh_need_alarm = False, bh_timestamp = ''2026-01-01T00:00:00Z''\<rparr>"

definition no_registry :: registry where
  "no_registry = \<lparr>rg_builtin = (\<lambda>_. None), rg_builtin_keys = [], rg_dynamic = []\<rparr>"

theorem balances_need_scope_witness:
  "serve_tool (demo_served (Fin 1)) (demo_history [demo_row]) no_registry DashboardSummary
     = serve_tool (demo_served (Fin 9)) (demo_history []) no_registry DashboardSummary
   \<and> mg_balance (dp_runtime (demo_served (Fin 1))) \<noteq> mg_balance (dp_runtime (demo_served (Fin 9)))"
proof -
  have "same_outside_balances (demo_served (Fin 9)) (demo_served (Fin 1))"
    by (simp add: same_outside_balances_def demo_served_def)
  moreover have "\<not> Allows (dp_caller (demo_served (Fin 9))) ScopeBalance" "\<not> Allows (dp_caller (demo_served (Fin 9))) ScopeAlerts"
    by (simp_all add: demo_served_def Allows_def ScopeBalance_def ScopeAlerts_def ScopeConfig_def)
  moreover have "hy_emails (demo_history [demo_row]) = hy_emails (demo_history [])" by (simp add: demo_history_def)
  ultimately have "serve_tool (demo_served (Fin 1)) (demo_history [demo_row]) no_registry DashboardSummary
     = serve_tool (demo_served (Fin 9)) (demo_history []) no_registry DashboardSummary"
    using balances_need_scope by blast
  then show ?thesis by (simp add: demo_served_def)
qed

section \<open>The summary lines and the fixed resources\<close>

definition counted :: "nat \<Rightarrow> gostring \<Rightarrow> gostring \<Rightarrow> gostring" where
  "counted n one plural = quantity (int n) one plural"

definition upcoming_text :: "int \<Rightarrow> subscription_view list \<Rightarrow> gostring" where
  "upcoming_text days rs = counted (length rs) ''renewal'' ''renewals'' @ '' in the next '' @ quantity days ''day'' ''days'' @
     (case rs of [] \<Rightarrow> [] | s # _ \<Rightarrow> ''; next: '' @ sv_name s @ '', '' @ renews_in (sv_days s))"

text \<open>The line of text that goes with an answer; \<open>None\<close> for the message of a failure.\<close>

fun tool_text :: "answer \<Rightarrow> gostring option" where
  "tool_text (ADashboard out line) = Some line"
| "tool_text (AHealth out) = Some (ho_status out @ '', '' @ counted (length (ho_failed_jobs out)) ''failing job'' ''failing jobs'')"
| "tool_text (ACapabilities out) = Some (''version '' @ co_version out @ '', scopes: '' @ join '', '' (co_scopes out))"
| "tool_text (AProviders m infos) = Some (counted (length infos) ''provider'' ''providers'')"
| "tool_text (AJobs out) = Some (counted (length (jo_jobs out)) ''job'' ''jobs'' @ '', '' @ (if jo_healthy out then ''healthy'' else ''not healthy''))"
| "tool_text (ABalances out) = (let c = bo_counts out in Some (counted (bn_total c) ''project'' ''projects'' @ '': '' @
     itoa (int (bn_healthy c)) @ '' healthy, '' @ itoa (int (bn_below c)) @ '' below threshold, '' @
     itoa (int (bn_failed c)) @ '' failing their check'' @
     (if 0 < bn_disabled c then '', '' @ itoa (int (bn_disabled c)) @ '' disabled'' else [])))"
| "tool_text (AProviderStatus m vs line) = Some line"
| "tool_text (ASpend r) = (case r of Some (Inr out) \<Rightarrow> Some (sx_text out) | _ \<Rightarrow> None)"
| "tool_text (AUpcoming m p) = Some (upcoming_text (fst p) (snd p))"
| "tool_text (ASubscriptions out) = Some (counted (so_total out) ''subscription'' ''subscriptions'' @ '', '' @
     itoa (int (so_due out)) @ '' due for a reminder'')"
| "tool_text (AEmailScan out) = Some (eo_status out @ '', '' @ counted (length (eo_alerts out)) ''alert email'' ''alert emails'' @ '' in the last scan'')"
| "tool_text (AProjectConfig m vs) = Some (counted (length vs) ''project'' ''projects'')"
| "tool_text (AMailboxConfig m vs) = Some (counted (length vs) ''mailbox'' ''mailboxes'')"
| "tool_text (ASubscriptionConfig m vs) = Some (counted (length vs) ''subscription'' ''subscriptions'')"
| "tool_text (ASnapshots r) = (case r of Inr p \<Rightarrow> Some (po_summary p) | _ \<Rightarrow> None)"
| "tool_text (ATrend r) = (case r of Inr t \<Rightarrow> Some (to_text t) | _ \<Rightarrow> None)"
| "tool_text (AAlerts r) = (case r of Inr p \<Rightarrow> Some (po_summary p) | _ \<Rightarrow> None)"
| "tool_text (AEmails r) = (case r of Inr p \<Rightarrow> Some (po_summary p) | _ \<Rightarrow> None)"
| "tool_text (AEvents r) = (case r of Inr p \<Rightarrow> Some (po_summary p) | _ \<Rightarrow> None)"
| "tool_text (AStats r) = (case r of Inr (days, st) \<Rightarrow>
     Some (quantity (as_total st) ''alert'' ''alerts'' @ '' in '' @ quantity days ''day'' ''days'') | _ \<Rightarrow> None)"

text \<open>A resource of a fixed address, and the request it answers like.\<close>

definition resource_request :: "gostring \<Rightarrow> tool_request option" where
  "resource_request uri =
     (if uri = ''quotapulse://dashboard/summary'' then Some DashboardSummary
      else if uri = ''quotapulse://alerts/recent'' then Some (RecentAlertsTool \<lparr>tr_since = [], tr_until = [], tr_days = 0, tr_cursor = []\<rparr> 0 [] [])
      else if uri = ''quotapulse://subscriptions/upcoming'' then Some (UpcomingRenewalsTool 0 False)
      else None)"

definition read_fixed :: "'d deps \<Rightarrow> history \<Rightarrow> registry \<Rightarrow> gostring \<Rightarrow> answer option" where
  "read_fixed d h g uri = (case resource_request uri of None \<Rightarrow> None | Some r \<Rightarrow> serve_tool d h g r)"

end
