(* ===== verification/MailText.thy ===== *)
theory MailText
  imports GoRegexp GoNum GoCrypto "HOL-Library.Sublist"
begin

text \<open>
  What the mailbox scan reads from a mail (\<open>internal/mailscan/message.go\<close>, \<open>keywords.go\<close>, \<open>extract.go\<close>):
  its texts and identity, the keywords that make it an alert, and the service and amount it names.
  A mail is given as the entity that the mail package reads from the raw bytes; that package and its
  decoding of headers and bodies are inputs.  Texts are UTF-8 bytes; of the letters outside ASCII only
  the Kelvin sign and the long s, the ones that fold to ASCII letters, are case-folded.
\<close>

section \<open>Keywords\<close>

text \<open>The Chinese keywords come first, as the bytes of their characters.\<close>

definition DefaultAlertKeywords :: "gostring list" where
  "DefaultAlertKeywords =
    [[CHR 0xE6, CHR 0xAC, CHR 0xA0, CHR 0xE8, CHR 0xB4, CHR 0xB9],
     [CHR 0xE4, CHR 0xBD, CHR 0x99, CHR 0xE9, CHR 0xA2, CHR 0x9D, CHR 0xE4, CHR 0xB8, CHR 0x8D, CHR 0xE8, CHR 0xB6, CHR 0xB3],
     [CHR 0xE4, CHR 0xBD, CHR 0x99, CHR 0xE9, CHR 0xA2, CHR 0x9D, CHR 0xE9, CHR 0xA2, CHR 0x84, CHR 0xE8, CHR 0xAD, CHR 0xA6],
     [CHR 0xE4, CHR 0xBD, CHR 0x99, CHR 0xE9, CHR 0xA2, CHR 0x9D, CHR 0xE5, CHR 0x91, CHR 0x8A, CHR 0xE8, CHR 0xAD, CHR 0xA6],
     [CHR 0xE5, CHR 0x8D, CHR 0xB3, CHR 0xE5, CHR 0xB0, CHR 0x86, CHR 0xE5, CHR 0x88, CHR 0xB0, CHR 0xE6, CHR 0x9C, CHR 0x9F],
     [CHR 0xE5, CHR 0xB7, CHR 0xB2, CHR 0xE5, CHR 0x88, CHR 0xB0, CHR 0xE6, CHR 0x9C, CHR 0x9F],
     [CHR 0xE7, CHR 0xBB, CHR 0xAD, CHR 0xE8, CHR 0xB4, CHR 0xB9, CHR 0xE6, CHR 0x8F, CHR 0x90, CHR 0xE9, CHR 0x86, CHR 0x92],
     [CHR 0xE7, CHR 0xBB, CHR 0xAD, CHR 0xE8, CHR 0xB4, CHR 0xB9, CHR 0xE9, CHR 0x80, CHR 0x9A, CHR 0xE7, CHR 0x9F, CHR 0xA5],
     [CHR 0xE8, CHR 0xB4, CHR 0xA6, CHR 0xE5, CHR 0x8D, CHR 0x95, CHR 0xE9, CHR 0x80, CHR 0xBE, CHR 0xE6, CHR 0x9C, CHR 0x9F],
     [CHR 0xE7, CHR 0xBC, CHR 0xB4, CHR 0xE8, CHR 0xB4, CHR 0xB9, CHR 0xE9, CHR 0x80, CHR 0x9A, CHR 0xE7, CHR 0x9F, CHR 0xA5],
     [CHR 0xE8, CHR 0xAF, CHR 0xB7, CHR 0xE5, CHR 0x8F, CHR 0x8A, CHR 0xE6, CHR 0x97, CHR 0xB6, CHR 0xE7, CHR 0xBB, CHR 0xAD, CHR 0xE8, CHR 0xB4, CHR 0xB9],
     [CHR 0xE5, CHR 0x81, CHR 0x9C, CHR 0xE6, CHR 0x9C, CHR 0xBA],
     [CHR 0xE6, CHR 0x9A, CHR 0x82, CHR 0xE5, CHR 0x81, CHR 0x9C, CHR 0xE6, CHR 0x9C, CHR 0x8D, CHR 0xE5, CHR 0x8A, CHR 0xA1],
     [CHR 0xE6, CHR 0x9C, CHR 0x8D, CHR 0xE5, CHR 0x8A, CHR 0xA1, CHR 0xE5, CHR 0x8D, CHR 0xB3, CHR 0xE5, CHR 0xB0, CHR 0x86, CHR 0xE6, CHR 0x9A, CHR 0x82, CHR 0xE5, CHR 0x81, CHR 0x9C],
     [CHR 0xE5, CHR 0x85, CHR 0x85, CHR 0xE5, CHR 0x80, CHR 0xBC, CHR 0xE6, CHR 0x8F, CHR 0x90, CHR 0xE9, CHR 0x86, CHR 0x92],
     [CHR 0xE4, CHR 0xBD, CHR 0x99, CHR 0xE9, CHR 0xA2, CHR 0x9D, CHR 0xE4, CHR 0xBD, CHR 0x8E, CHR 0xE4, CHR 0xBA, CHR 0x8E],
     [CHR 0xE9, CHR 0xA2, CHR 0x9D, CHR 0xE5, CHR 0xBA, CHR 0xA6, CHR 0xE4, CHR 0xB8, CHR 0x8D, CHR 0xE8, CHR 0xB6, CHR 0xB3],
     [CHR 0xE5, CHR 0x8D, CHR 0xB3, CHR 0xE5, CHR 0xB0, CHR 0x86, CHR 0xE8, CHR 0x80, CHR 0x97, CHR 0xE5, CHR 0xB0, CHR 0xBD],
     ''overdue'', ''past due'', ''payment due'', ''payment overdue'', ''low balance'', ''insufficient balance'',
     ''balance alert'', ''expiring soon'', ''expired'', ''expiration notice'', ''renewal reminder'', ''renewal notice'',
     ''renew now'', ''payment reminder'', ''payment required'', ''bill overdue'', ''service suspension'',
     ''service suspended'', ''suspended'', ''recharge reminder'', ''top up'', ''account suspended'', ''unpaid invoice'',
     ''outstanding balance'', ''payment failed'', ''balance is low'', ''balance is below'', ''balance is insufficient'',
     ''balance is running low'', ''credits are running low'', ''insufficient funds'', ''top-up'']"

definition kelvin_sign :: gostring where "kelvin_sign = [CHR 0xE2, CHR 0x84, CHR 0xAA]"

definition long_s :: gostring where "long_s = [CHR 0xC5, CHR 0xBF]"

definition rune_lower :: "gostring \<Rightarrow> gostring" where
  "rune_lower t = (case t of [c] \<Rightarrow> [lower_char c] | _ \<Rightarrow> if t = kelvin_sign then ''k'' else t)"

definition text_lower :: "gostring \<Rightarrow> gostring" where
  "text_lower s = concat (map rune_lower (runes s))"

text \<open>A character of a pattern under \<open>(?i)\<close>.\<close>

definition rune_any_case :: "gostring \<Rightarrow> rx" where
  "rune_any_case t = (case t of [c] \<Rightarrow> letter_any_case c
     | _ \<Rightarrow> if t = long_s then letter_any_case (CHR ''s'') else Rune (\<lambda>u. u = t))"

definition text_any_case :: "gostring \<Rightarrow> rx" where
  "text_any_case s = seq_all (map rune_any_case (runes s))"

record matcher =
  mt_keywords :: "gostring list"
  mt_re :: "rx option"

definition newMatcher :: "gostring list \<Rightarrow> matcher" where
  "newMatcher keywords =
     (let parts = map (\<lambda>kw. text_any_case (text_lower kw)) (filter (\<lambda>kw. kw \<noteq> []) keywords)
      in \<lparr>mt_keywords = keywords, mt_re = (case parts of [] \<Rightarrow> None | p # ps \<Rightarrow> Some (alt_all p ps))\<rparr>)"

text \<open>The keywords that hit, in the order and spelling of the list.\<close>

definition match_keywords :: "matcher \<Rightarrow> gostring \<Rightarrow> gostring \<Rightarrow> gostring list" where
  "match_keywords m subject body =
     (case mt_re m of
        None \<Rightarrow> []
      | Some re \<Rightarrow>
          (let found = find_all re (subject @ [CHR 0x0A] @ body)
           in if found = [] then []
              else filter (\<lambda>kw. text_lower kw \<in> set (map text_lower found)) (mt_keywords m)))"

section \<open>Service and amount\<close>

definition unknownService :: gostring where "unknownService = ''Unknown service''"

definition bracketed :: "gostring \<Rightarrow> gostring \<Rightarrow> rx" where
  "bracketed l r = Seq (lit l) (Seq (Cap 1 (some_reluctant any_rune)) (lit r))"

definition servicePatterns :: "rx list" where
  "servicePatterns =
    [bracketed [CHR 0xE3, CHR 0x80, CHR 0x90] [CHR 0xE3, CHR 0x80, CHR 0x91], bracketed ''['' '']'',
     bracketed [CHR 0xEF, CHR 0xBC, CHR 0x88] [CHR 0xEF, CHR 0xBC, CHR 0x89], bracketed ''('' '')'']"

text \<open>\<open>[\s\p{Z}]\<close>: ASCII white space and the separators of Unicode.\<close>

definition separators :: "gostring list" where
  "separators = [[CHR 0x20], [CHR 0xC2, CHR 0xA0], [CHR 0xE1, CHR 0x9A, CHR 0x80], [CHR 0xE2, CHR 0x80, CHR 0x80],
     [CHR 0xE2, CHR 0x80, CHR 0x81], [CHR 0xE2, CHR 0x80, CHR 0x82], [CHR 0xE2, CHR 0x80, CHR 0x83],
     [CHR 0xE2, CHR 0x80, CHR 0x84], [CHR 0xE2, CHR 0x80, CHR 0x85], [CHR 0xE2, CHR 0x80, CHR 0x86],
     [CHR 0xE2, CHR 0x80, CHR 0x87], [CHR 0xE2, CHR 0x80, CHR 0x88], [CHR 0xE2, CHR 0x80, CHR 0x89],
     [CHR 0xE2, CHR 0x80, CHR 0x8A], [CHR 0xE2, CHR 0x80, CHR 0xA8], [CHR 0xE2, CHR 0x80, CHR 0xA9],
     [CHR 0xE2, CHR 0x80, CHR 0xAF], [CHR 0xE2, CHR 0x81, CHR 0x9F], [CHR 0xE3, CHR 0x80, CHR 0x80]]"

definition wide_space :: rx where
  "wide_space = Rune (\<lambda>t. t \<in> set separators \<or> (\<exists>c \<in> set regexp_space. t = [c]))"

definition number_digits :: rx where
  "number_digits = Cap 1 (Seq (some1 (ascii_class (\<lambda>c. is_digit c \<or> c = CHR '',''))) (Seq (optional (lit ''.''))
     (many (ascii_class is_digit))))"

definition any_colon :: rx where
  "any_colon = Alt (lit [CHR 0xEF, CHR 0xBC, CHR 0x9A]) (lit '':'')"

definition yuan :: rx where "yuan = lit [CHR 0xE5, CHR 0x85, CHR 0x83]"

definition amountPatterns :: "rx list" where
  "amountPatterns =
    [seq_all [lit [CHR 0xE4, CHR 0xBD, CHR 0x99, CHR 0xE9, CHR 0xA2, CHR 0x9D], any_colon, many wide_space, number_digits, many wide_space, yuan],
     seq_all [lit [CHR 0xE9, CHR 0x87, CHR 0x91, CHR 0xE9, CHR 0xA2, CHR 0x9D], any_colon, many wide_space, number_digits],
     seq_all [number_digits, many wide_space, yuan],
     seq_all [lit ''CNY'', many wide_space, number_digits]]"

fun first_service :: "rx list \<Rightarrow> gostring \<Rightarrow> gostring" where
  "first_service [] subject = unknownService"
| "first_service (re # res) subject = (case find_submatch re subject 1 of Some s \<Rightarrow> s | None \<Rightarrow> first_service res subject)"

text \<open>A number that does not parse leaves the word to the next rule.\<close>

fun first_amount :: "rx list \<Rightarrow> gostring \<Rightarrow> f64 option" where
  "first_amount [] full = None"
| "first_amount (re # res) full =
     (case find_submatch re full 1 of
        None \<Rightarrow> first_amount res full
      | Some d \<Rightarrow> (case parse_float (filter (\<lambda>c. c \<noteq> CHR '','') d) of
            None \<Rightarrow> first_amount res full | Some a \<Rightarrow> Some a))"

definition extractServiceInfo :: "gostring \<Rightarrow> gostring \<Rightarrow> gostring \<times> f64 option" where
  "extractServiceInfo subject body =
     (first_service servicePatterns subject, first_amount amountPatterns (subject @ [CHR 0x0A] @ body))"

section \<open>Messages\<close>

definition maxPartDepth :: nat where "maxPartDepth = 10"

text \<open>A mail or a part of one as the mail package reads it: the raw header, the decoded header where
  decoding succeeds, the disposition and type, the parts of a container up to the first that cannot
  be read, and as much of the body as can be read.\<close>

datatype entity = Entity (en_get: "gostring \<Rightarrow> gostring") (en_text: "gostring \<Rightarrow> gostring option")
  (en_disposition: gostring) (en_type: gostring) (en_parts: "entity list option") (en_body: gostring)

definition headerText :: "entity \<Rightarrow> gostring \<Rightarrow> gostring" where
  "headerText ent key = (case en_text ent key of Some v \<Rightarrow> v | None \<Rightarrow> en_get ent key)"

definition messageID :: "entity \<Rightarrow> gostring" where
  "messageID ent = (let mid = trim_space (en_get ent ''Message-ID'') in
     if mid \<noteq> [] then mid
     else md5_hex (en_get ent ''Date'' @ ''|'' @ en_get ent ''Subject'' @ ''|'' @ en_get ent ''From''))"

definition htmlTag :: rx where
  "htmlTag = seq_all [lit ''<'', some1 (none_of ''>''), lit ''>'']"

definition leaf_texts :: "entity \<Rightarrow> gostring list" where
  "leaf_texts ent =
     (if to_lower (en_disposition ent) = ''attachment'' then []
      else if en_type ent \<noteq> ''text/plain'' \<and> en_type ent \<noteq> ''text/html'' then []
      else let t = (if en_type ent = ''text/html'' then replace_matches htmlTag (\<lambda>_ _. '' '') (en_body ent) else en_body ent)
        in if t = [] then [] else [t])"

fun collectText :: "nat \<Rightarrow> entity \<Rightarrow> gostring list" where
  "collectText depth (Entity g t disp ty (Some parts) body) =
     (if maxPartDepth \<le> depth then [] else concat (map (collectText (depth + 1)) parts))"
| "collectText depth (Entity g t disp ty None body) = leaf_texts (Entity g t disp ty None body)"

definition extractText :: "entity \<Rightarrow> gostring" where
  "extractText ent = join [CHR 0x0A] (collectText 0 ent)"

record parsed_message =
  pm_id :: gostring
  pm_subject :: gostring
  pm_sender :: gostring
  pm_date :: gostring
  pm_body :: gostring

text \<open>\<open>read\<close> is the mail package; without an entity the raw text is scanned.\<close>

definition parseMessage :: "(gostring \<Rightarrow> entity option) \<Rightarrow> gostring \<Rightarrow> parsed_message" where
  "parseMessage read raw =
     (case read raw of
        None \<Rightarrow> \<lparr>pm_id = md5_hex raw, pm_subject = [], pm_sender = [], pm_date = [], pm_body = raw\<rparr>
      | Some ent \<Rightarrow> \<lparr>pm_id = messageID ent, pm_subject = headerText ent ''Subject'', pm_sender = headerText ent ''From'',
          pm_date = headerText ent ''Date'', pm_body = extractText ent\<rparr>)"

section \<open>Keywords are found\<close>

definition ascii_text :: "gostring \<Rightarrow> bool" where
  "ascii_text s \<longleftrightarrow> list_all (\<lambda>c. byte c < 128) s"

lemma ascii_simps [simp]:
  "ascii_text []" "ascii_text (c # s) \<longleftrightarrow> byte c < 128 \<and> ascii_text s"
  "ascii_text (s @ t) \<longleftrightarrow> ascii_text s \<and> ascii_text t"
  by (simp_all add: ascii_text_def)

lemma ascii_drop: "ascii_text s \<Longrightarrow> ascii_text (drop n s)"
  by (simp add: ascii_text_def list_all_iff) (meson in_set_dropD)

lemma ascii_take: "ascii_text s \<Longrightarrow> ascii_text (take n s)"
  by (simp add: ascii_text_def list_all_iff) (meson in_set_takeD)

lemma runes_ascii_text: "ascii_text s \<Longrightarrow> runes s = map (\<lambda>c. [c]) s"
  by (induction s) (simp_all add: runes_ascii)

lemma text_lower_ascii: "ascii_text s \<Longrightarrow> text_lower s = to_lower s"
  by (simp add: text_lower_def runes_ascii_text to_lower_def comp_def rune_lower_def)

lemma byte_eq: "byte c = byte d \<longleftrightarrow> c = d"
  by (simp add: byte_def)

lemma byte_lower: "byte (lower_char c) = (if 65 \<le> byte c \<and> byte c \<le> 90 then byte c + 32 else byte c)"
  by (simp add: lower_char_def)

lemma byte_upper: "byte (upper_char c) = (if 97 \<le> byte c \<and> byte c \<le> 122 then byte c - 32 else byte c)"
proof -
  have "byte c - 32 < 256" using byte_less_256 [of c] by linarith
  then show ?thesis by (simp add: upper_char_def)
qed

lemma ascii_to_lower: "ascii_text (to_lower s) \<longleftrightarrow> ascii_text s"
  by (induction s) (auto simp: to_lower_def byte_lower)

lemma letter_step:
  assumes "byte d < 128"
  shows "runs (letter_any_case c) (b, d # s, g) = (if lower_char d = lower_char c then [(Some d, s, g)] else [])"
proof -
  have "d = c \<or> d = lower_char c \<or> d = upper_char c \<longleftrightarrow> lower_char d = lower_char c"
    unfolding byte_eq [symmetric] byte_lower byte_upper by (simp split: if_splits) linarith
  then show ?thesis using assms by (simp add: letter_any_case_def rune_at_def rune_width_def)
qed

lemma letter_end: "runs (letter_any_case c) (b, [], g) = []"
  by (simp add: letter_any_case_def)

lemma runs_text_any_case:
  assumes "ascii_text s"
  shows "runs (seq_all (map letter_any_case kw)) (b, s, g) =
    (if length kw \<le> length s \<and> to_lower (take (length kw) s) = to_lower kw
     then [(if kw = [] then b else Some (s ! (length kw - 1)), drop (length kw) s, g)] else [])"
  using assms
proof (induction kw arbitrary: b s)
  case (Cons c kw)
  show ?case
  proof (cases s)
    case Nil
    then show ?thesis by (simp add: letter_end)
  next
    case (Cons d s')
    then show ?thesis using Cons.IH [of s' "Some d"] Cons.prems
      by (auto simp: letter_step to_lower_def nth_Cons split: nat.splits)
  qed
qed (simp add: to_lower_def)

text \<open>Where a keyword stands, whatever its case.\<close>

definition stands_at :: "gostring \<Rightarrow> gostring \<Rightarrow> bool" where
  "stands_at kw s \<longleftrightarrow> length kw \<le> length s \<and> to_lower (take (length kw) s) = to_lower kw"

lemma runs_alt_all: "runs (alt_all r rs) p = concat (map (\<lambda>q. runs q p) (r # rs))"
  by (induction rs arbitrary: r) simp_all

definition keyword_rx :: "gostring list \<Rightarrow> rx" where
  "keyword_rx kws = (case map (\<lambda>kw. text_any_case (text_lower kw)) kws of r # rs \<Rightarrow> alt_all r rs | [] \<Rightarrow> Eps)"

lemma runs_keyword:
  assumes "kws \<noteq> []" "list_all ascii_text kws" "ascii_text s"
  shows "runs (keyword_rx kws) (b, s, g) = concat (map (\<lambda>kw. if stands_at kw s
    then [(if kw = [] then b else Some (s ! (length kw - 1)), drop (length kw) s, g)] else []) kws)"
proof -
  have "runs (text_any_case (text_lower kw)) (b, s, g) = (if stands_at kw s
      then [(if kw = [] then b else Some (s ! (length kw - 1)), drop (length kw) s, g)] else [])" if "kw \<in> set kws" for kw
  proof -
    have a: "ascii_text kw" using that assms(2) by (simp add: list_all_iff)
    have "text_any_case (text_lower kw) = seq_all (map letter_any_case (to_lower kw))"
      using a by (simp add: text_any_case_def text_lower_ascii runes_ascii_text ascii_to_lower comp_def rune_any_case_def)
    then show ?thesis using runs_text_any_case [OF assms(3), of "to_lower kw"] by (simp add: stands_at_def) (simp add: to_lower_def)
  qed
  then have "map (\<lambda>q. runs q (b, s, g)) (map (\<lambda>kw. text_any_case (text_lower kw)) kws) = map (\<lambda>kw. if stands_at kw s
    then [(if kw = [] then b else Some (s ! (length kw - 1)), drop (length kw) s, g)] else []) kws" by simp
  then show ?thesis using assms(1) unfolding keyword_rx_def by (cases kws) (simp_all add: runs_alt_all del: map_map)
qed

lemma runs_keyword_first:
  assumes "kws \<noteq> []" "list_all ascii_text kws" "ascii_text s" "runs (keyword_rx kws) (b, s, g) = x # xs"
  shows "\<exists>kw \<in> set kws. stands_at kw s \<and> place_text x = drop (length kw) s"
proof -
  have "x \<in> set (runs (keyword_rx kws) (b, s, g))" using assms(4) by simp
  then show ?thesis unfolding runs_keyword [OF assms(1-3)] by (auto split: if_splits)
qed

lemma runs_keyword_none:
  assumes "kws \<noteq> []" "list_all ascii_text kws" "ascii_text s"
  shows "runs (keyword_rx kws) (b, s, g) = [] \<longleftrightarrow> (\<forall>kw \<in> set kws. \<not> stands_at kw s)"
  unfolding runs_keyword [OF assms] by (auto split: if_splits)

lemma find_from_keyword:
  assumes "kws \<noteq> []" "list_all ascii_text kws" "ascii_text s" "length s < k"
  shows "case find_from (keyword_rx kws) k b u s of
      None \<Rightarrow> (\<forall>n. \<forall>kw \<in> set kws. \<not> stands_at kw (drop n s))
    | Some (v, m, x) \<Rightarrow> \<exists>n. \<exists>kw \<in> set kws. m = take (length kw) (drop n s) \<and> stands_at kw (drop n s)
        \<and> place_text x = drop (n + length kw) s"
  using assms(3,4)
proof (induction k arbitrary: b u s)
  case (Suc k)
  show ?case
  proof (cases "runs (keyword_rx kws) (b, s, [])")
    case Nil
    then have none: "\<forall>kw \<in> set kws. \<not> stands_at kw s" using runs_keyword_none [OF assms(1,2) Suc.prems(1)] by simp
    show ?thesis
    proof (cases s)
      case Nil
      then show ?thesis using none \<open>runs _ _ = []\<close> by simp
    next
      case (Cons c s')
      have w: "rune_width s = 1" using Suc.prems(1) Cons by (simp add: rune_width_def)
      have nn: "\<forall>n. \<forall>kw \<in> set kws. \<not> stands_at kw (drop n s)" if "\<forall>n. \<forall>kw \<in> set kws. \<not> stands_at kw (drop n s')"
        using that none Cons by (metis drop_Cons' drop0)
      have step: "find_from (keyword_rx kws) (Suc k) b u s
          = find_from (keyword_rx kws) k (Some (s ! (rune_width s - 1))) (u @ take (rune_width s) s) s'"
        using Nil Cons w by simp
      have ih: "case find_from (keyword_rx kws) k (Some (s ! (rune_width s - 1))) (u @ take (rune_width s) s) s' of
          None \<Rightarrow> (\<forall>n. \<forall>kw \<in> set kws. \<not> stands_at kw (drop n s'))
        | Some (v, m, x) \<Rightarrow> \<exists>n. \<exists>kw \<in> set kws. m = take (length kw) (drop n s') \<and> stands_at kw (drop n s')
            \<and> place_text x = drop (n + length kw) s'" using Suc.prems Cons by (intro Suc.IH) simp_all
      show ?thesis
      proof (cases "find_from (keyword_rx kws) k (Some (s ! (rune_width s - 1))) (u @ take (rune_width s) s) s'")
        case None
        then show ?thesis unfolding step using ih nn by simp
      next
        case (Some p)
        then obtain v m x where p: "p = (v, m, x)" by (cases p) auto
        then obtain n kw where "kw \<in> set kws" "m = take (length kw) (drop n s')" "stands_at kw (drop n s')"
            "place_text x = drop (n + length kw) s'" using ih Some by auto
        then have "kw \<in> set kws \<and> m = take (length kw) (drop (Suc n) s) \<and> stands_at kw (drop (Suc n) s)
            \<and> place_text x = drop (Suc n + length kw) s" by (simp add: Cons)
        then have "\<exists>n. \<exists>kw \<in> set kws. m = take (length kw) (drop n s) \<and> stands_at kw (drop n s)
            \<and> place_text x = drop (n + length kw) s" by blast
        then show ?thesis unfolding step Some p by simp
      qed
    qed
  next
    case (Cons x xs)
    then obtain kw where kw: "kw \<in> set kws" "stands_at kw s" "place_text x = drop (length kw) s"
      using runs_keyword_first [OF assms(1,2) Suc.prems(1)] by blast
    have "take (length s - length (place_text x)) s = take (length kw) s" using kw by (simp add: stands_at_def)
    then show ?thesis using Cons kw by (auto intro!: exI [of _ 0])
  qed
qed simp

lemma find_all_keyword:
  assumes "kws \<noteq> []" "list_all ascii_text kws" "[] \<notin> set kws" "ascii_text s"
  shows "(find_all_from (keyword_rx kws) b s = [] \<longleftrightarrow> (\<forall>n. \<forall>kw \<in> set kws. \<not> stands_at kw (drop n s)))
    \<and> (\<forall>m \<in> set (find_all_from (keyword_rx kws) b s). \<exists>n. \<exists>kw \<in> set kws. m = take (length kw) (drop n s) \<and> stands_at kw (drop n s))"
  using assms(4)
proof (induction "length s" arbitrary: b s rule: less_induct)
  case less
  note f = find_from_keyword [OF assms(1,2) less.prems, of "length s + 1" b "[]"]
  show ?case
  proof (cases "find_match (keyword_rx kws) b s")
    case None
    then show ?thesis using f by (subst (1 2) find_all_from.simps) (simp add: find_match_def)
  next
    case (Some p)
    then obtain u m x where p: "find_match (keyword_rx kws) b s = Some (u, m, x)" by (cases p) auto
    then obtain n kw where kw: "kw \<in> set kws" "m = take (length kw) (drop n s)" "stands_at kw (drop n s)"
        "place_text x = drop (n + length kw) s" using f by (auto simp: find_match_def)
    have len: "0 < length kw" "length kw \<le> length s - n" using kw(1,3) assms(3) by (auto simp: stands_at_def)
    have "0 < length s" using len by linarith
    then have l: "length (place_text x) < length s" using diff_less [of "n + length kw" "length s"] len(1) by (simp add: kw(4))
    have e: "find_all_from (keyword_rx kws) b s = m # find_all_from (keyword_rx kws) (fst x) (place_text x)"
      by (subst find_all_from.simps) (simp add: p l)
    have "ascii_text (place_text x)" using less.prems by (simp add: kw(4) ascii_drop)
    from less.hyps [OF l this] have ih: "\<forall>m' \<in> set (find_all_from (keyword_rx kws) (fst x) (place_text x)).
        \<exists>n. \<exists>kw \<in> set kws. m' = take (length kw) (drop n (place_text x)) \<and> stands_at kw (drop n (place_text x))" by blast
    then have "\<forall>m' \<in> set (find_all_from (keyword_rx kws) (fst x) (place_text x)).
        \<exists>n. \<exists>kw \<in> set kws. m' = take (length kw) (drop n s) \<and> stands_at kw (drop n s)" unfolding kw(4) drop_drop by metis
    then show ?thesis unfolding e using kw(1-3) by auto
  qed
qed

lemma stands_sublist: "(\<exists>n. stands_at kw (drop n s)) \<longleftrightarrow> sublist (to_lower kw) (to_lower s)"
proof
  assume "\<exists>n. stands_at kw (drop n s)"
  then obtain n where n: "to_lower (take (length kw) (drop n s)) = to_lower kw" by (auto simp: stands_at_def)
  have "to_lower s = to_lower (take n s) @ to_lower (take (length kw) (drop n s)) @ to_lower (drop (length kw) (drop n s))"
    by (metis append_take_drop_id map_append to_lower_def)
  then show "sublist (to_lower kw) (to_lower s)" unfolding n by (metis sublist_appendI)
next
  assume "sublist (to_lower kw) (to_lower s)"
  then obtain a c where "to_lower s = a @ to_lower kw @ c" by (auto simp: sublist_def)
  then have s: "map lower_char s = a @ map lower_char kw @ c" by (simp add: to_lower_def)
  have "length s = length a + length kw + length c" using arg_cong [OF s, of length] by simp
  moreover have "map lower_char (take (length kw) (drop (length a) s)) = map lower_char kw"
    using arg_cong [OF s, of "\<lambda>l. take (length kw) (drop (length a) l)"] by (simp add: take_map drop_map)
  ultimately show "\<exists>n. stands_at kw (drop n s)" by (intro exI [of _ "length a"]) (simp add: stands_at_def to_lower_def)
qed



end
