(* ===== verification/Mailscan.thy ===== *)
theory Mailscan
  imports MailText Effects
begin

text \<open>
  The mailbox scan (\<open>internal/mailscan/mailscan.go\<close>): connecting with retries, reading the mails of the last
  days in batches, and raising, de-duplicating, sending and recording an alert for each mail that matches.
  The IMAP connection (\<open>imap.go\<close>) is an input: what each call of it answers, by the number of the call.
  Mailboxes are scanned by concurrent workers; here one mailbox is scanned after the other, in any
  order.  Log lines are left out.
\<close>

section \<open>Inputs and state\<close>

definition maxMailboxWorkers :: nat where "maxMailboxWorkers = 5"
definition batchSize :: nat where "batchSize = 100"
definition defaultMaxEmails :: int where "defaultMaxEmails = 1000"
definition connectAttempts :: nat where "connectAttempts = 3"
definition connectRetryDelay :: duration where "connectRetryDelay = 4 * second"

text \<open>A connection: the search for mails since a time, the fetch of raw mails by their numbers, and the
  cancellation seen before a batch.\<close>

record mail_conn =
  mc_search :: "int \<Rightarrow> goerror + nat list"
  mc_fetch :: "nat \<Rightarrow> nat list \<Rightarrow> goerror + gostring list"
  mc_cancelled :: "nat \<Rightarrow> goerror option"

text \<open>Dialling a mailbox, by the number of the attempt, and whether the wait after it is cancelled.\<close>

record mail_net =
  nt_dial :: "mailbox \<Rightarrow> nat \<Rightarrow> goerror + mail_conn"
  nt_wait_cancelled :: "mailbox \<Rightarrow> nat \<Rightarrow> bool"
  nt_read :: "gostring \<Rightarrow> entity option"

record 's mail_ops =
  mo_SaveEmailAlert :: "int \<Rightarrow> email_alert_record \<Rightarrow> 's \<Rightarrow> goerror option \<times> 's"
  mo_HasRecentEmailAlert :: "int \<Rightarrow> gostring \<Rightarrow> gostring \<Rightarrow> gostring \<Rightarrow> gostring \<Rightarrow> int \<Rightarrow> 's \<Rightarrow> bool \<times> goerror option"
  mo_ListEmailSuppressions :: "'s \<Rightarrow> (gostring \<times> gostring) list \<times> goerror option"

record scanner =
  sn_notifier :: bool
  sn_keywords :: "gostring list"
  sn_max_emails :: int
  sn_on_notify :: bool

record scan_state =
  st_matcher :: matcher
  st_days :: int
  st_dry_run :: bool

definition scan_keywords :: "scanner \<Rightarrow> gostring list" where
  "scan_keywords s = (if sn_keywords s \<noteq> [] then sn_keywords s else DefaultAlertKeywords)"

definition maxEmails :: "scanner \<Rightarrow> nat" where
  "maxEmails s = nat (if sn_max_emails s = 0 then defaultMaxEmails else max (sn_max_emails s) 1)"

definition displayName :: "mailbox \<Rightarrow> gostring" where
  "displayName m = (if mb_name m \<noteq> [] then mb_name m else if mb_username m \<noteq> [] then mb_username m else ''(Unnamed)'')"

definition defaultPort :: int where "defaultPort = 993"

definition mailboxPort :: "mailbox \<Rightarrow> int" where
  "mailboxPort m = (if mb_port m \<le> 0 then defaultPort else mb_port m)"

section \<open>One alert\<close>

text \<open>The set of mails seen in this scan, shared by the mailboxes.\<close>

definition mark :: "gostring \<Rightarrow> gostring set \<Rightarrow> bool \<times> gostring set" where
  "mark i seen = (i \<notin> seen, insert i seen)"

definition duplicated :: "'s mail_ops \<Rightarrow> env \<Rightarrow> email_alert \<Rightarrow> int \<Rightarrow> 's world \<Rightarrow> bool \<times> 's world" where
  "duplicated mo e alert days w =
     (let (t, w1) = read_clock e w;
          (recent, err) = mo_HasRecentEmailAlert mo t (ea_mailbox alert) (ea_sender alert) (ea_subject alert) (ea_date alert)
            (max days 1) (wd_store w1)
      in (if err \<noteq> None then False else recent, w1))"

definition suppressed :: "'s mail_ops \<Rightarrow> email_alert \<Rightarrow> 's world \<Rightarrow> bool" where
  "suppressed mo alert w =
     (let (listed, err) = mo_ListEmailSuppressions mo (wd_store w)
      in err = None \<and> (ea_mailbox alert, ea_sender alert) \<in> set listed)"

definition record_email :: "'s mail_ops \<Rightarrow> env \<Rightarrow> email_alert \<Rightarrow> bool \<Rightarrow> 's world \<Rightarrow> 's world" where
  "record_email mo e alert sent w =
     (let (t, w1) = read_clock e w
      in w1\<lparr>wd_store := snd (mo_SaveEmailAlert mo t
        \<lparr>er_mailbox = ea_mailbox alert, er_sender = ea_sender alert, er_subject = ea_subject alert, er_date = ea_date alert,
         er_service_name = ea_service alert, er_amount = ea_amount alert, er_keywords = ea_keywords alert,
         er_alert_sent = sent\<rparr> (wd_store w1))\<rparr>)"

definition email_message :: "email_alert \<Rightarrow> message" where
  "email_message a = EmailAlert (ea_mailbox a) (ea_subject a) (ea_sender a) (ea_date a) (ea_keywords a) (ea_service a) (ea_amount a)"

definition send_email :: "'s mail_ops \<Rightarrow> env \<Rightarrow> scanner \<Rightarrow> email_alert \<Rightarrow> 's world \<Rightarrow> bool \<times> 's world" where
  "send_email mo e s alert w =
     (if \<not> sn_notifier s then (False, w)
      else if suppressed mo alert w then (False, record_email mo e alert False w)
      else let (err, w1) = deliver e None (email_message alert) w;
               w2 = (if sn_on_notify s then on_notify (mg_kind (email_message alert)) (err = None) w1 else w1)
        in (err = None, record_email mo e alert (err = None) w2))"

definition alert_of :: "scan_state \<Rightarrow> gostring \<Rightarrow> parsed_message \<Rightarrow> gostring list \<Rightarrow> email_alert" where
  "alert_of st mailbox msg keywords =
     (let (service, found_amount) = extractServiceInfo (pm_subject msg) (pm_body msg)
      in \<lparr>ea_mailbox = mailbox, ea_subject = pm_subject msg, ea_sender = pm_sender msg, ea_date = pm_date msg,
          ea_keywords = keywords, ea_service = Some service, ea_amount = found_amount, ea_alert_sent = False, ea_duplicate = False\<rparr>)"

definition inspect :: "'s mail_ops \<Rightarrow> env \<Rightarrow> mail_net \<Rightarrow> scanner \<Rightarrow> scan_state \<Rightarrow> gostring \<Rightarrow> gostring \<Rightarrow> gostring set \<times> 's world
    \<Rightarrow> email_alert option \<times> gostring set \<times> 's world" where
  "inspect mo e net s st mailbox raw sw =
     (let msg = parseMessage (nt_read net) raw; (fresh, seen) = mark (pm_id msg) (fst sw); w = snd sw in
      if \<not> fresh then (None, seen, w)
      else let keywords = match_keywords (st_matcher st) (pm_subject msg) (pm_body msg) in
        if keywords = [] then (None, seen, w)
        else let alert = alert_of st mailbox msg keywords in
          if st_dry_run st then (Some alert, seen, w)
          else let (dup, w1) = duplicated mo e alert (st_days st) w in
            if dup then (Some (alert\<lparr>ea_duplicate := True\<rparr>), seen, w1)
            else let (sent, w2) = send_email mo e s alert w1 in (Some (alert\<lparr>ea_alert_sent := sent\<rparr>), seen, w2))"

fun inspect_all :: "'s mail_ops \<Rightarrow> env \<Rightarrow> mail_net \<Rightarrow> scanner \<Rightarrow> scan_state \<Rightarrow> gostring \<Rightarrow> gostring list \<Rightarrow> gostring set \<times> 's world
    \<Rightarrow> email_alert list \<times> gostring set \<times> 's world" where
  "inspect_all mo e net s st mailbox [] sw = ([], sw)"
| "inspect_all mo e net s st mailbox (raw # raws) sw =
     (let (a, sw1) = inspect mo e net s st mailbox raw sw; (as, sw2) = inspect_all mo e net s st mailbox raws sw1
      in (case a of None \<Rightarrow> as | Some x \<Rightarrow> x # as, sw2))"

section \<open>One mailbox\<close>

text \<open>Three attempts with a wait between them; a cancelled wait gives up with the last error.\<close>

function connect_from :: "mail_net \<Rightarrow> mailbox \<Rightarrow> nat \<Rightarrow> (goerror + mail_conn) \<times> nat" where
  "connect_from net m attempt =
     (case nt_dial net m attempt of
        Inr conn \<Rightarrow> (Inr conn, attempt)
      | Inl err \<Rightarrow> if connectAttempts \<le> attempt \<or> nt_wait_cancelled net m attempt then (Inl err, attempt)
          else connect_from net m (attempt + 1))"
  by pat_completeness auto
termination
  by (relation "measure (\<lambda>(net, m, attempt). connectAttempts - attempt)") auto

declare connect_from.simps [simp del]

definition connect :: "mail_net \<Rightarrow> mailbox \<Rightarrow> goerror + mail_conn" where
  "connect net m = fst (connect_from net m 1)"

text \<open>When a batch cannot be fetched as a whole its mails are fetched one by one; the number counts
  the fetches of the connection.\<close>

fun fetch_each :: "mail_conn \<Rightarrow> nat \<Rightarrow> nat list \<Rightarrow> gostring list" where
  "fetch_each conn k [] = []"
| "fetch_each conn k (n # ns) = (case mc_fetch conn k [n] of Inl _ \<Rightarrow> fetch_each conn (k + 1) ns | Inr one \<Rightarrow> one @ fetch_each conn (k + 1) ns)"

definition fetchBatch :: "mail_conn \<Rightarrow> nat \<Rightarrow> nat list \<Rightarrow> gostring list \<times> nat" where
  "fetchBatch conn k nums =
     (case mc_fetch conn k nums of Inr raws \<Rightarrow> (raws, k + 1) | Inl _ \<Rightarrow> (fetch_each conn (k + 1) nums, k + 1 + length nums))"

function scan_batches :: "'s mail_ops \<Rightarrow> env \<Rightarrow> mail_net \<Rightarrow> scanner \<Rightarrow> scan_state \<Rightarrow> mail_conn \<Rightarrow> gostring \<Rightarrow> nat \<Rightarrow> nat \<Rightarrow> nat list
    \<Rightarrow> gostring set \<times> 's world \<Rightarrow> (email_alert list \<times> goerror option) \<times> gostring set \<times> 's world" where
  "scan_batches mo e net s st conn name batch k nums sw =
     (if nums = [] then (([], None), sw)
      else case mc_cancelled conn batch of
          Some err \<Rightarrow> (([], Some err), sw)
        | None \<Rightarrow>
            (let (raws, k') = fetchBatch conn k (take batchSize nums);
                 (as, sw1) = inspect_all mo e net s st name raws sw;
                 ((more, err), sw2) = scan_batches mo e net s st conn name (batch + 1) k' (drop batchSize nums) sw1
             in ((as @ more, err), sw2)))"
  by pat_completeness auto
termination
  by (relation "measure (\<lambda>(mo, e, net, s, st, conn, name, batch, k, nums, sw). length nums)") (auto simp: batchSize_def)

declare scan_batches.simps [simp del]

definition newest :: "nat \<Rightarrow> nat list \<Rightarrow> nat list" where
  "newest limit nums = drop (length nums - limit) nums"

definition scanInbox :: "'s mail_ops \<Rightarrow> env \<Rightarrow> mail_net \<Rightarrow> scanner \<Rightarrow> scan_state \<Rightarrow> mailbox \<Rightarrow> gostring \<Rightarrow> gostring set \<times> 's world
    \<Rightarrow> (nat \<times> email_alert list \<times> goerror option) \<times> gostring set \<times> 's world" where
  "scanInbox mo e net s st m name sw =
     (case connect net m of
        Inl err \<Rightarrow> ((0, [], Some err), sw)
      | Inr conn \<Rightarrow>
          (let (t, w1) = read_clock e (snd sw) in
           case mc_search conn (t - st_days st * 24 * hour) of
             Inl err \<Rightarrow> ((0, [], Some err), fst sw, w1)
           | Inr found \<Rightarrow>
               (let nums = newest (maxEmails s) found;
                    ((as, err), sw2) = scan_batches mo e net s st conn name 0 0 nums (fst sw, w1)
                in ((length nums, as, err), sw2))))"

definition sendMailboxError :: "env \<Rightarrow> scanner \<Rightarrow> gostring \<Rightarrow> gostring \<Rightarrow> gostring \<Rightarrow> 's world \<Rightarrow> 's world" where
  "sendMailboxError e s mailbox host reason w =
     (if \<not> sn_notifier s then w
      else let (t, w1) = read_clock e w; msg = MailboxError \<lparr>t_ns = t, t_zone = en_local e\<rparr> mailbox host reason;
               (err, w2) = deliver e None msg w1
        in if sn_on_notify s then on_notify (mg_kind msg) (err = None) w2 else w2)"

definition mailbox_report :: "mailbox \<Rightarrow> nat \<Rightarrow> nat \<Rightarrow> goerror option \<Rightarrow> mailbox_result" where
  "mailbox_report m mails alerts err =
     \<lparr>mr_name = displayName m, mr_host = mb_host m, mr_port = mailboxPort m, mr_username = mb_username m,
      mr_total_emails = int mails, mr_alert_count = int alerts, mr_success = (err = None), mr_error = err\<rparr>"

definition scanMailbox :: "'s mail_ops \<Rightarrow> env \<Rightarrow> mail_net \<Rightarrow> scanner \<Rightarrow> scan_state \<Rightarrow> mailbox \<Rightarrow> gostring set \<times> 's world
    \<Rightarrow> (mailbox_result \<times> email_alert list) \<times> gostring set \<times> 's world" where
  "scanMailbox mo e net s st m sw =
     (if mb_host m = [] \<or> mb_username m = [] \<or> mb_password m = []
      then ((mailbox_report m 0 0 (Some ''Incomplete configuration; host, username, and password are required''), []), sw)
      else let ((mails, as, err), seen, w1) = scanInbox mo e net s st m (displayName m) sw;
               w2 = (case err of Some reason \<Rightarrow> if st_dry_run st then w1
                   else sendMailboxError e s (displayName m) (mb_host m) reason w1
                 | None \<Rightarrow> w1)
        in ((mailbox_report m mails (length as) err, as), seen, w2))"

section \<open>The scan\<close>

fun scan_in_order :: "'s mail_ops \<Rightarrow> env \<Rightarrow> mail_net \<Rightarrow> scanner \<Rightarrow> scan_state \<Rightarrow> mailbox list \<Rightarrow> nat list
    \<Rightarrow> (mailbox_result \<times> email_alert list) list \<Rightarrow> gostring set \<times> 's world
    \<Rightarrow> (mailbox_result \<times> email_alert list) list \<times> gostring set \<times> 's world" where
  "scan_in_order mo e net s st ms [] results sw = (results, sw)"
| "scan_in_order mo e net s st ms (i # order) results sw =
     (let (r, sw1) = scanMailbox mo e net s st (ms ! i) sw in scan_in_order mo e net s st ms order (results[i := r]) sw1)"

definition blank_report :: mailbox_result where
  "blank_report = \<lparr>mr_name = [], mr_host = [], mr_port = 0, mr_username = [], mr_total_emails = 0, mr_alert_count = 0,
     mr_success = False, mr_error = None\<rparr>"

definition Scan :: "'s mail_ops \<Rightarrow> env \<Rightarrow> mail_net \<Rightarrow> scanner \<Rightarrow> mailbox list \<Rightarrow> int \<Rightarrow> bool \<Rightarrow> nat list \<Rightarrow> 's world \<Rightarrow> scan_result \<times> 's world" where
  "Scan mo e net s ms days dry_run order w =
     (let st = \<lparr>st_matcher = newMatcher (scan_keywords s), st_days = days, st_dry_run = dry_run\<rparr>;
          (results, seen, w') = scan_in_order mo e net s st ms order (replicate (length ms) (blank_report, [])) ({}, w)
      in (\<lparr>sc_days = days, sc_dry_run = dry_run, sc_mailboxes = map fst results, sc_alerts = concat (map snd results)\<rparr>, w'))"

section \<open>A store that remembers what was mailed\<close>

type_synonym mail_key = "gostring \<times> gostring \<times> gostring \<times> gostring"

definition key_of :: "email_alert \<Rightarrow> mail_key" where
  "key_of a = (ea_mailbox a, ea_sender a, ea_subject a, ea_date a)"

definition has_mail :: "'s mail_ops \<Rightarrow> int \<Rightarrow> mail_key \<Rightarrow> int \<Rightarrow> 's \<Rightarrow> bool" where
  "has_mail mo now k days s = (case k of (mailbox, sender, subject, date) \<Rightarrow>
     fst (mo_HasRecentEmailAlert mo now mailbox sender subject date days s))"

text \<open>\<open>known t s\<close>: the state \<open>s\<close> holds nothing later than \<open>t\<close>.  Windows up to \<open>keep\<close> days are covered.\<close>

locale email_log =
  fixes mo :: "'s mail_ops" and known :: "int \<Rightarrow> 's \<Rightarrow> bool" and keep :: int
  assumes known_mono: "known t s \<Longrightarrow> t \<le> t' \<Longrightarrow> known t' s"
    and known_save: "known t s \<Longrightarrow> known t (snd (mo_SaveEmailAlert mo t rec s))"
    and recent_no_error: "snd (mo_HasRecentEmailAlert mo t mailbox sender subject date days s) = None"
    and recent_sent: "known t s \<Longrightarrow> er_alert_sent rec \<Longrightarrow> 1 \<le> days \<Longrightarrow> days \<le> keep \<Longrightarrow> t \<le> now \<Longrightarrow> now - t \<le> days * day_dur \<Longrightarrow>
      has_mail mo now (email_key rec) days (snd (mo_SaveEmailAlert mo t rec s))"
    and recent_kept: "known t s \<Longrightarrow> 1 \<le> days \<Longrightarrow> days \<le> keep \<Longrightarrow> t \<le> now \<Longrightarrow> has_mail mo now k days s \<Longrightarrow>
      has_mail mo now k days (snd (mo_SaveEmailAlert mo t rec s))"

definition sent_keys :: "email_alert list \<Rightarrow> mail_key list" where
  "sent_keys as = map key_of (filter ea_alert_sent as)"

lemma sent_keys_simps [simp]:
  "sent_keys [] = []" "sent_keys (a # as) = (if ea_alert_sent a then [key_of a] else []) @ sent_keys as"
  "sent_keys (as @ bs) = sent_keys as @ sent_keys bs"
  by (simp_all add: sent_keys_def)

text \<open>What becomes of one mail.\<close>

lemma inspect_cases:
  assumes "inspect mo e net s st mailbox raw (seen, w) = (oa, seen', w')"
  obtains (none) "oa = None" "w' = w"
    | (dry) al where "st_dry_run st" "\<not> ea_alert_sent al" "ea_mailbox al = mailbox" "oa = Some al" "w' = w"
    | (dup) al w1 where "\<not> st_dry_run st" "\<not> ea_alert_sent al" "ea_mailbox al = mailbox"
        "duplicated mo e al (st_days st) w = (True, w1)" "oa = Some (al\<lparr>ea_duplicate := True\<rparr>)" "w' = w1"
    | (sent) al w1 sent where "\<not> st_dry_run st" "\<not> ea_alert_sent al" "ea_mailbox al = mailbox"
        "duplicated mo e al (st_days st) w = (False, w1)" "send_email mo e s al w1 = (sent, w')"
        "oa = Some (al\<lparr>ea_alert_sent := sent\<rparr>)"
proof -
  define msg where "msg = parseMessage (nt_read net) raw"
  define al where "al = alert_of st mailbox msg (match_keywords (st_matcher st) (pm_subject msg) (pm_body msg))"
  have al: "\<not> ea_alert_sent al" "ea_mailbox al = mailbox" by (simp_all add: al_def alert_of_def split: prod.splits)
  consider "oa = None" "w' = w" | "st_dry_run st" "oa = Some al" "w' = w"
    | w1 where "\<not> st_dry_run st" "duplicated mo e al (st_days st) w = (True, w1)" "oa = Some (al\<lparr>ea_duplicate := True\<rparr>)" "w' = w1"
    | w1 sent where "\<not> st_dry_run st" "duplicated mo e al (st_days st) w = (False, w1)" "send_email mo e s al w1 = (sent, w')"
        "oa = Some (al\<lparr>ea_alert_sent := sent\<rparr>)"
    using assms by (auto simp: inspect_def Let_def msg_def [symmetric] al_def [symmetric] split: prod.splits if_splits)
  then show thesis using al none dry dup sent by cases blast+
qed

context email_log begin

text \<open>The store says of a mail that it was sent, at every time up to the horizon.\<close>

definition remembered :: "env \<Rightarrow> int \<Rightarrow> int \<Rightarrow> 's world \<Rightarrow> mail_key \<Rightarrow> bool" where
  "remembered e days horizon w k \<longleftrightarrow>
     (\<forall>now. en_clock e (wd_reads w) \<le> now \<and> now \<le> horizon \<longrightarrow> has_mail mo now k days (wd_store w))"

definition sound :: "env \<Rightarrow> 's world \<Rightarrow> bool" where
  "sound e w \<longleftrightarrow> known (en_clock e (wd_reads w)) (wd_store w)"

text \<open>A stretch of a scan that sent the mails \<open>ks\<close>: they were not known as sent before and are from then
  on, as long as it ends within the window that began at the start.\<close>

definition stretch :: "env \<Rightarrow> int \<Rightarrow> int \<Rightarrow> 's world \<Rightarrow> mail_key list \<Rightarrow> 's world \<Rightarrow> bool" where
  "stretch e days start w ks w' \<longleftrightarrow> wd_reads w \<le> wd_reads w' \<and>
     (sound e w \<and> start \<le> en_clock e (wd_reads w) \<and> en_clock e (wd_reads w') \<le> start + days * day_dur \<longrightarrow>
      sound e w' \<and> (\<forall>k. remembered e days (start + days * day_dur) w k \<longrightarrow> remembered e days (start + days * day_dur) w' k)
      \<and> (\<forall>k \<in> set ks. remembered e days (start + days * day_dur) w' k \<and> \<not> remembered e days (start + days * day_dur) w k)
      \<and> distinct ks)"

lemma stretch_refl: "stretch e days start w [] w"
  by (simp add: stretch_def)

lemma stretch_trans:
  assumes "mono (en_clock e)" "stretch e days start w ks w1" "stretch e days start w1 ks' w2"
  shows "stretch e days start w (ks @ ks') w2"
proof -
  have r: "wd_reads w \<le> wd_reads w1" "wd_reads w1 \<le> wd_reads w2" using assms(2,3) by (simp_all add: stretch_def)
  then have "en_clock e (wd_reads w) \<le> en_clock e (wd_reads w1)" "en_clock e (wd_reads w1) \<le> en_clock e (wd_reads w2)"
    using assms(1) by (simp_all add: monoD)
  then show ?thesis using assms(2,3) r unfolding stretch_def by (auto; fastforce)
qed

text \<open>A stretch that reads the clock but leaves the store alone.\<close>

lemma stretch_same:
  assumes "mono (en_clock e)" "wd_reads w \<le> wd_reads w'" "wd_store w' = wd_store w"
  shows "stretch e days start w [] w'"
proof -
  have "en_clock e (wd_reads w) \<le> en_clock e (wd_reads w')" using assms(1,2) by (simp add: monoD)
  then show ?thesis using assms(2,3) by (auto simp: stretch_def sound_def remembered_def intro: known_mono)
qed

lemma record_stretch:
  assumes "mono (en_clock e)" "1 \<le> days" "days \<le> keep" "w' = record_email mo e a sent w"
  shows "wd_reads w' = wd_reads w + 1"
    and "sound e w \<Longrightarrow> sound e w'"
    and "sound e w \<Longrightarrow> remembered e days horizon w k \<Longrightarrow> remembered e days horizon w' k"
    and "sound e w \<Longrightarrow> sent \<Longrightarrow> horizon \<le> en_clock e (wd_reads w) + days * day_dur \<Longrightarrow> remembered e days horizon w' (key_of a)"
proof -
  have c: "en_clock e (wd_reads w) \<le> en_clock e (wd_reads w + 1)" using assms(1) by (simp add: monoD)
  show r: "wd_reads w' = wd_reads w + 1" by (simp add: assms(4) record_email_def read_clock_def)
  let ?rec = "\<lparr>er_mailbox = ea_mailbox a, er_sender = ea_sender a, er_subject = ea_subject a, er_date = ea_date a,
         er_service_name = ea_service a, er_amount = ea_amount a, er_keywords = ea_keywords a, er_alert_sent = sent\<rparr>"
  have s: "wd_store w' = snd (mo_SaveEmailAlert mo (en_clock e (wd_reads w)) ?rec (wd_store w))"
    by (simp add: assms(4) record_email_def read_clock_def)
  show "sound e w \<Longrightarrow> sound e w'" unfolding sound_def r s using c by (blast intro: known_mono known_save)
  show "sound e w \<Longrightarrow> remembered e days horizon w k \<Longrightarrow> remembered e days horizon w' k"
    unfolding sound_def remembered_def r s using c assms(2,3) by (auto intro!: recent_kept)
  have k: "email_key ?rec = key_of a" by (simp add: email_key_def key_of_def)
  show "sound e w \<Longrightarrow> sent \<Longrightarrow> horizon \<le> en_clock e (wd_reads w) + days * day_dur \<Longrightarrow> remembered e days horizon w' (key_of a)"
    unfolding sound_def remembered_def r s
  proof (intro allI impI)
    fix now assume "known (en_clock e (wd_reads w)) (wd_store w)" "sent" "horizon \<le> en_clock e (wd_reads w) + days * day_dur"
      "en_clock e (wd_reads w + 1) \<le> now \<and> now \<le> horizon"
    then show "has_mail mo now (key_of a) days (snd (mo_SaveEmailAlert mo (en_clock e (wd_reads w)) ?rec (wd_store w)))"
      using recent_sent [of "en_clock e (wd_reads w)" "wd_store w" ?rec days now] assms(2,3) c unfolding k by simp
  qed
qed

lemma send_email_cases:
  assumes "send_email mo e s a w = (sent, w')"
  shows "(\<not> sent \<and> w' = w) \<or> (\<exists>w1. wd_store w1 = wd_store w \<and> wd_reads w1 = wd_reads w \<and> w' = record_email mo e a sent w1)"
  using assms by (auto simp: send_email_def Let_def split: prod.splits if_splits) (metis deliver_sel(2,3) snd_conv world_simps(4,6))+

lemma duplicated_eq:
  "duplicated mo e a days w = (has_mail mo (en_clock e (wd_reads w)) (key_of a) (max days 1) (wd_store w), snd (read_clock e w))"
  using recent_no_error [of "en_clock e (wd_reads w)" "ea_mailbox a" "ea_sender a" "ea_subject a" "ea_date a" "max days 1" "wd_store w"]
  by (cases "mo_HasRecentEmailAlert mo (en_clock e (wd_reads w)) (ea_mailbox a) (ea_sender a) (ea_subject a) (ea_date a) (max days 1) (wd_store w)")
    (simp add: duplicated_def read_clock_def has_mail_def key_of_def)

lemma inspect_stretch:
  assumes "mono (en_clock e)" "1 \<le> days" "days \<le> keep" "st_days st = days"
    and "inspect mo e net s st mailbox raw (seen, w) = (oa, seen', w')"
  shows "stretch e days start w (case oa of None \<Rightarrow> [] | Some a \<Rightarrow> sent_keys [a]) w'"
proof -
  from assms(5) show ?thesis
  proof (cases rule: inspect_cases)
    case none then show ?thesis by (simp add: stretch_refl)
  next
    case (dry al) then show ?thesis by (simp add: stretch_refl)
  next
    case (dup al w1)
    then have "wd_store w' = wd_store w" "wd_reads w' = wd_reads w + 1" by (auto simp: duplicated_eq)
    then show ?thesis using dup(2,5) stretch_same [OF assms(1)] by simp
  next
    case (sent al w1 sent)
    have w1: "wd_store w1 = wd_store w" "wd_reads w1 = wd_reads w + 1"
      and not: "\<not> has_mail mo (en_clock e (wd_reads w)) (key_of al) days (wd_store w)"
      using sent(4) assms(2,4) by (auto simp: duplicated_eq)
    have s1: "stretch e days start w [] w1" using w1 stretch_same [OF assms(1)] by simp
    have k: "key_of (al\<lparr>ea_alert_sent := sent\<rparr>) = key_of al" by (simp add: key_of_def)
    from send_email_cases [OF sent(5)] show ?thesis
    proof (elim disjE conjE exE)
      assume "\<not> sent" "w' = w1"
      then show ?thesis using s1 sent(6) by simp
    next
      fix w2 assume w2: "wd_store w2 = wd_store w1" "wd_reads w2 = wd_reads w1" and w': "w' = record_email mo e al sent w2"
      note rec = record_stretch [OF assms(1-3) w']
      have s2: "stretch e days start w [] w2" using w1 w2 stretch_same [OF assms(1)] by simp
      have c: "en_clock e (wd_reads w) \<le> en_clock e (wd_reads w2)" using w1 w2 assms(1) by (simp add: monoD)
      have c': "en_clock e (wd_reads w2) \<le> en_clock e (wd_reads w')" using rec(1) assms(1) by (simp add: monoD)
      show ?thesis unfolding stretch_def
      proof (intro conjI impI)
        show "wd_reads w \<le> wd_reads w'" using rec(1) w1 w2 by simp
      next
        assume a: "sound e w \<and> start \<le> en_clock e (wd_reads w) \<and> en_clock e (wd_reads w') \<le> start + days * day_dur"
        then have s: "sound e w2" and m: "\<And>k. remembered e days (start + days * day_dur) w k \<Longrightarrow> remembered e days (start + days * day_dur) w2 k"
          using s2 c c' by (auto simp: stretch_def)
        show "sound e w'" using rec(2) s by simp
        show "\<forall>k. remembered e days (start + days * day_dur) w k \<longrightarrow> remembered e days (start + days * day_dur) w' k"
          using rec(3) s m by blast
        have "\<not> remembered e days (start + days * day_dur) w (key_of al)"
          using not a c c' by (auto simp: remembered_def)
        moreover have "sent \<Longrightarrow> remembered e days (start + days * day_dur) w' (key_of al)"
          using rec(4) s a c by simp
        ultimately show "\<forall>k \<in> set (case oa of None \<Rightarrow> [] | Some a \<Rightarrow> sent_keys [a]). remembered e days (start + days * day_dur) w' k
            \<and> \<not> remembered e days (start + days * day_dur) w k"
          using k by (simp add: sent(6))
        show "distinct (case oa of None \<Rightarrow> [] | Some a \<Rightarrow> sent_keys [a])" by (simp add: sent(6))
      qed
    qed
  qed
qed

lemma inspect_all_stretch:
  assumes "mono (en_clock e)" "1 \<le> days" "days \<le> keep" "st_days st = days"
  shows "inspect_all mo e net s st mailbox raws sw = (as, seen', w') \<Longrightarrow> stretch e days start (snd sw) (sent_keys as) w'"
proof (induction raws arbitrary: sw as seen' w')
  case Nil
  then show ?case by (auto simp: stretch_refl)
next
  case (Cons raw raws)
  obtain seen w where sw: "sw = (seen, w)" by (cases sw)
  obtain a seen1 w1 where i: "inspect mo e net s st mailbox raw (seen, w) = (a, seen1, w1)" by (metis surj_pair)
  obtain more seen2 w2 where r: "inspect_all mo e net s st mailbox raws (seen1, w1) = (more, seen2, w2)" by (metis surj_pair)
  have out: "as = (case a of None \<Rightarrow> more | Some x \<Rightarrow> x # more)" "w' = w2" using Cons.prems by (simp_all add: sw i r)
  have "sent_keys as = (case a of None \<Rightarrow> [] | Some a \<Rightarrow> sent_keys [a]) @ sent_keys more" by (simp add: out(1) split: option.splits)
  then show ?case
    using stretch_trans [OF assms(1) inspect_stretch [OF assms i], of start "sent_keys more" w2] Cons.IH [OF r] out(2) sw by simp
qed

lemma scan_batches_stretch:
  assumes "mono (en_clock e)" "1 \<le> days" "days \<le> keep"
  shows "st_days st = days \<Longrightarrow> scan_batches mo e net s st conn name batch k nums sw = ((as, err), seen', w') \<Longrightarrow>
    stretch e days start (snd sw) (sent_keys as) w'"
proof (induction mo' \<equiv> mo e' \<equiv> e net s st conn name batch k nums sw arbitrary: as err seen' w' rule: scan_batches.induct)
  case (1 net s st conn name batch k nums sw)
  show ?case
  proof (cases "nums = [] \<or> mc_cancelled conn batch \<noteq> None")
    case True
    then show ?thesis using "1.prems"(2) by (subst (asm) scan_batches.simps) (auto simp: stretch_refl split: option.splits if_splits)
  next
    case False
    obtain raws k' where f: "fetchBatch conn k (take batchSize nums) = (raws, k')" by (metis surj_pair)
    obtain as1 seen1 w1 where i: "inspect_all mo e net s st name raws sw = (as1, seen1, w1)" by (metis surj_pair)
    obtain more err1 seen2 w2 where r: "scan_batches mo e net s st conn name (Suc batch) k' (drop batchSize nums) (seen1, w1)
        = ((more, err1), seen2, w2)" by (metis surj_pair)
    have "scan_batches mo e net s st conn name batch k nums sw = ((as1 @ more, err1), seen2, w2)"
      using False by (subst scan_batches.simps) (simp add: f i r)
    then have out: "as = as1 @ more" "w' = w2" using "1.prems"(2) by simp_all
    have "stretch e days start w1 (sent_keys more) w2"
      using "1.hyps" [OF _ _ f [symmetric] refl i [symmetric] refl "1.prems"(1)] False r by auto
    then show ?thesis
      using stretch_trans [OF assms(1) inspect_all_stretch [OF assms "1.prems"(1) i]] by (simp add: out)
  qed
qed

lemma scanInbox_stretch:
  assumes "mono (en_clock e)" "1 \<le> days" "days \<le> keep" "st_days st = days"
    and "scanInbox mo e net s st m name sw = ((n, as, err), seen', w')"
  shows "stretch e days start (snd sw) (sent_keys as) w'"
proof (cases "connect net m")
  case (Inl x)
  then show ?thesis using assms(5) by (auto simp: scanInbox_def stretch_refl)
next
  case (Inr conn)
  obtain t w1 where c: "read_clock e (snd sw) = (t, w1)" by (metis surj_pair)
  then have "wd_store w1 = wd_store (snd sw)" "wd_reads w1 = wd_reads (snd sw) + 1" by (auto simp: read_clock_def)
  then have s1: "stretch e days start (snd sw) [] w1" using stretch_same [OF assms(1)] by simp
  show ?thesis
  proof (cases "mc_search conn (t - st_days st * 24 * hour)")
    case (Inl x)
    then show ?thesis using assms(5) s1 by (auto simp: scanInbox_def Inr c)
  next
    case (Inr found)
    then have "\<exists>nums. scan_batches mo e net s st conn name 0 0 nums (fst sw, w1) = ((as, err), seen', w')"
      using assms(5) \<open>connect net m = Inr conn\<close> by (auto simp: scanInbox_def c Let_def split: prod.splits)
    then obtain nums where "scan_batches mo e net s st conn name 0 0 nums (fst sw, w1) = ((as, err), seen', w')" by blast
    from scan_batches_stretch [OF assms(1-4) this] have "stretch e days start w1 (sent_keys as) w'" by simp
    then show ?thesis using stretch_trans [OF assms(1) s1] by simp
  qed
qed

lemma scanMailbox_stretch:
  assumes "mono (en_clock e)" "1 \<le> days" "days \<le> keep" "st_days st = days"
    and "scanMailbox mo e net s st m sw = ((rep, as), seen', w')"
  shows "stretch e days start (snd sw) (sent_keys as) w'"
proof (cases "mb_host m = [] \<or> mb_username m = [] \<or> mb_password m = []")
  case True
  then show ?thesis using assms(5) by (auto simp: scanMailbox_def stretch_refl)
next
  case False
  obtain n as1 err seen1 w1 where i: "scanInbox mo e net s st m (displayName m) sw = ((n, as1, err), seen1, w1)" by (metis surj_pair)
  have out: "as = as1" "w' = w1 \<or> (\<exists>reason. w' = sendMailboxError e s (displayName m) (mb_host m) reason w1)"
    using assms(5) False by (auto simp: scanMailbox_def i Let_def split: option.splits if_splits)
  have "wd_reads w1 \<le> wd_reads w' \<and> wd_store w' = wd_store w1"
    using out(2) by (auto simp: sendMailboxError_def Let_def split: prod.splits)
      (metis deliver_sel(2,3) le_add1 read_clock_sel(2,5) snd_conv world_simps(4,6))+
  then have "stretch e days start w1 [] w'" using stretch_same [OF assms(1)] by simp
  then show ?thesis using stretch_trans [OF assms(1) scanInbox_stretch [OF assms(1-4) i]] out(1) by fastforce
qed

lemma scan_in_order_stretch:
  assumes "mono (en_clock e)" "1 \<le> days" "days \<le> keep" "st_days st = days"
  shows "scan_in_order mo e net s st ms order results sw = (results', seen', w') \<Longrightarrow> distinct order \<Longrightarrow>
    (\<forall>i \<in> set order. i < length results \<and> snd (results ! i) = []) \<Longrightarrow>
    \<exists>ks. stretch e days start (snd sw) ks w' \<and>
      mset (sent_keys (concat (map snd results'))) = mset (sent_keys (concat (map snd results))) + mset ks"
proof (induction order arbitrary: results sw)
  case Nil
  then show ?case by (auto simp: stretch_refl intro!: exI [of _ "[]"])
next
  case (Cons i order)
  obtain rep as seen1 w1 where i: "scanMailbox mo e net s st (ms ! i) sw = ((rep, as), seen1, w1)" by (metis surj_pair)
  have rest: "scan_in_order mo e net s st ms order (results[i := (rep, as)]) (seen1, w1) = (results', seen', w')"
    using Cons.prems(1) by (simp add: i)
  have il: "i < length results" "snd (results ! i) = []" "i \<notin> set order" using Cons.prems(2,3) by auto
  have "\<forall>j \<in> set order. j < length (results[i := (rep, as)]) \<and> snd (results[i := (rep, as)] ! j) = []"
    using Cons.prems(3) il by (auto simp: nth_list_update)
  from Cons.IH [OF rest _ this] Cons.prems(2) obtain ks where ks: "stretch e days start w1 ks w'"
    "mset (sent_keys (concat (map snd results'))) = mset (sent_keys (concat (map snd (results[i := (rep, as)])))) + mset ks" by auto
  have "mset (sent_keys (concat (map snd (results[i := (rep, as)])))) = mset (sent_keys (concat (map snd results))) + mset (sent_keys as)"
  proof -
    have l: "i < length (map snd results)" "map snd results ! i = []" using il by simp_all
    have "map snd results = take i (map snd results) @ [] # drop (Suc i) (map snd results)"
      using id_take_nth_drop [OF l(1)] unfolding l(2) .
    moreover have "map snd (results[i := (rep, as)]) = take i (map snd results) @ as # drop (Suc i) (map snd results)"
      using upd_conv_take_nth_drop [OF l(1), of as] by (simp add: map_update)
    ultimately obtain A B where "map snd results = A @ [] # B" "map snd (results[i := (rep, as)]) = A @ as # B" by blast
    then show ?thesis by simp
  qed
  then show ?case using stretch_trans [OF assms(1) scanMailbox_stretch [OF assms i], of start ks w'] ks
    by (intro exI [of _ "sent_keys as @ ks"]) simp
qed

lemma Scan_stretch:
  assumes "mono (en_clock e)" "1 \<le> days" "days \<le> keep" "mset order = mset [0..<length ms]"
    and "Scan mo e net s ms days dry_run order w = (r, w')"
  obtains ks where "stretch e days start w ks w'" "mset (sent_keys (sc_alerts r)) = mset ks"
proof -
  let ?st = "\<lparr>st_matcher = newMatcher (scan_keywords s), st_days = days, st_dry_run = dry_run\<rparr>"
  obtain results seen' where o: "scan_in_order mo e net s ?st ms order (replicate (length ms) (blank_report, [])) ({}, w) = (results, seen', w')"
    and r: "sc_alerts r = concat (map snd results)"
    using assms(5) by (auto simp: Scan_def Let_def split: prod.splits)
  have d: "distinct order" "set order = {..<length ms}"
    using assms(4) by (metis distinct_upt mset_eq_imp_distinct_iff) (metis assms(4) atLeast0LessThan set_mset_mset set_upt)
  have "sent_keys (concat (map snd (replicate (length ms) (blank_report, [])))) = []"
    by (simp add: sent_keys_def map_replicate_const concat_eq_Nil_conv [THEN iffD2])
  then obtain ks where "stretch e days start w ks w'" "mset (sent_keys (concat (map snd results))) = mset ks"
    using scan_in_order_stretch [OF assms(1-3) _ o d(1), of start] d(2) by auto
  then show thesis using that r by simp
qed

text \<open>Two scans within one window of days.\<close>

lemma mails_once:
  assumes "mono (en_clock e)" "1 \<le> days" "days \<le> keep" "known (en_clock e (wd_reads w)) (wd_store w)"
    and "mset order = mset [0..<length ms]" "Scan mo e net s ms days False order w = (r, w1)"
    and "mset order' = mset [0..<length ms']" "Scan mo e net' s' ms' days False order' w1 = (r', w2)"
    and "en_clock e (wd_reads w2) \<le> en_clock e (wd_reads w) + days * day_dur"
  shows "distinct (sent_keys (sc_alerts r @ sc_alerts r'))"
proof -
  obtain ks where ks: "stretch e days (en_clock e (wd_reads w)) w ks w1" "mset (sent_keys (sc_alerts r)) = mset ks"
    by (rule Scan_stretch [OF assms(1-3,5,6)])
  obtain ks' where ks': "stretch e days (en_clock e (wd_reads w)) w1 ks' w2" "mset (sent_keys (sc_alerts r')) = mset ks'"
    by (rule Scan_stretch [OF assms(1-3,7,8)])
  have "distinct (ks @ ks')"
    using stretch_trans [OF assms(1) ks(1) ks'(1)] assms(4,9) by (simp add: stretch_def sound_def)
  moreover have "mset (sent_keys (sc_alerts r @ sc_alerts r')) = mset (ks @ ks')" using ks(2) ks'(2) by simp
  ultimately show ?thesis by (metis mset_eq_imp_distinct_iff)
qed

end

section \<open>The stores remember\<close>

definition volatile_mail_ops :: "volatileStore mail_ops" where
  "volatile_mail_ops = \<lparr>mo_SaveEmailAlert = (\<lambda>t rec v. (None, vs_SaveEmailAlert t rec v)),
     mo_HasRecentEmailAlert = (\<lambda>t mailbox sender subject date days v. (vs_HasRecentEmailAlert t mailbox sender subject date days v, None)),
     mo_ListEmailSuppressions = (\<lambda>v. ([], None))\<rparr>"

definition sql_mail_ops :: "(sqlStore \<Rightarrow> (gostring \<times> gostring) list \<times> goerror option) \<Rightarrow> sqlStore mail_ops" where
  "sql_mail_ops listed = \<lparr>mo_SaveEmailAlert = (\<lambda>t rec db. (None, sql_SaveEmailAlert t rec db)),
     mo_HasRecentEmailAlert = (\<lambda>t mailbox sender subject date days db. (sql_HasRecentEmailAlert t mailbox sender subject date days db, None)),
     mo_ListEmailSuppressions = listed\<rparr>"

definition mail_known :: "int \<Rightarrow> volatileStore \<Rightarrow> bool" where
  "mail_known t v \<longleftrightarrow> (\<forall>k n. vs_emails v k = Some n \<longrightarrow> n \<le> t)"

lemma vs_emails_save:
  "vs_emails (vs_SaveEmailAlert t rec v) k = (if er_alert_sent rec
     then drop_old t ((vs_emails v)(email_key rec := Some t)) k else vs_emails v k)"
  by (simp add: vs_SaveEmailAlert_def vs_prune_def)

lemma vs_has_mail:
  assumes "1 \<le> days" "days \<le> 31"
  shows "has_mail volatile_mail_ops now k days v \<longleftrightarrow> (case vs_emails v k of None \<Rightarrow> False | Some n \<Rightarrow> now - n \<le> days * day_dur)"
proof -
  have "0 \<le> days * 24 * hour" "days * 24 * hour < 2 ^ 63 - 1" using assms by (simp_all add: second_def)
  note w = ns_sub_le [OF this]
  have "days * day_dur = days * 24 * hour" by simp
  then show ?thesis using assms w
    by (cases k) (simp add: has_mail_def volatile_mail_ops_def vs_HasRecentEmailAlert_def daysOf_def mult.left_commute split: option.splits)
qed

interpretation volatile_mail: email_log volatile_mail_ops mail_known 31
proof (unfold_locales, goal_cases)
  case (1 t s t')
  then show ?case by (fastforce simp: mail_known_def)
next
  case (2 t s rec)
  then show ?case by (auto simp: mail_known_def volatile_mail_ops_def vs_emails_save dest!: drop_old_Some split: if_splits)
next
  case (3 t mailbox sender subject date days s)
  then show ?case by (simp add: volatile_mail_ops_def)
next
  case (4 t s rec days now)
  have "vs_emails (vs_SaveEmailAlert t rec s) (email_key rec) = Some t"
    using 4(2) volatileRetention_range by (simp add: vs_emails_save drop_old_kept)
  moreover have "snd (mo_SaveEmailAlert volatile_mail_ops t rec s) = vs_SaveEmailAlert t rec s" by (simp add: volatile_mail_ops_def)
  ultimately show ?case using 4 by (simp add: vs_has_mail)
next
  case (5 t s days now k rec)
  from 5(5) obtain n where n: "vs_emails s k = Some n" "now - n \<le> days * day_dur"
    unfolding vs_has_mail [OF 5(2,3)] by (auto split: option.splits)
  have "n \<le> t" using 5(1) n(1) unfolding mail_known_def by blast
  have "days * day_dur \<le> volatileRetention" using 5(3) by (simp add: volatileRetention_def second_def)
  then have "\<exists>n'. vs_emails (vs_SaveEmailAlert t rec s) k = Some n' \<and> now - n' \<le> days * day_dur"
    using n \<open>n \<le> t\<close> 5(2,4) volatileRetention_range second_pos by (auto simp: vs_emails_save drop_old_kept)
  moreover have "snd (mo_SaveEmailAlert volatile_mail_ops t rec s) = vs_SaveEmailAlert t rec s" by (simp add: volatile_mail_ops_def)
  ultimately show ?case using 5 by (auto simp: vs_has_mail)
qed

lemma sql_has_mail:
  assumes "1 \<le> days"
  shows "has_mail (sql_mail_ops listed) now k days db \<longleftrightarrow> (\<exists>r \<in> set (db_emails db).
    (el_mailbox r, el_sender r, el_subject r, el_date r) = k \<and> el_alert_sent r \<and> now - days * day_dur \<le> el_timestamp r)"
  using assms by (cases k) (auto simp: has_mail_def sql_mail_ops_def sql_HasRecentEmailAlert_def count_if_filter filter_empty_conv
    since_def daysOf_def sinceDays_eq)

interpretation sql_mail: email_log "sql_mail_ops listed" "\<lambda>_ _. True" 100000 for listed
proof (unfold_locales, goal_cases)
  case (3 t mailbox sender subject date days s)
  then show ?case by (simp add: sql_mail_ops_def)
next
  case (4 t s rec days now)
  then show ?case by (simp add: sql_has_mail) (auto simp: sql_mail_ops_def sql_SaveEmailAlert_def email_key_def)
next
  case (5 t s days now k rec)
  then show ?case by (simp add: sql_has_mail) (auto simp: sql_mail_ops_def sql_SaveEmailAlert_def)
qed simp_all


text \<open>The same holds with the SQL store.\<close>

theorem mails_alerted_once_sql:
  assumes "mono (en_clock e)" "1 \<le> days" "days \<le> 100000"
    and "mset order = mset [0..<length ms]" "Scan (sql_mail_ops listed) e net s ms days False order w = (r, w1)"
    and "mset order' = mset [0..<length ms']" "Scan (sql_mail_ops listed) e net' s' ms' days False order' w1 = (r', w2)"
    and "en_clock e (wd_reads w2) \<le> en_clock e (wd_reads w) + days * day_dur"
  shows "distinct (sent_keys (sc_alerts r @ sc_alerts r'))"
  using assms by (intro sql_mail.mails_once [OF assms(1-3) TrueI assms(4-8)])

section \<open>What a scan reports\<close>

definition mailbox_reported :: "mailbox \<Rightarrow> mailbox_result \<times> email_alert list \<Rightarrow> bool" where
  "mailbox_reported m p \<longleftrightarrow> mr_name (fst p) = displayName m \<and> mr_host (fst p) = mb_host m \<and> mr_port (fst p) = mailboxPort m
     \<and> mr_alert_count (fst p) = int (length (snd p)) \<and> (mr_success (fst p) \<longleftrightarrow> mr_error (fst p) = None)
     \<and> (mb_host m = [] \<or> mb_username m = [] \<or> mb_password m = [] \<longrightarrow> \<not> mr_success (fst p) \<and> snd p = [])
     \<and> list_all (\<lambda>a. ea_mailbox a = displayName m) (snd p)"

lemma inspect_mailbox:
  assumes "inspect mo e net s st name raw (seen, w) = (oa, seen', w')"
  shows "list_all (\<lambda>a. ea_mailbox a = name) (case oa of None \<Rightarrow> [] | Some a \<Rightarrow> [a])"
  using assms
proof (cases rule: inspect_cases)
  case (dry al)
  then show ?thesis by simp
next
  case (dup al w1)
  then show ?thesis by simp
next
  case (sent al w1 ok)
  then show ?thesis by simp
qed simp

lemma inspect_all_mailbox: "inspect_all mo e net s st name raws sw = (as, sw') \<Longrightarrow> list_all (\<lambda>a. ea_mailbox a = name) as"
proof (induction raws arbitrary: sw as sw')
  case (Cons raw raws)
  obtain seen w where sw: "sw = (seen, w)" by (cases sw)
  obtain a seen1 w1 where i: "inspect mo e net s st name raw (seen, w) = (a, seen1, w1)" by (metis surj_pair)
  obtain more sw2 where r: "inspect_all mo e net s st name raws (seen1, w1) = (more, sw2)" by (metis surj_pair)
  have "as = (case a of None \<Rightarrow> [] | Some x \<Rightarrow> [x]) @ more" using Cons.prems by (simp add: sw i r split: option.splits)
  then show ?case using inspect_mailbox [OF i] Cons.IH [OF r] by simp
qed auto

lemma scan_batches_mailbox:
  "scan_batches mo e net s st conn name batch k nums sw = ((as, err), sw') \<Longrightarrow> list_all (\<lambda>a. ea_mailbox a = name) as"
proof (induction mo e net s st conn name batch k nums sw arbitrary: as err sw' rule: scan_batches.induct)
  case (1 mo e net s st conn name batch k nums sw)
  show ?case
  proof (cases "nums = [] \<or> mc_cancelled conn batch \<noteq> None")
    case True
    then show ?thesis using "1.prems" by (subst (asm) scan_batches.simps) (auto split: option.splits if_splits)
  next
    case False
    obtain raws k' where f: "fetchBatch conn k (take batchSize nums) = (raws, k')" by (metis surj_pair)
    obtain as1 sw1 where i: "inspect_all mo e net s st name raws sw = (as1, sw1)" by (metis surj_pair)
    obtain more err1 sw2 where r: "scan_batches mo e net s st conn name (Suc batch) k' (drop batchSize nums) sw1
        = ((more, err1), sw2)" by (metis surj_pair)
    have "scan_batches mo e net s st conn name batch k nums sw = ((as1 @ more, err1), sw2)"
      using False by (subst scan_batches.simps) (simp add: f i r)
    then have out: "as = as1 @ more" using "1.prems" by simp
    have "list_all (\<lambda>a. ea_mailbox a = name) more"
      using "1.IH" [OF _ _ f [symmetric] refl i [symmetric]] False r by auto
    then show ?thesis using inspect_all_mailbox [OF i] by (simp add: out)
  qed
qed

lemma scanInbox_mailbox: "scanInbox mo e net s st m name sw = ((n, as, err), sw') \<Longrightarrow> list_all (\<lambda>a. ea_mailbox a = name) as"
proof (cases "connect net m")
  case (Inr conn)
  assume a: "scanInbox mo e net s st m name sw = ((n, as, err), sw')"
  obtain t w1 where c: "read_clock e (snd sw) = (t, w1)" by (metis surj_pair)
  show ?thesis
  proof (cases "mc_search conn (t - st_days st * 24 * hour)")
    case (Inl x)
    then show ?thesis using a by (auto simp: scanInbox_def Inr c)
  next
    case (Inr found)
    then obtain nums where "scan_batches mo e net s st conn name 0 0 nums (fst sw, w1) = ((as, err), sw')"
      using a \<open>connect net m = Inr conn\<close> by (auto simp: scanInbox_def c Let_def split: prod.splits)
    then show ?thesis by (rule scan_batches_mailbox)
  qed
qed (auto simp: scanInbox_def)

lemma scanMailbox_reported:
  assumes "scanMailbox mo e net s st m sw = (p, sw')"
  shows "mailbox_reported m p"
proof (cases "mb_host m = [] \<or> mb_username m = [] \<or> mb_password m = []")
  case True
  then show ?thesis using assms by (auto simp: scanMailbox_def mailbox_reported_def mailbox_report_def)
next
  case False
  obtain n as err sw1 where i: "scanInbox mo e net s st m (displayName m) sw = ((n, as, err), sw1)" by (metis surj_pair)
  have "p = (mailbox_report m n (length as) err, as)" using assms False by (auto simp: scanMailbox_def i Let_def split: prod.splits)
  then show ?thesis using False scanInbox_mailbox [OF i] by (simp add: mailbox_reported_def mailbox_report_def)
qed

lemma scan_in_order_reported:
  assumes "scan_in_order mo e net s st ms order results sw = (results', sw')"
  shows "length results' = length results \<and> (\<forall>i < length results.
    (i \<in> set order \<longrightarrow> mailbox_reported (ms ! i) (results' ! i)) \<and> (i \<notin> set order \<longrightarrow> results' ! i = results ! i))"
  using assms
proof (induction order arbitrary: results sw)
  case (Cons i order)
  obtain p sw1 where p: "scanMailbox mo e net s st (ms ! i) sw = (p, sw1)" by (metis surj_pair)
  have "scan_in_order mo e net s st ms order (results[i := p]) sw1 = (results', sw')" using Cons.prems by (simp add: p)
  from Cons.IH [OF this] scanMailbox_reported [OF p] show ?case by (auto simp: nth_list_update)
qed simp

text \<open>A scan reports every mailbox in its place, whatever the order the workers finish in: under its
  display name, as failed with an error or as successful without one, as failed when its
  configuration is incomplete; the alerts are listed mailbox by mailbox and counted for each.\<close>

theorem scan_reports_mailboxes:
  assumes "Scan mo e net s ms days dry_run order w = (r, w')" "mset order = mset [0..<length ms]"
  shows "\<exists>ass. list_all2 mailbox_reported ms (zip (sc_mailboxes r) ass) \<and> sc_alerts r = concat ass
    \<and> length (sc_mailboxes r) = length ms \<and> length ass = length ms"
proof -
  obtain results sw' where o: "scan_in_order mo e net s \<lparr>st_matcher = newMatcher (scan_keywords s), st_days = days, st_dry_run = dry_run\<rparr>
      ms order (replicate (length ms) (blank_report, [])) ({}, w) = (results, sw')"
    and r: "sc_alerts r = concat (map snd results)" "sc_mailboxes r = map fst results"
    using assms(1) by (auto simp: Scan_def Let_def split: prod.splits)
  have "set order = {..<length ms}" using assms(2) by (metis atLeast0LessThan set_mset_mset set_upt)
  then have "length results = length ms \<and> (\<forall>i < length ms. mailbox_reported (ms ! i) (results ! i))"
    using scan_in_order_reported [OF o] by auto
  then show ?thesis by (intro exI [of _ "map snd results"]) (simp add: r list_all2_conv_all_nth zip_map_fst_snd)
qed

text \<open>A dry scan only reads.\<close>

lemma inspect_dry:
  "st_dry_run st \<Longrightarrow> inspect mo e net s st name raw sw = (oa, seen', w') \<Longrightarrow> w' = snd sw"
  by (auto simp: inspect_def Let_def split: prod.splits if_splits)

lemma inspect_all_dry: "st_dry_run st \<Longrightarrow> inspect_all mo e net s st name raws sw = (as, seen', w') \<Longrightarrow> w' = snd sw"
proof (induction raws arbitrary: sw as seen' w')
  case (Cons raw raws)
  obtain a seen1 w1 where i: "inspect mo e net s st name raw sw = (a, seen1, w1)" by (metis surj_pair)
  obtain more seen2 w2 where r: "inspect_all mo e net s st name raws (seen1, w1) = (more, seen2, w2)" by (metis surj_pair)
  have "w' = w2" using Cons.prems(2) by (simp add: i r)
  then show ?case using Cons.IH [OF Cons.prems(1) r] inspect_dry [OF Cons.prems(1) i] by simp
qed auto

lemma scan_batches_dry:
  "st_dry_run st \<Longrightarrow> scan_batches mo e net s st conn name batch k nums sw = (res, seen', w') \<Longrightarrow> w' = snd sw"
proof (induction mo e net s st conn name batch k nums sw arbitrary: res seen' w' rule: scan_batches.induct)
  case (1 mo e net s st conn name batch k nums sw)
  show ?case
  proof (cases "nums = [] \<or> mc_cancelled conn batch \<noteq> None")
    case True
    then show ?thesis using "1.prems"(2) by (subst (asm) scan_batches.simps) (auto split: option.splits if_splits)
  next
    case False
    obtain raws k' where f: "fetchBatch conn k (take batchSize nums) = (raws, k')" by (metis surj_pair)
    obtain as1 seen1 w1 where i: "inspect_all mo e net s st name raws sw = (as1, seen1, w1)" by (metis surj_pair)
    obtain more err1 seen2 w2 where r: "scan_batches mo e net s st conn name (Suc batch) k' (drop batchSize nums) (seen1, w1)
        = ((more, err1), seen2, w2)" by (metis surj_pair)
    have "scan_batches mo e net s st conn name batch k nums sw = ((as1 @ more, err1), seen2, w2)"
      using False by (subst scan_batches.simps) (simp add: f i r)
    then have "w' = w2" using "1.prems"(2) by simp
    moreover have "w2 = w1"
      using "1.IH" [OF _ _ f [symmetric] refl i [symmetric] refl "1.prems"(1)] False r by auto
    ultimately show ?thesis using inspect_all_dry [OF "1.prems"(1) i] by simp
  qed
qed

lemma scanInbox_dry:
  assumes "st_dry_run st" "scanInbox mo e net s st m name sw = (res, seen', w')"
  shows "w' = snd sw \<or> w' = snd (read_clock e (snd sw))"
proof (cases "connect net m")
  case (Inr conn)
  obtain t w1 where c: "read_clock e (snd sw) = (t, w1)" by (metis surj_pair)
  show ?thesis
  proof (cases "mc_search conn (t - st_days st * 24 * hour)")
    case (Inl x)
    then show ?thesis using assms(2) by (auto simp: scanInbox_def Inr c)
  next
    case (Inr found)
    then obtain nums res' where "scan_batches mo e net s st conn name 0 0 nums (fst sw, w1) = (res', seen', w')"
      using assms(2) \<open>connect net m = Inr conn\<close> by (auto simp: scanInbox_def c Let_def split: prod.splits)
    then show ?thesis using scan_batches_dry [OF assms(1)] c by fastforce
  qed
qed (use assms(2) in \<open>auto simp: scanInbox_def\<close>)

lemma scan_in_order_dry:
  assumes "st_dry_run st"
  shows "scan_in_order mo e net s st ms order results sw = (results', seen', w') \<Longrightarrow>
    wd_store w' = wd_store (snd sw) \<and> wd_sent w' = wd_sent (snd sw) \<and> wd_pushed w' = wd_pushed (snd sw) \<and> wd_notified w' = wd_notified (snd sw)"
proof (induction order arbitrary: results sw)
  case (Cons i order)
  obtain p seen1 w1 where p: "scanMailbox mo e net s st (ms ! i) sw = (p, seen1, w1)" by (metis surj_pair)
  have rest: "scan_in_order mo e net s st ms order (results[i := p]) (seen1, w1) = (results', seen', w')" using Cons.prems by (simp add: p)
  have "w1 = snd sw \<or> w1 = snd (read_clock e (snd sw))"
  proof (cases "mb_host (ms ! i) = [] \<or> mb_username (ms ! i) = [] \<or> mb_password (ms ! i) = []")
    case False
    obtain n as err seen2 w2 where b: "scanInbox mo e net s st (ms ! i) (displayName (ms ! i)) sw = ((n, as, err), seen2, w2)" by (metis surj_pair)
    have "w1 = w2" using p False assms by (auto simp: scanMailbox_def b Let_def split: option.splits)
    then show ?thesis using scanInbox_dry [OF assms b] by simp
  qed (use p in \<open>auto simp: scanMailbox_def\<close>)
  then show ?case using Cons.IH [OF rest] by (auto simp: read_clock_def)
qed auto

text \<open>A dry scan sends and records nothing: the store, the deliveries, the pushes and the counted
  notifications are as they were.\<close>

theorem dry_scan_silent:
  assumes "Scan mo e net s ms days True order w = (r, w')"
  shows "wd_store w' = wd_store w \<and> wd_sent w' = wd_sent w \<and> wd_pushed w' = wd_pushed w \<and> wd_notified w' = wd_notified w"
proof -
  obtain results seen' where "scan_in_order mo e net s \<lparr>st_matcher = newMatcher (scan_keywords s), st_days = days, st_dry_run = True\<rparr>
      ms order (replicate (length ms) (blank_report, [])) ({}, w) = (results, seen', w')"
    using assms by (auto simp: Scan_def Let_def split: prod.splits)
  from scan_in_order_dry [OF _ this] show ?thesis by simp
qed

section \<open>Examples\<close>

definition demo_mailbox :: mailbox where
  "demo_mailbox = \<lparr>mb_name = ''billing'', mb_host = ''h'', mb_port = 0, mb_username = ''u'', mb_password = ''p'', mb_use_ssl = True,
     mb_enabled = True, mb_from_env = False\<rparr>"

definition demo_net :: mail_net where
  "demo_net = \<lparr>nt_dial = (\<lambda>m n. Inr \<lparr>mc_search = (\<lambda>_. Inr [1]), mc_fetch = (\<lambda>_ _. Inr [''Account expired'']), mc_cancelled = (\<lambda>_. None)\<rparr>),
     nt_wait_cancelled = (\<lambda>_ _. False), nt_read = (\<lambda>_. None)\<rparr>"

definition demo_scanner :: scanner where
  "demo_scanner = \<lparr>sn_notifier = True, sn_keywords = [''expired''], sn_max_emails = 0, sn_on_notify = True\<rparr>"

definition still_env :: env where
  "still_env = \<lparr>en_clock = (\<lambda>_. 0), en_send = (\<lambda>_. None), en_local = utc_zone, en_load_zone = (\<lambda>_. None)\<rparr>"

definition fresh_mail :: "'s \<Rightarrow> 's world" where
  "fresh_mail s = \<lparr>wd_reads = 0, wd_store = s, wd_sent = [], wd_pushed = [], wd_notified = []\<rparr>"


theorem mails_alerted_once_sql_witness:
  "\<exists>r w1 r' w2. Scan (sql_mail_ops (\<lambda>_. ([], None))) still_env demo_net demo_scanner [demo_mailbox] 1 False [0]
      (fresh_mail \<lparr>db_alerts = [], db_emails = [], db_balances = []\<rparr>) = (r, w1)
    \<and> Scan (sql_mail_ops (\<lambda>_. ([], None))) still_env demo_net demo_scanner [demo_mailbox] 1 False [0] w1 = (r', w2)
    \<and> distinct (sent_keys (sc_alerts r @ sc_alerts r'))"
proof -
  let ?w = "fresh_mail \<lparr>db_alerts = [], db_emails = [], db_balances = []\<rparr>" and ?mo = "sql_mail_ops (\<lambda>_. ([], None))"
  obtain r w1 where 1: "Scan ?mo still_env demo_net demo_scanner [demo_mailbox] 1 False [0] ?w = (r, w1)" by (metis surj_pair)
  obtain r' w2 where 2: "Scan ?mo still_env demo_net demo_scanner [demo_mailbox] 1 False [0] w1 = (r', w2)" by (metis surj_pair)
  have "mono (en_clock still_env)" by (simp add: still_env_def mono_def)
  moreover have "en_clock still_env (wd_reads w2) \<le> en_clock still_env (wd_reads ?w) + 1 * day_dur"
    by (simp add: still_env_def second_def)
  ultimately show ?thesis using mails_alerted_once_sql [OF _ _ _ _ 1 _ 2] 1 2 by auto
qed

theorem scan_reports_mailboxes_witness:
  "\<exists>r w'. Scan volatile_mail_ops still_env demo_net demo_scanner [demo_mailbox\<lparr>mb_host := []\<rparr>, demo_mailbox] 1 True [1, 0]
      (fresh_mail Volatile) = (r, w') \<and> length (sc_mailboxes r) = 2 \<and> \<not> mr_success (sc_mailboxes r ! 0)"
proof -
  let ?ms = "[demo_mailbox\<lparr>mb_host := []\<rparr>, demo_mailbox]"
  obtain r w' where 1: "Scan volatile_mail_ops still_env demo_net demo_scanner ?ms 1 True [1, 0] (fresh_mail Volatile) = (r, w')"
    by (metis surj_pair)
  obtain ass where "list_all2 mailbox_reported ?ms (zip (sc_mailboxes r) ass)" "length (sc_mailboxes r) = length ?ms" "length ass = length ?ms"
    using scan_reports_mailboxes [OF 1] by (auto simp: upt_rec)
  then have "mailbox_reported (?ms ! 0) (zip (sc_mailboxes r) ass ! 0)" "length (sc_mailboxes r) = 2" "length ass = 2"
    by (auto simp: list_all2_conv_all_nth)
  then show ?thesis using 1 by (auto simp: mailbox_reported_def)
qed

theorem dry_scan_silent_witness:
  "\<exists>r w'. Scan volatile_mail_ops still_env demo_net demo_scanner [demo_mailbox] 1 True [0] (fresh_mail Volatile) = (r, w') \<and> wd_sent w' = []"
proof -
  obtain r w' where "Scan volatile_mail_ops still_env demo_net demo_scanner [demo_mailbox] 1 True [0] (fresh_mail Volatile) = (r, w')"
    by (metis surj_pair)
  from this dry_scan_silent [OF this] show ?thesis by (simp add: fresh_mail_def)
qed

end
