(* ===== verification/Weekly.thy ===== *)
theory Weekly
  imports Runway
begin

text \<open>
  The weekly report (\<open>internal/report/weekly.go\<close>): the week's accounts, spending, runways, renewals and
  mailboxes summed up from the dashboard state and the spending profiles, and the text of the card.
  The profiles are a map from account ids, as \<open>ComputeAll\<close> returns them.
\<close>

section \<open>The summary\<close>

definition WindowDays :: int where "WindowDays = 7"
definition TopN :: nat where "TopN = 3"
definition UpcomingDays :: int where "UpcomingDays = 30"

record spend_row =
  sw_project :: gostring
  sw_consumed :: f64
  sw_burn :: "f64 option"
  sw_runway :: "f64 option"
  sw_depletion :: "gostring option"
  sw_balance :: "f64 option"

record alerting_row =
  aw_project :: gostring
  aw_balance :: "f64 option"
  aw_threshold :: "f64 option"

record failed_row =
  fw_project :: gostring
  fw_error :: gostring

record accounts_view =
  ac_total :: nat
  ac_alerting :: nat
  ac_failed :: nat

record period_view =
  pr_start :: gostring
  pr_end :: gostring

record mailbox_stats =
  ms_total :: nat
  ms_failed :: nat
  ms_alerts :: nat

record report_summary =
  su_period :: period_view
  su_accounts :: accounts_view
  su_consumed :: "f64 option"
  su_top_spend :: "spend_row list"
  su_shortest :: "spend_row list"
  su_alerting :: "alerting_row list"
  su_failed :: "failed_row list"
  su_upcoming :: "subscription_result list"
  su_upcoming_amount :: f64
  su_mailboxes :: mailbox_stats

definition report_round2 :: "f64 \<Rightarrow> f64" where
  "report_round2 v = fdiv (round_to_even (fmul v (Fin 100))) (Fin 100)"

definition spend_row_of :: "check_result \<Rightarrow> runway \<Rightarrow> spend_row" where
  "spend_row_of r p = \<lparr>sw_project = cr_project r, sw_consumed = rw_consumed p, sw_burn = rw_burn_per_day p,
     sw_runway = rw_runway_days p, sw_depletion = rw_depletion_date p, sw_balance = rw_current_balance p\<rparr>"

definition spendRows :: "check_result list \<Rightarrow> (gostring \<Rightarrow> runway option) \<Rightarrow> spend_row list" where
  "spendRows results runways =
     List.map_filter (\<lambda>r. map_option (spend_row_of r) (runways (project_id (cr_provider r) (cr_project r)))) results"

definition upcomingSubscriptions :: "subscription_result list \<Rightarrow> subscription_result list" where
  "upcomingSubscriptions subs = sort_by (\<lambda>a b. sr_days_until a < sr_days_until b)
     (filter (\<lambda>s. \<not> sr_already_renewed s \<and> 0 \<le> sr_days_until s \<and> sr_days_until s \<le> UpcomingDays) subs)"

definition report_head :: "spend_row list \<Rightarrow> spend_row list" where
  "report_head rows = (if TopN < length rows then take TopN rows else rows)"

definition topByConsumed :: "spend_row list \<Rightarrow> spend_row list" where
  "topByConsumed rows = report_head (sort_by (\<lambda>a b. flt (sw_consumed b) (sw_consumed a)) rows)"

definition runway_key :: "spend_row \<Rightarrow> f64" where
  "runway_key row = (case sw_runway row of Some d \<Rightarrow> d | None \<Rightarrow> Fin 0)"

definition topByRunway :: "spend_row list \<Rightarrow> spend_row list" where
  "topByRunway rows = report_head (sort_by (\<lambda>a b. flt (runway_key a) (runway_key b)) (filter (\<lambda>row. sw_runway row \<noteq> None) rows))"

definition countAlerting :: "check_result list \<Rightarrow> nat" where
  "countAlerting results = length (filter cr_need_alarm results)"

definition alertingRows :: "check_result list \<Rightarrow> alerting_row list" where
  "alertingRows results = map (\<lambda>r. \<lparr>aw_project = cr_project r, aw_balance = cr_credits r, aw_threshold = cr_threshold r\<rparr>)
     (filter cr_need_alarm results)"

definition failedRows :: "check_result list \<Rightarrow> failed_row list" where
  "failedRows results = map (\<lambda>r. \<lparr>fw_project = cr_project r, fw_error = (case cr_error r of Some e \<Rightarrow> e | None \<Rightarrow> [])\<rparr>) results"

definition mailboxStats :: "mailbox_result list \<Rightarrow> nat \<Rightarrow> mailbox_stats" where
  "mailboxStats ms alerts = \<lparr>ms_total = length ms, ms_failed = length (filter (\<lambda>m. mr_error m \<noteq> None) ms), ms_alerts = alerts\<rparr>"

definition report_Build :: "check_result list \<Rightarrow> subscription_result list \<Rightarrow> mailbox_result list \<Rightarrow> nat
    \<Rightarrow> (gostring \<Rightarrow> runway option) \<Rightarrow> gotime \<Rightarrow> report_summary" where
  "report_Build results subs mailboxes alerts runways now =
     (let succeeded = filter cr_success results; failed = filter (\<lambda>r. \<not> cr_success r) results;
          spend = spendRows succeeded runways; upcoming = upcomingSubscriptions subs
      in \<lparr>su_period = \<lparr>pr_start = fmt_date (add_date now 0 0 (- WindowDays)), pr_end = fmt_date now\<rparr>,
          su_accounts = \<lparr>ac_total = length results, ac_alerting = countAlerting succeeded, ac_failed = length failed\<rparr>,
          su_consumed = (if spend \<noteq> [] then Some (report_round2 (fold (\<lambda>row t. fadd t (sw_consumed row)) spend (Fin 0))) else None),
          su_top_spend = topByConsumed spend, su_shortest = topByRunway spend, su_alerting = alertingRows succeeded,
          su_failed = failedRows failed, su_upcoming = upcoming,
          su_upcoming_amount = report_round2 (fold (\<lambda>s t. fadd t (sr_amount s)) upcoming (Fin 0)),
          su_mailboxes = mailboxStats mailboxes alerts\<rparr>)"

section \<open>The card\<close>

definition report_thousands :: "f64 \<Rightarrow> nat \<Rightarrow> gostring" where
  "report_thousands value decimals =
     (let t = format_fixed decimals value;
          (sgn, t') = (if has_prefix t ''-'' then (''-'', drop 1 t) else ([], t))
      in case cut t' ''.'' of
           None \<Rightarrow> sgn @ thousands_loop (length t') 0 t'
         | Some (int_part, fr) \<Rightarrow> sgn @ thousands_loop (length int_part) 0 int_part @ ''.'' @ fr)"

definition fmtNum :: "f64 option \<Rightarrow> gostring" where
  "fmtNum v = (case v of None \<Rightarrow> ''-'' | Some x \<Rightarrow> report_thousands x 2)"

definition headline :: "report_summary \<Rightarrow> gostring list" where
  "headline s =
     (let ac = su_accounts s;
          state = (if 0 < ac_alerting ac then '', '' @ quantity (int (ac_alerting ac)) ''balance alert'' ''balance alerts''
            else '', all healthy'');
          state' = state @ (if 0 < ac_failed ac then '', '' @ quantity (int (ac_failed ac)) ''failed check'' ''failed checks'' else [])
      in [''**Reporting period**: '' @ pr_start (su_period s) @ '' ~ '' @ pr_end (su_period s),
          ''**Accounts**: '' @ itoa (int (ac_total ac)) @ state'] @
         (case su_consumed s of None \<Rightarrow> [] | Some c \<Rightarrow> [''**This week's spending**: '' @ fmtNum (Some c)]))"

definition report_section :: "gostring \<Rightarrow> gostring list \<Rightarrow> gostring list" where
  "report_section title rows = (if rows = [] then [] else [[], ''**'' @ title @ ''**''] @ rows)"

definition runwayLines :: "spend_row list \<Rightarrow> gostring list" where
  "runwayLines rows = map (\<lambda>row. ''- '' @ sw_project row @ '': '' @ format_fixed 1 (runway_key row) @ '' days remaining'' @
     (case sw_depletion row of None \<Rightarrow> [] | Some d \<Rightarrow> '' (estimated depletion: '' @ d @ '')'') @ '', balance '' @ fmtNum (sw_balance row)) rows"

definition spendLines :: "spend_row list \<Rightarrow> gostring list" where
  "spendLines rows = map (\<lambda>row. ''- '' @ sw_project row @ '': '' @ fmtNum (Some (sw_consumed row)) @ '', daily average '' @ fmtNum (sw_burn row)) rows"

definition subscriptionLines :: "subscription_result list \<Rightarrow> gostring list" where
  "subscriptionLines subs = map (\<lambda>s. ''- '' @ sr_name s @ '': '' @
     (if 0 < sr_days_until s then ''reminder in '' @ quantity (sr_days_until s) ''day'' ''days'' else ''reminder today'') @
     '', '' @ fmtNum (Some (sr_amount s))) subs"

definition problemLines :: "report_summary \<Rightarrow> gostring list" where
  "problemLines s =
     map (\<lambda>a. ''- '' @ aw_project a @ '': balance '' @ fmtNum (aw_balance a) @ '' below threshold '' @ fmtNum (aw_threshold a)) (su_alerting s) @
     map (\<lambda>f. ''- '' @ fw_project f @ '': Check failed, '' @ fw_error f) (su_failed s) @
     (if 0 < ms_failed (su_mailboxes s)
      then [''- Mailboxes: '' @ quantity (int (ms_failed (su_mailboxes s))) ''connection failure'' ''connection failures''] else [])"

definition Render :: "report_summary \<Rightarrow> gostring" where
  "Render s = join [CHR 0x0A]
     (headline s @ report_section ''Shortest runway'' (runwayLines (su_shortest s))
      @ report_section ''Highest spending'' (spendLines (su_top_spend s))
      @ report_section (''Next '' @ itoa UpcomingDays @ '' days of subscription spending: '' @ fmtNum (Some (su_upcoming_amount s)))
          (subscriptionLines (su_upcoming s))
      @ report_section ''Needs attention'' (problemLines s))"

section \<open>What the report says\<close>

lemma report_head_eq: "report_head rows = take TopN rows"
  by (simp add: report_head_def)

text \<open>A top list splits the rows: three of them, or all, in order, and none of the others comes before.\<close>

lemma sorted_take:
  assumes "strict_weak lt"
  shows "mset xs = mset (take n (sort_by lt xs)) + mset (drop n (sort_by lt xs))
    \<and> sorted_wrt (\<lambda>a b. \<not> lt b a) (take n (sort_by lt xs))
    \<and> (\<forall>a \<in> set (take n (sort_by lt xs)). \<forall>b \<in> set (drop n (sort_by lt xs)). \<not> lt b a)"
proof -
  have s: "sorted_wrt (\<lambda>a b. \<not> lt b a) (take n (sort_by lt xs) @ drop n (sort_by lt xs))"
    using sorted_sort_by [OF assms, of xs] by simp
  have "mset (take n (sort_by lt xs)) + mset (drop n (sort_by lt xs)) = mset xs"
    by (metis append_take_drop_id mset_append mset_sort_by)
  then show ?thesis using s unfolding sorted_wrt_append by auto
qed

lemma strict_weak_days: "strict_weak (\<lambda>a b. sr_days_until a < sr_days_until b)"
  by (auto simp: strict_weak_def)

text \<open>The report's counts are those of its lists: every account is counted once as succeeded or failed,
  the alerts and failures it lists are the ones it counts, and its renewals are exactly the unpaid ones
  of the next thirty days, soonest first.\<close>

theorem report_consistent:
  "ac_total (su_accounts (report_Build results subs ms n runways now)) = length results
   \<and> ac_alerting (su_accounts (report_Build results subs ms n runways now)) = length (su_alerting (report_Build results subs ms n runways now))
   \<and> ac_failed (su_accounts (report_Build results subs ms n runways now)) = length (su_failed (report_Build results subs ms n runways now))
   \<and> map fw_project (su_failed (report_Build results subs ms n runways now)) = map cr_project (filter (\<lambda>r. \<not> cr_success r) results)
   \<and> mset (su_upcoming (report_Build results subs ms n runways now))
      = mset (filter (\<lambda>s. \<not> sr_already_renewed s \<and> 0 \<le> sr_days_until s \<and> sr_days_until s \<le> 30) subs)
   \<and> sorted_wrt (\<lambda>a b. sr_days_until a \<le> sr_days_until b) (su_upcoming (report_Build results subs ms n runways now))
   \<and> (su_consumed (report_Build results subs ms n runways now) = None \<longleftrightarrow> spendRows (filter cr_success results) runways = [])"
  using sorted_sort_by [OF strict_weak_days, of "filter (\<lambda>s. \<not> sr_already_renewed s \<and> 0 \<le> sr_days_until s \<and> sr_days_until s \<le> 30) subs"]
  by (simp add: report_Build_def Let_def countAlerting_def alertingRows_def failedRows_def upcomingSubscriptions_def UpcomingDays_def
    comp_def not_less)

lemma strict_weak_float:
  assumes "\<forall>x \<in> set xs. f x \<noteq> NaN"
  shows "\<exists>g. (\<forall>x \<in> set xs. g x = f x) \<and> strict_weak (\<lambda>a b. flt (g a) (g b))"
proof -
  define g where "g x = (if f x = NaN then Fin 0 else f x)" for x
  have n: "g x \<noteq> NaN" for x by (simp add: g_def)
  have "strict_weak (\<lambda>a b. flt (g a) (g b))" unfolding strict_weak_def
    using n not_flt fle_trans flt_le by (metis (no_types, lifting))
  then show ?thesis using assms by (intro exI [of _ g]) (simp add: g_def)
qed

lemma ins_by_cong:
  "(\<And>y. y \<in> set ys \<Longrightarrow> lt y x = lt' y x) \<Longrightarrow> ins_by lt x ys = ins_by lt' x ys"
  by (induction ys) auto

lemma sort_by_cong:
  "(\<And>x y. x \<in> set xs \<Longrightarrow> y \<in> set xs \<Longrightarrow> lt x y = lt' x y) \<Longrightarrow> sort_by lt xs = sort_by lt' xs"
proof (induction xs)
  case (Cons x xs)
  have e: "sort_by l (x # xs) = ins_by l x (sort_by l xs)" for l :: "'a \<Rightarrow> 'a \<Rightarrow> bool" by (simp add: sort_by_def)
  have "sort_by lt xs = sort_by lt' xs" using Cons by simp
  then show ?case unfolding e using Cons.prems by (auto intro: ins_by_cong)
qed simp

lemma float_top:
  assumes "\<forall>x \<in> set xs. f x \<noteq> NaN"
  shows "\<exists>rest. mset xs = mset (take n (sort_by (\<lambda>a b. flt (f a) (f b)) xs)) + mset rest
    \<and> sorted_wrt (\<lambda>a b. fle (f a) (f b)) (take n (sort_by (\<lambda>a b. flt (f a) (f b)) xs))
    \<and> (\<forall>a \<in> set (take n (sort_by (\<lambda>a b. flt (f a) (f b)) xs)). \<forall>b \<in> set rest. fle (f a) (f b))"
proof -
  obtain g where g: "\<forall>x \<in> set xs. g x = f x" "strict_weak (\<lambda>a b. flt (g a) (g b))"
    using strict_weak_float [OF assms] by blast
  let ?s = "sort_by (\<lambda>a b. flt (f a) (f b)) xs"
  have e: "?s = sort_by (\<lambda>a b. flt (g a) (g b)) xs" using g(1) by (intro sort_by_cong) simp
  note t = sorted_take [OF g(2), of xs n, folded e]
  have sub: "set (take n ?s) \<subseteq> set xs" "set (drop n ?s) \<subseteq> set xs"
    using set_take_subset [of n ?s] set_drop_subset [of n ?s] by simp_all
  have le: "fle (f a) (f b)" if "\<not> flt (g b) (g a)" "a \<in> set xs" "b \<in> set xs" for a b
    using that g(1) assms not_flt [of "f b" "f a"] by simp
  have "sorted_wrt (\<lambda>a b. fle (f a) (f b)) (take n ?s)"
    using conjunct1 [OF conjunct2 [OF t]] by (rule sorted_wrt_mono_rel [rotated]) (use le sub in blast)
  moreover have "\<forall>a \<in> set (take n ?s). \<forall>b \<in> set (drop n ?s). fle (f a) (f b)" using t le sub by blast
  ultimately show ?thesis using t by blast
qed

text \<open>The report's runway chart is made of the three accounts, or all if there are fewer, that run
  out first among those with a runway, in that order; no account left out runs out before one shown.\<close>

theorem shortest_runways_shown:
  assumes "\<forall>row \<in> set (spendRows (filter cr_success results) runways). runway_key row \<noteq> NaN"
  shows "\<exists>rest. mset (filter (\<lambda>row. sw_runway row \<noteq> None) (spendRows (filter cr_success results) runways))
      = mset (su_shortest (report_Build results subs ms n runways now)) + mset rest
    \<and> length (su_shortest (report_Build results subs ms n runways now))
      = min 3 (length (filter (\<lambda>row. sw_runway row \<noteq> None) (spendRows (filter cr_success results) runways)))
    \<and> sorted_wrt (\<lambda>a b. fle (runway_key a) (runway_key b)) (su_shortest (report_Build results subs ms n runways now))
    \<and> (\<forall>a \<in> set (su_shortest (report_Build results subs ms n runways now)). \<forall>b \<in> set rest. fle (runway_key a) (runway_key b))"
proof -
  let ?rows = "filter (\<lambda>row. sw_runway row \<noteq> None) (spendRows (filter cr_success results) runways)"
  have s: "su_shortest (report_Build results subs ms n runways now) = take 3 (sort_by (\<lambda>a b. flt (runway_key a) (runway_key b)) ?rows)"
    by (simp add: report_Build_def Let_def topByRunway_def report_head_eq TopN_def)
  have "\<forall>row \<in> set ?rows. runway_key row \<noteq> NaN" using assms by simp
  from float_top [OF this, of 3] show ?thesis unfolding s by (simp add: min.commute)
qed

definition demo_profile :: "gostring \<Rightarrow> rat \<Rightarrow> runway" where
  "demo_profile name d = \<lparr>rw_project_id = name, rw_project_name = name, rw_provider = ''x'', rw_balance_type = TypeBalance,
     rw_current_balance = None, rw_window_days = 7, rw_data_points = 9, rw_span_hours = Fin 100, rw_consumed = Fin 5,
     rw_topped_up = Fin 0, rw_burn_per_day = None, rw_runway_days = Some (Fin d), rw_depletion_date = None,
     rw_confidence = [], rw_daily = [], rw_today_consumed = None, rw_baseline = None, rw_spike_ratio = None,
     rw_monthly_projection = None\<rparr>"

definition demo_account :: "gostring \<Rightarrow> check_result" where
  "demo_account name = \<lparr>cr_project = name, cr_owner = None, cr_provider = ''x'', cr_type = TypeBalance, cr_success = True,
     cr_credits = None, cr_threshold = None, cr_need_alarm = False, cr_alarm_sent = False, cr_error = None,
     cr_cached = False, cr_runway = None, cr_checked_at = None, cr_latency_ms = None\<rparr>"

theorem shortest_runways_shown_witness:
  "length (su_shortest (report_Build [demo_account ''a'', demo_account ''b''] [] [] 0 (\<lambda>_. Some (demo_profile ''a'' 4)) (utc_at 0))) = 2"
proof -
  let ?rs = "[demo_account ''a'', demo_account ''b'']" and ?rw = "\<lambda>_. Some (demo_profile ''a'' 4)"
  have rows: "spendRows (filter cr_success ?rs) ?rw = map (\<lambda>r. spend_row_of r (demo_profile ''a'' 4)) ?rs"
    by (simp add: spendRows_def List.map_filter_def demo_account_def)
  have k: "sw_runway (spend_row_of r (demo_profile ''a'' 4)) = Some (Fin 4)" for r by (simp add: spend_row_of_def demo_profile_def)
  have "\<forall>row \<in> set (spendRows (filter cr_success ?rs) ?rw). runway_key row \<noteq> NaN"
    unfolding rows by (simp add: runway_key_def k)
  from shortest_runways_shown [OF this, of "[]" "[]" 0 "utc_at 0"]
  have "length (su_shortest (report_Build ?rs [] [] 0 ?rw (utc_at 0)))
      = min 3 (length (filter (\<lambda>row. sw_runway row \<noteq> None) (spendRows (filter cr_success ?rs) ?rw)))" by (elim exE conjE)
  also have "\<dots> = 2" by (simp only: rows) (simp add: k)
  finally show ?thesis .
qed

text \<open>A week in which checks failed but no balance is low is headed by all accounts being healthy and,
  in the same line, by the number of failed checks.\<close>

theorem healthy_headline_with_failures:
  "headline (s\<lparr>su_accounts := \<lparr>ac_total = total_n, ac_alerting = 0, ac_failed = Suc n\<rparr>\<rparr>) ! 1
   = ''**Accounts**: '' @ itoa (int total_n) @ '', all healthy, '' @ quantity (int (Suc n)) ''failed check'' ''failed checks''"
  by (simp add: headline_def Let_def)

end
