(* ===== verification/Discover.thy ===== *)
theory Discover
  imports Settings Provider
begin

text \<open>
  Finding what to watch (\<open>internal/config/discover.go\<close>, \<open>resolve.go\<close>): the \<open>.env\<close> file, the accounts and
  mailboxes found in the environment, and the resolver that joins them with the configuration tables
  and swaps the registry of platforms.  The tables of the store are an interface whose reads and writes
  may fail; log lines are left out.
\<close>

section \<open>The .env file\<close>

text \<open>The lines a scanner yields: without their line ends, the last one only if it is not empty.  A line
  that does not fit the scanner's buffer ends the scan.\<close>

definition strip_cr :: "gostring \<Rightarrow> gostring" where
  "strip_cr s = (if has_suffix s [CHR 0x0D] then butlast s else s)"

definition raw_lines :: "gostring \<Rightarrow> gostring list" where
  "raw_lines s = (let ls = split_on (CHR 0x0A) s in if last ls = [] then butlast ls else ls)"

definition maxToken :: nat where "maxToken = 65536"

definition quoted :: "char \<Rightarrow> gostring \<Rightarrow> bool" where
  "quoted q v \<longleftrightarrow> 2 \<le> length v \<and> hd v = q \<and> last v = q"

definition unquote :: "gostring \<Rightarrow> gostring" where
  "unquote v = (if quoted (CHR 0x22) v \<or> quoted (CHR 0x27) v then butlast (tl v) else v)"

text \<open>\<open>os.Setenv\<close>.\<close>

definition setenv :: "gostring \<Rightarrow> gostring \<Rightarrow> Settings.env \<Rightarrow> goerror option \<times> Settings.env" where
  "setenv key value env =
     (if key = [] \<or> CHR ''='' \<in> set key \<or> CHR 0x00 \<in> set key \<or> CHR 0x00 \<in> set value
      then (Some ''setenv: invalid argument'', env) else (None, env(key \<mapsto> value)))"

definition env_line :: "gostring \<Rightarrow> (gostring \<times> gostring) option option" where
  "env_line raw_line =
     (let line = trim_space raw_line in
      if line = [] \<or> has_prefix line ''#'' then Some None
      else case cut (trim_prefix line ''export '') ''='' of
          None \<Rightarrow> None
        | Some (key, value) \<Rightarrow> Some (Some (trim_space key, unquote (trim_space value))))"

fun load_lines :: "gostring \<Rightarrow> int \<Rightarrow> gostring list \<Rightarrow> Settings.env \<Rightarrow> goerror option \<times> Settings.env" where
  "load_lines path n [] env = (None, env)"
| "load_lines path n (l # ls) env =
     (if maxToken \<le> length l then (Some ''bufio.Scanner: token too long'', env)
      else case env_line (strip_cr l) of
          None \<Rightarrow> (Some (path @ '' line '' @ itoa n @ '' is not in KEY=VALUE format''), env)
        | Some None \<Rightarrow> load_lines path (n + 1) ls env
        | Some (Some (key, value)) \<Rightarrow>
            (case setenv key value env of (Some err, _) \<Rightarrow> (Some err, env)
             | (None, env') \<Rightarrow> load_lines path (n + 1) ls env'))"

datatype env_file = Missing | Unreadable goerror | Contents gostring

definition LoadEnvFile :: "gostring \<Rightarrow> env_file \<Rightarrow> Settings.env \<Rightarrow> goerror option \<times> Settings.env" where
  "LoadEnvFile path file env = (case file of Missing \<Rightarrow> (None, env) | Unreadable err \<Rightarrow> (Some err, env)
     | Contents text \<Rightarrow> load_lines path 1 (raw_lines text) env)"

section \<open>Accounts and mailboxes in the environment\<close>

definition MaxEnvAccounts :: int where "MaxEnvAccounts = 10"

definition envVariants :: "gostring \<Rightarrow> gostring \<Rightarrow> int \<Rightarrow> gostring list" where
  "envVariants prefix suffix ordinal =
     (if ordinal \<le> 1 then [prefix @ ''_'' @ suffix, prefix @ ''_1_'' @ suffix]
      else [prefix @ ''_'' @ itoa ordinal @ ''_'' @ suffix])"

fun first_set :: "Settings.env \<Rightarrow> gostring list \<Rightarrow> (gostring \<times> gostring) option" where
  "first_set env [] = None"
| "first_set env (name # names) = (case raw env name of Some v \<Rightarrow> Some (name, v) | None \<Rightarrow> first_set env names)"

definition envFirst :: "Settings.env \<Rightarrow> gostring \<Rightarrow> gostring \<Rightarrow> int \<Rightarrow> gostring" where
  "envFirst env prefix suffix ordinal = (case first_set env (envVariants prefix suffix ordinal) of None \<Rightarrow> [] | Some (_, v) \<Rightarrow> v)"

definition envFirstFloat :: "Settings.env \<Rightarrow> gostring \<Rightarrow> gostring \<Rightarrow> int \<Rightarrow> f64" where
  "envFirstFloat env prefix suffix ordinal =
     (let value = envFirst env prefix suffix ordinal
      in if value = [] then Fin 0 else case parse_float value of None \<Rightarrow> Fin 0 | Some f \<Rightarrow> f)"

definition envPrefixOf :: "gostring \<Rightarrow> gostring" where
  "envPrefixOf key = to_upper (trimCustomPrefix key)"

definition ProviderKeyEnvNames :: "gostring \<Rightarrow> int \<Rightarrow> gostring list" where
  "ProviderKeyEnvNames key ordinal = (if key = [] then [] else envVariants (envPrefixOf key) ''API_KEY'' ordinal)"

definition ordinals :: "int list" where "ordinals = [1..MaxEnvAccounts]"

definition env_accounts :: "Settings.env \<Rightarrow> gostring \<Rightarrow> (int \<times> gostring) list" where
  "env_accounts env upper = filter (\<lambda>(i, k). k \<noteq> []) (map (\<lambda>i. (i, envFirst env upper ''API_KEY'' i)) ordinals)"

definition env_project :: "Settings.env \<Rightarrow> gostring \<Rightarrow> gostring \<Rightarrow> bool \<Rightarrow> int \<times> gostring \<Rightarrow> project" where
  "env_project env name upper several acct =
     \<lparr>pj_name = (if several then name @ ''-'' @ itoa (fst acct) else name), pj_provider = name, pj_api_key = snd acct,
      pj_threshold = envFirstFloat env upper ''THRESHOLD'' (fst acct), pj_type = default_balance_type name, pj_currency = [],
      pj_monthly_budget = Fin 0, pj_owner = owner_project_of (envFirst env upper ''OWNER_PROJECT'' (fst acct)),
      pj_enabled = True, pj_from_env = True\<rparr>"

definition discover_key :: "Settings.env \<Rightarrow> gostring set \<Rightarrow> gostring \<Rightarrow> project list" where
  "discover_key env declared key =
     (let name = trimCustomPrefix key; upper = envPrefixOf key; accounts = env_accounts env upper in
      if name \<in> declared \<or> key \<in> declared then []
      else map (env_project env name upper (1 < length accounts)) accounts)"

definition DiscoverProjects :: "registry \<Rightarrow> Settings.env \<Rightarrow> project list \<Rightarrow> project list" where
  "DiscoverProjects g env declared =
     (let ds = (\<lambda>p. to_lower (trim_space (pj_provider p))) ` set declared
      in concat (map (discover_key env ds) (provider_keys g)))"

definition env_mailbox :: "Settings.env \<Rightarrow> int \<Rightarrow> mailbox option" where
  "env_mailbox env i =
     (let host = envFirst env ''EMAIL'' ''HOST'' i; username = envFirst env ''EMAIL'' ''USERNAME'' i;
          password = envFirst env ''EMAIL'' ''PASSWORD'' i; given = envFirst env ''EMAIL'' ''NAME'' i;
          port = envFirst env ''EMAIL'' ''PORT'' i; ssl = envFirst env ''EMAIL'' ''USE_SSL'' i in
      if host = [] \<or> username = [] \<or> password = [] then None
      else Some \<lparr>mb_name = (if given = [] then username else given), mb_host = host,
        mb_port = (case atoi port of Some n \<Rightarrow> if port \<noteq> [] \<and> 0 < n then n else 993 | None \<Rightarrow> 993),
        mb_username = username, mb_password = password,
        mb_use_ssl = (if ssl = [] then True else to_lower ssl \<in> set truthy), mb_enabled = True, mb_from_env = True\<rparr>)"

fun discover_mailboxes :: "Settings.env \<Rightarrow> gostring set \<Rightarrow> int list \<Rightarrow> mailbox list" where
  "discover_mailboxes env declared [] = []"
| "discover_mailboxes env declared (i # is) = (case env_mailbox env i of
       None \<Rightarrow> discover_mailboxes env declared is
     | Some m \<Rightarrow> if mb_name m \<in> declared \<or> mb_username m \<in> declared then discover_mailboxes env declared is
         else m # discover_mailboxes env (insert (mb_name m) (insert (mb_username m) declared)) is)"

definition DiscoverMailboxes :: "Settings.env \<Rightarrow> mailbox list \<Rightarrow> mailbox list" where
  "DiscoverMailboxes env declared = discover_mailboxes env (mb_name ` set declared \<union> mb_username ` set declared) ordinals"

definition from_config :: gostring where "from_config = ''the api_key field in the configuration''"

definition ResolveAPIKey :: "Settings.env \<Rightarrow> project \<Rightarrow> int \<Rightarrow> gostring \<times> gostring" where
  "ResolveAPIKey env p ordinal =
     (if pj_api_key p \<noteq> [] then (pj_api_key p, from_config)
      else case first_set env (ProviderKeyEnvNames (pj_provider p) ordinal) of
          Some (name, v) \<Rightarrow> (v, ''environment variable '' @ name)
        | None \<Rightarrow> ([], []))"

definition KeySource :: "Settings.env \<Rightarrow> project \<Rightarrow> int \<Rightarrow> gostring \<times> gostring list" where
  "KeySource env p ordinal =
     (let names = ProviderKeyEnvNames (pj_provider p) ordinal in
      if pj_api_key p = [] then ([], names)
      else case find (\<lambda>n. raw env n = Some (pj_api_key p)) names of
          Some n \<Rightarrow> (''environment variable '' @ n, [])
        | None \<Rightarrow> (from_config, []))"

section \<open>The resolver\<close>

record 's config_ops =
  cg_ListProjects :: "'s \<Rightarrow> goerror + project list"
  cg_ListSubscriptions :: "'s \<Rightarrow> goerror + subscription list"
  cg_ListMailboxes :: "'s \<Rightarrow> goerror + mailbox list"
  cg_ListCustomProviders :: "'s \<Rightarrow> goerror + custom_provider list"
  cg_GetAppSetting :: "gostring \<Rightarrow> 's \<Rightarrow> goerror + gostring"
  cg_SetAppSetting :: "gostring \<Rightarrow> gostring \<Rightarrow> 's \<Rightarrow> goerror option \<times> 's"
  cg_UpsertCustomProvider :: "custom_provider \<Rightarrow> 's \<Rightarrow> goerror option \<times> 's"

definition or_empty :: "goerror + 'a list \<Rightarrow> 'a list" where
  "or_empty r = (case r of Inl _ \<Rightarrow> [] | Inr xs \<Rightarrow> xs)"

definition fromDatabase :: "'s config_ops \<Rightarrow> 's \<Rightarrow> config" where
  "fromDatabase co st = \<lparr>cf_projects = or_empty (cg_ListProjects co st), cf_subscriptions = or_empty (cg_ListSubscriptions co st),
     cf_mailboxes = or_empty (cg_ListMailboxes co st)\<rparr>"

text \<open>The ordinal of a project among those of its platform, counted so far.\<close>

fun normalize_projects :: "Settings.env \<Rightarrow> (gostring \<Rightarrow> int) \<Rightarrow> project list \<Rightarrow> project list" where
  "normalize_projects env seen [] = []"
| "normalize_projects env seen (p # ps) =
     (let p1 = normalize_project p; n = seen (pj_provider p1) + 1; (key, _) = ResolveAPIKey env p1 n
      in (if key \<noteq> [] then p1\<lparr>pj_api_key := key\<rparr> else p1) # normalize_projects env (seen(pj_provider p1 := n)) ps)"

definition normalize_subscription :: "subscription \<Rightarrow> subscription" where
  "normalize_subscription s =
     (let s1 = (if sb_cycle_type s = [] then s\<lparr>sb_cycle_type := CycleMonthly\<rparr> else s);
          s2 = s1\<lparr>sb_cycle_type := to_lower (trim_space (sb_cycle_type s1))\<rparr>
      in if sb_alert_days_before s2 < 0 then s2\<lparr>sb_alert_days_before := 0\<rparr> else s2)"

definition normalize_mailbox :: "mailbox \<Rightarrow> mailbox" where
  "normalize_mailbox m =
     (let m1 = (if mb_port m \<le> 0 then m\<lparr>mb_port := 993\<rparr> else m)
      in if mb_name m1 = [] then m1\<lparr>mb_name := mb_username m1\<rparr> else m1)"

definition normalize_config :: "Settings.env \<Rightarrow> config \<Rightarrow> config" where
  "normalize_config env cfg = \<lparr>cf_projects = normalize_projects env (\<lambda>_. 0) (cf_projects cfg),
     cf_subscriptions = map normalize_subscription (cf_subscriptions cfg),
     cf_mailboxes = map normalize_mailbox (cf_mailboxes cfg)\<rparr>"

definition CustomProviders :: "'s config_ops \<Rightarrow> settings \<Rightarrow> 's \<Rightarrow> custom_provider list" where
  "CustomProviders co s st = (if \<not> st_dynamic s then [] else or_empty (cg_ListCustomProviders co st))"

definition defaultsSeededMarker :: gostring where "defaultsSeededMarker = ''custom_defaults_seeded''"

definition seed_defaults :: "'s config_ops \<Rightarrow> custom_provider list \<Rightarrow> 's \<Rightarrow> 's" where
  "seed_defaults co known st =
     fold (\<lambda>c st. snd (cg_UpsertCustomProvider co c st))
       (filter (\<lambda>c. cp_name c \<notin> cp_name ` set known) DefaultCustomProviders) st"

definition registerCustomProviders :: "'s config_ops \<Rightarrow> settings \<Rightarrow> registry \<times> 's \<Rightarrow> registry \<times> 's" where
  "registerCustomProviders co s gs =
     (if \<not> st_dynamic s then gs
      else let st = snd gs; known = CustomProviders co s st;
               (listed, st') = (if cg_GetAppSetting co defaultsSeededMarker st = Inr ''1'' then (known, st)
                 else let st1 = snd (cg_SetAppSetting co defaultsSeededMarker ''1'' (seed_defaults co known st))
                   in (CustomProviders co s st1, st1))
           in (snd (ReplaceDynamic (fst gs) (ok_specs listed)), st'))"

definition resolver_Load :: "'s config_ops \<Rightarrow> settings \<Rightarrow> Settings.env \<Rightarrow> registry \<times> 's \<Rightarrow> config \<times> registry \<times> 's" where
  "resolver_Load co s env gs =
     (let cfg = (if st_dynamic s then fromDatabase co (snd gs) else \<lparr>cf_projects = [], cf_subscriptions = [], cf_mailboxes = []\<rparr>);
          cfg1 = cfg\<lparr>cf_projects := cf_projects cfg @ DiscoverProjects (fst gs) env (cf_projects cfg)\<rparr>;
          cfg2 = cfg1\<lparr>cf_mailboxes := cf_mailboxes cfg1 @ DiscoverMailboxes env (cf_mailboxes cfg1)\<rparr>
      in (normalize_config env cfg2, registerCustomProviders co s gs))"

section \<open>Properties\<close>

lemma split_on_line: "d \<notin> set a \<Longrightarrow> split_on d (a @ d # b) = a # split_on d b"
  by (induction a) auto

lemma split_on_lines: "\<forall>l \<in> set ls. d \<notin> set l \<Longrightarrow> split_on d (concat (map (\<lambda>l. l @ [d]) ls)) = ls @ [[]]"
  by (induction ls) (simp_all add: split_on_line)

definition good_key :: "gostring \<Rightarrow> bool" where
  "good_key k \<longleftrightarrow> k \<noteq> [] \<and> list_all graphic k \<and> CHR ''='' \<notin> set k \<and> hd k \<noteq> CHR ''#''"

lemma good_key_line: "good_key k \<Longrightarrow> CHR 0x0A \<notin> set k"
  by (auto simp: good_key_def list_all_iff graphic_def byte_def dest!: bspec)

definition good_value :: "gostring \<Rightarrow> bool" where
  "good_value v \<longleftrightarrow> CHR 0x0A \<notin> set v \<and> CHR 0x00 \<notin> set v"

definition env_text_line :: "gostring \<times> gostring \<Rightarrow> gostring" where
  "env_text_line b = fst b @ ''='' @ [CHR 0x22] @ snd b @ [CHR 0x22]"

lemma env_line_printed:
  assumes "good_key k" "good_value v"
  shows "env_line (strip_cr (env_text_line (k, v))) = Some (Some (k, v))"
proof -
  let ?l = "env_text_line (k, v)"
  have k: "k \<noteq> []" "graphic (hd k)" "graphic (last k)" "CHR ''='' \<notin> set k" "hd k \<noteq> CHR ''#''" "CHR '' '' \<notin> set k"
    using assms(1) by (auto simp: good_key_def list_all_iff graphic_def byte_def)
  have q: "graphic (CHR 0x22)" by (simp add: graphic_def byte_def)
  have l: "?l \<noteq> []" "hd ?l = hd k" "last ?l = CHR 0x22" using k(1) by (simp_all add: env_text_line_def)
  have cr: "strip_cr ?l = ?l" using l(1,3) by (cases ?l rule: rev_cases) (simp_all add: strip_cr_def has_suffix_def has_prefix_iff)
  have t: "trim_space ?l = ?l" using trim_space_graphic [of ?l] l k(2) q by simp
  have h: "\<not> has_prefix ?l ''#''" using k(1,5) by (cases k) (auto simp: env_text_line_def has_prefix_iff)
  have e: "trim_prefix ?l ''export '' = ?l"
  proof -
    have "takeWhile (\<lambda>c. c \<noteq> CHR ''='') ?l = k" using k(4) unfolding env_text_line_def by (subst takeWhile_append2) auto
    moreover have "takeWhile (\<lambda>c. c \<noteq> CHR ''='') (''export '' @ r) = ''export '' @ takeWhile (\<lambda>c. c \<noteq> CHR ''='') r" for r by simp
    ultimately have "\<not> has_prefix ?l ''export ''" using k(6) by (auto simp: has_prefix_iff)
    then show ?thesis by (simp add: trim_prefix_def)
  qed
  have c: "cut ?l ''='' = Some (k, [CHR 0x22] @ v @ [CHR 0x22])" using cut_char [OF k(4)] by (simp add: env_text_line_def)
  have tv: "trim_space ([CHR 0x22] @ v @ [CHR 0x22]) = [CHR 0x22] @ v @ [CHR 0x22]"
    by (rule trim_space_graphic) (simp_all add: q)
  have tk: "trim_space k = k" using trim_space_graphic k by simp
  have u: "unquote ([CHR 0x22] @ v @ [CHR 0x22]) = v" by (simp add: unquote_def quoted_def butlast_append)
  show ?thesis unfolding env_line_def cr t Let_def e c using l(1) h by (simp add: tv [simplified] tk u [simplified])
qed

definition set_binding :: "gostring \<times> gostring \<Rightarrow> Settings.env \<Rightarrow> Settings.env" where
  "set_binding b env = env(fst b \<mapsto> snd b)"

lemma set_binding_pair: "set_binding (k, v) env = env(k \<mapsto> v)"
  by (simp add: set_binding_def)

lemma load_printed:
  "\<lbrakk>list_all (\<lambda>b. good_key (fst b) \<and> good_value (snd b) \<and> length (env_text_line b) < maxToken) bs\<rbrakk> \<Longrightarrow>
   load_lines path n (map env_text_line bs) env = (None, fold set_binding bs env)"
proof (induction bs arbitrary: n env)
  case (Cons b bs)
  then have g: "good_key (fst b)" "good_value (snd b)" "\<not> maxToken \<le> length (env_text_line b)" by auto
  have l: "env_line (strip_cr (env_text_line b)) = Some (Some (fst b, snd b))" using env_line_printed [OF g(1,2)] by simp
  have s: "setenv (fst b) (snd b) env = (None, env(fst b \<mapsto> snd b))"
    using g(1,2) by (auto simp: setenv_def good_key_def good_value_def list_all_iff graphic_def byte_def)
  obtain k v where b: "b = (k, v)" by (cases b)
  show ?case using Cons g(3) l s unfolding b fst_conv snd_conv by (simp add: set_binding_pair)
qed simp

text \<open>C37: an environment written to a file as KEY="value" lines is what loading the file sets, over what
  was set before, whatever the values hold short of line ends.\<close>

theorem env_file_roundtrip:
  assumes "list_all (\<lambda>b. good_key (fst b) \<and> good_value (snd b) \<and> length (env_text_line b) < maxToken) bs"
  shows "LoadEnvFile path (Contents (concat (map (\<lambda>b. env_text_line b @ [CHR 0x0A]) bs))) env
    = (None, fold set_binding bs env)"
proof -
  have n: "\<forall>l \<in> set (map env_text_line bs). CHR 0x0A \<notin> set l"
    using assms good_key_line by (auto simp: list_all_iff env_text_line_def good_value_def)
  have "concat (map (\<lambda>b. env_text_line b @ [CHR 0x0A]) bs) = concat (map (\<lambda>l. l @ [CHR 0x0A]) (map env_text_line bs))"
    by (simp add: comp_def)
  then have "raw_lines (concat (map (\<lambda>b. env_text_line b @ [CHR 0x0A]) bs)) = map env_text_line bs"
    using split_on_lines [OF n] by (simp add: raw_lines_def Let_def)
  then show ?thesis using load_printed [OF assms] by (simp add: LoadEnvFile_def)
qed

theorem env_file_roundtrip_witness:
  "LoadEnvFile ''.env'' (Contents (concat (map (\<lambda>b. env_text_line b @ [CHR 0x0A]) [(''GLM_API_KEY'', ''a#b=c '')]))) (\<lambda>_. None)
   = (None, [''GLM_API_KEY'' \<mapsto> ''a#b=c ''])"
proof -
  have "list_all (\<lambda>b. good_key (fst b) \<and> good_value (snd b) \<and> length (env_text_line b) < maxToken) [(''GLM_API_KEY'', ''a#b=c '')]"
    by (simp add: good_key_def good_value_def graphic_def byte_def env_text_line_def maxToken_def)
  from env_file_roundtrip [OF this, of "''.env''" "\<lambda>_. None"] show ?thesis by (simp add: set_binding_pair)
qed

subsection \<open>Discovery\<close>

lemma ordinals_iff: "i \<in> set ordinals \<longleftrightarrow> 1 \<le> i \<and> i \<le> 10"
  unfolding ordinals_def MaxEnvAccounts_def set_upto by auto

lemma ordinals_filter: "{i. 1 \<le> i \<and> i \<le> MaxEnvAccounts \<and> P i} = set (filter P ordinals)"
  by (auto simp: ordinals_iff MaxEnvAccounts_def)

lemma env_account_names:
  "distinct (map (\<lambda>p. pj_name p) (map (env_project env name upper (1 < length (env_accounts env upper))) (env_accounts env upper)))"
proof (cases "1 < length (env_accounts env upper)")
  case True
  have "inj_on (\<lambda>i. name @ ''-'' @ itoa i) (set ordinals)"
  proof (rule inj_onI)
    fix i j assume ij: "i \<in> set ordinals" "j \<in> set ordinals" and e: "name @ ''-'' @ itoa i = name @ ''-'' @ itoa j"
    have r: "1 \<le> i \<and> i \<le> 10" "1 \<le> j \<and> j \<le> 10" using ij by (simp_all only: ordinals_iff)
    have "itoa i = itoa j" using e by (simp only: same_append_eq)
    moreover have "atoi (itoa i) = Some i" by (rule atoi_itoa) (use r in simp_all)
    moreover have "atoi (itoa j) = Some j" by (rule atoi_itoa) (use r in simp_all)
    ultimately show "i = j" by (metis option.inject)
  qed
  moreover have "distinct (map fst (env_accounts env upper))" "set (map fst (env_accounts env upper)) \<subseteq> set ordinals"
  proof -
    have "map fst (env_accounts env upper) = filter (\<lambda>i. envFirst env upper ''API_KEY'' i \<noteq> []) ordinals"
      by (simp add: env_accounts_def filter_map comp_def)
    then show "distinct (map fst (env_accounts env upper))" "set (map fst (env_accounts env upper)) \<subseteq> set ordinals"
      by (auto simp: ordinals_def)
  qed
  ultimately have "distinct (map (\<lambda>i. name @ ''-'' @ itoa i) (map fst (env_accounts env upper)))"
    using distinct_map inj_on_subset by blast
  then show ?thesis using True by (simp add: env_project_def comp_def)
next
  case False
  then show ?thesis by (cases "env_accounts env upper") auto
qed

lemma discover_key_provider: "p \<in> set (discover_key env ds key) \<Longrightarrow> pj_provider p = trimCustomPrefix key \<and> pj_api_key p \<noteq> []
    \<and> pj_enabled p \<and> pj_from_env p \<and> trimCustomPrefix key \<notin> ds"
  by (auto simp: discover_key_def Let_def env_project_def env_accounts_def split: if_splits)

lemma discover_keys_distinct:
  assumes "distinct (map trimCustomPrefix keys)"
  shows "distinct (map (\<lambda>p. (pj_provider p, pj_name p)) (concat (map (discover_key env ds) keys)))"
  using assms
proof (induction keys)
  case (Cons key keys)
  have "distinct (map (\<lambda>p. (pj_provider p, pj_name p)) (discover_key env ds key))"
  proof -
    have "distinct (map pj_name (discover_key env ds key))"
      using env_account_names [of env "trimCustomPrefix key" "envPrefixOf key"] by (simp add: discover_key_def Let_def)
    then show ?thesis by (simp add: distinct_map inj_on_def)
  qed
  moreover have "pj_provider p \<noteq> pj_provider q" if "p \<in> set (discover_key env ds key)" "q \<in> set (concat (map (discover_key env ds) keys))" for p q
    using that Cons.prems discover_key_provider by fastforce
  ultimately show ?case using Cons by (simp only: list.map concat.simps map_append distinct_append) auto
qed simp

lemma discover_key_count:
  assumes "trimCustomPrefix key \<notin> ds" "key \<notin> ds"
  shows "length (discover_key env ds key) = card {i. 1 \<le> i \<and> i \<le> MaxEnvAccounts \<and> envFirst env (envPrefixOf key) ''API_KEY'' i \<noteq> []}"
proof -
  have "length (discover_key env ds key) = length (filter (\<lambda>i. envFirst env (envPrefixOf key) ''API_KEY'' i \<noteq> []) ordinals)"
    using assms by (simp add: discover_key_def Let_def env_accounts_def filter_map comp_def)
  also have "\<dots> = card (set (filter (\<lambda>i. envFirst env (envPrefixOf key) ''API_KEY'' i \<noteq> []) ordinals))"
    by (rule distinct_card [symmetric]) (simp add: ordinals_def)
  finally show ?thesis unfolding ordinals_filter .
qed


lemma discovered_mailbox:
  "env_mailbox env i = Some m \<Longrightarrow> mb_name m \<noteq> [] \<and> mb_host m \<noteq> [] \<and> mb_username m \<noteq> [] \<and> mb_password m \<noteq> [] \<and> 0 < mb_port m"
  by (auto simp: env_mailbox_def Let_def split: if_splits option.splits)

lemma discover_mailboxes_fresh:
  "sorted_wrt (\<lambda>m n. {mb_name m, mb_username m} \<inter> {mb_name n, mb_username n} = {}) (discover_mailboxes env declared is)
   \<and> list_all (\<lambda>m. mb_name m \<notin> declared \<and> mb_username m \<notin> declared \<and> mb_host m \<noteq> [] \<and> mb_username m \<noteq> []
       \<and> mb_password m \<noteq> [] \<and> 0 < mb_port m) (discover_mailboxes env declared is)"
proof (induction "is" arbitrary: declared)
  case (Cons i "is")
  show ?case
  proof (cases "env_mailbox env i")
    case None
    then show ?thesis using Cons by simp
  next
    case (Some m)
    show ?thesis
      using Cons [of declared] Cons [of "insert (mb_name m) (insert (mb_username m) declared)"] discovered_mailbox [OF Some]
      by (auto simp: Some list_all_iff)
  qed
qed simp

text \<open>The mailboxes found in the environment are complete, and no two of them, and none of them and a declared
  one, share a name or an account.\<close>

theorem mailboxes_discovered_once:
  "sorted_wrt (\<lambda>m n. {mb_name m, mb_username m} \<inter> {mb_name n, mb_username n} = {}) (DiscoverMailboxes env declared)
   \<and> list_all (\<lambda>m. {mb_name m, mb_username m} \<inter> (mb_name ` set declared \<union> mb_username ` set declared) = {}
       \<and> mb_host m \<noteq> [] \<and> mb_username m \<noteq> [] \<and> mb_password m \<noteq> [] \<and> 0 < mb_port m) (DiscoverMailboxes env declared)"
  using discover_mailboxes_fresh [of env "mb_name ` set declared \<union> mb_username ` set declared" ordinals]
  by (auto simp: DiscoverMailboxes_def list_all_iff)

subsection \<open>The resolver\<close>

lemma normalize_projects_all:
  "length (normalize_projects env seen ps) = length ps
   \<and> list_all2 (\<lambda>p q. pj_provider q = to_lower (trim_space (pj_provider p)) \<and> pj_name q \<noteq> [] \<and> pj_type q \<noteq> []
       \<and> (pj_api_key p \<noteq> [] \<longrightarrow> pj_api_key q = pj_api_key p)) ps (normalize_projects env seen ps)"
proof (induction ps arbitrary: seen)
  case (Cons p ps)
  have k: "pj_api_key (normalize_project p) = pj_api_key p" by (simp add: normalize_project_def Let_def)
  show ?case using Cons normalize_project_complete [of p] normalize_project_provider [of p]
    by (simp add: Let_def case_prod_beta ResolveAPIKey_def k)
qed simp

text \<open>C31: whatever the tables and the environment hold, the configuration the rest of the program gets has only
  projects with a name, a type and a trimmed lower-case platform, subscriptions with no negative window, and
  mailboxes with a port; and a key a project was given is never replaced.\<close>

theorem resolved_config_complete:
  "list_all (\<lambda>p. pj_name p \<noteq> [] \<and> pj_type p \<noteq> [] \<and> (\<exists>s. pj_provider p = to_lower (trim_space s))) (cf_projects (fst (resolver_Load co s env gs)))
   \<and> list_all (\<lambda>b. 0 \<le> sb_alert_days_before b) (cf_subscriptions (fst (resolver_Load co s env gs)))
   \<and> list_all (\<lambda>m. 0 < mb_port m \<and> (mb_name m = [] \<longrightarrow> mb_username m = [])) (cf_mailboxes (fst (resolver_Load co s env gs)))
   \<and> (\<exists>found. list_all2 (\<lambda>p q. pj_api_key p \<noteq> [] \<longrightarrow> pj_api_key q = pj_api_key p)
        ((if st_dynamic s then or_empty (cg_ListProjects co (snd gs)) else []) @ found) (cf_projects (fst (resolver_Load co s env gs))))"
proof -
  let ?base = "if st_dynamic s then or_empty (cg_ListProjects co (snd gs)) else []"
  let ?found = "DiscoverProjects (fst gs) env ?base"
  have p: "cf_projects (fst (resolver_Load co s env gs)) = normalize_projects env (\<lambda>_. 0) (?base @ ?found)"
    by (simp add: resolver_Load_def Let_def normalize_config_def fromDatabase_def)
  note n = normalize_projects_all [of env "\<lambda>_. 0" "?base @ ?found"]
  have 1: "list_all (\<lambda>p. pj_name p \<noteq> [] \<and> pj_type p \<noteq> [] \<and> (\<exists>s. pj_provider p = to_lower (trim_space s))) (cf_projects (fst (resolver_Load co s env gs)))"
    unfolding p using n by (fastforce simp: list_all_length list_all2_conv_all_nth)
  have days: "0 \<le> sb_alert_days_before (normalize_subscription b)" for b by (simp add: normalize_subscription_def Let_def)
  have 2: "list_all (\<lambda>b. 0 \<le> sb_alert_days_before b) (cf_subscriptions (fst (resolver_Load co s env gs)))"
    by (simp add: resolver_Load_def Let_def normalize_config_def list_all_iff days)
  have 3: "list_all (\<lambda>m. 0 < mb_port m \<and> (mb_name m = [] \<longrightarrow> mb_username m = [])) (cf_mailboxes (fst (resolver_Load co s env gs)))"
    by (auto simp: resolver_Load_def Let_def normalize_config_def normalize_mailbox_def list_all_iff)
  have 4: "list_all2 (\<lambda>p q. pj_api_key p \<noteq> [] \<longrightarrow> pj_api_key q = pj_api_key p) (?base @ ?found) (cf_projects (fst (resolver_Load co s env gs)))"
    unfolding p using n by (auto elim: list_all2_mono)
  show ?thesis using 1 2 3 4 by blast
qed

text \<open>Once the marker of the default platforms is recorded, loading the configuration writes nothing, so a
  deleted default stays deleted, and the platforms are those listed.\<close>

theorem seeded_defaults_stay_deleted:
  assumes "cg_GetAppSetting co defaultsSeededMarker st = Inr ''1''" "\<forall>k. rg_builtin g k = None"
  shows "snd (snd (resolver_Load co s env (g, st))) = st
    \<and> (st_dynamic s \<longrightarrow> (\<forall>k. lookupSpec (fst (snd (resolver_Load co s env (g, st)))) k
         = find (\<lambda>sp. sp_key sp = k) (rev (ok_specs (or_empty (cg_ListCustomProviders co st))))))"
proof -
  have r: "registerCustomProviders co s (g, st) =
      (if \<not> st_dynamic s then (g, st) else (snd (ReplaceDynamic g (ok_specs (or_empty (cg_ListCustomProviders co st)))), st))"
    using assms(1) by (simp add: registerCustomProviders_def CustomProviders_def Let_def)
  show ?thesis
    using ReplaceDynamic_swaps [of g "ok_specs (or_empty (cg_ListCustomProviders co st))"] assms(2)
    by (simp add: resolver_Load_def Let_def r)
qed

text \<open>When the table of platforms cannot be read, the registry is replaced by an empty one, and then no
  project of the same configuration has an adapter.\<close>

theorem failed_read_drops_platforms:
  assumes "st_dynamic s" "cg_ListCustomProviders co st = Inl err" "cg_GetAppSetting co defaultsSeededMarker st = Inr ''1''"
    and "\<forall>k. rg_builtin g k = None"
  shows "\<exists>e. New_provider (fst (snd (resolver_Load co s env (g, st)))) key = Inl e"
proof -
  have r: "fst (snd (resolver_Load co s env (g, st))) = g\<lparr>rg_dynamic := []\<rparr>"
    using assms by (simp add: resolver_Load_def Let_def registerCustomProviders_def CustomProviders_def or_empty_def ReplaceDynamic_def)
  show ?thesis unfolding r using assms(4) by (simp add: New_provider_def canonicalKey_def IsDynamic_def lookupSpec_def)
qed

definition demo_ops :: "nat config_ops" where
  "demo_ops = \<lparr>cg_ListProjects = (\<lambda>_. Inr []), cg_ListSubscriptions = (\<lambda>_. Inr []), cg_ListMailboxes = (\<lambda>_. Inr []),
     cg_ListCustomProviders = (\<lambda>_. Inl ''timeout''), cg_GetAppSetting = (\<lambda>_ _. Inr ''1''),
     cg_SetAppSetting = (\<lambda>_ _ n. (None, n + 1)), cg_UpsertCustomProvider = (\<lambda>_ n. (None, n + 1))\<rparr>"

definition demo_dynamic :: settings where
  "demo_dynamic = (read_settings ''dev'' (\<lambda>_. None))\<lparr>st_dynamic := True\<rparr>"

definition default_registry :: registry where
  "default_registry = snd (ReplaceDynamic \<lparr>rg_builtin = (\<lambda>_. None), rg_builtin_keys = [], rg_dynamic = []\<rparr> defaultSpecs)"

lemma default_registry_builtin: "\<forall>k. rg_builtin default_registry k = None"
  by (simp add: default_registry_def ReplaceDynamic_def split: sum.split)

theorem seeded_defaults_stay_deleted_witness:
  "snd (snd (resolver_Load demo_ops demo_dynamic (\<lambda>_. None) (default_registry, 7))) = 7"
  using seeded_defaults_stay_deleted [of demo_ops 7 default_registry demo_dynamic "\<lambda>_. None"] default_registry_builtin
  by (simp add: demo_ops_def)

theorem failed_read_drops_platforms_witness:
  "\<exists>e. New_provider (fst (snd (resolver_Load demo_ops demo_dynamic (\<lambda>_. None) (default_registry, 7)))) ''deepseek'' = Inl e"
  by (rule failed_read_drops_platforms [where err = "''timeout''"])
    (simp_all add: demo_ops_def demo_dynamic_def default_registry_builtin)

lemma update_new: "k \<notin> fst ` set al \<Longrightarrow> AList.update k v al = al @ [(k, v)]"
  by (induction al) auto

lemma replace_dynamic_append:
  "\<lbrakk>\<forall>k. rg_builtin g k = None; distinct (map sp_key ss); set (map sp_key ss) \<inter> fst ` set m = {}\<rbrakk> \<Longrightarrow>
   replace_dynamic g ss m = Inr (m @ map (\<lambda>s. (sp_key s, s)) ss)"
proof (induction ss arbitrary: m)
  case (Cons s ss)
  then have "AList.update (sp_key s) s m = m @ [(sp_key s, s)]" by (intro update_new) auto
  moreover have "replace_dynamic g ss (m @ [(sp_key s, s)]) = Inr ((m @ [(sp_key s, s)]) @ map (\<lambda>s. (sp_key s, s)) ss)"
    by (rule Cons.IH) (use Cons.prems in auto)
  ultimately show ?case using Cons.prems(1) by simp
qed simp

lemma default_registry_keys:
  "provider_keys default_registry = sort_strings (map (\<lambda>p. ''custom:'' @ cp_name p) DefaultCustomProviders)"
proof -
  have "distinct (map sp_key defaultSpecs)" unfolding default_keys using default_names(2) by (simp add: distinct_map inj_on_def)
  then have "rg_dynamic default_registry = map (\<lambda>s. (sp_key s, s)) defaultSpecs"
    by (simp add: default_registry_def ReplaceDynamic_def replace_dynamic_append)
  moreover have "rg_builtin_keys default_registry = []" by (simp add: default_registry_def ReplaceDynamic_def split: sum.split)
  ultimately show ?thesis using default_keys by (simp add: provider_keys_def comp_def)
qed


text \<open>A key given in the table wins over the environment.\<close>

definition keyed_ops :: "nat config_ops" where
  "keyed_ops = demo_ops\<lparr>cg_ListProjects := (\<lambda>_. Inr
     [\<lparr>pj_name = ''prod'', pj_provider = ''GLM'', pj_api_key = ''table'', pj_threshold = Fin 5, pj_type = [], pj_currency = [],
       pj_monthly_budget = Fin 0, pj_owner = None, pj_enabled = True, pj_from_env = False\<rparr>])\<rparr>"

theorem resolved_config_complete_witness:
  "pj_api_key (hd (cf_projects (fst (resolver_Load keyed_ops demo_dynamic [''GLM_API_KEY'' \<mapsto> ''env''] (default_registry, 0))))) = ''table''"
proof -
  let ?l = "cf_projects (fst (resolver_Load keyed_ops demo_dynamic [''GLM_API_KEY'' \<mapsto> ''env''] (default_registry, 0)))"
  have d: "st_dynamic demo_dynamic" by (simp add: demo_dynamic_def)
  obtain found where f: "list_all2 (\<lambda>p q. pj_api_key p \<noteq> [] \<longrightarrow> pj_api_key q = pj_api_key p)
      ((if st_dynamic demo_dynamic then or_empty (cg_ListProjects keyed_ops (snd (default_registry, 0))) else []) @ found) ?l"
    using resolved_config_complete [of keyed_ops demo_dynamic "[''GLM_API_KEY'' \<mapsto> ''env'']" "(default_registry, 0)"] by blast
  then show ?thesis by (cases ?l) (auto simp: d keyed_ops_def or_empty_def)
qed

end
