(* ===== verification/App.thy ===== *)
theory App
  imports Scheduler State Metrics Monitor Mailscan Weekly
begin

text \<open>
  The service put together (\<open>internal/app/app.go\<close>): the scheduled tasks, what each of their runs does to
  the store, the dashboard state and the metrics, and the report of a job that keeps failing.
  The parts are those of the theories imported; the resolver's configuration, the order in which workers
  finish and the store's housekeeping are inputs.  The counts of the notification hook stay in the world.
  Start-up, the servers and log lines are left out.
\<close>

section \<open>State and inputs\<close>

datatype job_detail =
    RefreshDetail (rd_projects: nat) (rd_failed: nat) (rd_need_alarm: nat) (rd_dry_run: bool)
      (rd_subscriptions: nat) (rd_need_alert: nat)
  | NoMailboxes
  | ScanDetail email_summary bool
  | WeeklyDetail nat "f64 option" f64 bool
  | PruneDetail prune_counts
  | BackupDetail gostring

record 's app =
  ap_mw :: "'s mworld"
  ap_state :: "job_detail manager"
  ap_metrics :: collector
  ap_failures :: "gostring \<Rightarrow> nat option"
  ap_escalated :: "gostring set"

record 's parts =
  pt_settings :: settings
  pt_env :: Effects.env
  pt_lunar :: lunar_lib
  pt_store :: "'s store_ops"
  pt_balances :: "'s balance_ops"
  pt_history :: "'s history_ops"
  pt_mail :: "'s mail_ops"
  pt_net :: mail_net
  pt_platforms :: platforms
  pt_config :: "'s world \<Rightarrow> config"
  pt_order :: "nat \<Rightarrow> nat list"
  pt_has_notifier :: bool
  pt_store_enabled :: bool
  pt_prune :: "int \<Rightarrow> 's \<Rightarrow> (prune_counts \<times> goerror option) \<times> 's"
  pt_backup :: "int \<Rightarrow> gostring \<Rightarrow> int \<Rightarrow> 's \<Rightarrow> (goerror + gostring) \<times> 's"

abbreviation ap_world :: "'s app \<Rightarrow> 's world" where "ap_world a \<equiv> mw_world (ap_mw a)"

definition with_world :: "'s world \<Rightarrow> 's app \<Rightarrow> 's app" where
  "with_world w a = a\<lparr>ap_mw := (ap_mw a)\<lparr>mw_world := w\<rparr>\<rparr>"

text \<open>The parts as \<open>New\<close> wires them.\<close>

definition app_keywords :: "settings \<Rightarrow> gostring list" where
  "app_keywords s = (let base = AlertKeywordOverride s
     in (if base = [] then DefaultAlertKeywords else base) @ AlertKeywordExtras s)"

definition app_monitor :: "'s parts \<Rightarrow> monitor" where
  "app_monitor pt = (let s = pt_settings pt in
     \<lparr>mn_settings = s, mn_notifier = pt_has_notifier pt, mn_push = True, mn_on_notify = True,
      mn_alerter = Some \<lparr>ra_notifier = pt_has_notifier pt, ra_runway_days = st_runway_days s, ra_spike_ratio = st_spike_ratio s,
        ra_spike_min = st_spike_min s, ra_cooldown = wrap64 (CooldownSeconds ''balance'' s * second)\<rparr>,
      mn_budget = Some \<lparr>ba_store = True, ba_cooldown_seconds = CooldownSeconds ''balance'' s\<rparr>,
      mn_store_enabled = pt_store_enabled pt\<rparr>)"

definition app_checker :: "'s parts \<Rightarrow> checker" where
  "app_checker pt = (let s = pt_settings pt in
     \<lparr>ck_cooldown = wrap64 (CooldownSeconds ''subscription'' s * second), ck_notifier = pt_has_notifier pt, ck_push = True,
      ck_on_notify = True, ck_webhook_type = st_webhook_type s, ck_source = st_webhook_source s\<rparr>)"

definition app_scanner :: "'s parts \<Rightarrow> scanner" where
  "app_scanner pt = \<lparr>sn_notifier = pt_has_notifier pt, sn_keywords = app_keywords (pt_settings pt),
     sn_max_emails = st_max_emails (pt_settings pt), sn_on_notify = True\<rparr>"

section \<open>The runs\<close>

definition app_clock :: "'s parts \<Rightarrow> 's app \<Rightarrow> int \<times> 's app" where
  "app_clock pt a = (let (t, w) = read_clock (pt_env pt) (ap_world a) in (t, with_world w a))"

definition local_at :: "'s parts \<Rightarrow> int \<Rightarrow> gotime" where
  "local_at pt t = \<lparr>t_ns = t, t_zone = en_local (pt_env pt)\<rparr>"

definition showBalance :: "'s parts \<Rightarrow> check_result list \<Rightarrow> 's app \<Rightarrow> 's app" where
  "showBalance pt results a =
     (let (t, a1) = app_clock pt a; a2 = a1\<lparr>ap_state := SetBalance t results (ap_state a1)\<rparr>;
          (t', a3) = app_clock pt a2
      in a3\<lparr>ap_metrics := UpdateBalance (local_at pt t') results (ap_metrics a3)\<rparr>)"

definition refreshSubscriptions :: "'s parts \<Rightarrow> bool \<Rightarrow> 's app \<Rightarrow> subscription_result list \<times> 's app" where
  "refreshSubscriptions pt dry_run a =
     (if \<not> st_subscriptions (pt_settings pt) then ([], a)
      else let cfg = pt_config pt (ap_world a);
               (results, w) = Check (pt_lunar pt) (pt_store pt) (pt_env pt) (app_checker pt) (enabled_subscriptions cfg) dry_run (ap_world a);
               (t, a1) = app_clock pt (with_world w a);
               a2 = a1\<lparr>ap_state := SetSubscriptions t results (ap_state a1)\<rparr>;
               (t', a3) = app_clock pt a2
           in (results, a3\<lparr>ap_metrics := UpdateSubscriptions (local_at pt t') results (ap_metrics a3)\<rparr>))"

definition run_error_message :: "run_error \<Rightarrow> goerror" where
  "run_error_message e = (case e of ErrProjectNotFound n \<Rightarrow> ''Project not found: '' @ n
     | ErrProjectDisabled n \<Rightarrow> ''Project is disabled: '' @ n)"

definition outage :: "balance_summary \<Rightarrow> (goerror \<times> bool) option" where
  "outage s = (if 0 < bs_total s \<and> bs_failed s = bs_total s
     then Some (''all '' @ itoa (int (bs_total s)) @ '' balance checks failed'', False) else None)"

text \<open>The budget alerts send without looking whether there is a notifier, and a send without one is a
  panic that nothing recovers.\<close>

definition budgets_panic :: "'s parts \<Rightarrow> bool \<Rightarrow> 's app \<Rightarrow> bool" where
  "budgets_panic pt dry_run a \<longleftrightarrow> \<not> pt_has_notifier pt \<and>
     (let projects = enabled_projects (pt_config pt (ap_world a));
          (results, mw) = checkAll (pt_store pt) (pt_balances pt) (pt_env pt) (pt_platforms pt) (app_monitor pt) projects dry_run
            (pt_order pt (wd_reads (ap_world a))) (ap_mw a)
      in projects \<noteq> [] \<and> wd_sent (checkBudgets (pt_store pt) (pt_history pt) (pt_env pt) (pf_registry (pt_platforms pt))
            (app_monitor pt) projects dry_run (mw_world mw)) \<noteq> wd_sent (mw_world mw))"

text \<open>\<open>None\<close> when the run does not return: it panics or the monitor's analysis would not end.\<close>

definition refreshAll :: "'s parts \<Rightarrow> bool \<Rightarrow> 's app \<Rightarrow> (job_detail run_end \<times> 's app) option" where
  "refreshAll pt dry_run a =
     (if budgets_panic pt dry_run a then None else
      case Run (pt_store pt) (pt_balances pt) (pt_history pt) (pt_env pt) (pt_platforms pt) (app_monitor pt)
             (pt_config pt (ap_world a)) [] dry_run (pt_order pt (wd_reads (ap_world a))) (ap_mw a) of
        None \<Rightarrow> None
      | Some (Inl err, mw) \<Rightarrow> Some (\<lparr>re_detail = None, re_err = Some (run_error_message err, False)\<rparr>, a\<lparr>ap_mw := mw\<rparr>)
      | Some (Inr o_c, mw) \<Rightarrow>
          (let a1 = showBalance pt (oc_results o_c) (a\<lparr>ap_mw := mw\<rparr>);
               summary = summarize_balance (oc_results o_c);
               (subs, a2) = refreshSubscriptions pt dry_run a1
           in Some (\<lparr>re_detail = Some (RefreshDetail (bs_total summary) (bs_failed summary) (bs_need_alarm summary) dry_run
                        (length subs) (count_if sr_need_alert subs)),
                     re_err = outage summary\<rparr>, a2)))"

definition ScanMailboxes :: "'s parts \<Rightarrow> int \<Rightarrow> bool \<Rightarrow> 's app \<Rightarrow> job_detail run_end \<times> 's app" where
  "ScanMailboxes pt days dry_run a =
     (let ms = enabled_mailboxes (pt_config pt (ap_world a)) in
      if ms = [] then (\<lparr>re_detail = Some NoMailboxes, re_err = None\<rparr>, a)
      else let (result, w) = Scan (pt_mail pt) (pt_env pt) (pt_net pt) (app_scanner pt) ms days dry_run
                 (pt_order pt (wd_reads (ap_world a))) (ap_world a);
               (t, a1) = app_clock pt (with_world w a);
               a2 = a1\<lparr>ap_state := SetEmailScan t result (ap_state a1)\<rparr>;
               (t', a3) = app_clock pt a2;
               a4 = a3\<lparr>ap_metrics := UpdateEmailScan (local_at pt t') result (ap_metrics a3)\<rparr>
           in (\<lparr>re_detail = Some (ScanDetail (est_summary (EmailScan (ap_state a4))) dry_run), re_err = None\<rparr>, a4))"

definition weekly_message :: "report_summary \<Rightarrow> message" where
  "weekly_message s = Custom ''Weekly balance report'' [Render s] ''weekly_report''"

text \<open>\<open>None\<close> when filling in the days of a profile would not end.\<close>

definition SendWeeklyReport :: "'s parts \<Rightarrow> 's app \<Rightarrow> (job_detail run_end \<times> 's app) option" where
  "SendWeeklyReport pt a =
     (let ((series, err), w1) = balance_series (pt_history pt) (pt_env pt) WindowDays (ap_world a);
          (t, w2) = read_clock (pt_env pt) w1
      in case ComputeAll (en_local (pt_env pt)) (local_at pt t) series WindowDays (local_at pt t) of
           None \<Rightarrow> None
         | Some runways \<Rightarrow>
             (let (t', w3) = read_clock (pt_env pt) w2; m = ap_state a;
                  summary = report_Build (bst_projects (Balance m)) (sst_subscriptions (Subscriptions m)) (est_mailboxes (EmailScan m))
                    (es_total_alerts (est_summary (EmailScan m))) runways (local_at pt t');
                  (sent, w4) = (if \<not> pt_has_notifier pt then (False, w3)
                    else let (send_err, w4) = deliver (pt_env pt) None (weekly_message summary) w3
                      in (send_err = None, on_notify (mg_kind (weekly_message summary)) (send_err = None) w4))
              in Some (\<lparr>re_detail = Some (WeeklyDetail (ac_total (su_accounts summary)) (su_consumed summary)
                          (su_upcoming_amount summary) sent), re_err = None\<rparr>, with_world w4 a)))"

definition no_database :: goerror where "no_database = ''database is disabled (ENABLE_DATABASE=false)''"

definition PruneHistory :: "'s parts \<Rightarrow> int \<Rightarrow> 's app \<Rightarrow> job_detail run_end \<times> 's app" where
  "PruneHistory pt days a =
     (if \<not> st_database (pt_settings pt) then (\<lparr>re_detail = None, re_err = Some (no_database, False)\<rparr>, a)
      else let (t, a1) = app_clock pt a;
               ((counts, err), s) = pt_prune pt (t_ns (add_date (utc_at t) 0 0 (- days))) (wd_store (ap_world a1))
           in (\<lparr>re_detail = Some (PruneDetail counts), re_err = map_option (\<lambda>e. (e, False)) err\<rparr>,
               with_world ((ap_world a1)\<lparr>wd_store := s\<rparr>) a1))"

text \<open>\<open>filepath.Base\<close> of a file's path.\<close>

definition base_name :: "gostring \<Rightarrow> gostring" where
  "base_name path = rev (takeWhile (\<lambda>c. c \<noteq> CHR ''/'') (rev path))"

definition RunDatabaseBackup :: "'s parts \<Rightarrow> 's app \<Rightarrow> job_detail run_end \<times> 's app" where
  "RunDatabaseBackup pt a =
     (if \<not> st_database (pt_settings pt) then (\<lparr>re_detail = None, re_err = Some (no_database, False)\<rparr>, a)
      else let (t, a1) = app_clock pt a;
               (r, s) = pt_backup pt t (st_backup_dir (pt_settings pt)) (BackupKeepValue (pt_settings pt)) (wd_store (ap_world a1));
               a2 = with_world ((ap_world a1)\<lparr>wd_store := s\<rparr>) a1
           in case r of
                Inl err \<Rightarrow> (\<lparr>re_detail = None, re_err = Some (err, False)\<rparr>, a2)
              | Inr path \<Rightarrow> (\<lparr>re_detail = Some (BackupDetail (base_name path)), re_err = None\<rparr>, a2))"

section \<open>The tasks\<close>

datatype job_action = RefreshAll bool | ScanAll int bool | WeeklyReport | DatabaseBackup | PruneAll int

fun run_job :: "'s parts \<Rightarrow> job_action \<Rightarrow> 's app \<Rightarrow> (job_detail run_end \<times> 's app) option" where
  "run_job pt (RefreshAll dry_run) a = refreshAll pt dry_run a"
| "run_job pt (ScanAll days dry_run) a = Some (ScanMailboxes pt days dry_run a)"
| "run_job pt WeeklyReport a = SendWeeklyReport pt a"
| "run_job pt DatabaseBackup a = Some (RunDatabaseBackup pt a)"
| "run_job pt (PruneAll days) a = Some (PruneHistory pt days a)"

text \<open>The tasks over any way \<open>run\<close> of carrying out an action.\<close>

definition make_task :: "gostring \<Rightarrow> gostring \<Rightarrow> ('w \<Rightarrow> 'd run_end \<times> 'w) \<Rightarrow> duration \<Rightarrow> clock_time list \<Rightarrow> int list \<Rightarrow> bool
    \<Rightarrow> duration \<Rightarrow> ('w, 'd) task" where
  "make_task name description action interval clock_times weekdays at_start timeout =
     \<lparr>tk_name = name, tk_description = description, tk_run = action, tk_interval = interval, tk_times = clock_times,
      tk_weekdays = weekdays, tk_run_at_start = at_start, tk_timeout = timeout, tk_next_run = zero_time\<rparr>"

definition job_timeout :: "settings \<Rightarrow> duration" where
  "job_timeout s = (let timeout = wrap64 (JobTimeoutSecondsValue s * second) in if 0 < timeout then timeout else 0)"

definition BuildTasks :: "settings \<Rightarrow> (job_action \<Rightarrow> 'w \<Rightarrow> 'd run_end \<times> 'w) \<Rightarrow> ('w, 'd) task list" where
  "BuildTasks s run =
     (let cap = job_timeout s; days = HistoryRetentionDaysValue s in
      [make_task ''dashboard_refresh''
         (''Refresh the dashboard's balances and subscriptions ('' @
           (if st_web_alarm s then ''Send real alerts'' else ''Check only; no alerts'') @ '')'')
         (run (RefreshAll (\<not> st_web_alarm s))) (wrap64 (RefreshInterval s * second)) [] [] True cap,
       make_task ''alert_check'' ''Balance and subscription alert check; sends real notifications''
         (run (RefreshAll False)) 0 (st_alert_times s) [] False cap,
       make_task ''email_scan''
         (''Scan mailboxes for billing and renewal emails from the last '' @ quantity (st_scan_days s) ''day'' ''days''
           @ ''; sends real notifications'')
         (run (ScanAll (st_scan_days s) False)) 0 (st_scan_times s) [] False cap,
       make_task ''weekly_report'' ''Send the weekly summary of spending, runway, and upcoming renewals''
         (run WeeklyReport) 0 (st_weekly_times s) (st_weekly_days s) False cap]
      @ (if st_backup_schedule s = [] then []
         else case parse_daily_times (st_backup_schedule s) of
             Inl _ \<Rightarrow> []
           | Inr clock_times \<Rightarrow> [make_task ''database_backup'' ''SQLite backup with recovery check'' (run DatabaseBackup) 0 clock_times [] False 0])
      @ (if 0 < days then [make_task ''history_retention''
             (''Delete balance, alert, email, and usage history older than '' @ quantity days ''day'' ''days'')
             (run (PruneAll days)) (24 * hour) [] [] False 0] else []))"

section \<open>Results\<close>

definition KindJobFailure :: gostring where "KindJobFailure = ''job_failure''"

definition failure_message :: "gostring \<Rightarrow> nat \<Rightarrow> goerror option \<Rightarrow> message" where
  "failure_message name n err = Custom ''QuotaPulse job keeps failing''
     ([''Task: '' @ name, ''Consecutive failures: '' @ itoa (int n)] @
      (case err of None \<Rightarrow> [] | Some e \<Rightarrow> [''Last error: '' @ e])) KindJobFailure"

definition escalate :: "'s parts \<Rightarrow> gostring \<Rightarrow> nat \<Rightarrow> goerror option \<Rightarrow> 's app \<Rightarrow> 's app" where
  "escalate pt name n err a =
     (if \<not> pt_has_notifier pt then a
      else let (send_err, w) = deliver (pt_env pt) None (failure_message name n err) (ap_world a) in
        if send_err \<noteq> None then with_world w a
        else let w1 = push ''QuotaPulse job keeps failing'' (name @ '': '' @ itoa (int n) @ '' consecutive failures'') w
          in (with_world w1 a)\<lparr>ap_escalated := insert name (ap_escalated a)\<rparr>)"

definition maybeEscalateJobFailure :: "'s parts \<Rightarrow> 'd run_result \<Rightarrow> 's app \<Rightarrow> 's app" where
  "maybeEscalateJobFailure pt r a =
     (let threshold = JobFailureAlertThresholdValue (pt_settings pt) in
      if threshold \<le> 0 then a
      else if rr_success r then
        a\<lparr>ap_failures := (ap_failures a)(rr_name r := None), ap_escalated := ap_escalated a - {rr_name r}\<rparr>
      else let n = (case ap_failures a (rr_name r) of None \<Rightarrow> 0 | Some k \<Rightarrow> k) + 1;
               a1 = a\<lparr>ap_failures := (ap_failures a)(rr_name r \<mapsto> n)\<rparr>
           in if threshold \<le> int n \<and> rr_name r \<notin> ap_escalated a then escalate pt (rr_name r) n (rr_err r) a1 else a1)"

definition onJobResult :: "'s parts \<Rightarrow> job_detail run_result \<Rightarrow> 's app \<Rightarrow> 's app" where
  "onJobResult pt r a =
     (let a1 = a\<lparr>ap_state := RecordJobRun (rr_name r) (rr_success r) (rr_started r) (rr_duration r) (rr_err r) (rr_detail r)
            (rr_next_run r) (ap_state a)\<rparr>;
          (t, a2) = (if is_zero (rr_started r) then app_clock pt a1 else (0, a1));
          a3 = a2\<lparr>ap_metrics := mx_RecordJobRun (local_at pt t) (rr_name r) (rr_success r) (rr_started r) (rr_duration r) (ap_metrics a2)\<rparr>
      in maybeEscalateJobFailure pt r a3)"

definition register_task :: "('w, 'd) task \<Rightarrow> job_detail manager \<Rightarrow> job_detail manager" where
  "register_task t m = RegisterJob (tk_name t) (tk_description t) (case ScheduleText t of None \<Rightarrow> [] | Some d \<Rightarrow> d)
     (task_enabled t) (tk_next_run t) m"

definition StartScheduler :: "('w, 'd) task list \<Rightarrow> job_detail manager \<Rightarrow> job_detail manager" where
  "StartScheduler ts m = fold register_task ts m"

section \<open>Lemmas\<close>

lemma with_world_sel [simp]:
  "ap_world (with_world w a) = w" "ap_state (with_world w a) = ap_state a" "ap_metrics (with_world w a) = ap_metrics a"
  "ap_failures (with_world w a) = ap_failures a" "ap_escalated (with_world w a) = ap_escalated a"
  by (simp_all add: with_world_def)

lemma app_clock_sel [simp]:
  "wd_sent (ap_world (snd (app_clock pt a))) = wd_sent (ap_world a)"
  "wd_pushed (ap_world (snd (app_clock pt a))) = wd_pushed (ap_world a)"
  "wd_store (ap_world (snd (app_clock pt a))) = wd_store (ap_world a)"
  "ap_state (snd (app_clock pt a)) = ap_state a" "ap_metrics (snd (app_clock pt a)) = ap_metrics a"
  "ap_failures (snd (app_clock pt a)) = ap_failures a" "ap_escalated (snd (app_clock pt a)) = ap_escalated a"
  by (simp_all add: app_clock_def case_prod_beta Let_def)

subsection \<open>Escalation\<close>

text \<open>The reports about a job that the webhook accepted.\<close>

definition accepted :: "gostring \<Rightarrow> (gostring option \<times> message \<times> goerror option) list \<Rightarrow> nat" where
  "accepted n sent = count_if (\<lambda>(d, m, err). err = None \<and> mg_kind m = KindJobFailure
     \<and> take 1 (mg_lines m) = [''Task: '' @ n]) sent"

definition streak_length :: "gostring \<Rightarrow> 'd run_result list \<Rightarrow> nat" where
  "streak_length n rs = count_if (\<lambda>r. rr_name r = n) rs"

definition failures_of :: "gostring \<Rightarrow> 's app \<Rightarrow> nat" where
  "failures_of n a = (case ap_failures a n of None \<Rightarrow> 0 | Some k \<Rightarrow> k)"

definition threshold :: "'s parts \<Rightarrow> int" where
  "threshold pt = JobFailureAlertThresholdValue (pt_settings pt)"

definition escalates :: "'s parts \<Rightarrow> gostring \<Rightarrow> 's app \<Rightarrow> bool" where
  "escalates pt n a \<longleftrightarrow> 0 < threshold pt \<and> pt_has_notifier pt \<and> threshold pt \<le> int (failures_of n a) + 1 \<and> n \<notin> ap_escalated a"

lemma accepted_snoc:
  "accepted n (sent @ [(d, failure_message name k err, r)]) = accepted n sent + (if r = None \<and> name = n then 1 else 0)"
  by (simp add: accepted_def failure_message_def Custom_def count_if_filter)

text \<open>What one failed run does.\<close>

lemma failed_run:
  fixes pt :: "'s parts" and a :: "'s app"
  assumes "\<not> rr_success r"
  defines "a' \<equiv> onJobResult pt r a"
  shows "failures_of n a' = failures_of n a + (if 0 < threshold pt \<and> rr_name r = n then 1 else 0)"
    and "accepted n (wd_sent (ap_world a')) = accepted n (wd_sent (ap_world a)) +
      (if rr_name r = n \<and> escalates pt n a \<and> en_send (pt_env pt) (length (wd_sent (ap_world a))) = None then 1 else 0)"
    and "n \<in> ap_escalated a' \<longleftrightarrow> n \<in> ap_escalated a \<or>
      rr_name r = n \<and> escalates pt n a \<and> en_send (pt_env pt) (length (wd_sent (ap_world a))) = None"
proof -
  obtain b where b: "a' = maybeEscalateJobFailure pt r b" "wd_sent (ap_world b) = wd_sent (ap_world a)"
    "ap_failures b = ap_failures a" "ap_escalated b = ap_escalated a"
    unfolding a'_def onJobResult_def Let_def by (fastforce simp: case_prod_beta split: if_splits)
  have f: "failures_of m b = failures_of m a" for m by (simp add: failures_of_def b)
  note d = b(1) maybeEscalateJobFailure_def threshold_def [symmetric] failures_of_def [symmetric]
  consider "threshold pt \<le> 0" | "0 < threshold pt" "\<not> (threshold pt \<le> int (failures_of (rr_name r) b + 1) \<and> rr_name r \<notin> ap_escalated b)"
    | "0 < threshold pt" "threshold pt \<le> int (failures_of (rr_name r) b + 1)" "rr_name r \<notin> ap_escalated b" by linarith
  then have "failures_of n a' = failures_of n a + (if 0 < threshold pt \<and> rr_name r = n then 1 else 0)
    \<and> accepted n (wd_sent (ap_world a')) = accepted n (wd_sent (ap_world a)) +
      (if rr_name r = n \<and> escalates pt n a \<and> en_send (pt_env pt) (length (wd_sent (ap_world a))) = None then 1 else 0)
    \<and> (n \<in> ap_escalated a' \<longleftrightarrow> n \<in> ap_escalated a \<or>
      rr_name r = n \<and> escalates pt n a \<and> en_send (pt_env pt) (length (wd_sent (ap_world a))) = None)"
  proof cases
    case 1
    then have "a' = b" by (simp add: d)
    then show ?thesis using 1 f b by (simp add: escalates_def)
  next
    case 2
    then have e: "a' = b\<lparr>ap_failures := (ap_failures b)(rr_name r \<mapsto> failures_of (rr_name r) b + 1)\<rparr>"
      using assms(1) by (auto simp: d Let_def)
    have "failures_of n a' = failures_of n b + (if rr_name r = n then 1 else 0)" by (simp add: e failures_of_def)
    moreover have "wd_sent (ap_world a') = wd_sent (ap_world b)" "ap_escalated a' = ap_escalated b" by (simp_all add: e)
    moreover have "\<not> (rr_name r = n \<and> escalates pt n a)" 
    proof
      assume "rr_name r = n \<and> escalates pt n a"
      then show False using 2(2) unfolding escalates_def f b(4) by simp
    qed
    ultimately show ?thesis unfolding f [of n] b(2,4) using 2(1) by (cases "rr_name r = n") simp_all
  next
    case 3
    let ?b = "b\<lparr>ap_failures := (ap_failures b)(rr_name r \<mapsto> failures_of (rr_name r) b + 1)\<rparr>"
    have e: "a' = escalate pt (rr_name r) (failures_of (rr_name r) b + 1) (rr_err r) ?b"
      using 3 assms(1) by (auto simp: d Let_def)
    have s: "failures_of n ?b = failures_of n a + (if rr_name r = n then 1 else 0)" using f by (simp add: failures_of_def)
    show ?thesis
    proof (cases "pt_has_notifier pt")
      case False
      then have "a' = ?b" by (simp add: e escalate_def)
      then show ?thesis using False 3 s b by (simp add: escalates_def)
    next
      case True
      then have esc: "escalates pt (rr_name r) a" using 3 f b by (simp add: escalates_def)
      define m where "m = failure_message (rr_name r) (failures_of (rr_name r) b + 1) (rr_err r)"
      define res where "res = en_send (pt_env pt) (length (wd_sent (ap_world b)))"
      have sent: "wd_sent (ap_world a') = wd_sent (ap_world b) @ [(None, m, res)]"
        and fl: "failures_of n a' = failures_of n ?b"
        and es: "ap_escalated a' = (if res = None then insert (rr_name r) (ap_escalated b) else ap_escalated b)"
        using True by (auto simp: e escalate_def deliver_def Let_def m_def res_def failures_of_def)
      show ?thesis
        unfolding sent fl es s m_def accepted_snoc using esc 3(1) by (auto simp: b res_def)
    qed
  qed
  then show "failures_of n a' = failures_of n a + (if 0 < threshold pt \<and> rr_name r = n then 1 else 0)"
    "accepted n (wd_sent (ap_world a')) = accepted n (wd_sent (ap_world a)) +
      (if rr_name r = n \<and> escalates pt n a \<and> en_send (pt_env pt) (length (wd_sent (ap_world a))) = None then 1 else 0)"
    "n \<in> ap_escalated a' \<longleftrightarrow> n \<in> ap_escalated a \<or>
      rr_name r = n \<and> escalates pt n a \<and> en_send (pt_env pt) (length (wd_sent (ap_world a))) = None" by blast+
qed

text \<open>A success of another job changes nothing about this one.\<close>

lemma other_success:
  assumes "rr_success r" "rr_name r \<noteq> n"
  shows "failures_of n (onJobResult pt r a) = failures_of n a"
    and "wd_sent (ap_world (onJobResult pt r a)) = wd_sent (ap_world a)"
    and "n \<in> ap_escalated (onJobResult pt r a) \<longleftrightarrow> n \<in> ap_escalated a"
  using assms unfolding onJobResult_def Let_def maybeEscalateJobFailure_def
  by (auto simp: case_prod_beta failures_of_def split: if_splits)

lemma streak_reports:
  assumes "\<forall>r \<in> set rs. rr_name r = n \<longrightarrow> \<not> rr_success r"
  shows "accepted n (wd_sent (ap_world (fold (onJobResult pt) rs a))) = accepted n (wd_sent (ap_world a)) +
      (if n \<notin> ap_escalated a \<and> n \<in> ap_escalated (fold (onJobResult pt) rs a) then 1 else 0)
    \<and> (n \<in> ap_escalated a \<longrightarrow> n \<in> ap_escalated (fold (onJobResult pt) rs a))"
  using assms
proof (induction rs arbitrary: a)
  case (Cons r rs)
  let ?a = "onJobResult pt r a"
  note IH = Cons.IH [of ?a]
  show ?case
  proof (cases "rr_success r")
    case True
    then have "rr_name r \<noteq> n" using Cons.prems by auto
    from other_success [OF True this, of pt a] IH Cons.prems show ?thesis by simp
  next
    case False
    from failed_run(2,3) [OF False, of n pt a] IH Cons.prems show ?thesis by (auto simp: escalates_def)
  qed
qed simp

lemma streak_escalates:
  assumes "\<forall>r \<in> set rs. rr_name r = n \<longrightarrow> \<not> rr_success r" "\<forall>k. en_send (pt_env pt) k = None"
    "pt_has_notifier pt" "0 < threshold pt"
  shows "n \<in> ap_escalated (fold (onJobResult pt) rs a) \<longleftrightarrow> n \<in> ap_escalated a \<or>
    0 < streak_length n rs \<and> threshold pt \<le> int (failures_of n a + streak_length n rs)"
  using assms(1)
proof (induction rs arbitrary: a)
  case Nil
  then show ?case by (simp add: streak_length_def)
next
  case (Cons r rs)
  let ?a = "onJobResult pt r a"
  have IH: "n \<in> ap_escalated (fold (onJobResult pt) rs ?a) \<longleftrightarrow> n \<in> ap_escalated ?a \<or>
    0 < streak_length n rs \<and> threshold pt \<le> int (failures_of n ?a + streak_length n rs)" using Cons by simp
  have c: "streak_length n (r # rs) = (if rr_name r = n then 1 else 0) + streak_length n rs" by (simp add: streak_length_def count_if_filter)
  show ?case
  proof (cases "rr_success r")
    case True
    then have "rr_name r \<noteq> n" using Cons.prems by auto
    from other_success [OF True this, of pt a] IH c this show ?thesis by simp
  next
    case False
    from failed_run(1,3) [OF False, of n pt a] IH c assms(2-4) show ?thesis by (auto simp: escalates_def)
  qed
qed

text \<open>C7: however the runs of the jobs mix, a streak of failures of one job is reported at most once; and
  with a webhook that accepts what it is sent, it is reported exactly when it reaches the threshold.\<close>

theorem job_escalated_once:
  assumes "\<forall>r \<in> set rs. rr_name r = n \<longrightarrow> \<not> rr_success r"
  shows "accepted n (wd_sent (ap_world (fold (onJobResult pt) rs a))) \<le> accepted n (wd_sent (ap_world a)) + 1
    \<and> (pt_has_notifier pt \<and> 0 < threshold pt \<and> (\<forall>k. en_send (pt_env pt) k = None)
        \<and> ap_failures a n = None \<and> n \<notin> ap_escalated a \<longrightarrow>
       accepted n (wd_sent (ap_world (fold (onJobResult pt) rs a))) = accepted n (wd_sent (ap_world a)) +
         (if threshold pt \<le> int (streak_length n rs) then 1 else 0))"
  using streak_reports [OF assms, of pt a] streak_escalates [OF assms, of pt a] by (auto simp: failures_of_def)

subsection \<open>Dry runs\<close>

text \<open>Nothing was sent or pushed between two worlds.\<close>

definition hushed :: "'s world \<Rightarrow> 's world \<Rightarrow> bool" where
  "hushed w w' \<longleftrightarrow> wd_sent w' = wd_sent w \<and> wd_pushed w' = wd_pushed w"

lemma hushed_refl [simp]: "hushed w w" by (simp add: hushed_def)
lemma hushed_trans: "hushed w w1 \<Longrightarrow> hushed w1 w2 \<Longrightarrow> hushed w w2" by (simp add: hushed_def)

lemma hushed_reads [simp]:
  "hushed w (snd (read_clock e w))" "hushed w (snd (has_recent_alert so e i ty c w))" "hushed w (snd (balance_series ho e d w))"
  by (simp_all add: hushed_def has_recent_alert_def read_clock_def balance_series_def)

lemma hushed_clock: "hushed w (ap_world a) \<Longrightarrow> hushed w (ap_world (snd (app_clock pt a)))" by (simp add: hushed_def)

lemma alert_overrun_dry: "hushed w (snd (alert_overrun so e a True p ls i what pr w))"
  using hushed_reads(2) [of w so e "project_ID p" AlertBudget "budget_cooldown a"]
  by (simp add: alert_overrun_def case_prod_beta Let_def)

lemma check_budgets_dry: "hushed w (snd (check_budgets so e a cur True pts ms md now ps sent w))"
proof (induction ps arbitrary: sent w)
  case (Cons p ps)
  show ?case using hushed_trans [OF alert_overrun_dry Cons.IH] Cons.IH
    by (simp add: Let_def case_prod_beta)
qed simp

lemma check_usages_dry: "hushed w (snd (check_usages so e a cur True spends md now ps sent w))"
proof (induction ps arbitrary: sent w)
  case (Cons p ps)
  show ?case using hushed_trans [OF alert_overrun_dry Cons.IH] Cons.IH
    by (simp add: Let_def case_prod_beta split: option.split)
qed simp

lemma budget_check_dry: "hushed w (snd (budget_check so ho e a ps cur True w))"
  unfolding budget_check_def Let_def case_prod_beta
  using hushed_trans [OF hushed_trans [OF hushed_reads(1) hushed_reads(3)] check_budgets_dry]
    hushed_trans [OF hushed_reads(1) hushed_reads(3)] by (auto split: if_splits)

lemma CheckUsage_dry: "hushed w (snd (CheckUsage so ho e a ps cur True w))"
  unfolding CheckUsage_def Let_def case_prod_beta
  using hushed_trans [OF hushed_trans [OF hushed_trans [OF hushed_reads(1) hushed_reads(3)] hushed_reads(1)] check_usages_dry]
  by (auto split: if_splits)

lemma checkBudgets_dry: "hushed w (checkBudgets so ho e g m ps True w)"
  unfolding checkBudgets_def using hushed_trans [OF budget_check_dry CheckUsage_dry] by (auto split: option.split)

lemma check_results_dry: "hushed w (snd (check_results so e a True rs sent w))"
  by (induction rs arbitrary: sent) (auto simp: check_result_alerts_def Let_def split: option.split)

lemma trend_check_dry: "hushed w (snd (trend_check so e a rs True w))"
  by (simp add: trend_check_def Let_def check_results_dry)

lemma check_in_order_dry:
  "hushed (mw_world mw) (mw_world (snd (check_in_order so bo e pf m ps True order results mw)))"
proof (induction order arbitrary: results mw)
  case (Cons i order)
  obtain r mw1 where c: "CheckProject so bo e pf m (ps ! i) True mw = (r, mw1)" by (metis surj_pair)
  from dry_check_silent [OF c] have "hushed (mw_world mw) (mw_world mw1)" by (simp add: hushed_def)
  then show ?case using Cons.IH [of mw1 "results[i := r]"] hushed_trans by (simp add: c) blast
qed simp

lemma analyze_dry: "analyze so ho e g m ps results True w = Some (o_c, w') \<Longrightarrow> hushed w w'"
proof -
  assume a: "analyze so ho e g m ps results True w = Some (o_c, w')"
  define w1 where "w1 = checkBudgets so ho e g m ps True w"
  have 1: "hushed w w1" by (simp add: w1_def checkBudgets_dry)
  obtain series err w2 where s: "balance_series ho e (st_burn_window (mn_settings m)) w1 = ((series, err), w2)" by (metis surj_pair)
  obtain t w3 where r: "read_clock e w2 = (t, w3)" by (metis surj_pair)
  have 2: "hushed w w2" using hushed_trans [OF 1 hushed_reads(3)] s by (metis snd_conv)
  have 3: "hushed w w3" using hushed_trans [OF 2 hushed_reads(1)] r by (metis snd_conv)
  have 4: "hushed w w4" if "trend_check so e x rs True w3 = (sent, w4)" for x rs sent w4
    using hushed_trans [OF 3 trend_check_dry] that by (metis snd_conv)
  show ?thesis using a 2 3 4
    by (auto simp: analyze_def Let_def w1_def [symmetric] s r split: if_splits option.splits prod.splits)
qed

lemma Run_dry: "Run so bo ho e pf m cfg name True order mw = Some (r, mw') \<Longrightarrow> hushed (mw_world mw) (mw_world mw')"
proof -
  assume a: "Run so bo ho e pf m cfg name True order mw = Some (r, mw')"
  show ?thesis
  proof (cases "selectProjects cfg name")
    case (Inl err)
    then show ?thesis using a by (simp add: Run_def)
  next
    case (Inr ps)
    obtain results mw1 where c: "checkAll so bo e pf m ps True order mw = (results, mw1)" by (metis surj_pair)
    have 1: "hushed (mw_world mw) (mw_world mw1)"
      using check_in_order_dry [of mw so bo e pf m ps order "replicate (length ps) blank_result"] c
      unfolding checkAll_def by (metis snd_conv)
    show ?thesis using a Inr 1 analyze_dry hushed_trans by (fastforce simp: Run_def c split: if_splits)
  qed
qed

lemma showBalance_hushed: "hushed w (ap_world a) \<Longrightarrow> hushed w (ap_world (showBalance pt rs a))"
  by (simp add: showBalance_def Let_def case_prod_beta hushed_clock)

lemma refreshSubscriptions_dry: "hushed (ap_world a) (ap_world (snd (refreshSubscriptions pt True a)))"
proof -
  let ?subs = "enabled_subscriptions (pt_config pt (ap_world a))"
  obtain rs w where c: "Check (pt_lunar pt) (pt_store pt) (pt_env pt) (app_checker pt) ?subs True (ap_world a) = (rs, w)"
    by (metis surj_pair)
  show ?thesis using dry_run_silent [OF c] by (simp add: refreshSubscriptions_def Let_def case_prod_beta c hushed_def)
qed

text \<open>C24: without \<open>ENABLE_WEB_ALARM\<close> the hourly refresh of the dashboard sends and pushes nothing.\<close>

theorem dashboard_refresh_silent:
  assumes "\<not> st_web_alarm (pt_settings pt)"
    and "run_job pt (RefreshAll (\<not> st_web_alarm (pt_settings pt))) a = Some (fin, a')"
  shows "wd_sent (ap_world a') = wd_sent (ap_world a) \<and> wd_pushed (ap_world a') = wd_pushed (ap_world a)"
proof -
  let ?run = "Run (pt_store pt) (pt_balances pt) (pt_history pt) (pt_env pt) (pt_platforms pt) (app_monitor pt)
    (pt_config pt (ap_world a)) [] True (pt_order pt (wd_reads (ap_world a))) (ap_mw a)"
  have "refreshAll pt True a = Some (fin, a')" using assms by simp
  then obtain r mw where r: "?run = Some (r, mw)" and rest: "case r of
      Inl err \<Rightarrow> (\<lparr>re_detail = None, re_err = Some (run_error_message err, False)\<rparr>, a\<lparr>ap_mw := mw\<rparr>) = (fin, a')
    | Inr o_c \<Rightarrow> a' = snd (refreshSubscriptions pt True (showBalance pt (oc_results o_c) (a\<lparr>ap_mw := mw\<rparr>)))"
    by (auto simp: refreshAll_def Let_def case_prod_beta split: if_splits option.splits sum.splits prod.splits)
  have "hushed (ap_world a) (ap_world a')"
  proof (cases r)
    case (Inl err)
    then have "a' = a\<lparr>ap_mw := mw\<rparr>" using rest by auto
    then show ?thesis using Run_dry [OF r] by simp
  next
    case (Inr o_c)
    have "hushed (ap_world a) (ap_world (a\<lparr>ap_mw := mw\<rparr>))" using Run_dry [OF r] by simp
    then have "hushed (ap_world a) (ap_world (showBalance pt (oc_results o_c) (a\<lparr>ap_mw := mw\<rparr>)))" by (rule showBalance_hushed)
    then show ?thesis using rest Inr hushed_trans [OF _ refreshSubscriptions_dry] by simp
  qed
  then show ?thesis by (simp add: hushed_def)
qed

subsection \<open>Refreshes\<close>

lemma Run_all:
  assumes "Run so bo ho e pf m cfg [] dry order mw = Some (r, mw')"
  obtains o_c where "r = Inr o_c" "length (oc_results o_c) = length (enabled_projects cfg)"
proof -
  have len: "length (fst (checkAll so bo e pf m ps dry order mw)) = length ps" for ps
  proof -
    have "length (fst (check_in_order so bo e pf m ps dry order results mw)) = length results" for results :: "check_result list" and mw
      by (induction order arbitrary: results mw) (simp_all add: case_prod_beta Let_def)
    then show ?thesis by (simp add: checkAll_def)
  qed
  have att: "length (Attach rs rw) = length rs" for rs rw by (simp add: Attach_def)
  have an: "length (oc_results o_c) = length rs" if "analyze so ho e g m ps rs dry w = Some (o_c, w')" for g ps rs w o_c w'
    using that by (auto simp: analyze_def Let_def att split: if_splits option.splits prod.splits)
  show thesis
    using assms that len [of "enabled_projects cfg"] an
    by (fastforce simp: Run_def selectProjects_def split: if_splits prod.splits)
qed

lemma refreshSubscriptions_state [simp]:
  "mg_balance (ap_state (snd (refreshSubscriptions pt dry a))) = mg_balance (ap_state a)"
  by (simp add: refreshSubscriptions_def Let_def case_prod_beta SetSubscriptions_def)

lemma all_failed: "0 < bs_total (summarize_balance rs) \<and> bs_failed (summarize_balance rs) = bs_total (summarize_balance rs)
    \<longleftrightarrow> rs \<noteq> [] \<and> \<not> anySucceeded rs"
proof -
  have "count_if (\<lambda>r. \<not> cr_success r) rs = length rs \<longleftrightarrow> \<not> anySucceeded rs"
  proof (induction rs)
    case (Cons r rs)
    then show ?case using count_if_le [of "\<lambda>r. \<not> cr_success r" rs] by auto
  qed simp
  then show ?thesis by (simp add: summarize_balance_counts)
qed


subsection \<open>A budget overrun without a webhook\<close>

lemma overrun_grows: "length (wd_sent w) \<le> length (wd_sent (snd (alert_overrun so e a dry p ls i what pr w)))"
  by (simp add: alert_overrun_def case_prod_beta Let_def)

lemma check_budgets_grows: "length (wd_sent w) \<le> length (wd_sent (snd (check_budgets so e a cur dry pts ms md now ps sent w)))"
proof (induction ps arbitrary: sent w)
  case (Cons p ps)
  show ?case using le_trans [OF overrun_grows Cons.IH] Cons.IH by (simp add: Let_def case_prod_beta)
qed simp

lemma check_usages_grows: "length (wd_sent w) \<le> length (wd_sent (snd (check_usages so e a cur dry spends md now ps sent w)))"
proof (induction ps arbitrary: sent w)
  case (Cons p ps)
  show ?case using le_trans [OF overrun_grows Cons.IH] Cons.IH by (simp add: Let_def case_prod_beta split: option.split)
qed simp

lemma balance_series_sel [simp]:
  "wd_sent (snd (balance_series ho e d w)) = wd_sent w"
  by (simp add: balance_series_def read_clock_def)

lemma CheckUsage_grows: "length (wd_sent w) \<le> length (wd_sent (snd (CheckUsage so ho e a ps cur dry w)))"
proof -
  have "length (wd_sent w) \<le> length (wd_sent (snd (check_usages so e a cur dry spends md now qs sent w')))"
    if "wd_sent w' = wd_sent w" for spends md now qs sent w'
    using check_usages_grows [of w' so e a cur dry spends md now qs sent] that by simp
  then show ?thesis unfolding CheckUsage_def Let_def case_prod_beta by simp
qed

text \<open>The project \<open>p\<close> is on the way to overrun its budget and was not alerted about within the cooldown.\<close>

definition overruns :: "'s parts \<Rightarrow> project \<Rightarrow> 's world \<Rightarrow> bool" where
  "overruns pt p w \<longleftrightarrow>
     (let e = pt_env pt; now = local_at pt (en_clock e (wd_reads w)); (m_start, m_days) = MonthWindow now;
          (series, err) = ho_BalanceSeries (pt_history pt) (en_clock e (wd_reads w + 1)) (m_days + 1) (wd_store w);
          (cooling, err') = so_HasRecentAlert (pt_store pt) (en_clock e (wd_reads w + 2)) (project_ID p) AlertBudget
            (wrap64 (CooldownSeconds ''balance'' (pt_settings pt) * second)) (wd_store w)
      in err = None \<and> \<not> (err' = None \<and> cooling) \<and>
         \<not> fle (Projected (SpendInMonth (by_name series (\<lambda>_. []) (pj_name p)) m_start now) (t_day now) m_days) (pj_monthly_budget p))"

lemma overrun_is_sent:
  assumes "overruns pt p w" "candidates ps = p # qs" "ba_store a"
    and "ba_cooldown_seconds a = CooldownSeconds ''balance'' (pt_settings pt)"
  shows "length (wd_sent w) < length (wd_sent (snd (budget_check (pt_store pt) (pt_history pt) (pt_env pt) a ps cur False w)))"
proof -
  define e where "e = pt_env pt"
  define now where "now = local_at pt (en_clock e (wd_reads w))"
  obtain ms md where mw: "MonthWindow now = (ms, md)" by fastforce
  obtain series err where s: "ho_BalanceSeries (pt_history pt) (en_clock e (wd_reads w + 1)) (md + 1) (wd_store w) = (series, err)" by fastforce
  obtain cooling err' where c: "so_HasRecentAlert (pt_store pt) (en_clock e (wd_reads w + 2)) (project_ID p) AlertBudget
      (budget_cooldown a) (wd_store w) = (cooling, err')" by fastforce
  let ?spend = "SpendInMonth (by_name series (\<lambda>_. []) (pj_name p)) ms now"
  let ?pr = "Projected ?spend (t_day now) md"
  have o: "err = None" "\<not> (err' = None \<and> cooling)" "\<not> fle ?pr (pj_monthly_budget p)"
    using assms(1) mw s c assms(4) unfolding overruns_def Let_def budget_cooldown_def
    by (simp_all add: e_def now_def)
  define w2 where "w2 = w\<lparr>wd_reads := wd_reads w + 1 + 1\<rparr>"
  let ?ls = "budget_lines cur p ?spend ?pr (t_day now) md"
  have "wd_reads w2 = wd_reads w + 2" "wd_store w2 = wd_store w" "wd_sent w2 = wd_sent w" by (simp_all add: w2_def)
  then have 1: "length (wd_sent w) < length (wd_sent (snd (alert_overrun (pt_store pt) e a False p ?ls (project_ID p) ''Budget overrun'' ?pr w2)))"
    using o(2) c by (simp add: alert_overrun_def case_prod_beta Let_def)
  have b: "budget_check (pt_store pt) (pt_history pt) e a ps cur False w
    = check_budgets (pt_store pt) e a cur False (by_name series (\<lambda>_. [])) ms md now (p # qs) 0 w2"
    using assms(2,3) mw s o(1)
    by (simp add: budget_check_def Let_def read_clock_def balance_series_def w2_def now_def local_at_def e_def)
  show ?thesis unfolding e_def [symmetric] b
    using o(3) less_le_trans [OF 1 check_budgets_grows] by (simp add: Let_def case_prod_beta)
qed

text \<open>C10: without a webhook, with a database, a refresh that may alert never returns once the first project
  with a budget is on the way to overrun it: the budget alert calls the notifier that is not there.\<close>

theorem overrun_without_webhook_panics:
  assumes "\<not> pt_has_notifier pt" "pt_store_enabled pt"
    and "checkAll (pt_store pt) (pt_balances pt) (pt_env pt) (pt_platforms pt) (app_monitor pt)
           (enabled_projects (pt_config pt (ap_world a))) False (pt_order pt (wd_reads (ap_world a))) (ap_mw a) = (results, mw)"
    and "candidates (enabled_projects (pt_config pt (ap_world a))) = p # ps" "overruns pt p (mw_world mw)"
  shows "refreshAll pt False a = None"
proof -
  let ?ps = "enabled_projects (pt_config pt (ap_world a))" and ?m = "app_monitor pt"
  let ?a = "\<lparr>ba_store = True, ba_cooldown_seconds = CooldownSeconds ''balance'' (pt_settings pt)\<rparr> :: budget_alerter"
  let ?cur = "currencyOfProject (pf_registry (pt_platforms pt))"
  have m: "mn_budget ?m = Some ?a" "mn_store_enabled ?m" using assms(2) by (simp_all add: app_monitor_def Let_def)
  have "length (wd_sent (mw_world mw)) < length (wd_sent (snd (budget_check (pt_store pt) (pt_history pt) (pt_env pt) ?a ?ps ?cur False (mw_world mw))))"
    using overrun_is_sent [OF assms(5,4), of ?a ?cur] by simp
  from less_le_trans [OF this CheckUsage_grows [of _ "pt_store pt" "pt_history pt" "pt_env pt" ?a ?ps ?cur False]]
  have "wd_sent (checkBudgets (pt_store pt) (pt_history pt) (pt_env pt) (pf_registry (pt_platforms pt)) ?m ?ps False (mw_world mw))
      \<noteq> wd_sent (mw_world mw)"
    using m by (auto simp: checkBudgets_def)
  moreover have "?ps \<noteq> []" using assms(4) by (auto simp: candidates_def)
  ultimately have "budgets_panic pt False a" using assms(1,3) by (simp add: budgets_panic_def)
  then show ?thesis by (simp add: refreshAll_def)
qed

subsection \<open>The tasks\<close>

text \<open>Every job of the service has its own name and, whatever \<open>JOB_TIMEOUT_SECONDS\<close> says, the backup and
  the pruning of the history run without a time limit.\<close>

theorem tasks_and_limits:
  "\<exists>backup prune. map (\<lambda>t. (tk_name t, tk_timeout t)) (BuildTasks s run) =
      [(''dashboard_refresh'', job_timeout s), (''alert_check'', job_timeout s), (''email_scan'', job_timeout s),
       (''weekly_report'', job_timeout s)] @ backup @ prune
    \<and> (backup = [] \<or> backup = [(''database_backup'', 0)]) \<and> (prune = [] \<or> prune = [(''history_retention'', 0)])
    \<and> distinct (map tk_name (BuildTasks s run))"
  unfolding BuildTasks_def Let_def
  by (intro exI [of _ "if st_backup_schedule s = [] then [] else case parse_daily_times (st_backup_schedule s) of
        Inl _ \<Rightarrow> [] | Inr _ \<Rightarrow> [(''database_backup'', 0)]"]
      exI [of _ "if 0 < HistoryRetentionDaysValue s then [(''history_retention'', 0)] else []"])
    (auto simp: make_task_def split: sum.split)

definition named_jobs :: "'d manager \<Rightarrow> bool" where
  "named_jobs m \<longleftrightarrow> (\<forall>n \<in> set (mg_order m). \<exists>j. mg_jobs m n = Some j \<and> job_name j = n)"

lemma register_task_new:
  assumes "mg_jobs m (tk_name t) = None" "named_jobs m"
  shows "mg_order (register_task t m) = mg_order m @ [tk_name t]" "named_jobs (register_task t m)"
    "dom (mg_jobs (register_task t m)) = insert (tk_name t) (dom (mg_jobs m))"
  using assms by (auto simp: register_task_def RegisterJob_def find_job_def fresh_job_def Let_def named_jobs_def)

lemma register_tasks_new:
  "\<lbrakk>distinct (map tk_name ts); set (map tk_name ts) \<inter> dom (mg_jobs m) = {}; named_jobs m\<rbrakk> \<Longrightarrow>
   mg_order (fold register_task ts m) = mg_order m @ map tk_name ts \<and> named_jobs (fold register_task ts m)"
proof (induction ts arbitrary: m)
  case (Cons t ts)
  then have "mg_jobs m (tk_name t) = None" by auto
  note r = register_task_new [OF this Cons.prems(3)]
  have "set (map tk_name ts) \<inter> dom (mg_jobs (register_task t m)) = {}" using Cons.prems(1,2) r(3) by auto
  with Cons.IH [OF _ this r(2)] Cons.prems(1) r(1) show ?case by simp
qed simp

lemma BuildTasks_distinct: "distinct (map tk_name (BuildTasks s run))"
  unfolding BuildTasks_def Let_def by (auto simp: make_task_def split: sum.split)

text \<open>After the start the dashboard lists exactly the scheduled jobs, in their order.\<close>

theorem scheduled_jobs_listed:
  "map job_name (js_jobs (Jobs (StartScheduler (New_scheduler now (BuildTasks s run)) (new_manager start))))
   = map tk_name (BuildTasks s run)"
proof -
  let ?ts = "New_scheduler now (BuildTasks s run)" and ?m = "new_manager start"
  let ?f = "fold register_task ?ts ?m"
  have n: "map tk_name ?ts = map tk_name (BuildTasks s run)" by (simp add: New_scheduler_def comp_def cong: map_cong)
  have "mg_order ?f = map tk_name (BuildTasks s run)" "named_jobs ?f"
    using register_tasks_new [of ?ts ?m] BuildTasks_distinct [of s run]
    by (simp_all only: n) (simp_all add: new_manager_def named_jobs_def)
  then show ?thesis
    by (simp add: StartScheduler_def Jobs_def Let_def comp_def) (auto simp: named_jobs_def intro!: map_idI)
qed

section \<open>Examples\<close>

definition unit_store :: "unit store_ops" where
  "unit_store = \<lparr>so_SaveAlert = (\<lambda>_ _ s. (None, s)), so_LastSentAlert = (\<lambda>_ _ _ _ _. (None, None)),
     so_HasRecentAlert = (\<lambda>_ _ _ _ _. (False, None))\<rparr>"

definition demo_parts :: "bool \<Rightarrow> project list \<Rightarrow> balance_point list \<Rightarrow> unit parts" where
  "demo_parts notifier projects series =
     \<lparr>pt_settings = read_settings ''dev'' (\<lambda>_. None),
      pt_env = \<lparr>en_clock = (\<lambda>_. 0), en_send = (\<lambda>_. None), en_local = utc_zone, en_load_zone = (\<lambda>_. None)\<rparr>,
      pt_lunar = demo_lib, pt_store = unit_store, pt_balances = \<lparr>bo_SaveBalance = (\<lambda>_ _ s. (None, s))\<rparr>,
      pt_history = \<lparr>ho_BalanceSeries = (\<lambda>_ _ _. (series, None)), ho_ListUsageSpend = (\<lambda>_ _. ([], None))\<rparr>,
      pt_mail = \<lparr>mo_SaveEmailAlert = (\<lambda>_ _ s. (None, s)), mo_HasRecentEmailAlert = (\<lambda>_ _ _ _ _ _ _. (False, None)),
        mo_ListEmailSuppressions = (\<lambda>_. ([], None))\<rparr>,
      pt_net = \<lparr>nt_dial = (\<lambda>_ _. Inl ''refused''), nt_wait_cancelled = (\<lambda>_ _. False), nt_read = (\<lambda>_. None)\<rparr>,
      pt_platforms = no_platforms, pt_config = (\<lambda>_. \<lparr>cf_projects = projects, cf_subscriptions = [], cf_mailboxes = []\<rparr>),
      pt_order = (\<lambda>_. [0..<length projects]), pt_has_notifier = notifier, pt_store_enabled = True,
      pt_prune = (\<lambda>_ s. ((\<lparr>pc_balance_history = 0, pc_alert_history = 0, pc_email_history = 0, pc_usage_events = 0\<rparr>, None), s)),
      pt_backup = (\<lambda>_ _ _ s. (Inr ''/backups/b.db'', s))\<rparr>"

definition demo_app :: "unit app" where
  "demo_app = \<lparr>ap_mw = start_world (), ap_state = new_manager 0, ap_metrics = new_collector, ap_failures = (\<lambda>_. None), ap_escalated = {}\<rparr>"

definition failed_email_scan :: "job_detail run_result" where
  "failed_email_scan = \<lparr>rr_name = ''email_scan'', rr_success = False, rr_started = utc_at 0, rr_duration = second,
     rr_err = Some ''timeout'', rr_detail = None, rr_next_run = utc_at 0\<rparr>"

lemma demo_threshold: "threshold (demo_parts nt ps series) = 3"
  by (simp add: threshold_def demo_parts_def JobFailureAlertThresholdValue_def non_negative_def read_settings_def
    env_optional_int_def raw_def DefaultJobFailureAlertThreshold_def)

text \<open>Four failures in a row are reported once.\<close>

theorem job_escalated_once_witness:
  "accepted ''email_scan'' (wd_sent (ap_world (fold (onJobResult (demo_parts True [] [])) (replicate 4 failed_email_scan) demo_app))) = 1"
proof -
  have f: "\<forall>r \<in> set (replicate 4 failed_email_scan). rr_name r = ''email_scan'' \<longrightarrow> \<not> rr_success r"
    by (simp add: failed_email_scan_def)
  have s: "streak_length ''email_scan'' (replicate 4 failed_email_scan) = 4"
    by (simp add: streak_length_def failed_email_scan_def numeral_eq_Suc)
  have p: "pt_has_notifier (demo_parts True [] [])" "\<forall>k. en_send (pt_env (demo_parts True [] [])) k = None"
    by (simp_all add: demo_parts_def)
  have a: "ap_failures demo_app ''email_scan'' = None" "''email_scan'' \<notin> ap_escalated demo_app"
    "accepted ''email_scan'' (wd_sent (ap_world demo_app)) = 0"
    by (simp_all add: demo_app_def start_world_def demo_world_def accepted_def)
  show ?thesis using job_escalated_once [OF f, of "demo_parts True [] []" demo_app] p a s demo_threshold by simp
qed

lemma demo_refresh: "\<exists>fin a'. refreshAll (demo_parts True ps []) dry demo_app = Some (fin, a')"
proof -
  let ?pt = "demo_parts True ps []"
  have an: "\<exists>o_c w'. analyze (pt_store ?pt) (pt_history ?pt) (pt_env ?pt) g m qs rs dry w = Some (o_c, w')" for g m qs rs w
    by (simp add: demo_parts_def analyze_def Let_def balance_series_def case_prod_beta ComputeAll_def)
  have "\<exists>o_c mw'. Run (pt_store ?pt) (pt_balances ?pt) (pt_history ?pt) (pt_env ?pt) pf m cfg [] dry order mw = Some (Inr o_c, mw')"
    for pf m cfg order mw
  proof (cases "enabled_projects cfg = []")
    case False
    obtain rs mw1 where c: "checkAll (pt_store ?pt) (pt_balances ?pt) (pt_env ?pt) pf m (enabled_projects cfg) dry order mw = (rs, mw1)"
      by (metis surj_pair)
    from an [of "pf_registry pf" m "enabled_projects cfg" rs "mw_world mw1"] False c
    show ?thesis by (auto simp: Run_def selectProjects_def)
  qed (simp add: Run_def selectProjects_def)
  then obtain o_c mw where "Run (pt_store ?pt) (pt_balances ?pt) (pt_history ?pt) (pt_env ?pt) (pt_platforms ?pt) (app_monitor ?pt)
      (pt_config ?pt (ap_world demo_app)) [] dry (pt_order ?pt (wd_reads (ap_world demo_app))) (ap_mw demo_app) = Some (Inr o_c, mw)" by blast
  moreover have "\<not> budgets_panic ?pt dry demo_app" by (simp add: budgets_panic_def demo_parts_def)
  ultimately show ?thesis by (simp add: refreshAll_def Let_def case_prod_beta)
qed

theorem dashboard_refresh_silent_witness:
  "\<exists>fin a'. run_job (demo_parts True [demo_project] []) (RefreshAll True) demo_app = Some (fin, a') \<and> wd_sent (ap_world a') = []"
proof -
  obtain fin a' where r: "refreshAll (demo_parts True [demo_project] []) True demo_app = Some (fin, a')" using demo_refresh by blast
  have w: "\<not> st_web_alarm (pt_settings (demo_parts True [demo_project] []))"
    by (simp add: demo_parts_def read_settings_def env_boolean_def raw_def)
  show ?thesis using dashboard_refresh_silent [OF w, of demo_app fin a'] r w
    by (auto simp: demo_app_def start_world_def demo_world_def)
qed


definition over_budget :: project where
  "over_budget = demo_project\<lparr>pj_monthly_budget := Fin 5\<rparr>"

definition spent_six :: "balance_point list" where
  "spent_six = map (\<lambda>b. \<lparr>bp_project_id = ''nosuch-prod'', bp_project_name = ''prod'', bp_provider = ''nosuch'', bp_balance_type = TypeBalance,
     bp_balance = Fin b, bp_threshold = None, bp_need_alarm = False, bp_timestamp = 0\<rparr>) [10, 4]"

lemma spent_six_overruns: "overruns (demo_parts False [over_budget] spent_six) over_budget w"
proof -
  have mw: "t_ns (fst (MonthWindow (utc_at 0))) = 0" "t_day (utc_at 0) = 1" by code_simp+
  have pts: "by_name spent_six (\<lambda>_. []) ''prod'' = spent_six" by (simp add: spent_six_def)
  have u: "t_ns (utc_at 0) = 0" by (simp add: utc_at_def)
  have "SpendInMonth spent_six (fst (MonthWindow (utc_at 0))) (utc_at 0) = Fin 6"
    by (simp add: SpendInMonth_def spent_six_def Let_def t_before_def t_add_def mw u unix_time_def second_def)
  then show ?thesis
    by (simp add: overruns_def Let_def case_prod_beta demo_parts_def unit_store_def local_at_def over_budget_def demo_project_def
      utc_at_def [symmetric] pts mw Projected_def)
qed

theorem overrun_without_webhook_panics_witness:
  "refreshAll (demo_parts False [over_budget] spent_six) False demo_app = None"
proof -
  let ?pt = "demo_parts False [over_budget] spent_six"
  have ps: "enabled_projects (pt_config ?pt w) = [over_budget]" for w
    by (simp add: demo_parts_def enabled_projects_def over_budget_def demo_project_def)
  obtain results mw where c: "checkAll (pt_store ?pt) (pt_balances ?pt) (pt_env ?pt) (pt_platforms ?pt) (app_monitor ?pt)
      [over_budget] False (pt_order ?pt (wd_reads (ap_world demo_app))) (ap_mw demo_app) = (results, mw)" by (metis surj_pair)
  have "candidates [over_budget] = [over_budget]" by (simp add: candidates_def over_budget_def)
  then show ?thesis
    using overrun_without_webhook_panics [of ?pt demo_app results mw over_budget "[]"] ps c spent_six_overruns
    by (simp add: demo_parts_def)
qed

end
