(* ===== verification/Spec2Isabelle.thy ===== *)
theory Spec2Isabelle
  imports Prelude GoFloat GoFmt GoTime GoCrypto Model Schedule Renewal Notify Store Effects SubscriptionCheck Runway Cost Trend GoParse Paging State McpKeys GoNum Settings HttpAuth GoRegexp GoUrl Json Redact Sign Provider Monitor Scheduler Metrics McpStatus McpHistory McpSpend McpDashboard MailText Mailscan Weekly Discover App
begin

text \<open>
  A verification development for quotapulse, a service that watches account balances,
  subscription renewals and mailboxes.
\<close>

end
 
